(* ===== verification/Prelude.thy ===== *)
theory Prelude
  imports Main "HOL-Library.Word"
begin

text \<open>
  Shared vocabulary of the development: Rust's machine integers and their saturating
  operations, results as sums, association lists for the standard maps, the ASCII string
  functions of the standard library that the sources call, and the generic locale of a
  machine whose operations keep an invariant.
\<close>

unbundle bit_operations_syntax

section \<open>Machine integers\<close>

type_synonym u8 = "8 word"
type_synonym u16 = "16 word"
type_synonym u32 = "32 word"
type_synonym u64 = "64 word"
type_synonym i64 = "64 word"
type_synonym bytes = "u8 list"

text \<open>
  Facts that move a goal on words to natural numbers are collected in \<open>word_nat\<close>;
  the facts about results in \<open>res_simps\<close>.
\<close>

named_theorems word_nat
named_theorems res_simps

definition saturating_add :: "'a::len word \<Rightarrow> 'a word \<Rightarrow> 'a word" where
  "saturating_add a b = (if unat a + unat b < 2 ^ LENGTH('a) then a + b else - 1)"

definition saturating_sub :: "'a::len word \<Rightarrow> 'a word \<Rightarrow> 'a word" where
  "saturating_sub a b = (if b \<le> a then a - b else 0)"

definition saturating_mul :: "'a::len word \<Rightarrow> 'a word \<Rightarrow> 'a word" where
  "saturating_mul a b = (if unat a * unat b < 2 ^ LENGTH('a) then a * b else - 1)"

section \<open>Results\<close>

text \<open>\<open>Result<T, E>\<close> is \<open>'e + 'a\<close>; \<open>res_bind\<close> is the question-mark operator.\<close>

definition res_bind :: "'e + 'a \<Rightarrow> ('a \<Rightarrow> 'e + 'b) \<Rightarrow> 'e + 'b" where
  "res_bind r f = (case r of Inl e \<Rightarrow> Inl e | Inr x \<Rightarrow> f x)"

definition ok_or :: "'e \<Rightarrow> 'a option \<Rightarrow> 'e + 'a" where
  "ok_or e x = (case x of None \<Rightarrow> Inl e | Some y \<Rightarrow> Inr y)"

definition map_err :: "('e \<Rightarrow> 'f) \<Rightarrow> 'e + 'a \<Rightarrow> 'f + 'a" where
  "map_err f r = (case r of Inl e \<Rightarrow> Inl (f e) | Inr x \<Rightarrow> Inr x)"

fun is_ok :: "'e + 'a \<Rightarrow> bool" where
  "is_ok (Inl _) = False"
| "is_ok (Inr _) = True"

text \<open>\<open>Iterator::collect\<close> into a \<open>Result\<close>: stops at the first error.\<close>

fun res_collect :: "('a \<Rightarrow> 'e + 'b) \<Rightarrow> 'a list \<Rightarrow> 'e + 'b list" where
  "res_collect f [] = Inr []"
| "res_collect f (x # xs) =
     res_bind (f x) (\<lambda>y. res_bind (res_collect f xs) (\<lambda>ys. Inr (y # ys)))"

section \<open>Maps as association lists\<close>

text \<open>
  Rust's \<open>HashMap\<close> and \<open>BTreeMap\<close> are association lists with at most one entry per
  key: \<open>map_of\<close> reads, \<open>al_insert\<close> replaces or appends, \<open>al_remove\<close> deletes.
\<close>

fun al_insert :: "'k \<Rightarrow> 'v \<Rightarrow> ('k \<times> 'v) list \<Rightarrow> ('k \<times> 'v) list" where
  "al_insert k v [] = [(k, v)]"
| "al_insert k v ((k', v') # m) = (if k = k' then (k, v) # m else (k', v') # al_insert k v m)"

definition al_remove :: "'k \<Rightarrow> ('k \<times> 'v) list \<Rightarrow> ('k \<times> 'v) list" where
  "al_remove k m = filter (\<lambda>p. fst p \<noteq> k) m"

definition al_get_or :: "'v \<Rightarrow> ('k \<times> 'v) list \<Rightarrow> 'k \<Rightarrow> 'v" where
  "al_get_or d m k = (case map_of m k of None \<Rightarrow> d | Some v \<Rightarrow> v)"

text \<open>
  Where the order of iteration of a \<open>BTreeMap\<close> matters, the list is kept sorted by key.
\<close>

fun bt_insert :: "'k::linorder \<Rightarrow> 'v \<Rightarrow> ('k \<times> 'v) list \<Rightarrow> ('k \<times> 'v) list" where
  "bt_insert k v [] = [(k, v)]"
| "bt_insert k v ((k', v') # m) =
     (if k < k' then (k, v) # (k', v') # m
      else if k = k' then (k, v) # m
      else (k', v') # bt_insert k v m)"

definition bt_inv :: "('k::linorder \<times> 'v) list \<Rightarrow> bool" where
  "bt_inv m = sorted_wrt (<) (map fst m)"

abbreviation al_keys :: "('k \<times> 'v) list \<Rightarrow> 'k list" where
  "al_keys m \<equiv> map fst m"

section \<open>Strings\<close>

text \<open>
  A Rust \<open>String\<close> is its list of bytes. The character classes and the case mapping are
  the ASCII ones, as in the sources; \<open>trim\<close> and \<open>split_whitespace\<close> know the ASCII
  white space (tab, line feed, vertical tab, form feed, carriage return, space).
\<close>

definition is_ascii_uppercase :: "char \<Rightarrow> bool" where
  "is_ascii_uppercase c = (65 \<le> (of_char c :: nat) \<and> (of_char c :: nat) \<le> 90)"

definition is_ascii_lowercase :: "char \<Rightarrow> bool" where
  "is_ascii_lowercase c = (97 \<le> (of_char c :: nat) \<and> (of_char c :: nat) \<le> 122)"

definition is_ascii_digit :: "char \<Rightarrow> bool" where
  "is_ascii_digit c = (48 \<le> (of_char c :: nat) \<and> (of_char c :: nat) \<le> 57)"

definition is_ascii_alphanumeric :: "char \<Rightarrow> bool" where
  "is_ascii_alphanumeric c = (is_ascii_uppercase c \<or> is_ascii_lowercase c \<or> is_ascii_digit c)"

definition is_whitespace :: "char \<Rightarrow> bool" where
  "is_whitespace c = ((9 \<le> (of_char c :: nat) \<and> (of_char c :: nat) \<le> 13) \<or> (of_char c :: nat) = 32)"

definition to_lower_char :: "char \<Rightarrow> char" where
  "to_lower_char c = (if is_ascii_uppercase c then char_of ((of_char c :: nat) + 32) else c)"

definition to_ascii_lowercase :: "string \<Rightarrow> string" where
  "to_ascii_lowercase s = map to_lower_char s"

definition eq_ignore_ascii_case :: "string \<Rightarrow> string \<Rightarrow> bool" where
  "eq_ignore_ascii_case a b = (to_ascii_lowercase a = to_ascii_lowercase b)"

definition trim_end_while :: "(char \<Rightarrow> bool) \<Rightarrow> string \<Rightarrow> string" where
  "trim_end_while p s = rev (dropWhile p (rev s))"

definition trim :: "string \<Rightarrow> string" where
  "trim s = trim_end_while is_whitespace (dropWhile is_whitespace s)"

definition trim_end_matches :: "char \<Rightarrow> string \<Rightarrow> string" where
  "trim_end_matches c s = trim_end_while (\<lambda>x. x = c) s"

definition trim_start_matches :: "char \<Rightarrow> string \<Rightarrow> string" where
  "trim_start_matches c s = dropWhile (\<lambda>x. x = c) s"

definition starts_with :: "string \<Rightarrow> string \<Rightarrow> bool" where
  "starts_with p s = (take (length p) s = p)"

definition strip_prefix :: "string \<Rightarrow> string \<Rightarrow> string option" where
  "strip_prefix p s = (if starts_with p s then Some (drop (length p) s) else None)"

text \<open>\<open>str::split(c)\<close>: the pieces between separators, at least one.\<close>

fun split_on :: "char \<Rightarrow> string \<Rightarrow> string list" where
  "split_on c [] = [[]]"
| "split_on c (x # xs) =
     (if x = c then [] # split_on c xs
      else (case split_on c xs of [] \<Rightarrow> [[x]] | p # ps \<Rightarrow> (x # p) # ps))"

text \<open>\<open>str::split_once(c)\<close> and \<open>str::rsplit_once(c)\<close>: around the first and the last \<open>c\<close>.\<close>

fun split_once :: "char \<Rightarrow> string \<Rightarrow> (string \<times> string) option" where
  "split_once c [] = None"
| "split_once c (x # xs) =
     (if x = c then Some ([], xs)
      else map_option (\<lambda>(a, b). (x # a, b)) (split_once c xs))"

definition rsplit_once :: "char \<Rightarrow> string \<Rightarrow> (string \<times> string) option" where
  "rsplit_once c s = map_option (\<lambda>(a, b). (rev b, rev a)) (split_once c (rev s))"

text \<open>\<open>str::split_whitespace\<close>: the maximal runs of non-space characters.\<close>

fun split_ws_aux :: "string \<Rightarrow> string \<Rightarrow> string list" where
  "split_ws_aux acc [] = (if acc = [] then [] else [rev acc])"
| "split_ws_aux acc (x # xs) =
     (if is_whitespace x
      then (if acc = [] then split_ws_aux [] xs else rev acc # split_ws_aux [] xs)
      else split_ws_aux (x # acc) xs)"

definition split_whitespace :: "string \<Rightarrow> string list" where
  "split_whitespace s = split_ws_aux [] s"

text \<open>
  \<open>str::parse\<close> to an unsigned integer with greatest value \<open>m\<close>: an optional plus sign, then at
  least one digit and only digits, the value at most \<open>m\<close>.
\<close>

definition digit_val :: "char \<Rightarrow> nat" where
  "digit_val c = of_char c - 48"

fun digits_val :: "nat \<Rightarrow> string \<Rightarrow> nat" where
  "digits_val n [] = n"
| "digits_val n (c # cs) = digits_val (10 * n + digit_val c) cs"

definition parse_unsigned :: "nat \<Rightarrow> string \<Rightarrow> nat option" where
  "parse_unsigned m s =
     (let d = (case s of c # cs \<Rightarrow> if c = CHR ''+'' then cs else s | [] \<Rightarrow> [])
      in if d \<noteq> [] \<and> list_all is_ascii_digit d \<and> digits_val 0 d \<le> m
         then Some (digits_val 0 d) else None)"

text \<open>\<open>u64::to_be_bytes\<close>: the eight bytes, the most significant first.\<close>

definition to_be_bytes :: "u64 \<Rightarrow> bytes" where
  "to_be_bytes w = map (\<lambda>i. ucast (drop_bit (56 - 8 * i) w)) [0..<8]"

section \<open>Machines with an invariant\<close>

text \<open>
  The components with state are machines: a step function on states and commands. The
  locale carries an invariant of single steps to whole runs.
\<close>

locale invariant_machine =
  fixes step :: "'s \<Rightarrow> 'c \<Rightarrow> 's"
    and inv :: "'s \<Rightarrow> bool"
  assumes step_inv: "inv s \<Longrightarrow> inv (step s c)"
begin

lemma run_inv: "inv s \<Longrightarrow> inv (foldl step s cs)"
  by (induction cs arbitrary: s) (auto intro: step_inv)

text \<open>What every step keeps or moves along an order, a whole run does too.\<close>

lemma run_mono:
  assumes "inv s"
    and "\<And>s c. inv s \<Longrightarrow> R s (step s c)"
    and "\<And>s. R s s"
    and "\<And>a b c. R a b \<Longrightarrow> R b c \<Longrightarrow> R a c"
  shows "R s (foldl step s cs)"
  using assms(1)
proof (induction cs arbitrary: s)
  case Nil
  then show ?case by (simp add: assms(3))
next
  case (Cons c cs)
  have "R s (step s c)" using assms(2) Cons.prems by blast
  moreover have "R (step s c) (foldl step (step s c) cs)"
    by (rule Cons.IH) (rule step_inv [OF Cons.prems])
  ultimately show ?case using assms(4) [of s] by simp
qed

end

section \<open>Lemmas\<close>

lemma unat_max [word_nat]: "unat (- 1 :: 'a::len word) = 2 ^ LENGTH('a) - 1"
  by (simp add: unsigned_minus_1_eq_mask mask_eq_exp_minus_1)

lemma unat_lt_pow [word_nat]: "unat (a :: 'a::len word) < 2 ^ LENGTH('a)"
  by simp

lemma unat_le_max: "unat (a :: 'a::len word) \<le> 2 ^ LENGTH('a) - 1"
  using unat_lt_pow [of a] by linarith

lemma unat_saturating_add [word_nat]:
  "unat (saturating_add a b) = min (unat a + unat b) (2 ^ LENGTH('a) - 1)"
  for a b :: "'a::len word"
proof (cases "unat a + unat b < 2 ^ LENGTH('a)")
  case True
  then have "unat (a + b) = unat a + unat b" by (simp add: unat_add_lem)
  with True show ?thesis by (simp add: saturating_add_def)
next
  case False
  then show ?thesis by (simp add: saturating_add_def unat_max)
qed

lemma unat_saturating_sub [word_nat]:
  "unat (saturating_sub a b) = unat a - unat b"
  for a b :: "'a::len word"
  by (auto simp: saturating_sub_def unat_sub word_le_nat_alt)

lemma unat_saturating_mul [word_nat]:
  "unat (saturating_mul a b) = min (unat a * unat b) (2 ^ LENGTH('a) - 1)"
  for a b :: "'a::len word"
proof (cases "unat a * unat b < 2 ^ LENGTH('a)")
  case True
  then have "unat (a * b) = unat a * unat b" by (simp add: unat_mult_lem)
  with True show ?thesis by (simp add: saturating_mul_def)
next
  case False
  then show ?thesis by (simp add: saturating_mul_def unat_max)
qed

lemma saturating_add_0 [simp]: "saturating_add a 0 = a" "saturating_add 0 a = a"
  using unat_lt_pow [of a] by (simp_all add: saturating_add_def)

text \<open>Reading a 64-bit word in two's complement.\<close>

lemma sint_small:
  assumes "unat (a :: 64 word) < 2 ^ 63"
  shows "sint a = int (unat a)"
proof -
  have "int (unat a) < int (2 ^ 63)" using assms by (simp only: of_nat_less_iff)
  then have "uint a < 2 ^ 63" by simp
  then have "signed_take_bit 63 (uint a) = uint a"
    by (intro signed_take_bit_int_eq_self) (auto intro: order_trans [of _ 0])
  then show ?thesis by (simp add: sint_uint)
qed

lemma sint_large:
  assumes "2 ^ 63 \<le> unat (a :: 64 word)"
  shows "sint a = int (unat a) - 2 ^ 64"
proof -
  have "unat a < 2 ^ 64" using unat_lt_pow [of a] by simp
  then have "int (unat a) < int (2 ^ 64)" by (simp only: of_nat_less_iff)
  then have u2: "uint a < 2 ^ 64" by simp
  have "int (2 ^ 63) \<le> int (unat a)" using assms by (simp only: of_nat_le_iff)
  then have u1: "2 ^ 63 \<le> uint a" by simp
  have "sint (word_of_int (uint a - 2 ^ 64) :: 64 word) = signed_take_bit 63 (uint a - 2 ^ 64)"
    using sint_sbintrunc' [where 'a=64, of "uint a - 2 ^ 64"] by simp
  also have "\<dots> = uint a - 2 ^ 64" using u1 u2 by (intro signed_take_bit_int_eq_self) auto
  also have "word_of_int (uint a - 2 ^ 64) = a" by simp
  finally show ?thesis by simp
qed

lemma sint_diff_exact:
  fixes a b :: "64 word"
  assumes "- (2 ^ 63) \<le> sint a - sint b" "sint a - sint b < 2 ^ 63"
  shows "sint (a - b) = sint a - sint b"
proof -
  have "sint (a - b) = signed_take_bit 63 (sint a - sint b)" using sint_word_diff [of a b] by simp
  also have "\<dots> = sint a - sint b" by (rule signed_take_bit_int_eq_self [OF assms])
  finally show ?thesis .
qed

lemma length_to_be_bytes [simp]: "length (to_be_bytes w) = 8"
  by (simp add: to_be_bytes_def)

lemma bit_to_be_bytes: "n < 64 \<Longrightarrow> bit w n = bit (to_be_bytes w ! (7 - n div 8)) (n mod 8)"
proof -
  assume n: "n < 64"
  then have "n div 8 < 8" by (simp add: less_mult_imp_div_less)
  then have "56 - 8 * (7 - n div 8) = n div 8 * 8" by simp
  then have "56 - 8 * (7 - n div 8) + n mod 8 = n" by simp
  moreover have "7 - n div 8 < 8" by simp
  ultimately show ?thesis using n
    by (simp add: to_be_bytes_def bit_ucast_iff bit_drop_bit_eq)
qed

lemma to_be_bytes_inject [simp]: "to_be_bytes a = to_be_bytes b \<longleftrightarrow> a = b"
proof
  assume eq: "to_be_bytes a = to_be_bytes b"
  show "a = b"
  proof (rule bit_word_eqI)
    fix n assume "n < LENGTH(64)"
    then show "bit a n = bit b n" using bit_to_be_bytes [of n a] bit_to_be_bytes [of n b] eq by simp
  qed
qed simp

lemma char_eq_char_of_iff: "c = char_of n \<longleftrightarrow> take_bit 8 n = of_char c" for n :: nat
  by (metis char_of_eq_iff)

lemma res_bind_simps [simp, res_simps]:
  "res_bind (Inl e) f = Inl e" "res_bind (Inr x) f = f x"
  by (simp_all add: res_bind_def)

lemma res_bind_Inr_iff [res_simps]: "res_bind r f = Inr y \<longleftrightarrow> (\<exists>x. r = Inr x \<and> f x = Inr y)"
  by (cases r) auto

lemma ok_or_simps [simp]: "ok_or e None = Inl e" "ok_or e (Some x) = Inr x"
  by (simp_all add: ok_or_def)

lemma ok_or_Inr_iff [res_simps]: "ok_or e x = Inr y \<longleftrightarrow> x = Some y"
  by (cases x) auto

lemma map_err_simps [simp]: "map_err f (Inl e) = Inl (f e)" "map_err f (Inr x) = Inr x"
  by (simp_all add: map_err_def)

lemma map_err_Inr_iff [res_simps]: "map_err f r = Inr y \<longleftrightarrow> r = Inr y"
  by (cases r) auto

lemma map_of_al_insert [simp]: "map_of (al_insert k v m) = (map_of m)(k \<mapsto> v)"
  by (induction m) (auto simp: fun_eq_iff)

lemma set_keys_al_insert [simp]: "fst ` set (al_insert k v m) = insert k (fst ` set m)"
proof (induction m)
  case (Cons p m)
  then show ?case by (cases p) (simp add: insert_commute)
qed simp

lemma distinct_al_insert [simp]: "distinct (al_keys m) \<Longrightarrow> distinct (al_keys (al_insert k v m))"
proof (induction m)
  case (Cons p m)
  have "fst p \<in> fst ` set (al_insert k v m) \<longleftrightarrow> fst p = k \<or> fst p \<in> fst ` set m" by simp
  with Cons show ?case by (cases p) auto
qed simp

lemma map_of_al_remove [simp]: "map_of (al_remove k m) = (map_of m)(k := None)"
  by (induction m) (auto simp: al_remove_def fun_eq_iff)

lemma distinct_al_remove [simp]: "distinct (al_keys m) \<Longrightarrow> distinct (al_keys (al_remove k m))"
  unfolding al_remove_def by (rule distinct_map_filter)

lemma set_al_remove [simp]: "set (al_remove k m) = {p \<in> set m. fst p \<noteq> k}"
  by (simp add: al_remove_def)

lemma al_get_or_insert [simp]:
  "al_get_or d (al_insert k v m) k' = (if k' = k then v else al_get_or d m k')"
  by (simp add: al_get_or_def)

lemma al_get_or_remove [simp]:
  "al_get_or d (al_remove k m) k' = (if k' = k then d else al_get_or d m k')"
  by (simp add: al_get_or_def)

lemma al_get_or_Nil [simp]: "al_get_or d [] k = d"
  by (simp add: al_get_or_def)

lemma bt_inv_Nil [simp]: "bt_inv []"
  by (simp add: bt_inv_def)

lemma bt_inv_distinct: "bt_inv m \<Longrightarrow> distinct (al_keys m)"
  by (simp add: bt_inv_def strict_sorted_iff)

lemma set_keys_bt_insert [simp]: "fst ` set (bt_insert k v m) = insert k (fst ` set m)"
proof (induction m)
  case (Cons p m)
  then show ?case by (cases p) (simp add: insert_commute)
qed simp

lemma map_of_bt_insert [simp]: "map_of (bt_insert k v m) = (map_of m)(k \<mapsto> v)"
  by (induction m) (auto simp: fun_eq_iff)

lemma bt_inv_insert [simp]: "bt_inv m \<Longrightarrow> bt_inv (bt_insert k v m)"
proof (induction m)
  case (Cons p m)
  have "(\<forall>y \<in> fst ` set (bt_insert k v m). fst p < y) \<longleftrightarrow> fst p < k \<and> (\<forall>y \<in> fst ` set m. fst p < y)"
    by (simp only: set_keys_bt_insert) simp
  with Cons show ?case
    by (cases p) (auto simp: bt_inv_def)
qed (simp add: bt_inv_def)

lemma bt_insert_append:
  "(\<forall>x \<in> fst ` set m. x < k) \<Longrightarrow> bt_insert k v m = m @ [(k, v)]"
  by (induction m) auto

text \<open>Inserting the entries of a sorted map in order rebuilds the map.\<close>

lemma bt_rebuild:
  assumes "bt_inv (m @ n)"
  shows "foldl (\<lambda>acc (k, v). bt_insert k v acc) m n = m @ n"
  using assms
proof (induction n arbitrary: m)
  case (Cons p n)
  have "\<forall>x \<in> fst ` set m. x < fst p"
    using Cons.prems by (auto simp: bt_inv_def sorted_wrt_append)
  then have "bt_insert (fst p) (snd p) m = m @ [p]" by (simp add: bt_insert_append)
  with Cons.IH [of "m @ [p]"] Cons.prems show ?case by (simp add: case_prod_beta)
qed simp

lemma al_get_or_bt_insert [simp]:
  "al_get_or d (bt_insert k v m) k' = (if k' = k then v else al_get_or d m k')"
  by (simp add: al_get_or_def)

text \<open>The sum of a numeric reading over the entries after an insertion.\<close>

lemma sum_list_al_insert:
  fixes f :: "'v \<Rightarrow> 'n::comm_monoid_add"
  assumes "distinct (al_keys m)"
  shows "(\<Sum>p\<leftarrow>al_insert k v m. f (snd p)) + (case map_of m k of None \<Rightarrow> 0 | Some w \<Rightarrow> f w)
         = (\<Sum>p\<leftarrow>m. f (snd p)) + f v"
  using assms
proof (induction m)
  case Nil
  then show ?case by simp
next
  case (Cons p m)
  show ?case
  proof (cases "k = fst p")
    case True
    with Cons.prems show ?thesis by (cases p) (simp add: add_ac)
  next
    case False
    with Cons show ?thesis by (cases p) (simp add: add_ac)
  qed
qed

end
