(* ===== verification/Billing_Meter.thy ===== *)
theory Billing_Meter
  imports Prelude
begin

text \<open>
  Metering (\<open>crates/pier-billing/src/meter.rs\<close>): the closed enumeration of metered
  resources with its wire tags, the \<open>Meter\<close> trait as a locale, and the in-memory meter,
  which interprets it. A payer is the bytes of an identity key.
\<close>

section \<open>Resource kinds\<close>

datatype ResourceKind = BytesForwarded | Connections | Messages | ComputeSeconds

fun wire_tag :: "ResourceKind \<Rightarrow> u64" where
  "wire_tag BytesForwarded = 1"
| "wire_tag Connections = 2"
| "wire_tag Messages = 3"
| "wire_tag ComputeSeconds = 4"

definition from_wire_tag :: "u64 \<Rightarrow> ResourceKind option" where
  "from_wire_tag tag =
     (if tag = 1 then Some BytesForwarded
      else if tag = 2 then Some Connections
      else if tag = 3 then Some Messages
      else if tag = 4 then Some ComputeSeconds
      else None)"

text \<open>
  The derived order of the enumeration is the order of its variants; the usage and price
  maps iterate in it.
\<close>

fun kind_rank :: "ResourceKind \<Rightarrow> nat" where
  "kind_rank BytesForwarded = 0"
| "kind_rank Connections = 1"
| "kind_rank Messages = 2"
| "kind_rank ComputeSeconds = 3"

instantiation ResourceKind :: linorder
begin

definition less_eq_ResourceKind :: "ResourceKind \<Rightarrow> ResourceKind \<Rightarrow> bool" where
  "less_eq_ResourceKind a b = (kind_rank a \<le> kind_rank b)"

definition less_ResourceKind :: "ResourceKind \<Rightarrow> ResourceKind \<Rightarrow> bool" where
  "less_ResourceKind a b = (kind_rank a < kind_rank b)"

instance
proof
  fix x y z :: ResourceKind
  show "x < y \<longleftrightarrow> x \<le> y \<and> \<not> y \<le> x"
    by (auto simp: less_eq_ResourceKind_def less_ResourceKind_def)
  show "x \<le> x" by (simp add: less_eq_ResourceKind_def)
  show "x \<le> y \<Longrightarrow> y \<le> z \<Longrightarrow> x \<le> z" by (simp add: less_eq_ResourceKind_def)
  show "x \<le> y \<Longrightarrow> y \<le> x \<Longrightarrow> x = y"
    by (cases x; cases y) (simp_all add: less_eq_ResourceKind_def)
  show "x \<le> y \<or> y \<le> x" by (auto simp: less_eq_ResourceKind_def)
qed

end

type_synonym usage_map = "(ResourceKind \<times> u64) list"

section \<open>The in-memory meter\<close>

record InMemoryMeter =
  m_usage :: "(bytes \<times> usage_map) list"

definition meter_new :: InMemoryMeter where
  "meter_new = \<lparr> m_usage = [] \<rparr>"

definition meter_record :: "InMemoryMeter \<Rightarrow> bytes \<Rightarrow> ResourceKind \<Rightarrow> u64 \<Rightarrow> InMemoryMeter" where
  "meter_record m payer kind units =
     (let entry = al_get_or [] (m_usage m) payer;
          total = saturating_add (al_get_or 0 entry kind) units
      in m\<lparr> m_usage := al_insert payer (bt_insert kind total entry) (m_usage m) \<rparr>)"

definition meter_usage :: "InMemoryMeter \<Rightarrow> bytes \<Rightarrow> usage_map" where
  "meter_usage m payer = al_get_or [] (m_usage m) payer"

definition meter_reset :: "InMemoryMeter \<Rightarrow> bytes \<Rightarrow> usage_map \<times> InMemoryMeter" where
  "meter_reset m payer =
     (al_get_or [] (m_usage m) payer, m\<lparr> m_usage := al_remove payer (m_usage m) \<rparr>)"

section \<open>The interface of a meter\<close>

text \<open>
  What the \<open>Meter\<close> trait promises: recording adds, saturating, to one counter of one
  payer and touches nothing else; a reset returns the usage it clears.
\<close>

locale meter =
  fixes mrecord :: "'m \<Rightarrow> bytes \<Rightarrow> ResourceKind \<Rightarrow> u64 \<Rightarrow> 'm"
    and musage :: "'m \<Rightarrow> bytes \<Rightarrow> usage_map"
    and mreset :: "'m \<Rightarrow> bytes \<Rightarrow> usage_map \<times> 'm"
  assumes usage_record:
    "musage (mrecord m p k u) q =
       (if q = p then bt_insert k (saturating_add (al_get_or 0 (musage m p) k) u) (musage m p)
        else musage m q)"
    and reset_snapshot: "fst (mreset m p) = musage m p"
    and usage_reset: "musage (snd (mreset m p)) q = (if q = p then [] else musage m q)"
begin

text \<open>Recording a list of amounts of one kind counts their sum, up to the greatest \<open>u64\<close>.\<close>

lemma records_total:
  "unat (al_get_or 0 (musage (foldl (\<lambda>m u. mrecord m p k u) m us) p) k)
   = min (unat (al_get_or 0 (musage m p) k) + (\<Sum>u\<leftarrow>us. unat u)) (2 ^ 64 - 1)"
proof (induction us arbitrary: m)
  case Nil
  show ?case using unat_le_max [of "al_get_or 0 (musage m p) k"] by simp
next
  case (Cons u us)
  show ?case
    by (simp add: Cons.IH usage_record unat_saturating_add min_def)
qed

lemma records_other_payer:
  "q \<noteq> p \<Longrightarrow> musage (foldl (\<lambda>m u. mrecord m p k u) m us) q = musage m q"
  by (induction us arbitrary: m) (simp_all add: usage_record)

lemma records_other_kind:
  "k' \<noteq> k \<Longrightarrow> al_get_or 0 (musage (foldl (\<lambda>m u. mrecord m p k u) m us) p) k'
              = al_get_or 0 (musage m p) k'"
  by (induction us arbitrary: m) (simp_all add: usage_record)

text \<open>A billed increment: after a reset, one record is the whole usage.\<close>

lemma record_after_reset:
  "musage m p = [] \<Longrightarrow> musage (mrecord m p k u) p = [(k, u)]"
  by (simp add: usage_record)

end

interpretation im: meter meter_record meter_usage meter_reset
  by unfold_locales (simp_all add: meter_record_def meter_usage_def meter_reset_def Let_def)

section \<open>Properties\<close>

lemma from_wire_tag_wire_tag [simp]: "from_wire_tag (wire_tag k) = Some k"
  by (cases k) (simp_all add: from_wire_tag_def)

lemma inj_wire_tag: "inj wire_tag"
  by (rule inj_on_inverseI [where g = "\<lambda>t. the (from_wire_tag t)"]) simp

lemma meter_usage_new [simp]: "meter_usage meter_new p = []"
  by (simp add: meter_usage_def meter_new_def)

text \<open>Every payer's usage is a map in key order.\<close>

definition meter_inv :: "InMemoryMeter \<Rightarrow> bool" where
  "meter_inv m = (\<forall>p. bt_inv (meter_usage m p))"

lemma meter_inv_new: "meter_inv meter_new"
  by (simp add: meter_inv_def)

lemma meter_inv_record: "meter_inv m \<Longrightarrow> meter_inv (meter_record m p k u)"
  by (simp add: meter_inv_def im.usage_record)

lemma meter_inv_reset: "meter_inv m \<Longrightarrow> meter_inv (snd (meter_reset m p))"
  by (simp add: meter_inv_def im.usage_reset)

end
