(* ===== verification/Kotva.thy ===== *)
theory Kotva
  imports Prelude
begin

text \<open>
  The interface of \<open>kotva-core\<close>, the tag-pinned crate that supplies canonical CBOR values,
  field readers and the identity signatures. Its code is not part of the repository, so it
  is a parameter: a record of the operations the sources call, on abstract types for CBOR
  values, field readers, identity keys and errors. \<open>kotva_laws\<close> states the documented
  behaviour the sources rely on; every theorem that needs it has it as a hypothesis.
\<close>

record ('cv, 'f, 'ce, 'ik, 'ie) kotva =
  \<comment> \<open>the constructors of \<open>Cv\<close> the sources build, and the patterns they match\<close>
  cv_u64 :: "u64 \<Rightarrow> 'cv"
  cv_text :: "string \<Rightarrow> 'cv"
  cv_bytes :: "bytes \<Rightarrow> 'cv"
  cv_map :: "(u64 \<times> 'cv) list \<Rightarrow> 'cv"
  cv_array :: "'cv list \<Rightarrow> 'cv"
  match_text :: "'cv \<Rightarrow> string option"
  match_map :: "'cv \<Rightarrow> (u64 \<times> 'cv) list option"
  as_u64 :: "'cv \<Rightarrow> 'ce + u64"
  as_u8 :: "'cv \<Rightarrow> 'ce + u8"
  as_text :: "'cv \<Rightarrow> 'ce + string"
  as_bytes :: "'cv \<Rightarrow> 'ce + bytes"
  as_array :: "'cv \<Rightarrow> 'ce + 'cv list"
  unknown_discriminant :: "u64 \<Rightarrow> 'ce"
  \<comment> \<open>\<open>Fields\<close>: a reader over the pairs of a map; \<open>req\<close> and \<open>take\<close> remove what they read\<close>
  fields_from_cv :: "'cv \<Rightarrow> 'ce + 'f"
  fields_req :: "'f \<Rightarrow> u64 \<Rightarrow> 'ce + ('cv \<times> 'f)"
  fields_take :: "'f \<Rightarrow> u64 \<Rightarrow> 'cv option \<times> 'f"
  deny_unknown :: "'f \<Rightarrow> 'ce + unit"
  into_pairs :: "'f \<Rightarrow> (u64 \<times> 'cv) list"
  \<comment> \<open>the codec\<close>
  cbor_encode :: "'cv \<Rightarrow> bytes"
  cbor_decode :: "bytes \<Rightarrow> 'ce + 'cv"
  \<comment> \<open>suites and identities\<close>
  suite_is_classical :: "u8 \<Rightarrow> bool"
  ik_public :: "'ik \<Rightarrow> bytes"
  sign_domain :: "'ik \<Rightarrow> bytes \<Rightarrow> bytes \<Rightarrow> bytes"
  verify_domain :: "bytes \<Rightarrow> bytes \<Rightarrow> bytes \<Rightarrow> bytes \<Rightarrow> 'ie + unit"

text \<open>
  The laws: a constructor is read back by its reader; a reader made from a map with distinct
  keys holds the pairs of the map in their order, \<open>req\<close> and \<open>take\<close> return and remove the
  pair of a key, and \<open>deny_unknown\<close> accepts an exhausted reader; the classical suite is
  \<open>0x01\<close>; a signature made with a key verifies under its public half.
\<close>

definition kotva_laws :: "('cv, 'f, 'ce, 'ik, 'ie) kotva \<Rightarrow> bool" where
  "kotva_laws K \<longleftrightarrow>
     (\<forall>n. as_u64 K (cv_u64 K n) = Inr n)
   \<and> (\<forall>b. as_u8 K (cv_u64 K (ucast b)) = Inr b)
   \<and> (\<forall>s. as_text K (cv_text K s) = Inr s)
   \<and> (\<forall>s. match_text K (cv_text K s) = Some s)
   \<and> (\<forall>b. as_bytes K (cv_bytes K b) = Inr b)
   \<and> (\<forall>xs. as_array K (cv_array K xs) = Inr xs)
   \<and> (\<forall>m. match_map K (cv_map K m) = Some m)
   \<and> (\<forall>m. distinct (map fst m) \<longrightarrow>
        (\<exists>f. fields_from_cv K (cv_map K m) = Inr f \<and> into_pairs K f = m))
   \<and> (\<forall>f k v. map_of (into_pairs K f) k = Some v \<longrightarrow>
        (\<exists>f'. fields_req K f k = Inr (v, f') \<and> into_pairs K f' = al_remove k (into_pairs K f)))
   \<and> (\<forall>f k. \<exists>f'. fields_take K f k = (map_of (into_pairs K f) k, f') \<and>
        into_pairs K f' = al_remove k (into_pairs K f))
   \<and> (\<forall>f. into_pairs K f = [] \<longrightarrow> deny_unknown K f = Inr ())
   \<and> suite_is_classical K 1
   \<and> (\<forall>ik ds body. verify_domain K (ik_public K ik) ds body (sign_domain K ik ds body) = Inr ())"

text \<open>\<open>f.take(k).map(as_u64).transpose()\<close>: an optional integer field.\<close>

definition opt_u64 ::
  "('cv, 'f, 'ce, 'ik, 'ie) kotva \<Rightarrow> 'cv option \<Rightarrow> 'ce + u64 option" where
  "opt_u64 K x = (case x of None \<Rightarrow> Inr None | Some cv \<Rightarrow> res_bind (as_u64 K cv) (\<lambda>n. Inr (Some n)))"

text \<open>\<open>f.take(k).map(as_x).transpose()\<close> for any reader of a value.\<close>

definition opt_read :: "('cv \<Rightarrow> 'ce + 'a) \<Rightarrow> 'cv option \<Rightarrow> 'ce + 'a option" where
  "opt_read rd x = (case x of None \<Rightarrow> Inr None | Some cv \<Rightarrow> res_bind (rd cv) (\<lambda>v. Inr (Some v)))"

section \<open>A reference instance\<close>

text \<open>
  A concrete instance shows that the laws can hold: values are a datatype, a reader is the
  list of pairs, a signature is the concatenation of key, tag and body. Its codec knows the
  one value it is given.
\<close>

datatype ref_cv = RU64 u64 | RText string | RBytes bytes | RMap "(u64 \<times> ref_cv) list"
  | RArray "ref_cv list"

fun ref_as_u64 :: "ref_cv \<Rightarrow> unit + u64" where
  "ref_as_u64 (RU64 n) = Inr n"
| "ref_as_u64 _ = Inl ()"

fun ref_as_u8 :: "ref_cv \<Rightarrow> unit + u8" where
  "ref_as_u8 (RU64 n) = (if unat n < 256 then Inr (ucast n) else Inl ())"
| "ref_as_u8 _ = Inl ()"

fun ref_as_text :: "ref_cv \<Rightarrow> unit + string" where
  "ref_as_text (RText s) = Inr s"
| "ref_as_text _ = Inl ()"

fun ref_as_bytes :: "ref_cv \<Rightarrow> unit + bytes" where
  "ref_as_bytes (RBytes b) = Inr b"
| "ref_as_bytes _ = Inl ()"

fun ref_as_array :: "ref_cv \<Rightarrow> unit + ref_cv list" where
  "ref_as_array (RArray xs) = Inr xs"
| "ref_as_array _ = Inl ()"

fun ref_match_map :: "ref_cv \<Rightarrow> (u64 \<times> ref_cv) list option" where
  "ref_match_map (RMap m) = Some m"
| "ref_match_map _ = None"

definition ref_kotva :: "ref_cv \<Rightarrow> (ref_cv, (u64 \<times> ref_cv) list, unit, bytes, unit) kotva" where
  "ref_kotva v =
     \<lparr> cv_u64 = RU64, cv_text = RText, cv_bytes = RBytes, cv_map = RMap, cv_array = RArray,
       match_text = (\<lambda>c. case c of RText s \<Rightarrow> Some s | _ \<Rightarrow> None), match_map = ref_match_map,
       as_u64 = ref_as_u64, as_u8 = ref_as_u8, as_text = ref_as_text, as_bytes = ref_as_bytes,
       as_array = ref_as_array, unknown_discriminant = (\<lambda>_. ()),
       fields_from_cv = (\<lambda>c. ok_or () (ref_match_map c)),
       fields_req = (\<lambda>f k. case map_of f k of None \<Rightarrow> Inl () | Some x \<Rightarrow> Inr (x, al_remove k f)),
       fields_take = (\<lambda>f k. (map_of f k, al_remove k f)),
       deny_unknown = (\<lambda>f. if f = [] then Inr () else Inl ()),
       into_pairs = (\<lambda>f. f),
       cbor_encode = (\<lambda>c. if c = v then [1] else [0]),
       cbor_decode = (\<lambda>b. if b = [1] then Inr v else Inl ()),
       suite_is_classical = (\<lambda>b. b = 1),
       ik_public = (\<lambda>ik. ik),
       sign_domain = (\<lambda>ik ds body. ik @ ds @ body),
       verify_domain = (\<lambda>pk ds body sig. if sig = pk @ ds @ body then Inr () else Inl ()) \<rparr>"

lemma ref_kotva_sel [simp]:
  "cv_u64 (ref_kotva v) = RU64" "cv_text (ref_kotva v) = RText" "cv_bytes (ref_kotva v) = RBytes"
  "cv_map (ref_kotva v) = RMap" "cv_array (ref_kotva v) = RArray" "cbor_encode (ref_kotva v) c = (if c = v then [1] else [0])"
  "cbor_decode (ref_kotva v) [1] = Inr v" "ik_public (ref_kotva v) ik = ik"
  "sign_domain (ref_kotva v) ik ds body = ik @ ds @ body"
  by (simp_all add: ref_kotva_def)

lemma unat_ucast_u8_u64: "unat (ucast (b :: u8) :: u64) = unat b"
proof -
  have "unat b < 2 ^ 64" using unat_lt_pow [of b] by simp
  then show ?thesis by (simp add: unsigned_ucast_eq take_bit_nat_eq_self)
qed

lemma ref_kotva_laws: "kotva_laws (ref_kotva v)"
proof -
  have "unat (b :: u8) < 256" for b using unat_lt_pow [of b] by simp
  moreover have "ucast (ucast (b :: u8) :: u64) = b" for b :: u8
    by (rule bit_word_eqI) (simp add: bit_simps)
  ultimately show ?thesis
    by (simp add: kotva_laws_def ref_kotva_def unat_ucast_u8_u64)
qed

section \<open>Consequences of the laws\<close>

named_theorems kotva_simps

text \<open>
  Under the laws, reading the fields of a map in key order is removing them from the pairs;
  these facts turn a chain of \<open>req\<close> calls into list operations.
\<close>

lemma kotva_readers [kotva_simps]:
  assumes "kotva_laws K"
  shows "as_u64 K (cv_u64 K n) = Inr n"
    and "as_u8 K (cv_u64 K (ucast b)) = Inr b"
    and "as_text K (cv_text K s) = Inr s"
    and "match_text K (cv_text K s) = Some s"
    and "as_bytes K (cv_bytes K bs) = Inr bs"
    and "as_array K (cv_array K xs) = Inr xs"
    and "match_map K (cv_map K m) = Some m"
    and "suite_is_classical K 1"
    and "verify_domain K (ik_public K ik) ds body (sign_domain K ik ds body) = Inr ()"
  using assms by (simp_all add: kotva_laws_def)

text \<open>The steps of a decoder, as rules on the rest of the computation.\<close>

lemma fields_step:
  assumes "kotva_laws K" and "distinct (map fst m)"
    and "\<And>f. into_pairs K f = m \<Longrightarrow> g f = r"
  shows "res_bind (map_err e (fields_from_cv K (cv_map K m))) g = r"
proof -
  from assms(1,2) obtain f where "fields_from_cv K (cv_map K m) = Inr f" and "into_pairs K f = m"
    unfolding kotva_laws_def by blast
  with assms(3) show ?thesis by simp
qed

lemma req_step:
  assumes "kotva_laws K" and "into_pairs K f = m" and "map_of m k = Some v"
    and "\<And>f'. into_pairs K f' = al_remove k m \<Longrightarrow> g (v, f') = r"
  shows "res_bind (map_err e (fields_req K f k)) g = r"
proof -
  from assms(1-3) obtain f' where "fields_req K f k = Inr (v, f')"
    and "into_pairs K f' = al_remove k m"
    unfolding kotva_laws_def by blast
  with assms(4) show ?thesis by simp
qed

lemma take_step:
  assumes "kotva_laws K" and "into_pairs K f = m"
    and "\<And>f'. into_pairs K f' = al_remove k m \<Longrightarrow> g (map_of m k, f') = r"
  shows "g (fields_take K f k) = r"
proof -
  from assms(1,2) obtain f' where "fields_take K f k = (map_of m k, f')"
    and "into_pairs K f' = al_remove k m"
    unfolding kotva_laws_def by blast
  with assms(3) show ?thesis by simp
qed

text \<open>The same rules for decoders that return the codec's error as it is.\<close>

lemma map_err_id: "map_err (\<lambda>e. e) r = r"
  by (cases r) simp_all

lemmas fields_step_plain = fields_step [where e = "\<lambda>e. e", unfolded map_err_id]
lemmas req_step_plain = req_step [where e = "\<lambda>e. e", unfolded map_err_id]

lemma kotva_deny [kotva_simps]:
  assumes "kotva_laws K" and "into_pairs K f = []"
  shows "deny_unknown K f = Inr ()"
  using assms unfolding kotva_laws_def by blast

end
