(* ===== verification/Billing_Tariff.thy ===== *)
theory Billing_Tariff
  imports Billing_Meter Kotva
begin

text \<open>
  Tariff schedules (\<open>crates/pier-billing/src/tariff.rs\<close>): the schedule, its wire form as a
  CBOR value, and the evaluation of metered usage into an itemised bill.
\<close>

section \<open>Data\<close>

datatype 'ce BillingError =
    BadEncoding 'ce
  | Malformed string
  | UnpricedKind ResourceKind

record TariffSchedule =
  ts_currency :: string
  ts_prices :: "(ResourceKind \<times> u64) list"
  ts_free_allowance :: "(ResourceKind \<times> u64) list"
  ts_period_seconds :: "u64 option"

record LineItem =
  li_kind :: ResourceKind
  li_metered_units :: u64
  li_free_units_applied :: u64
  li_billed_units :: u64
  li_unit_price :: u64
  li_amount :: u64

record Bill =
  bill_currency :: string
  bill_amount :: u64
  bill_line_items :: "LineItem list"

section \<open>Wire form\<close>

definition price_pairs ::
  "('cv, 'f, 'ce, 'ik, 'ie) kotva \<Rightarrow> (ResourceKind \<times> u64) list \<Rightarrow> (u64 \<times> 'cv) list" where
  "price_pairs K m = map (\<lambda>(k, v). (wire_tag k, cv_u64 K v)) m"

definition schedule_to_cv :: "('cv, 'f, 'ce, 'ik, 'ie) kotva \<Rightarrow> TariffSchedule \<Rightarrow> 'cv" where
  "schedule_to_cv K s =
     cv_map K
       ([(1, cv_text K (ts_currency s)),
         (2, cv_map K (price_pairs K (ts_prices s))),
         (3, cv_map K (price_pairs K (ts_free_allowance s)))]
        @ (case ts_period_seconds s of None \<Rightarrow> [] | Some p \<Rightarrow> [(4, cv_u64 K p)]))"

fun price_map_loop ::
  "('cv, 'f, 'ce, 'ik, 'ie) kotva \<Rightarrow> (ResourceKind \<times> u64) list \<Rightarrow> (u64 \<times> 'cv) list
   \<Rightarrow> 'ce BillingError + (ResourceKind \<times> u64) list" where
  "price_map_loop K out [] = Inr out"
| "price_map_loop K out ((tag, v) # entries) =
     res_bind (ok_or (Malformed ''unknown resource-kind wire tag'') (from_wire_tag tag)) (\<lambda>kind.
     res_bind (map_err BadEncoding (as_u64 K v)) (\<lambda>n.
     price_map_loop K (bt_insert kind n out) entries))"

definition resource_price_map ::
  "('cv, 'f, 'ce, 'ik, 'ie) kotva \<Rightarrow> 'cv \<Rightarrow> 'ce BillingError + (ResourceKind \<times> u64) list" where
  "resource_price_map K cv =
     (case match_map K cv of
        None \<Rightarrow> Inl (Malformed ''expected a resource-kind price map'')
      | Some entries \<Rightarrow> price_map_loop K [] entries)"

definition schedule_from_cv ::
  "('cv, 'f, 'ce, 'ik, 'ie) kotva \<Rightarrow> 'cv \<Rightarrow> 'ce BillingError + TariffSchedule" where
  "schedule_from_cv K cv =
     res_bind (map_err BadEncoding (fields_from_cv K cv)) (\<lambda>f.
     res_bind (map_err BadEncoding (fields_req K f 1)) (\<lambda>(c, f).
     res_bind (ok_or (Malformed ''currency must be a text string'') (match_text K c)) (\<lambda>currency.
     res_bind (map_err BadEncoding (fields_req K f 2)) (\<lambda>(p, f).
     res_bind (resource_price_map K p) (\<lambda>prices.
     res_bind (map_err BadEncoding (fields_req K f 3)) (\<lambda>(a, f).
     res_bind (resource_price_map K a) (\<lambda>free_allowance.
     (\<lambda>(x, f).
        res_bind (map_err BadEncoding (opt_u64 K x)) (\<lambda>period_seconds.
        res_bind (map_err BadEncoding (deny_unknown K f)) (\<lambda>_.
        Inr \<lparr> ts_currency = currency, ts_prices = prices,
              ts_free_allowance = free_allowance, ts_period_seconds = period_seconds \<rparr>)))
       (fields_take K f 4))))))))"

definition schedule_to_cbor :: "('cv, 'f, 'ce, 'ik, 'ie) kotva \<Rightarrow> TariffSchedule \<Rightarrow> bytes" where
  "schedule_to_cbor K s = cbor_encode K (schedule_to_cv K s)"

definition schedule_from_cbor ::
  "('cv, 'f, 'ce, 'ik, 'ie) kotva \<Rightarrow> bytes \<Rightarrow> 'ce BillingError + TariffSchedule" where
  "schedule_from_cbor K b = res_bind (map_err BadEncoding (cbor_decode K b)) (schedule_from_cv K)"

section \<open>Evaluation\<close>

fun evaluate_loop ::
  "TariffSchedule \<Rightarrow> usage_map \<Rightarrow> u64 \<Rightarrow> LineItem list \<Rightarrow> 'ce BillingError + u64 \<times> LineItem list" where
  "evaluate_loop s [] amount items = Inr (amount, items)"
| "evaluate_loop s ((kind, units) # rest) amount items =
     res_bind (ok_or (UnpricedKind kind) (map_of (ts_prices s) kind)) (\<lambda>unit_price.
     let free = al_get_or 0 (ts_free_allowance s) kind;
         billed_units = saturating_sub units free;
         line_amount = saturating_mul billed_units unit_price
     in evaluate_loop s rest (saturating_add amount line_amount)
          (items @ [\<lparr> li_kind = kind, li_metered_units = units,
                      li_free_units_applied = min free units, li_billed_units = billed_units,
                      li_unit_price = unit_price, li_amount = line_amount \<rparr>]))"

definition evaluate :: "TariffSchedule \<Rightarrow> usage_map \<Rightarrow> 'ce BillingError + Bill" where
  "evaluate s usage =
     res_bind (evaluate_loop s usage 0 []) (\<lambda>(amount, items).
     Inr \<lparr> bill_currency = ts_currency s, bill_amount = amount, bill_line_items = items \<rparr>)"

section \<open>Specification\<close>

text \<open>
  What a schedule charges, over the natural numbers: for every kind, the units above the
  free allowance at the unit price.
\<close>

definition price_of :: "TariffSchedule \<Rightarrow> ResourceKind \<Rightarrow> nat" where
  "price_of s k = unat (al_get_or 0 (ts_prices s) k)"

definition free_of :: "TariffSchedule \<Rightarrow> ResourceKind \<Rightarrow> nat" where
  "free_of s k = unat (al_get_or 0 (ts_free_allowance s) k)"

definition charge_spec :: "TariffSchedule \<Rightarrow> usage_map \<Rightarrow> nat" where
  "charge_spec s usage = (\<Sum>(k, u)\<leftarrow>usage. (unat u - free_of s k) * price_of s k)"

definition schedule_inv :: "TariffSchedule \<Rightarrow> bool" where
  "schedule_inv s = (bt_inv (ts_prices s) \<and> bt_inv (ts_free_allowance s))"

definition line_item_ok :: "TariffSchedule \<Rightarrow> ResourceKind \<times> u64 \<Rightarrow> LineItem \<Rightarrow> bool" where
  "line_item_ok s p li =
     (li_kind li = fst p \<and> li_metered_units li = snd p
      \<and> unat (li_metered_units li) = unat (li_free_units_applied li) + unat (li_billed_units li)
      \<and> unat (li_billed_units li) = unat (snd p) - free_of s (fst p)
      \<and> unat (li_unit_price li) = price_of s (fst p)
      \<and> unat (li_amount li)
          = min (unat (li_billed_units li) * unat (li_unit_price li)) (2 ^ 64 - 1))"

section \<open>Lemmas on evaluation\<close>

lemma evaluate_loop_ok:
  "fst ` set usage \<subseteq> fst ` set (ts_prices s) \<Longrightarrow>
   \<exists>a' items'. evaluate_loop s usage a items = (Inr (a', items @ items') :: 'ce BillingError + _)
     \<and> unat a' = min (unat a + charge_spec s usage) (2 ^ 64 - 1)
     \<and> list_all2 (line_item_ok s) usage items'"
proof (induction usage arbitrary: a items)
  case Nil
  show ?case using unat_le_max [of a] by (simp add: charge_spec_def)
next
  case (Cons p usage)
  obtain k u where p: "p = (k, u)" by (cases p)
  from Cons.prems p obtain c where c: "map_of (ts_prices s) k = Some c"
    by (metis (no_types, lifting) fst_conv image_insert insert_subset list.simps(15) map_of_eq_None_iff not_None_eq)
  let ?f = "al_get_or 0 (ts_free_allowance s) k"
  let ?b = "saturating_sub u ?f"
  let ?l = "saturating_mul ?b c"
  let ?i = "\<lparr> li_kind = k, li_metered_units = u, li_free_units_applied = min ?f u,
              li_billed_units = ?b, li_unit_price = c, li_amount = ?l \<rparr>"
  have "unat u = unat (min ?f u) + unat ?b"
    by (simp add: unat_saturating_sub min_def word_le_nat_alt)
  then have item: "line_item_ok s p ?i"
    using c by (simp add: p line_item_ok_def unat_saturating_mul unat_saturating_sub free_of_def
        price_of_def al_get_or_def)
  from Cons.prems have "fst ` set usage \<subseteq> fst ` set (ts_prices s)" by simp
  from Cons.IH [OF this, of "saturating_add a ?l" "items @ [?i]"] obtain a' items' where
    rec: "evaluate_loop s usage (saturating_add a ?l) (items @ [?i])
            = (Inr (a', (items @ [?i]) @ items') :: 'ce BillingError + _)"
    and a': "unat a' = min (unat (saturating_add a ?l) + charge_spec s usage) (2 ^ 64 - 1)"
    and its: "list_all2 (line_item_ok s) usage items'" by blast
  have "charge_spec s (p # usage) = (unat u - free_of s k) * unat c + charge_spec s usage"
    using c by (simp add: charge_spec_def p price_of_def al_get_or_def)
  moreover have "unat ?l = min ((unat u - free_of s k) * unat c) (2 ^ 64 - 1)"
    by (simp add: unat_saturating_mul unat_saturating_sub free_of_def)
  ultimately have "unat a' = min (unat a + charge_spec s (p # usage)) (2 ^ 64 - 1)"
    by (simp add: a' unat_saturating_add min_def)
  moreover have "evaluate_loop s (p # usage) a items
      = (Inr (a', items @ ?i # items') :: 'ce BillingError + _)"
    using rec by (simp add: p c Let_def)
  moreover have "list_all2 (line_item_ok s) (p # usage) (?i # items')"
    using item its by simp
  ultimately show ?case by blast
qed

text \<open>The error names the first kind, in key order, that has no price.\<close>

lemma evaluate_loop_unpriced:
  "evaluate_loop s usage a items = Inl e \<longleftrightarrow>
   (\<exists>p. find (\<lambda>p. fst p \<notin> fst ` set (ts_prices s)) usage = Some p \<and> e = UnpricedKind (fst p))"
proof (induction usage arbitrary: a items)
  case (Cons p usage)
  obtain k u where p: "p = (k, u)" by (cases p)
  have "k \<in> fst ` set (ts_prices s) \<longleftrightarrow> map_of (ts_prices s) k \<noteq> None"
    by (simp add: map_of_eq_None_iff)
  with Cons.IH show ?case by (cases "map_of (ts_prices s) k") (auto simp: p Let_def)
qed simp

lemma evaluate_ok:
  assumes "fst ` set usage \<subseteq> fst ` set (ts_prices s)"
  obtains b where "evaluate s usage = (Inr b :: 'ce BillingError + Bill)"
    and "bill_currency b = ts_currency s"
    and "unat (bill_amount b) = min (charge_spec s usage) (2 ^ 64 - 1)"
    and "list_all2 (line_item_ok s) usage (bill_line_items b)"
proof -
  from evaluate_loop_ok [OF assms, of 0 "[]"] obtain a items where
    "evaluate_loop s usage 0 [] = (Inr (a, items) :: 'ce BillingError + _)"
    and "unat a = min (charge_spec s usage) (2 ^ 64 - 1)"
    and "list_all2 (line_item_ok s) usage items" by auto
  then show ?thesis by (intro that [of "\<lparr> bill_currency = ts_currency s, bill_amount = a,
      bill_line_items = items \<rparr>"]) (simp_all add: evaluate_def)
qed

lemma evaluate_error:
  "evaluate s usage = Inl e \<longleftrightarrow>
   (\<exists>p. find (\<lambda>p. fst p \<notin> fst ` set (ts_prices s)) usage = Some p \<and> e = UnpricedKind (fst p))"
  unfolding evaluate_loop_unpriced [of s usage 0 "[]" e, symmetric]
  by (cases "evaluate_loop s usage 0 [] :: 'a BillingError + _") (auto simp: evaluate_def)

lemma evaluate_Inr_priced:
  assumes "evaluate s usage = (Inr b :: 'ce BillingError + Bill)"
  shows "fst ` set usage \<subseteq> fst ` set (ts_prices s)"
proof -
  have "find (\<lambda>p. fst p \<notin> fst ` set (ts_prices s)) usage = None"
  proof (rule ccontr)
    assume "find (\<lambda>p. fst p \<notin> fst ` set (ts_prices s)) usage \<noteq> None"
    then have "\<exists>e :: 'ce BillingError. evaluate s usage = Inl e" by (auto simp: evaluate_error)
    with assms show False by simp
  qed
  then show ?thesis unfolding find_None_iff by blast
qed

section \<open>Lemmas on the wire form\<close>

lemma distinct_price_pairs: "bt_inv m \<Longrightarrow> distinct (map fst (price_pairs K m))"
proof -
  assume "bt_inv m"
  then have "distinct (map wire_tag (map fst m))"
    by (subst distinct_map) (simp add: bt_inv_distinct inj_on_subset [OF inj_wire_tag])
  moreover have "map fst (price_pairs K m) = map wire_tag (map fst m)"
    by (simp add: price_pairs_def case_prod_beta comp_def)
  ultimately show ?thesis by simp
qed

lemma price_map_loop_pairs:
  "kotva_laws K \<Longrightarrow>
   price_map_loop K out (price_pairs K m) = Inr (foldl (\<lambda>acc (k, v). bt_insert k v acc) out m)"
  by (induction m arbitrary: out) (auto simp: price_pairs_def kotva_simps)

lemma resource_price_map_pairs:
  "kotva_laws K \<Longrightarrow> bt_inv m \<Longrightarrow> resource_price_map K (cv_map K (price_pairs K m)) = Inr m"
  by (simp add: resource_price_map_def kotva_simps price_map_loop_pairs bt_rebuild)

lemma schedule_from_to_cv:
  assumes K: "kotva_laws K" and inv: "schedule_inv s"
  shows "schedule_from_cv K (schedule_to_cv K s) = Inr s"
proof -
  have pm: "resource_price_map K (cv_map K (price_pairs K (ts_prices s))) = Inr (ts_prices s)"
    "resource_price_map K (cv_map K (price_pairs K (ts_free_allowance s))) = Inr (ts_free_allowance s)"
    using K inv by (simp_all add: schedule_inv_def resource_price_map_pairs)
  show ?thesis
    unfolding schedule_from_cv_def schedule_to_cv_def
    apply (rule fields_step [OF K])
     apply (simp split: option.split)
    apply (rule req_step [OF K], assumption, simp, simp add: kotva_simps [OF K])
    apply (rule req_step [OF K], assumption, simp add: al_remove_def, simp add: pm)
    apply (rule req_step [OF K], assumption, simp add: al_remove_def, simp add: pm)
    apply (rule take_step [OF K, where m = "case ts_period_seconds s of None \<Rightarrow> [] | Some p \<Rightarrow> [(4, cv_u64 K p)]"])
     apply (simp add: al_remove_def split: option.split)
    apply (cases s, cases "ts_period_seconds s")
     apply (simp_all add: opt_u64_def kotva_simps [OF K] al_remove_def)
    done
qed

section \<open>Properties\<close>

text \<open>
  (C7) Evaluation is exact: whenever a schedule bills a usage snapshot, the amount is the sum
  over the metered kinds of the units above the free allowance at the unit price, as a
  mathematical number, capped at the greatest \<open>u64\<close>; the bill is in the schedule's currency
  and has one line per metered kind, whose free and billed units add up to the metered ones.
\<close>

theorem evaluate_exact:
  assumes "evaluate s usage = (Inr b :: 'ce BillingError + Bill)"
  shows "unat (bill_amount b) = min (charge_spec s usage) (2 ^ 64 - 1)
         \<and> bill_currency b = ts_currency s
         \<and> list_all2 (line_item_ok s) usage (bill_line_items b)"
proof -
  obtain b' where "evaluate s usage = (Inr b' :: 'ce BillingError + Bill)"
    and "bill_currency b' = ts_currency s"
    and "unat (bill_amount b') = min (charge_spec s usage) (2 ^ 64 - 1)"
    and "list_all2 (line_item_ok s) usage (bill_line_items b')"
    by (rule evaluate_ok [OF evaluate_Inr_priced [OF assms]])
  with assms show ?thesis by simp
qed

definition sample_schedule :: TariffSchedule where
  "sample_schedule =
     \<lparr> ts_currency = ''USDC'', ts_prices = [(BytesForwarded, 1), (Connections, 500)],
       ts_free_allowance = [(BytesForwarded, 1000)], ts_period_seconds = Some 2592000 \<rparr>"

theorem evaluate_exact_witness:
  "\<exists>b. evaluate sample_schedule [(BytesForwarded, 1500), (Connections, 3)]
         = (Inr b :: unit BillingError + Bill) \<and> unat (bill_amount b) = 2000"
proof -
  have "is_ok (evaluate sample_schedule [(BytesForwarded, 1500), (Connections, 3)] :: unit BillingError + Bill)"
    by (simp add: sample_schedule_def evaluate_def Let_def)
  then obtain b where b: "evaluate sample_schedule [(BytesForwarded, 1500), (Connections, 3)]
      = (Inr b :: unit BillingError + Bill)" by (auto elim: is_ok.elims)
  moreover have "charge_spec sample_schedule [(BytesForwarded, 1500), (Connections, 3)] = 2000"
    by (simp add: charge_spec_def free_of_def price_of_def sample_schedule_def al_get_or_def)
  ultimately show ?thesis using evaluate_exact [OF b] by auto
qed

text \<open>
  Evaluation fails closed exactly on unpriced usage: the only error is that of the first
  metered kind, in key order, that the schedule has no price for, and there is one whenever
  some metered kind is unpriced.
\<close>

lemma evaluate_unpriced:
  "evaluate s usage = (Inl e :: 'ce BillingError + Bill) \<longleftrightarrow>
   (\<exists>p. find (\<lambda>p. fst p \<notin> fst ` set (ts_prices s)) usage = Some p \<and> e = UnpricedKind (fst p))"
  by (rule evaluate_error)

text \<open>
  The wire form of a schedule decodes to the schedule: for every schedule whose price maps
  are in key order, and every CBOR library with the documented behaviour, decoding the encoded
  value returns it.
\<close>

lemma schedule_wire_roundtrip:
  assumes "kotva_laws K" and "schedule_inv s"
    and "cbor_decode K (cbor_encode K (schedule_to_cv K s)) = Inr (schedule_to_cv K s)"
  shows "schedule_from_cbor K (schedule_to_cbor K s) = Inr s"
  using assms by (simp add: schedule_from_cbor_def schedule_to_cbor_def schedule_from_to_cv)

lemma schedule_wire_roundtrip_witness:
  "\<exists>v. schedule_from_cbor (ref_kotva v) (schedule_to_cbor (ref_kotva v) sample_schedule) = Inr sample_schedule"
proof -
  define v where "v = schedule_to_cv (ref_kotva (RU64 0)) sample_schedule"
  have v: "schedule_to_cv (ref_kotva v) sample_schedule = v"
    unfolding v_def by (simp add: schedule_to_cv_def price_pairs_def split: option.split)
  have "cbor_decode (ref_kotva v) (cbor_encode (ref_kotva v) (schedule_to_cv (ref_kotva v) sample_schedule))
        = Inr (schedule_to_cv (ref_kotva v) sample_schedule)"
    unfolding v by simp
  moreover have "schedule_inv sample_schedule"
    by (simp add: schedule_inv_def sample_schedule_def bt_inv_def less_ResourceKind_def)
  ultimately show ?thesis using schedule_wire_roundtrip [OF ref_kotva_laws] by blast
qed

end
