(* ===== verification/Economics.thy ===== *)
theory Economics
  imports Prelude
begin

text \<open>
  Content visibility and coordinator kinds (\<open>crates/pier-economics/src/visibility.rs\<close>,
  \<open>kinds.rs\<close>): the visibility class and the assurance level of a coordinator, the closed list
  of kinds with their wire names, and what each kind typically declares.
\<close>

section \<open>Content visibility\<close>

datatype VisibilityClass = Blind | BlindRouting | Terminating

datatype AssuranceLevel = Structural | Attested | Declared

record ContentVisibility =
  vis_class :: VisibilityClass
  vis_level :: AssuranceLevel

abbreviation vis :: "VisibilityClass \<Rightarrow> AssuranceLevel \<Rightarrow> ContentVisibility" where
  "vis c l \<equiv> \<lparr> vis_class = c, vis_level = l \<rparr>"

definition is_verifiable :: "AssuranceLevel \<Rightarrow> bool" where
  "is_verifiable l = (l = Structural \<or> l = Attested)"

definition is_verifiably_blind :: "ContentVisibility \<Rightarrow> bool" where
  "is_verifiably_blind v = (vis_class v \<noteq> Terminating \<and> is_verifiable (vis_level v))"

definition must_not_present_as_verified :: "ContentVisibility \<Rightarrow> bool" where
  "must_not_present_as_verified v = (vis_class v \<noteq> Terminating \<and> \<not> is_verifiable (vis_level v))"

fun class_str :: "VisibilityClass \<Rightarrow> string" where
  "class_str Blind = ''blind''"
| "class_str BlindRouting = ''blind-routing''"
| "class_str Terminating = ''terminating''"

fun level_str :: "AssuranceLevel \<Rightarrow> string" where
  "level_str Structural = ''structural''"
| "level_str Attested = ''attested''"
| "level_str Declared = ''declared''"

definition visibility_str :: "ContentVisibility \<Rightarrow> string" where
  "visibility_str v = class_str (vis_class v) @ '' / '' @ level_str (vis_level v)"

section \<open>Coordinator kinds\<close>

datatype CoordinatorKind =
    Gateway | Relay | MediaRelay | ReachabilityAdapter | InfraService | Indexer | Labeler
  | Matcher | Arbiter | Oracle | CustodialEscrow

fun as_str :: "CoordinatorKind \<Rightarrow> string" where
  "as_str Gateway = ''gateway''"
| "as_str Relay = ''relay''"
| "as_str MediaRelay = ''media-relay''"
| "as_str ReachabilityAdapter = ''reachability-adapter''"
| "as_str InfraService = ''infra-service''"
| "as_str Indexer = ''indexer''"
| "as_str Labeler = ''labeler''"
| "as_str Matcher = ''matcher''"
| "as_str Arbiter = ''arbiter''"
| "as_str Oracle = ''oracle''"
| "as_str CustodialEscrow = ''custodial-escrow''"

definition from_wire_str :: "string \<Rightarrow> CoordinatorKind option" where
  "from_wire_str s =
     (if s = ''gateway'' then Some Gateway
      else if s = ''relay'' then Some Relay
      else if s = ''media-relay'' then Some MediaRelay
      else if s = ''reachability-adapter'' then Some ReachabilityAdapter
      else if s = ''infra-service'' then Some InfraService
      else if s = ''indexer'' then Some Indexer
      else if s = ''labeler'' then Some Labeler
      else if s = ''matcher'' then Some Matcher
      else if s = ''arbiter'' then Some Arbiter
      else if s = ''oracle'' then Some Oracle
      else if s = ''custodial-escrow'' then Some CustodialEscrow
      else None)"

fun typical_visibility :: "CoordinatorKind \<Rightarrow> ContentVisibility option" where
  "typical_visibility Gateway = Some (vis Terminating Declared)"
| "typical_visibility Relay = Some (vis Blind Structural)"
| "typical_visibility MediaRelay = Some (vis BlindRouting Structural)"
| "typical_visibility ReachabilityAdapter = Some (vis BlindRouting Structural)"
| "typical_visibility Indexer = None"
| "typical_visibility Labeler = None"
| "typical_visibility Matcher = Some (vis Terminating Declared)"
| "typical_visibility InfraService = Some (vis Terminating Declared)"
| "typical_visibility Arbiter = Some (vis Terminating Declared)"
| "typical_visibility Oracle = Some (vis Terminating Declared)"
| "typical_visibility CustodialEscrow = Some (vis Terminating Declared)"

definition is_load_bearing_exception :: "CoordinatorKind \<Rightarrow> bool" where
  "is_load_bearing_exception k = (k = CustodialEscrow)"

definition is_scarce_reachability :: "CoordinatorKind \<Rightarrow> bool" where
  "is_scarce_reachability k = (k = Gateway \<or> k = ReachabilityAdapter)"

section \<open>Lemmas\<close>

lemma from_wire_str_as_str [simp]: "from_wire_str (as_str k) = Some k"
  by (cases k) (simp_all add: from_wire_str_def)

lemma as_str_inj: "as_str a = as_str b \<Longrightarrow> a = b"
  by (metis from_wire_str_as_str option.inject)

lemma from_wire_str_Some: "from_wire_str s = Some k \<Longrightarrow> s = as_str k"
  by (auto simp: from_wire_str_def split: if_splits)

text \<open>
  A claim is either on a terminating class, or verifiable, or must be shown as unverified:
  the three cases are exhaustive and disjoint.
\<close>

lemma visibility_trichotomy:
  "vis_class v = Terminating \<or> is_verifiably_blind v \<or> must_not_present_as_verified v"
  "\<not> (is_verifiably_blind v \<and> must_not_present_as_verified v)"
  by (auto simp: is_verifiably_blind_def must_not_present_as_verified_def)

end
