(* ===== verification/Economics_Descriptor.thy ===== *)
theory Economics_Descriptor
  imports Economics Kotva
begin

text \<open>
  The signed objects of a coordinator (\<open>crates/pier-economics/src/descriptor.rs\<close>): tariffs,
  usage receipts and descriptors, their wire form, their signatures under separate domain
  tags, and the fail-closed decoder of a signed descriptor.
\<close>

section \<open>Constants, errors, objects\<close>

definition ascii :: "string \<Rightarrow> bytes" where
  "ascii s = map of_char s"

definition DESCRIPTOR_DS :: bytes where
  "DESCRIPTOR_DS = ascii ''DMTAP-COORD-v0/descriptor'' @ [0]"

definition TARIFF_DS :: bytes where
  "TARIFF_DS = ascii ''DMTAP-COORD-v0/tariff'' @ [0]"

definition USAGE_RECEIPT_DS :: bytes where
  "USAGE_RECEIPT_DS = ascii ''DMTAP-COORD-v0/usage-receipt'' @ [0]"

definition SUITE :: u8 where "SUITE = 1"

datatype ('ce, 'ie) DescriptorError =
    DBadSignature 'ie
  | DBadEncoding 'ce
  | DMalformed string
  | DUnsupportedSuite u8
  | DExpired u64 u64

record Tariff =
  t_identity :: bytes
  t_schedule :: bytes
  t_valid_until :: "u64 option"
  t_sig :: bytes

record UsageReceipt =
  ur_identity :: bytes
  ur_operation :: bytes
  ur_sig :: bytes

record Descriptor =
  d_identity :: bytes
  d_kind :: CoordinatorKind
  d_visibility :: ContentVisibility
  d_policy :: bytes
  d_tariff :: "Tariff option"

record SignedDescriptor =
  sd_descriptor :: Descriptor
  sd_sig :: bytes

definition require_supported_suite ::
  "('cv, 'f, 'ce, 'ik, 'ie) kotva \<Rightarrow> 'cv \<Rightarrow> ('ce, 'ie) DescriptorError + unit" where
  "require_supported_suite K cv =
     res_bind (map_err DBadEncoding (as_u8 K cv)) (\<lambda>b.
     if suite_is_classical K b then Inr () else Inl (DUnsupportedSuite b))"

section \<open>Tariffs\<close>

text \<open>The pairs shared by the signing body and the wire form of a tariff.\<close>

definition tariff_pairs ::
  "('cv, 'f, 'ce, 'ik, 'ie) kotva \<Rightarrow> bytes \<Rightarrow> bytes \<Rightarrow> u64 option \<Rightarrow> (u64 \<times> 'cv) list" where
  "tariff_pairs K identity schedule valid_until =
     [(1, cv_u64 K (ucast SUITE)), (2, cv_bytes K identity), (3, cv_bytes K schedule)]
     @ (case valid_until of None \<Rightarrow> [] | Some v \<Rightarrow> [(4, cv_u64 K v)])"

definition tariff_signing_body ::
  "('cv, 'f, 'ce, 'ik, 'ie) kotva \<Rightarrow> bytes \<Rightarrow> bytes \<Rightarrow> u64 option \<Rightarrow> bytes" where
  "tariff_signing_body K identity schedule valid_until =
     cbor_encode K (cv_map K (tariff_pairs K identity schedule valid_until))"

definition tariff_sign_with_validity ::
  "('cv, 'f, 'ce, 'ik, 'ie) kotva \<Rightarrow> bytes \<Rightarrow> u64 option \<Rightarrow> 'ik \<Rightarrow> Tariff" where
  "tariff_sign_with_validity K schedule valid_until ik =
     (let identity = ik_public K ik
      in \<lparr> t_identity = identity, t_schedule = schedule, t_valid_until = valid_until,
           t_sig = sign_domain K ik TARIFF_DS (tariff_signing_body K identity schedule valid_until) \<rparr>)"

definition tariff_sign :: "('cv, 'f, 'ce, 'ik, 'ie) kotva \<Rightarrow> bytes \<Rightarrow> 'ik \<Rightarrow> Tariff" where
  "tariff_sign K schedule ik = tariff_sign_with_validity K schedule None ik"

text \<open>\<open>now\<close> is the value of the wall clock, in milliseconds.\<close>

definition tariff_verify ::
  "('cv, 'f, 'ce, 'ik, 'ie) kotva \<Rightarrow> u64 \<Rightarrow> Tariff \<Rightarrow> ('ce, 'ie) DescriptorError + unit" where
  "tariff_verify K now t =
     res_bind (map_err DBadSignature (verify_domain K (t_identity t) TARIFF_DS
        (tariff_signing_body K (t_identity t) (t_schedule t) (t_valid_until t)) (t_sig t))) (\<lambda>_.
     case t_valid_until t of
       Some valid_until \<Rightarrow> if now > valid_until then Inl (DExpired valid_until now) else Inr ()
     | None \<Rightarrow> Inr ())"

definition tariff_to_cv :: "('cv, 'f, 'ce, 'ik, 'ie) kotva \<Rightarrow> Tariff \<Rightarrow> 'cv" where
  "tariff_to_cv K t =
     cv_map K (tariff_pairs K (t_identity t) (t_schedule t) (t_valid_until t)
               @ [(5, cv_bytes K (t_sig t))])"

definition tariff_from_cv ::
  "('cv, 'f, 'ce, 'ik, 'ie) kotva \<Rightarrow> 'cv \<Rightarrow> ('ce, 'ie) DescriptorError + Tariff" where
  "tariff_from_cv K cv =
     res_bind (map_err DBadEncoding (fields_from_cv K cv)) (\<lambda>f.
     res_bind (map_err DBadEncoding (fields_req K f 1)) (\<lambda>(s, f).
     res_bind (require_supported_suite K s) (\<lambda>_.
     res_bind (map_err DBadEncoding (fields_req K f 2)) (\<lambda>(i, f).
     res_bind (map_err DBadEncoding (as_bytes K i)) (\<lambda>identity.
     res_bind (map_err DBadEncoding (fields_req K f 3)) (\<lambda>(s, f).
     res_bind (map_err DBadEncoding (as_bytes K s)) (\<lambda>schedule.
     (\<lambda>(x, f).
       res_bind (map_err DBadEncoding (opt_u64 K x)) (\<lambda>valid_until.
       res_bind (map_err DBadEncoding (fields_req K f 5)) (\<lambda>(s, f).
       res_bind (map_err DBadEncoding (as_bytes K s)) (\<lambda>sig.
       res_bind (map_err DBadEncoding (deny_unknown K f)) (\<lambda>_.
       Inr \<lparr> t_identity = identity, t_schedule = schedule, t_valid_until = valid_until,
             t_sig = sig \<rparr>)))))
      (fields_take K f 4))))))))"

section \<open>Usage receipts\<close>

definition receipt_signing_body ::
  "('cv, 'f, 'ce, 'ik, 'ie) kotva \<Rightarrow> bytes \<Rightarrow> bytes \<Rightarrow> bytes" where
  "receipt_signing_body K identity operation =
     cbor_encode K (cv_map K
       [(1, cv_u64 K (ucast SUITE)), (2, cv_bytes K identity), (3, cv_bytes K operation)])"

definition receipt_sign ::
  "('cv, 'f, 'ce, 'ik, 'ie) kotva \<Rightarrow> bytes \<Rightarrow> 'ik \<Rightarrow> UsageReceipt" where
  "receipt_sign K operation ik =
     (let identity = ik_public K ik
      in \<lparr> ur_identity = identity, ur_operation = operation,
           ur_sig = sign_domain K ik USAGE_RECEIPT_DS (receipt_signing_body K identity operation) \<rparr>)"

definition receipt_verify ::
  "('cv, 'f, 'ce, 'ik, 'ie) kotva \<Rightarrow> UsageReceipt \<Rightarrow> ('ce, 'ie) DescriptorError + unit" where
  "receipt_verify K r =
     map_err DBadSignature (verify_domain K (ur_identity r) USAGE_RECEIPT_DS
       (receipt_signing_body K (ur_identity r) (ur_operation r)) (ur_sig r))"

section \<open>Visibility on the wire\<close>

definition visibility_to_cv :: "('cv, 'f, 'ce, 'ik, 'ie) kotva \<Rightarrow> ContentVisibility \<Rightarrow> 'cv" where
  "visibility_to_cv K v =
     cv_map K [(1, cv_text K (class_str (vis_class v))), (2, cv_text K (level_str (vis_level v)))]"

definition class_from_str :: "string \<Rightarrow> VisibilityClass option" where
  "class_from_str s =
     (if s = ''blind'' then Some Blind
      else if s = ''blind-routing'' then Some BlindRouting
      else if s = ''terminating'' then Some Terminating
      else None)"

definition level_from_str :: "string \<Rightarrow> AssuranceLevel option" where
  "level_from_str s =
     (if s = ''structural'' then Some Structural
      else if s = ''attested'' then Some Attested
      else if s = ''declared'' then Some Declared
      else None)"

definition visibility_from_cv ::
  "('cv, 'f, 'ce, 'ik, 'ie) kotva \<Rightarrow> 'cv \<Rightarrow> ('ce, 'ie) DescriptorError + ContentVisibility" where
  "visibility_from_cv K cv =
     res_bind (map_err DBadEncoding (fields_from_cv K cv)) (\<lambda>f.
     res_bind (map_err DBadEncoding (fields_req K f 1)) (\<lambda>(c, f).
     res_bind (map_err DBadEncoding (as_text K c)) (\<lambda>c.
     res_bind (ok_or (DMalformed ''unknown visibility class'') (class_from_str c)) (\<lambda>class.
     res_bind (map_err DBadEncoding (fields_req K f 2)) (\<lambda>(l, f).
     res_bind (map_err DBadEncoding (as_text K l)) (\<lambda>l.
     res_bind (ok_or (DMalformed ''unknown assurance level'') (level_from_str l)) (\<lambda>level.
     res_bind (map_err DBadEncoding (deny_unknown K f)) (\<lambda>_.
     Inr (vis class level)))))))))"

section \<open>Descriptors\<close>

definition descriptor_pairs ::
  "('cv, 'f, 'ce, 'ik, 'ie) kotva \<Rightarrow> Descriptor \<Rightarrow> (u64 \<times> 'cv) list" where
  "descriptor_pairs K d =
     [(1, cv_u64 K (ucast SUITE)),
      (2, cv_text K (as_str (d_kind d))),
      (3, cv_bytes K (d_identity d)),
      (4, visibility_to_cv K (d_visibility d)),
      (5, cv_bytes K (d_policy d))]
     @ (case d_tariff d of None \<Rightarrow> [] | Some t \<Rightarrow> [(6, tariff_to_cv K t)])"

definition descriptor_to_cv :: "('cv, 'f, 'ce, 'ik, 'ie) kotva \<Rightarrow> Descriptor \<Rightarrow> 'cv" where
  "descriptor_to_cv K d = cv_map K (descriptor_pairs K d)"

definition opt_field_tariff ::
  "('cv, 'f, 'ce, 'ik, 'ie) kotva \<Rightarrow> 'cv option \<Rightarrow> ('ce, 'ie) DescriptorError + Tariff option" where
  "opt_field_tariff K x =
     (case x of None \<Rightarrow> Inr None | Some cv \<Rightarrow> res_bind (tariff_from_cv K cv) (\<lambda>t. Inr (Some t)))"

definition descriptor_from_cv ::
  "('cv, 'f, 'ce, 'ik, 'ie) kotva \<Rightarrow> 'cv \<Rightarrow> ('ce, 'ie) DescriptorError + Descriptor" where
  "descriptor_from_cv K cv =
     res_bind (map_err DBadEncoding (fields_from_cv K cv)) (\<lambda>f.
     res_bind (map_err DBadEncoding (fields_req K f 1)) (\<lambda>(s, f).
     res_bind (require_supported_suite K s) (\<lambda>_.
     res_bind (map_err DBadEncoding (fields_req K f 2)) (\<lambda>(k, f).
     res_bind (map_err DBadEncoding (as_text K k)) (\<lambda>k.
     res_bind (ok_or (DMalformed ''unknown coordinator kind'') (from_wire_str k)) (\<lambda>kind.
     res_bind (map_err DBadEncoding (fields_req K f 3)) (\<lambda>(i, f).
     res_bind (map_err DBadEncoding (as_bytes K i)) (\<lambda>identity.
     res_bind (map_err DBadEncoding (fields_req K f 4)) (\<lambda>(v, f).
     res_bind (visibility_from_cv K v) (\<lambda>visibility.
     res_bind (map_err DBadEncoding (fields_req K f 5)) (\<lambda>(p, f).
     res_bind (map_err DBadEncoding (as_bytes K p)) (\<lambda>policy.
     (\<lambda>(x, f).
       res_bind (opt_field_tariff K x) (\<lambda>tariff.
       res_bind (map_err DBadEncoding (deny_unknown K f)) (\<lambda>_.
       Inr \<lparr> d_identity = identity, d_kind = kind, d_visibility = visibility,
             d_policy = policy, d_tariff = tariff \<rparr>)))
      (fields_take K f 6)))))))))))))"

definition descriptor_signing_body :: "('cv, 'f, 'ce, 'ik, 'ie) kotva \<Rightarrow> Descriptor \<Rightarrow> bytes" where
  "descriptor_signing_body K d = cbor_encode K (descriptor_to_cv K d)"

definition descriptor_sign ::
  "('cv, 'f, 'ce, 'ik, 'ie) kotva \<Rightarrow> Descriptor \<Rightarrow> 'ik \<Rightarrow> SignedDescriptor" where
  "descriptor_sign K d ik =
     \<lparr> sd_descriptor = d, sd_sig = sign_domain K ik DESCRIPTOR_DS (descriptor_signing_body K d) \<rparr>"

definition signed_verify ::
  "('cv, 'f, 'ce, 'ik, 'ie) kotva \<Rightarrow> SignedDescriptor \<Rightarrow> ('ce, 'ie) DescriptorError + unit" where
  "signed_verify K sd =
     map_err DBadSignature (verify_domain K (d_identity (sd_descriptor sd)) DESCRIPTOR_DS
       (descriptor_signing_body K (sd_descriptor sd)) (sd_sig sd))"

definition det_cbor_cv :: "('cv, 'f, 'ce, 'ik, 'ie) kotva \<Rightarrow> SignedDescriptor \<Rightarrow> 'cv" where
  "det_cbor_cv K sd = cv_map K (descriptor_pairs K (sd_descriptor sd) @ [(7, cv_bytes K (sd_sig sd))])"

definition det_cbor :: "('cv, 'f, 'ce, 'ik, 'ie) kotva \<Rightarrow> SignedDescriptor \<Rightarrow> bytes" where
  "det_cbor K sd = cbor_encode K (det_cbor_cv K sd)"

definition signed_from_cv ::
  "('cv, 'f, 'ce, 'ik, 'ie) kotva \<Rightarrow> 'cv \<Rightarrow> ('ce, 'ie) DescriptorError + SignedDescriptor" where
  "signed_from_cv K cv =
     res_bind (map_err DBadEncoding (fields_from_cv K cv)) (\<lambda>f.
     res_bind (map_err DBadEncoding (fields_req K f 7)) (\<lambda>(s, f).
     res_bind (map_err DBadEncoding (as_bytes K s)) (\<lambda>sig.
     res_bind (descriptor_from_cv K (cv_map K (into_pairs K f))) (\<lambda>descriptor.
     let signed = \<lparr> sd_descriptor = descriptor, sd_sig = sig \<rparr>
     in res_bind (signed_verify K signed) (\<lambda>_. Inr signed)))))"

definition from_det_cbor ::
  "('cv, 'f, 'ce, 'ik, 'ie) kotva \<Rightarrow> bytes \<Rightarrow> ('ce, 'ie) DescriptorError + SignedDescriptor" where
  "from_det_cbor K b = res_bind (map_err DBadEncoding (cbor_decode K b)) (signed_from_cv K)"

section \<open>Lemmas: decoding what was encoded\<close>

lemma class_from_class_str [simp]: "class_from_str (class_str c) = Some c"
  by (cases c) (simp_all add: class_from_str_def)

lemma level_from_level_str [simp]: "level_from_str (level_str l) = Some l"
  by (cases l) (simp_all add: level_from_str_def)

lemma require_supported_suite_SUITE:
  "kotva_laws K \<Longrightarrow> require_supported_suite K (cv_u64 K (ucast SUITE)) = Inr ()"
  by (simp add: require_supported_suite_def kotva_readers(2)) (simp add: SUITE_def kotva_readers(8))

lemma tariff_from_to_cv:
  assumes K: "kotva_laws K"
  shows "tariff_from_cv K (tariff_to_cv K t) = Inr t"
  unfolding tariff_from_cv_def tariff_to_cv_def tariff_pairs_def
  apply (rule fields_step [OF K])
   apply (simp split: option.split)
  apply (rule req_step [OF K], assumption, simp)
  apply (simp add: require_supported_suite_SUITE [OF K])
  apply (rule req_step [OF K], assumption, simp add: al_remove_def, simp add: kotva_simps [OF K])
  apply (rule req_step [OF K], assumption, simp add: al_remove_def, simp add: kotva_simps [OF K])
  apply (rule take_step [OF K], assumption)
  apply (cases t, cases "t_valid_until t")
   apply (simp_all add: opt_u64_def al_remove_def kotva_simps [OF K])
   apply (rule req_step [OF K], assumption, simp, simp add: al_remove_def kotva_simps [OF K])+
  done

lemma visibility_from_to_cv:
  assumes K: "kotva_laws K"
  shows "visibility_from_cv K (visibility_to_cv K v) = Inr v"
  unfolding visibility_from_cv_def visibility_to_cv_def
  apply (rule fields_step [OF K], simp)
  apply (rule req_step [OF K], assumption, simp, simp add: kotva_simps [OF K])
  apply (rule req_step [OF K], assumption, simp add: al_remove_def, simp add: kotva_simps [OF K] al_remove_def)
  done

lemma descriptor_from_to_cv:
  assumes K: "kotva_laws K"
  shows "descriptor_from_cv K (cv_map K (descriptor_pairs K d)) = Inr d"
  unfolding descriptor_from_cv_def descriptor_pairs_def
  apply (rule fields_step [OF K])
   apply (simp split: option.split)
  apply (rule req_step [OF K], assumption, simp)
  apply (simp add: require_supported_suite_SUITE [OF K])
  apply (rule req_step [OF K], assumption, simp add: al_remove_def, simp add: kotva_simps [OF K])
  apply (rule req_step [OF K], assumption, simp add: al_remove_def, simp add: kotva_simps [OF K])
  apply (rule req_step [OF K], assumption, simp add: al_remove_def, simp add: visibility_from_to_cv [OF K])
  apply (rule req_step [OF K], assumption, simp add: al_remove_def, simp add: kotva_simps [OF K])
  apply (rule take_step [OF K], assumption)
  apply (cases d, cases "d_tariff d")
   apply (simp_all add: opt_field_tariff_def al_remove_def kotva_simps [OF K] tariff_from_to_cv [OF K])
  done

lemma signed_from_det_cbor_cv:
  assumes K: "kotva_laws K" and ver: "signed_verify K sd = Inr ()"
  shows "signed_from_cv K (det_cbor_cv K sd) = Inr sd"
proof -
  have rest: "al_remove 7 (descriptor_pairs K d @ [(7, x)]) = descriptor_pairs K d" for d x
    by (simp add: descriptor_pairs_def al_remove_def split: option.split)
  show ?thesis
    unfolding signed_from_cv_def det_cbor_cv_def
    apply (rule fields_step [OF K])
     apply (simp add: descriptor_pairs_def split: option.split)
    apply (rule req_step [OF K, where v = "cv_bytes K (sd_sig sd)"], assumption)
     apply (simp add: descriptor_pairs_def split: option.split)
    using ver apply (cases sd)
    apply (simp add: kotva_simps [OF K] rest descriptor_from_to_cv [OF K] Let_def)
    done
qed

lemma res_bind_unit_Inr: "res_bind r (\<lambda>_. Inr x) = Inr y \<longleftrightarrow> r = Inr () \<and> y = x"
  by (cases r) auto

section \<open>Properties\<close>

text \<open>
  (C36) A signed descriptor survives the wire: a coordinator that signs a descriptor carrying its
  own public key, encodes it and hands over the bytes, gives a reader who decodes and verifies
  them back exactly that signed descriptor.
\<close>

theorem signed_descriptor_roundtrip:
  assumes K: "kotva_laws K" and id: "d_identity d = ik_public K ik"
    and codec: "cbor_decode K (det_cbor K (descriptor_sign K d ik)) = Inr (det_cbor_cv K (descriptor_sign K d ik))"
  shows "from_det_cbor K (det_cbor K (descriptor_sign K d ik)) = Inr (descriptor_sign K d ik)"
proof -
  have "signed_verify K (descriptor_sign K d ik) = Inr ()"
    by (simp add: signed_verify_def descriptor_sign_def id kotva_simps [OF K])
  then show ?thesis by (simp add: from_det_cbor_def codec signed_from_det_cbor_cv [OF K])
qed

definition sample_descriptor :: Descriptor where
  "sample_descriptor = \<lparr> d_identity = [7], d_kind = Relay, d_visibility = vis Blind Structural,
     d_policy = [1, 2], d_tariff = None \<rparr>"

theorem signed_descriptor_roundtrip_witness:
  "\<exists>v. from_det_cbor (ref_kotva v) (det_cbor (ref_kotva v) (descriptor_sign (ref_kotva v) sample_descriptor [7]))
        = Inr (descriptor_sign (ref_kotva v) sample_descriptor [7])"
proof -
  let ?body = "RMap [(1, RU64 1), (2, RText ''relay''), (3, RBytes [7]),
                     (4, RMap [(1, RText ''blind''), (2, RText ''structural'')]), (5, RBytes [1, 2])]"
  let ?v = "RMap [(1, RU64 1), (2, RText ''relay''), (3, RBytes [7]),
                  (4, RMap [(1, RText ''blind''), (2, RText ''structural'')]), (5, RBytes [1, 2]),
                  (7, RBytes ([7] @ DESCRIPTOR_DS @ [0]))]"
  let ?sd = "descriptor_sign (ref_kotva ?v) sample_descriptor [7]"
  have "descriptor_to_cv (ref_kotva ?v) sample_descriptor = ?body"
    by (simp add: descriptor_to_cv_def descriptor_pairs_def sample_descriptor_def visibility_to_cv_def SUITE_def)
  then have "det_cbor_cv (ref_kotva ?v) ?sd = ?v"
    by (simp add: det_cbor_cv_def descriptor_sign_def descriptor_signing_body_def descriptor_pairs_def
        sample_descriptor_def visibility_to_cv_def SUITE_def)
  then have "cbor_decode (ref_kotva ?v) (det_cbor (ref_kotva ?v) ?sd) = Inr (det_cbor_cv (ref_kotva ?v) ?sd)"
    by (simp add: det_cbor_def)
  moreover have "d_identity sample_descriptor = ik_public (ref_kotva ?v) [7]"
    by (simp add: sample_descriptor_def)
  ultimately show ?thesis using signed_descriptor_roundtrip [OF ref_kotva_laws] by blast
qed

text \<open>
  (C21) The reader is fail-closed: whatever the CBOR library does, a signed descriptor returned
  from bytes verifies under the identity it names, over its own canonical body, with the
  descriptor tag; nothing unverified is ever returned.
\<close>

theorem from_det_cbor_verified:
  "from_det_cbor K b = Inr sd \<Longrightarrow>
   verify_domain K (d_identity (sd_descriptor sd)) DESCRIPTOR_DS
     (cbor_encode K (descriptor_to_cv K (sd_descriptor sd))) (sd_sig sd) = Inr ()"
  by (auto simp: from_det_cbor_def signed_from_cv_def res_simps res_bind_unit_Inr Let_def signed_verify_def
      descriptor_signing_body_def)

theorem from_det_cbor_verified_witness:
  "\<exists>v sd. from_det_cbor (ref_kotva v) [1] = Inr sd \<and> verify_domain (ref_kotva v) (d_identity (sd_descriptor sd)) DESCRIPTOR_DS
     (cbor_encode (ref_kotva v) (descriptor_to_cv (ref_kotva v) (sd_descriptor sd))) (sd_sig sd) = Inr ()"
proof -
  let ?v = "RMap [(1, RU64 1), (2, RText ''relay''), (3, RBytes [7]),
                  (4, RMap [(1, RText ''blind''), (2, RText ''structural'')]), (5, RBytes [1, 2]),
                  (7, RBytes ([7] @ DESCRIPTOR_DS @ [0]))]"
  have "is_ok (from_det_cbor (ref_kotva ?v) [1])"
    by (simp add: from_det_cbor_def signed_from_cv_def descriptor_from_cv_def require_supported_suite_def
        visibility_from_cv_def class_from_str_def level_from_str_def from_wire_str_def
        opt_field_tariff_def signed_verify_def descriptor_signing_body_def descriptor_to_cv_def
        descriptor_pairs_def visibility_to_cv_def SUITE_def al_remove_def ref_kotva_def Let_def)
  then obtain sd where "from_det_cbor (ref_kotva ?v) [1] = Inr sd" by (auto elim: is_ok.elims)
  then show ?thesis using from_det_cbor_verified [of "ref_kotva ?v" "[1]" sd]
    by (intro exI [of _ ?v] exI [of _ sd]) simp
qed

text \<open>
  A tariff signed with a validity horizon verifies, on every clock, exactly until that
  horizon: at the last valid millisecond it is accepted and afterwards it is refused as expired.
\<close>

lemma tariff_verify_until_expiry:
  assumes "kotva_laws K"
  shows "tariff_verify K now (tariff_sign_with_validity K schedule valid_until ik)
         = (case valid_until of
              Some v \<Rightarrow> if now \<le> v then Inr () else Inl (DExpired v now)
            | None \<Rightarrow> Inr ())"
  using assms
  by (auto simp: tariff_verify_def tariff_sign_with_validity_def Let_def kotva_simps not_less
      split: option.split)

lemma tariff_verify_until_expiry_witness:
  "tariff_verify (ref_kotva (RU64 0)) 101 (tariff_sign_with_validity (ref_kotva (RU64 0)) [1] (Some 100) [7])
   = Inl (DExpired 100 101)"
  using tariff_verify_until_expiry [OF ref_kotva_laws, of "RU64 0" 101 "[1]" "Some 100" "[7]"] by simp

end
