(* ===== verification/Billing_Receipt.thy ===== *)
theory Billing_Receipt
  imports Billing_Tariff Economics_Descriptor
begin

text \<open>
  Signed usage receipts (\<open>crates/pier-billing/src/receipt.rs\<close>): the billed operation a receipt
  carries, its wire form, and the log that issues one signed receipt per line of a bill.
\<close>

section \<open>Billed operations\<close>

datatype ('ce, 'ie) ReceiptError =
    RBadEncoding 'ce
  | RMalformed string
  | RSignature "('ce, 'ie) DescriptorError"

record BilledOperation =
  op_payer :: bytes
  op_kind :: ResourceKind
  op_metered_units :: u64
  op_billed_units :: u64
  op_amount :: u64
  op_currency :: string
  op_sequence :: u64

definition op_to_cv :: "('cv, 'f, 'ce, 'ik, 'ie) kotva \<Rightarrow> BilledOperation \<Rightarrow> 'cv" where
  "op_to_cv K p =
     cv_map K
       [(1, cv_bytes K (op_payer p)),
        (2, cv_u64 K (wire_tag (op_kind p))),
        (3, cv_u64 K (op_metered_units p)),
        (4, cv_u64 K (op_billed_units p)),
        (5, cv_u64 K (op_amount p)),
        (6, cv_text K (op_currency p)),
        (7, cv_u64 K (op_sequence p))]"

text \<open>A required integer field, as every numeric field of the operation is read.\<close>

definition req_u64 ::
  "('cv, 'f, 'ce, 'ik, 'ie) kotva \<Rightarrow> 'f \<Rightarrow> u64 \<Rightarrow> ('ce, 'ie) ReceiptError + u64 \<times> 'f" where
  "req_u64 K f k =
     res_bind (map_err RBadEncoding (fields_req K f k)) (\<lambda>(v, f).
     res_bind (map_err RBadEncoding (as_u64 K v)) (\<lambda>n. Inr (n, f)))"

definition op_from_cv ::
  "('cv, 'f, 'ce, 'ik, 'ie) kotva \<Rightarrow> 'cv \<Rightarrow> ('ce, 'ie) ReceiptError + BilledOperation" where
  "op_from_cv K cv =
     res_bind (map_err RBadEncoding (fields_from_cv K cv)) (\<lambda>f.
     res_bind (map_err RBadEncoding (fields_req K f 1)) (\<lambda>(p, f).
     res_bind (map_err RBadEncoding (as_bytes K p)) (\<lambda>payer.
     res_bind (req_u64 K f 2) (\<lambda>(tag, f).
     res_bind (ok_or (RMalformed ''unknown resource-kind wire tag'') (from_wire_tag tag)) (\<lambda>kind.
     res_bind (req_u64 K f 3) (\<lambda>(metered_units, f).
     res_bind (req_u64 K f 4) (\<lambda>(billed_units, f).
     res_bind (req_u64 K f 5) (\<lambda>(amount, f).
     res_bind (map_err RBadEncoding (fields_req K f 6)) (\<lambda>(c, f).
     res_bind (map_err RBadEncoding (as_text K c)) (\<lambda>currency.
     res_bind (req_u64 K f 7) (\<lambda>(sequence, f).
     res_bind (map_err RBadEncoding (deny_unknown K f)) (\<lambda>_.
     Inr \<lparr> op_payer = payer, op_kind = kind, op_metered_units = metered_units,
           op_billed_units = billed_units, op_amount = amount, op_currency = currency,
           op_sequence = sequence \<rparr>))))))))))))"

definition op_to_cbor :: "('cv, 'f, 'ce, 'ik, 'ie) kotva \<Rightarrow> BilledOperation \<Rightarrow> bytes" where
  "op_to_cbor K p = cbor_encode K (op_to_cv K p)"

definition op_sign :: "('cv, 'f, 'ce, 'ik, 'ie) kotva \<Rightarrow> BilledOperation \<Rightarrow> 'ik \<Rightarrow> UsageReceipt" where
  "op_sign K p ik = receipt_sign K (op_to_cbor K p) ik"

definition from_receipt ::
  "('cv, 'f, 'ce, 'ik, 'ie) kotva \<Rightarrow> UsageReceipt \<Rightarrow> ('ce, 'ie) ReceiptError + BilledOperation" where
  "from_receipt K r = res_bind (map_err RBadEncoding (cbor_decode K (ur_operation r))) (op_from_cv K)"

section \<open>The receipt log\<close>

record ReceiptLog =
  log_receipts :: "UsageReceipt list"
  log_next_sequence :: u64

definition log_new :: ReceiptLog where
  "log_new = \<lparr> log_receipts = [], log_next_sequence = 0 \<rparr>"

text \<open>The operation the log builds for one line of a bill.\<close>

definition line_op :: "bytes \<Rightarrow> string \<Rightarrow> u64 \<Rightarrow> LineItem \<Rightarrow> BilledOperation" where
  "line_op payer currency sequence item =
     \<lparr> op_payer = payer, op_kind = li_kind item, op_metered_units = li_metered_units item,
       op_billed_units = li_billed_units item, op_amount = li_amount item,
       op_currency = currency, op_sequence = sequence \<rparr>"

fun issue_lines ::
  "('cv, 'f, 'ce, 'ik, 'ie) kotva \<Rightarrow> 'ik \<Rightarrow> bytes \<Rightarrow> string \<Rightarrow> ReceiptLog \<Rightarrow> LineItem list
   \<Rightarrow> UsageReceipt list \<times> ReceiptLog" where
  "issue_lines K ik payer currency log [] = ([], log)"
| "issue_lines K ik payer currency log (item # items) =
     (let receipt = op_sign K (line_op payer currency (log_next_sequence log) item) ik;
          log' = log\<lparr> log_receipts := log_receipts log @ [receipt],
                      log_next_sequence := log_next_sequence log + 1 \<rparr>;
          (rs, log'') = issue_lines K ik payer currency log' items
      in (receipt # rs, log''))"

definition issue_for_bill ::
  "('cv, 'f, 'ce, 'ik, 'ie) kotva \<Rightarrow> ReceiptLog \<Rightarrow> bytes \<Rightarrow> Bill \<Rightarrow> 'ik \<Rightarrow> UsageReceipt list \<times> ReceiptLog" where
  "issue_for_bill K log payer bill ik =
     issue_lines K ik payer (bill_currency bill) log (bill_line_items bill)"

definition issue ::
  "('cv, 'f, 'ce, 'ik, 'ie) kotva \<Rightarrow> ReceiptLog \<Rightarrow> BilledOperation \<Rightarrow> 'ik \<Rightarrow> UsageReceipt \<times> ReceiptLog" where
  "issue K log p ik =
     (let receipt = op_sign K p ik
      in (receipt, log\<lparr> log_receipts := log_receipts log @ [receipt] \<rparr>))"

fun verify_receipts ::
  "('cv, 'f, 'ce, 'ik, 'ie) kotva \<Rightarrow> UsageReceipt list \<Rightarrow> ('ce, 'ie) DescriptorError + unit" where
  "verify_receipts K [] = Inr ()"
| "verify_receipts K (r # rs) = res_bind (receipt_verify K r) (\<lambda>_. verify_receipts K rs)"

definition verify_all ::
  "('cv, 'f, 'ce, 'ik, 'ie) kotva \<Rightarrow> ReceiptLog \<Rightarrow> ('ce, 'ie) DescriptorError + unit" where
  "verify_all K log = verify_receipts K (log_receipts log)"

section \<open>Lemmas\<close>

lemma req_u64_step:
  assumes "kotva_laws K" and "into_pairs K f = m" and "map_of m k = Some (cv_u64 K n)"
    and "\<And>f'. into_pairs K f' = al_remove k m \<Longrightarrow> g (n, f') = r"
  shows "res_bind (req_u64 K f k) g = r"
proof -
  from assms(1-3) obtain f' where "fields_req K f k = Inr (cv_u64 K n, f')"
    and "into_pairs K f' = al_remove k m"
    unfolding kotva_laws_def by blast
  with assms(1,4) show ?thesis by (simp add: req_u64_def kotva_simps)
qed

lemma op_from_to_cv:
  assumes K: "kotva_laws K"
  shows "op_from_cv K (op_to_cv K p) = Inr p"
  unfolding op_from_cv_def op_to_cv_def
  apply (rule fields_step [OF K], simp)
  apply (rule req_step [OF K], assumption, simp, simp add: kotva_simps [OF K])
  apply (rule req_u64_step [OF K], assumption, simp add: al_remove_def, simp)
  apply (rule req_u64_step [OF K], assumption, simp add: al_remove_def, simp)+
  apply (rule req_step [OF K], assumption, simp add: al_remove_def, simp add: kotva_simps [OF K])
  apply (rule req_u64_step [OF K], assumption, simp add: al_remove_def)
  apply (simp add: al_remove_def kotva_simps [OF K])
  done

lemma receipt_verify_sign: "kotva_laws K \<Longrightarrow> receipt_verify K (op_sign K p ik) = Inr ()"
  by (simp add: op_sign_def receipt_sign_def receipt_verify_def Let_def kotva_simps)

lemma verify_receipts_iff: "verify_receipts K rs = Inr () \<longleftrightarrow> (\<forall>r \<in> set rs. receipt_verify K r = Inr ())"
  by (induction rs) (auto simp: res_simps)

text \<open>What issuing a bill adds to the log: one receipt per line, numbered consecutively.\<close>

lemma issue_lines_eq:
  "issue_lines K ik payer currency log items =
     (let rs = map (\<lambda>(i, item). op_sign K (line_op payer currency (log_next_sequence log + of_nat i) item) ik)
                 (enumerate 0 items)
      in (rs, log\<lparr> log_receipts := log_receipts log @ rs,
                   log_next_sequence := log_next_sequence log + of_nat (length items) \<rparr>))"
proof (induction items arbitrary: log)
  case (Cons item items)
  have shift: "enumerate (Suc 0) items = map (\<lambda>(i, x). (Suc i, x)) (enumerate 0 items)"
    by (auto simp: enumerate_Suc_eq apfst_def)
  show ?case
    by (simp add: Cons.IH Let_def shift comp_def case_prod_beta algebra_simps)
qed simp

text \<open>The log as a machine of its two issuing operations.\<close>

datatype 'ik log_cmd = Issue BilledOperation 'ik | IssueForBill bytes Bill 'ik

fun log_step :: "('cv, 'f, 'ce, 'ik, 'ie) kotva \<Rightarrow> ReceiptLog \<Rightarrow> 'ik log_cmd \<Rightarrow> ReceiptLog" where
  "log_step K log (Issue p ik) = snd (issue K log p ik)"
| "log_step K log (IssueForBill payer bill ik) = snd (issue_for_bill K log payer bill ik)"

definition log_inv :: "('cv, 'f, 'ce, 'ik, 'ie) kotva \<Rightarrow> ReceiptLog \<Rightarrow> bool" where
  "log_inv K log = (kotva_laws K \<longrightarrow> verify_all K log = Inr ())"

lemma log_step_inv: "log_inv K log \<Longrightarrow> log_inv K (log_step K log c)"
  by (cases c) (auto simp: log_inv_def verify_all_def verify_receipts_iff issue_def issue_for_bill_def
      issue_lines_eq Let_def receipt_verify_sign)

interpretation rl: invariant_machine "log_step K" "log_inv K" for K
  by unfold_locales (rule log_step_inv)

section \<open>Properties\<close>

text \<open>
  Billing a bill issues, in the order of its lines, one receipt per line; each receipt
  verifies, and decoding it gives exactly the payer, kind, units, amount and currency of its
  line and the next number of the log, so the log's numbering has no gaps.
\<close>

lemma issue_for_bill_receipts:
  assumes K: "kotva_laws K"
    and codec: "\<And>i. i < length (bill_line_items bill) \<Longrightarrow>
      cbor_decode K (op_to_cbor K (line_op payer (bill_currency bill) (log_next_sequence log + of_nat i) (bill_line_items bill ! i)))
      = Inr (op_to_cv K (line_op payer (bill_currency bill) (log_next_sequence log + of_nat i) (bill_line_items bill ! i)))"
    and issued: "issue_for_bill K log payer bill ik = (rs, log')"
  shows "length rs = length (bill_line_items bill)
    \<and> (\<forall>i < length rs. receipt_verify K (rs ! i) = Inr ()
         \<and> from_receipt K (rs ! i)
           = Inr (line_op payer (bill_currency bill) (log_next_sequence log + of_nat i) (bill_line_items bill ! i)))
    \<and> log_receipts log' = log_receipts log @ rs
    \<and> log_next_sequence log' = log_next_sequence log + of_nat (length rs)"
proof -
  have "from_receipt K (op_sign K p ik) = Inr p" if "cbor_decode K (op_to_cbor K p) = Inr (op_to_cv K p)" for p
    using that by (simp add: from_receipt_def op_sign_def receipt_sign_def Let_def op_from_to_cv [OF K])
  with codec issued show ?thesis
    by (auto simp: issue_for_bill_def issue_lines_eq Let_def receipt_verify_sign [OF K] nth_enumerate_eq)
qed

definition sample_bill :: Bill where
  "sample_bill = \<lparr> bill_currency = ''USD'', bill_amount = 5,
     bill_line_items = [\<lparr> li_kind = Messages, li_metered_units = 7, li_free_units_applied = 2,
       li_billed_units = 5, li_unit_price = 1, li_amount = 5 \<rparr>] \<rparr>"

lemma issue_for_bill_receipts_witness:
  "\<exists>v rs log'. issue_for_bill (ref_kotva v) log_new [1] sample_bill [7] = (rs, log') \<and> length rs = 1
     \<and> from_receipt (ref_kotva v) (rs ! 0) = Inr (line_op [1] ''USD'' 0 (hd (bill_line_items sample_bill)))"
proof -
  define v where "v = op_to_cv (ref_kotva (RU64 0)) (line_op [1] ''USD'' 0 (hd (bill_line_items sample_bill)))"
  have v: "op_to_cv (ref_kotva v) (line_op [1] ''USD'' 0 (hd (bill_line_items sample_bill))) = v"
    unfolding v_def by (simp add: op_to_cv_def)
  obtain rs log' where i: "issue_for_bill (ref_kotva v) log_new [1] sample_bill [7] = (rs, log')"
    by fastforce
  have "length rs = 1 \<and> from_receipt (ref_kotva v) (rs ! 0)
          = Inr (line_op [1] ''USD'' 0 (hd (bill_line_items sample_bill)))"
    using issue_for_bill_receipts [OF ref_kotva_laws _ i] v
    by (simp add: sample_bill_def op_to_cbor_def log_new_def)
  with i show ?thesis by blast
qed

text \<open>
  A log built by any sequence of issuing operations, by any keys and for any operations,
  verifies as a whole. Verification therefore says that receipts were signed, not that the
  operations happened: the operations are arbitrary here.
\<close>

lemma receipt_log_verifies:
  assumes "kotva_laws K"
  shows "verify_all K (foldl (log_step K) log_new cmds) = Inr ()"
proof -
  have "log_inv K log_new" by (simp add: log_inv_def verify_all_def log_new_def)
  from rl.run_inv [OF this] assms show ?thesis by (simp add: log_inv_def)
qed

lemma receipt_log_verifies_witness:
  "verify_all (ref_kotva (RU64 0)) (foldl (log_step (ref_kotva (RU64 0))) log_new
     [IssueForBill [1] sample_bill [7], Issue (line_op [2] ''USD'' 9 (hd (bill_line_items sample_bill))) [8]]) = Inr ()"
  by (rule receipt_log_verifies [OF ref_kotva_laws])

end
