(* ===== verification/Billing_Prepaid.thy ===== *)
theory Billing_Prepaid
  imports Billing_Receipt "HOL-Library.Multiset"
begin

text \<open>
  The prepaid ledger (\<open>crates/pier-billing/src/prepaid.rs\<close>): top-ups on the strength of a
  funding reference, debits of bills, refunds, and the records of each. A panic of the source
  (the \<open>expect\<close> in \<open>top_up\<close>) is \<open>None\<close>. The transaction counter is a \<open>u64\<close> that wraps, as
  in a release build. Each operation holds the ledger's locks for its critical section, so an
  execution is a sequence of operations.
\<close>

section \<open>State\<close>

datatype BillingState = StateOk | LowBalance | Exhausted

datatype PrepaidError =
    CurrencyMismatch string string
  | CreditExhausted bytes u64 u64 string
  | RefundExceedsBalance bytes u64 u64

record TopUpRecord =
  tu_payer :: bytes
  tu_amount :: u64
  tu_currency :: string
  tu_funding_ref :: string
  tu_tx_seq :: u64

record DebitRecord =
  db_payer :: bytes
  db_amount :: u64
  db_currency :: string
  db_tx_seq :: u64

record RefundRecord =
  rf_payer :: bytes
  rf_amount :: u64
  rf_currency :: string
  rf_tx_seq :: u64

record CreditAccount =
  ca_payer :: bytes
  ca_currency :: string
  ca_balance :: u64
  ca_low_balance_threshold :: u64

record PrepaidLedger =
  pl_currency :: string
  pl_low_balance_threshold :: u64
  pl_balances :: "(bytes \<times> u64) list"
  pl_top_ups :: "TopUpRecord list"
  pl_debits :: "DebitRecord list"
  pl_refunds :: "RefundRecord list"
  pl_next_tx_seq :: u64
  pl_credited_refs :: "string set"

section \<open>Operations\<close>

definition account_state :: "CreditAccount \<Rightarrow> BillingState" where
  "account_state a =
     (if ca_balance a = 0 then Exhausted
      else if ca_balance a \<le> ca_low_balance_threshold a then LowBalance
      else StateOk)"

definition prepaid_new :: "string \<Rightarrow> u64 \<Rightarrow> PrepaidLedger" where
  "prepaid_new currency threshold =
     \<lparr> pl_currency = currency, pl_low_balance_threshold = threshold, pl_balances = [],
       pl_top_ups = [], pl_debits = [], pl_refunds = [], pl_next_tx_seq = 0,
       pl_credited_refs = {} \<rparr>"

definition next_seq :: "PrepaidLedger \<Rightarrow> u64 \<times> PrepaidLedger" where
  "next_seq l = (pl_next_tx_seq l, l\<lparr> pl_next_tx_seq := pl_next_tx_seq l + 1 \<rparr>)"

definition balance :: "PrepaidLedger \<Rightarrow> bytes \<Rightarrow> u64" where
  "balance l payer = al_get_or 0 (pl_balances l) payer"

definition top_up ::
  "PrepaidLedger \<Rightarrow> bytes \<Rightarrow> u64 \<Rightarrow> string \<Rightarrow> (TopUpRecord \<times> PrepaidLedger) option" where
  "top_up l payer amount fref =
     (if fref \<in> pl_credited_refs l
      then (case find (\<lambda>r. tu_funding_ref r = fref) (pl_top_ups l) of
              None \<Rightarrow> None
            | Some r \<Rightarrow> Some (r, l))
      else
        let l = l\<lparr> pl_balances := al_insert payer (saturating_add (balance l payer) amount) (pl_balances l) \<rparr>;
            (seq, l) = next_seq l;
            record = \<lparr> tu_payer = payer, tu_amount = amount, tu_currency = pl_currency l,
                       tu_funding_ref = fref, tu_tx_seq = seq \<rparr>
        in Some (record, l\<lparr> pl_top_ups := pl_top_ups l @ [record],
                            pl_credited_refs := insert fref (pl_credited_refs l) \<rparr>))"

definition account :: "PrepaidLedger \<Rightarrow> bytes \<Rightarrow> CreditAccount" where
  "account l payer =
     \<lparr> ca_payer = payer, ca_currency = pl_currency l, ca_balance = balance l payer,
       ca_low_balance_threshold = pl_low_balance_threshold l \<rparr>"

definition state :: "PrepaidLedger \<Rightarrow> bytes \<Rightarrow> BillingState" where
  "state l payer = account_state (account l payer)"

definition debit ::
  "PrepaidLedger \<Rightarrow> bytes \<Rightarrow> Bill \<Rightarrow> (PrepaidError + DebitRecord) \<times> PrepaidLedger" where
  "debit l payer bill =
     (if bill_currency bill \<noteq> pl_currency l
      then (Inl (CurrencyMismatch (bill_currency bill) (pl_currency l)), l)
      else
        let bal = balance l payer
        in if bal < bill_amount bill
           then (Inl (CreditExhausted payer bal (bill_amount bill) (pl_currency l)), l)
           else
             let l = l\<lparr> pl_balances := al_insert payer (bal - bill_amount bill) (pl_balances l) \<rparr>;
                 (seq, l) = next_seq l;
                 record = \<lparr> db_payer = payer, db_amount = bill_amount bill,
                            db_currency = pl_currency l, db_tx_seq = seq \<rparr>
             in (Inr record, l\<lparr> pl_debits := pl_debits l @ [record] \<rparr>))"

definition debit_and_receipt ::
  "('cv, 'f, 'ce, 'ik, 'ie) kotva \<Rightarrow> PrepaidLedger \<Rightarrow> bytes \<Rightarrow> Bill \<Rightarrow> ReceiptLog \<Rightarrow> 'ik
   \<Rightarrow> (PrepaidError + DebitRecord \<times> UsageReceipt list) \<times> PrepaidLedger \<times> ReceiptLog" where
  "debit_and_receipt K l payer bill log ik =
     (case debit l payer bill of
        (Inl e, l') \<Rightarrow> (Inl e, l', log)
      | (Inr record, l') \<Rightarrow>
          let (receipts, log') = issue_for_bill K log payer bill ik
          in (Inr (record, receipts), l', log'))"

definition refund ::
  "PrepaidLedger \<Rightarrow> bytes \<Rightarrow> u64 \<Rightarrow> (PrepaidError + RefundRecord) \<times> PrepaidLedger" where
  "refund l payer amount =
     (let bal = balance l payer
      in if amount > bal
         then (Inl (RefundExceedsBalance payer amount bal), l)
         else
           let l = l\<lparr> pl_balances := al_insert payer (bal - amount) (pl_balances l) \<rparr>;
               (seq, l) = next_seq l;
               record = \<lparr> rf_payer = payer, rf_amount = amount, rf_currency = pl_currency l,
                          rf_tx_seq = seq \<rparr>
           in (Inr record, l\<lparr> pl_refunds := pl_refunds l @ [record] \<rparr>))"

section \<open>The ledger as a machine\<close>

datatype prepaid_cmd = TopUp bytes u64 string | Debit bytes Bill | Refund bytes u64

fun prepaid_step :: "PrepaidLedger \<Rightarrow> prepaid_cmd \<Rightarrow> PrepaidLedger" where
  "prepaid_step l (TopUp payer amount fref) =
     (case top_up l payer amount fref of None \<Rightarrow> l | Some (_, l') \<Rightarrow> l')"
| "prepaid_step l (Debit payer bill) = snd (debit l payer bill)"
| "prepaid_step l (Refund payer amount) = snd (refund l payer amount)"

section \<open>Specification\<close>

text \<open>Totals over the records of a payer, as natural numbers.\<close>

definition credited :: "PrepaidLedger \<Rightarrow> bytes \<Rightarrow> nat" where
  "credited l p = (\<Sum>r\<leftarrow>pl_top_ups l. if tu_payer r = p then unat (tu_amount r) else 0)"

definition debited :: "PrepaidLedger \<Rightarrow> bytes \<Rightarrow> nat" where
  "debited l p = (\<Sum>r\<leftarrow>pl_debits l. if db_payer r = p then unat (db_amount r) else 0)"

definition refunded :: "PrepaidLedger \<Rightarrow> bytes \<Rightarrow> nat" where
  "refunded l p = (\<Sum>r\<leftarrow>pl_refunds l. if rf_payer r = p then unat (rf_amount r) else 0)"

definition tx_seqs :: "PrepaidLedger \<Rightarrow> u64 list" where
  "tx_seqs l = map tu_tx_seq (pl_top_ups l) @ map db_tx_seq (pl_debits l) @ map rf_tx_seq (pl_refunds l)"

text \<open>
  The invariant: a payer's balance is what was credited less what was debited and refunded
  (never more, and exactly that while the credits fit a \<open>u64\<close>); the credited references are
  those of the top-up records, each recorded once; the transaction numbers of the records of
  all three kinds are the consecutive numbers from zero.
\<close>

definition balances_ok :: "PrepaidLedger \<Rightarrow> bool" where
  "balances_ok l = (\<forall>p.
     unat (balance l p) + debited l p + refunded l p \<le> credited l p
     \<and> (credited l p < 2 ^ 64 \<longrightarrow> unat (balance l p) + debited l p + refunded l p = credited l p))"

definition refs_ok :: "PrepaidLedger \<Rightarrow> bool" where
  "refs_ok l = (pl_credited_refs l = tu_funding_ref ` set (pl_top_ups l)
                \<and> distinct (map tu_funding_ref (pl_top_ups l)))"

definition seqs_ok :: "PrepaidLedger \<Rightarrow> bool" where
  "seqs_ok l = (mset (tx_seqs l) = mset (map of_nat [0..<length (tx_seqs l)])
                \<and> pl_next_tx_seq l = of_nat (length (tx_seqs l)))"

definition prepaid_inv :: "PrepaidLedger \<Rightarrow> bool" where
  "prepaid_inv l = (balances_ok l \<and> refs_ok l \<and> seqs_ok l)"

section \<open>Lemmas\<close>

lemmas prepaid_ops = top_up_def debit_def refund_def next_seq_def balance_def Let_def

lemmas prepaid_sums = credited_def debited_def refunded_def

lemma prepaid_inv_new: "prepaid_inv (prepaid_new c t)"
  by (simp add: prepaid_inv_def prepaid_new_def balances_ok_def refs_ok_def seqs_ok_def tx_seqs_def
      balance_def prepaid_sums)

text \<open>The four shapes of an operation: nothing, a credit, and the two ways of taking credit out.\<close>

lemma top_up_cases:
  assumes "top_up l payer amount fref = Some (r, l')"
  obtains (replay) "fref \<in> pl_credited_refs l" "l' = l" "r \<in> set (pl_top_ups l)" "tu_funding_ref r = fref"
  | (fresh) "fref \<notin> pl_credited_refs l"
      "r = \<lparr> tu_payer = payer, tu_amount = amount, tu_currency = pl_currency l, tu_funding_ref = fref,
             tu_tx_seq = pl_next_tx_seq l \<rparr>"
      "l' = l\<lparr> pl_balances := al_insert payer (saturating_add (balance l payer) amount) (pl_balances l),
               pl_next_tx_seq := pl_next_tx_seq l + 1, pl_top_ups := pl_top_ups l @ [r],
               pl_credited_refs := insert fref (pl_credited_refs l) \<rparr>"
proof (cases "fref \<in> pl_credited_refs l")
  case True
  with assms show ?thesis
    by (intro replay) (auto simp: top_up_def find_Some_iff split: option.splits)
next
  case False
  with assms show ?thesis by (intro fresh) (auto simp: prepaid_ops)
qed

lemma debit_cases:
  obtains (refused) e where "debit l payer bill = (Inl e, l)"
  | (accepted) r where "bill_amount bill \<le> balance l payer" "bill_currency bill = pl_currency l"
      "r = \<lparr> db_payer = payer, db_amount = bill_amount bill, db_currency = pl_currency l,
             db_tx_seq = pl_next_tx_seq l \<rparr>"
      "debit l payer bill = (Inr r,
         l\<lparr> pl_balances := al_insert payer (balance l payer - bill_amount bill) (pl_balances l),
            pl_next_tx_seq := pl_next_tx_seq l + 1, pl_debits := pl_debits l @ [r] \<rparr>)"
proof (cases "bill_currency bill = pl_currency l \<and> bill_amount bill \<le> balance l payer")
  case True
  then show ?thesis by (intro accepted) (simp_all add: prepaid_ops not_less)
next
  case False
  then show ?thesis by (cases "bill_currency bill = pl_currency l")
      (auto intro!: refused simp: debit_def Let_def not_le)
qed

lemma refund_cases:
  obtains (refused) "balance l payer < amount"
      "refund l payer amount = (Inl (RefundExceedsBalance payer amount (balance l payer)), l)"
  | (accepted) r where "amount \<le> balance l payer"
      "r = \<lparr> rf_payer = payer, rf_amount = amount, rf_currency = pl_currency l,
             rf_tx_seq = pl_next_tx_seq l \<rparr>"
      "refund l payer amount = (Inr r,
         l\<lparr> pl_balances := al_insert payer (balance l payer - amount) (pl_balances l),
            pl_next_tx_seq := pl_next_tx_seq l + 1, pl_refunds := pl_refunds l @ [r] \<rparr>)"
proof (cases "amount \<le> balance l payer")
  case True
  then show ?thesis by (intro accepted) (simp_all add: prepaid_ops not_less)
next
  case False
  then show ?thesis by (intro refused) (simp_all add: refund_def Let_def not_le)
qed

text \<open>Each part of the invariant after each kind of effect.\<close>

lemma seqs_ok_record:
  assumes "seqs_ok l" and "mset (tx_seqs l') = add_mset (pl_next_tx_seq l) (mset (tx_seqs l))"
    and "pl_next_tx_seq l' = pl_next_tx_seq l + 1"
  shows "seqs_ok l'"
proof -
  have "length (tx_seqs l') = Suc (length (tx_seqs l))"
    using arg_cong [OF assms(2), of size] by simp
  with assms show ?thesis by (simp add: seqs_ok_def)
qed

lemma prepaid_inv_credit:
  assumes inv: "prepaid_inv l" and fresh: "fref \<notin> pl_credited_refs l"
    and r: "tu_payer r = payer" "tu_amount r = amount" "tu_funding_ref r = fref" "tu_tx_seq r = pl_next_tx_seq l"
    and l': "l' = l\<lparr> pl_balances := al_insert payer (saturating_add (balance l payer) amount) (pl_balances l),
               pl_next_tx_seq := pl_next_tx_seq l + 1, pl_top_ups := pl_top_ups l @ [r],
               pl_credited_refs := insert fref (pl_credited_refs l) \<rparr>"
  shows "prepaid_inv l'"
proof -
  have "balances_ok l'"
    unfolding balances_ok_def
  proof (intro allI)
    fix p
    have "unat (balance l p) + debited l p + refunded l p \<le> credited l p"
      and "credited l p < 2 ^ 64 \<longrightarrow> unat (balance l p) + debited l p + refunded l p = credited l p"
      using inv by (simp_all add: prepaid_inv_def balances_ok_def)
    moreover have "debited l' p = debited l p" "refunded l' p = refunded l p"
      by (simp_all add: l' prepaid_sums)
    moreover have "credited l' p = credited l p + (if p = payer then unat amount else 0)"
      by (simp add: l' prepaid_sums r)
    moreover have "unat (balance l' p) =
        (if p = payer then min (unat (balance l p) + unat amount) (2 ^ 64 - 1) else unat (balance l p))"
      by (simp add: l' balance_def unat_saturating_add)
    ultimately show "unat (balance l' p) + debited l' p + refunded l' p \<le> credited l' p
      \<and> (credited l' p < 2 ^ 64 \<longrightarrow> unat (balance l' p) + debited l' p + refunded l' p = credited l' p)"
      by (auto simp: min_def)
  qed
  moreover have "refs_ok l'"
    using inv fresh by (auto simp: prepaid_inv_def refs_ok_def l' r)
  moreover have "seqs_ok l'"
    by (rule seqs_ok_record [of l]) (use inv in \<open>auto simp: prepaid_inv_def l' r tx_seqs_def\<close>)
  ultimately show ?thesis by (simp add: prepaid_inv_def)
qed

text \<open>
  A debit and a refund have the same effect on the balance: they take an amount the payer has,
  and add it to one of the two totals of what was taken.
\<close>

lemma balances_ok_take:
  assumes "balances_ok l" and le: "amount \<le> balance l payer"
    and bal: "\<And>p. balance l' p = (if p = payer then balance l p - amount else balance l p)"
    and taken: "\<And>p. debited l' p + refunded l' p
                  = debited l p + refunded l p + (if p = payer then unat amount else 0)"
    and cred: "\<And>p. credited l' p = credited l p"
  shows "balances_ok l'"
  unfolding balances_ok_def
proof (intro allI)
  fix p
  have "unat (balance l p) + debited l p + refunded l p \<le> credited l p"
    and "credited l p < 2 ^ 64 \<longrightarrow> unat (balance l p) + debited l p + refunded l p = credited l p"
    using assms(1) by (simp_all add: balances_ok_def)
  moreover have "unat (balance l' p) + debited l' p + refunded l' p
                 = unat (balance l p) + debited l p + refunded l p"
    using le taken [of p] by (auto simp: bal unat_sub word_le_nat_alt)
  ultimately show "unat (balance l' p) + debited l' p + refunded l' p \<le> credited l' p
      \<and> (credited l' p < 2 ^ 64 \<longrightarrow> unat (balance l' p) + debited l' p + refunded l' p = credited l' p)"
    by (simp add: cred)
qed

lemma prepaid_inv_debit:
  assumes "prepaid_inv l"
  shows "prepaid_inv (snd (debit l payer bill))"
proof (cases rule: debit_cases [of l payer bill])
  case (refused e)
  with assms show ?thesis by simp
next
  case (accepted r)
  let ?l = "snd (debit l payer bill)"
  have "balances_ok ?l"
    by (rule balances_ok_take [of l "bill_amount bill" payer])
      (use assms accepted in \<open>auto simp: prepaid_inv_def balance_def prepaid_sums\<close>)
  moreover have "seqs_ok ?l"
    by (rule seqs_ok_record [of l]) (use assms accepted in \<open>auto simp: prepaid_inv_def tx_seqs_def\<close>)
  ultimately show ?thesis
    using assms accepted by (simp add: prepaid_inv_def refs_ok_def)
qed

lemma prepaid_inv_refund:
  assumes "prepaid_inv l"
  shows "prepaid_inv (snd (refund l payer amount))"
proof (cases rule: refund_cases [of l payer amount])
  case refused
  with assms show ?thesis by simp
next
  case (accepted r)
  let ?l = "snd (refund l payer amount)"
  have "balances_ok ?l"
    by (rule balances_ok_take [of l amount payer])
      (use assms accepted in \<open>auto simp: prepaid_inv_def balance_def prepaid_sums\<close>)
  moreover have "seqs_ok ?l"
    by (rule seqs_ok_record [of l]) (use assms accepted in \<open>auto simp: prepaid_inv_def tx_seqs_def\<close>)
  ultimately show ?thesis
    using assms accepted by (simp add: prepaid_inv_def refs_ok_def)
qed

lemma prepaid_inv_top_up:
  assumes "prepaid_inv l" and "top_up l payer amount fref = Some (r, l')"
  shows "prepaid_inv l'"
  using assms(2)
proof (cases rule: top_up_cases)
  case replay
  with assms(1) show ?thesis by simp
next
  case fresh
  show ?thesis by (rule prepaid_inv_credit [OF assms(1) fresh(1) _ _ _ _ fresh(3)]) (simp_all add: fresh(2))
qed

interpretation pp: invariant_machine prepaid_step prepaid_inv
proof
  fix l c assume "prepaid_inv l"
  then show "prepaid_inv (prepaid_step l c)"
    by (cases c) (auto simp: prepaid_inv_debit prepaid_inv_refund split: option.split
        intro: prepaid_inv_top_up)
qed

lemma top_up_total: "prepaid_inv l \<Longrightarrow> top_up l payer amount fref \<noteq> None"
proof
  assume inv: "prepaid_inv l" and "top_up l payer amount fref = None"
  then have "fref \<in> pl_credited_refs l" and "\<forall>r \<in> set (pl_top_ups l). tu_funding_ref r \<noteq> fref"
    by (auto simp: top_up_def find_None_iff Let_def next_seq_def split: if_splits option.splits)
  with inv show False by (auto simp: prepaid_inv_def refs_ok_def)
qed

text \<open>Top-up records are kept by every step, and one more record at most is added per step.\<close>

lemma prepaid_step_keeps_top_ups: "set (pl_top_ups l) \<subseteq> set (pl_top_ups (prepaid_step l c))"
proof (cases c)
  case (TopUp payer amount fref)
  then show ?thesis by (auto simp: top_up_def next_seq_def Let_def split: option.split)
next
  case (Debit payer bill)
  then show ?thesis by (cases rule: debit_cases [of l payer bill]) simp_all
next
  case (Refund payer amount)
  then show ?thesis by (cases rule: refund_cases [of l payer amount]) simp_all
qed

lemma prepaid_step_tx_seqs: "length (tx_seqs (prepaid_step l c)) \<le> Suc (length (tx_seqs l))"
proof (cases c)
  case (TopUp payer amount fref)
  then show ?thesis by (auto simp: top_up_def next_seq_def Let_def tx_seqs_def split: option.split)
next
  case (Debit payer bill)
  then show ?thesis by (cases rule: debit_cases [of l payer bill]) (simp_all add: tx_seqs_def)
next
  case (Refund payer amount)
  then show ?thesis by (cases rule: refund_cases [of l payer amount]) (simp_all add: tx_seqs_def)
qed

lemma prepaid_run_tx_seqs:
  "length (tx_seqs (foldl prepaid_step l cmds)) \<le> length (tx_seqs l) + length cmds"
proof (induction cmds arbitrary: l)
  case (Cons c cmds)
  from Cons.IH [of "prepaid_step l c"] prepaid_step_tx_seqs [of l c] show ?case by simp
qed simp

lemma prepaid_run_keeps_top_ups:
  "prepaid_inv l \<Longrightarrow> set (pl_top_ups l) \<subseteq> set (pl_top_ups (foldl prepaid_step l cmds))"
  by (rule pp.run_mono [where R = "\<lambda>a b. set (pl_top_ups a) \<subseteq> set (pl_top_ups b)"])
    (auto dest: subsetD [OF prepaid_step_keeps_top_ups])

lemma top_up_recorded:
  assumes "prepaid_inv l" and "r \<in> set (pl_top_ups l)"
  shows "top_up l payer amount (tu_funding_ref r) = Some (r, l)"
proof -
  have "tu_funding_ref r \<in> pl_credited_refs l"
    and inj: "inj_on tu_funding_ref (set (pl_top_ups l))"
    using assms by (auto simp: prepaid_inv_def refs_ok_def distinct_map)
  moreover have "find (\<lambda>x. tu_funding_ref x = tu_funding_ref r) (pl_top_ups l) = Some r"
  proof -
    obtain x where x: "find (\<lambda>x. tu_funding_ref x = tu_funding_ref r) (pl_top_ups l) = Some x"
      using assms(2) by (cases "find (\<lambda>x. tu_funding_ref x = tu_funding_ref r) (pl_top_ups l)")
        (auto simp: find_None_iff)
    then have "x \<in> set (pl_top_ups l)" "tu_funding_ref x = tu_funding_ref r"
      by (auto simp: find_Some_iff)
    with inj assms(2) x show ?thesis by (auto dest: inj_onD)
  qed
  ultimately show ?thesis by (simp add: top_up_def)
qed

section \<open>Properties\<close>

text \<open>
  (C3) Conservation of credit: after any sequence of top-ups, debits and refunds on a fresh
  ledger, a payer's balance plus everything debited from and refunded to the payer is at most
  what was credited, and equals it whenever the credited total fits a \<open>u64\<close>. Credit is never
  created, and none is lost short of saturation.
\<close>

theorem prepaid_conservation:
  "let l = foldl prepaid_step (prepaid_new currency threshold) cmds
   in unat (balance l p) + debited l p + refunded l p \<le> credited l p
         \<and> (credited l p < 2 ^ 64 \<longrightarrow> unat (balance l p) + debited l p + refunded l p = credited l p)"
  using pp.run_inv [OF prepaid_inv_new, of currency threshold cmds]
  unfolding Let_def prepaid_inv_def balances_ok_def by blast

definition sample_cmds :: "prepaid_cmd list" where
  "sample_cmds = [TopUp [1] 100 ''ref-a'', Debit [1] sample_bill, TopUp [1] 100 ''ref-a'', Refund [1] 20]"

definition sample_ledger :: PrepaidLedger where
  "sample_ledger = foldl prepaid_step (prepaid_new ''USD'' 10) sample_cmds"

lemma sample_ledger_eq:
  "sample_ledger = \<lparr> pl_currency = ''USD'', pl_low_balance_threshold = 10, pl_balances = [([1], 75)],
     pl_top_ups = [\<lparr> tu_payer = [1], tu_amount = 100, tu_currency = ''USD'', tu_funding_ref = ''ref-a'', tu_tx_seq = 0 \<rparr>],
     pl_debits = [\<lparr> db_payer = [1], db_amount = 5, db_currency = ''USD'', db_tx_seq = 1 \<rparr>],
     pl_refunds = [\<lparr> rf_payer = [1], rf_amount = 20, rf_currency = ''USD'', rf_tx_seq = 2 \<rparr>],
     pl_next_tx_seq = 3, pl_credited_refs = {''ref-a''} \<rparr>"
  by (simp add: sample_ledger_def sample_cmds_def prepaid_new_def prepaid_ops sample_bill_def
      saturating_add_def al_get_or_def)

theorem prepaid_conservation_witness:
  "unat (balance sample_ledger [1]) + debited sample_ledger [1] + refunded sample_ledger [1] = 100"
proof -
  have "credited sample_ledger [1] = 100" by (simp add: sample_ledger_eq credited_def)
  then show ?thesis
    using prepaid_conservation [of "''USD''" 10 sample_cmds "[1]"]
    by (simp add: sample_ledger_def [symmetric] Let_def)
qed

text \<open>
  A funding reference credits once: on every reachable ledger a top-up succeeds (the
  source's \<open>expect\<close> never panics), and from then on, whatever operations follow, a top-up with
  the same reference, for any payer and amount, returns the original record and changes nothing.
\<close>

lemma top_up_idempotent:
  "\<exists>r l1. top_up (foldl prepaid_step (prepaid_new currency threshold) cmds) payer amount fref = Some (r, l1)
     \<and> (\<forall>later payer' amount'. top_up (foldl prepaid_step l1 later) payer' amount' fref
                              = Some (r, foldl prepaid_step l1 later))"
proof -
  let ?l = "foldl prepaid_step (prepaid_new currency threshold) cmds"
  have inv: "prepaid_inv ?l" by (rule pp.run_inv [OF prepaid_inv_new])
  obtain r l1 where t: "top_up ?l payer amount fref = Some (r, l1)"
    using top_up_total [OF inv] by fastforce
  have inv1: "prepaid_inv l1" by (rule prepaid_inv_top_up [OF inv t])
  from t have r: "r \<in> set (pl_top_ups l1)" "tu_funding_ref r = fref"
    by (auto elim!: top_up_cases)
  have "top_up (foldl prepaid_step l1 later) payer' amount' fref = Some (r, foldl prepaid_step l1 later)"
    for later payer' amount'
    using top_up_recorded [OF pp.run_inv [OF inv1]] prepaid_run_keeps_top_ups [OF inv1] r by blast
  with t show ?thesis by blast
qed

text \<open>
  A debit is all or nothing: it succeeds exactly when the bill is in the ledger's currency
  and within the payer's balance; then the payer's balance falls by exactly the amount and no
  other balance changes; otherwise the ledger is unchanged and the error says which condition
  failed.
\<close>

lemma debit_all_or_nothing:
  "debit l payer bill =
     (if bill_currency bill \<noteq> pl_currency l
      then (Inl (CurrencyMismatch (bill_currency bill) (pl_currency l)), l)
      else if unat (balance l payer) < unat (bill_amount bill)
      then (Inl (CreditExhausted payer (balance l payer) (bill_amount bill) (pl_currency l)), l)
      else (Inr (last (pl_debits (snd (debit l payer bill)))), snd (debit l payer bill)))
   \<and> (is_ok (fst (debit l payer bill)) \<longrightarrow>
        unat (balance (snd (debit l payer bill)) payer) + unat (bill_amount bill) = unat (balance l payer)
        \<and> (\<forall>q. q \<noteq> payer \<longrightarrow> balance (snd (debit l payer bill)) q = balance l q))"
proof (cases "bill_currency bill = pl_currency l \<and> bill_amount bill \<le> balance l payer")
  case True
  then show ?thesis by (auto simp: prepaid_ops word_le_nat_alt word_less_nat_alt unat_sub)
next
  case False
  then show ?thesis by (auto simp: debit_def Let_def word_le_nat_alt word_less_nat_alt)
qed

lemma debit_all_or_nothing_witness:
  "unat (balance (snd (debit sample_ledger [1] sample_bill)) [1]) + 5 = unat (balance sample_ledger [1])"
  using debit_all_or_nothing [of sample_ledger "[1]" sample_bill]
  by (simp add: sample_ledger_eq sample_bill_def balance_def al_get_or_def debit_def next_seq_def Let_def)

text \<open>
  No two records share a transaction number: over at most \<open>2^64\<close> operations on a fresh
  ledger, the numbers of all top-up, debit and refund records are distinct.
\<close>

lemma tx_seq_unique:
  assumes "length cmds \<le> 2 ^ 64"
  shows "distinct (tx_seqs (foldl prepaid_step (prepaid_new currency threshold) cmds))"
proof -
  let ?l = "foldl prepaid_step (prepaid_new currency threshold) cmds"
  have "length (tx_seqs ?l) \<le> 2 ^ 64"
    using assms prepaid_run_tx_seqs [of "prepaid_new currency threshold" cmds]
    by (simp add: tx_seqs_def prepaid_new_def)
  then have "inj_on (of_nat :: nat \<Rightarrow> u64) (set [0..<length (tx_seqs ?l)])"
    by (intro inj_onI) (auto dest!: arg_cong [where f = unat] simp: unat_of_nat)
  then have "distinct (map (of_nat :: nat \<Rightarrow> u64) [0..<length (tx_seqs ?l)])"
    by (simp add: distinct_map)
  moreover have "mset (tx_seqs ?l) = mset (map of_nat [0..<length (tx_seqs ?l)])"
    using pp.run_inv [OF prepaid_inv_new, of currency threshold cmds]
    by (simp add: prepaid_inv_def seqs_ok_def)
  ultimately show ?thesis by (metis mset_eq_imp_distinct_iff)
qed

lemma tx_seq_unique_witness: "distinct (tx_seqs sample_ledger)"
  unfolding sample_ledger_def by (rule tx_seq_unique) (simp add: sample_cmds_def)

end
