(* ===== verification/Billing_Settlement.thy ===== *)
theory Billing_Settlement
  imports Prelude
begin

text \<open>
  The settlement seam (\<open>crates/pier-billing/src/settlement.rs\<close>, \<open>subscription.rs\<close>,
  \<open>stake.rs\<close>): the \<open>SettlementRail\<close> trait as a locale, the in-memory double-entry ledger that
  implements it, the monthly subscription that rides it and the fail-closed stake verifier.
  An \<open>i64\<close> is a 64-bit word read in two's complement; its additions wrap, as in a release build.
\<close>

section \<open>The in-memory ledger\<close>

record SettlementReceipt =
  sr_payer :: bytes
  sr_amount :: u64
  sr_currency :: string
  sr_tx_seq :: u64

datatype LedgerError = InsufficientBalance bytes i64 u64 string

record InMemoryLedger =
  il_balances :: "((bytes \<times> string) \<times> i64) list"
  il_house :: "(string \<times> i64) list"
  il_next_tx_seq :: u64

definition ledger_new :: InMemoryLedger where
  "ledger_new = \<lparr> il_balances = [], il_house = [], il_next_tx_seq = 0 \<rparr>"

definition deposit :: "InMemoryLedger \<Rightarrow> bytes \<Rightarrow> u64 \<Rightarrow> string \<Rightarrow> InMemoryLedger" where
  "deposit l payer amount currency =
     l\<lparr> il_balances := al_insert (payer, currency)
          (al_get_or 0 (il_balances l) (payer, currency) + amount) (il_balances l),
        il_house := al_insert currency (al_get_or 0 (il_house l) currency - amount) (il_house l) \<rparr>"

definition ledger_next_seq :: "InMemoryLedger \<Rightarrow> u64 \<times> InMemoryLedger" where
  "ledger_next_seq l = (il_next_tx_seq l, l\<lparr> il_next_tx_seq := il_next_tx_seq l + 1 \<rparr>)"

definition grand_total :: "InMemoryLedger \<Rightarrow> string \<Rightarrow> i64" where
  "grand_total l currency =
     (\<Sum>p\<leftarrow>filter (\<lambda>p. snd (fst p) = currency) (il_balances l). snd p)
     + al_get_or 0 (il_house l) currency"

text \<open>The comparison of a charge is signed: the amount is cast to \<open>i64\<close>.\<close>

definition ledger_charge ::
  "InMemoryLedger \<Rightarrow> bytes \<Rightarrow> u64 \<Rightarrow> string \<Rightarrow> (LedgerError + SettlementReceipt) \<times> InMemoryLedger" where
  "ledger_charge l payer amount currency =
     (let key = (payer, currency);
          bal = al_get_or 0 (il_balances l) key
      in if sint bal < sint amount
         then (Inl (InsufficientBalance payer bal amount currency), l)
         else
           let l = l\<lparr> il_balances := al_insert key (bal - amount) (il_balances l) \<rparr>;
               l = l\<lparr> il_house := al_insert currency (al_get_or 0 (il_house l) currency + amount) (il_house l) \<rparr>;
               (seq, l) = ledger_next_seq l
           in (Inr \<lparr> sr_payer = payer, sr_amount = amount, sr_currency = currency, sr_tx_seq = seq \<rparr>, l))"

definition ledger_balance :: "InMemoryLedger \<Rightarrow> bytes \<Rightarrow> string \<Rightarrow> i64" where
  "ledger_balance l payer currency = al_get_or 0 (il_balances l) (payer, currency)"

section \<open>Subscriptions and stake\<close>

record Subscription =
  sub_payer :: bytes
  sub_monthly_amount :: u64
  sub_currency :: string
  sub_active :: bool

definition subscription_new :: "bytes \<Rightarrow> u64 \<Rightarrow> string \<Rightarrow> Subscription" where
  "subscription_new payer monthly_amount currency =
     \<lparr> sub_payer = payer, sub_monthly_amount = monthly_amount, sub_currency = currency,
       sub_active = True \<rparr>"

definition subscription_charge ::
  "('r \<Rightarrow> bytes \<Rightarrow> u64 \<Rightarrow> string \<Rightarrow> ('e + SettlementReceipt) \<times> 'r)
   \<Rightarrow> Subscription \<Rightarrow> 'r \<Rightarrow> ('e + SettlementReceipt) \<times> 'r" where
  "subscription_charge charge s rail = charge rail (sub_payer s) (sub_monthly_amount s) (sub_currency s)"

text \<open>\<open>NoStakeRail\<close>: the error type of the source is uninhabited, so the result is a boolean.\<close>

definition no_stake_verify :: "bytes \<Rightarrow> string \<Rightarrow> u64 \<Rightarrow> bool" where
  "no_stake_verify identity asset minimum = False"

section \<open>The interface of a rail\<close>

text \<open>
  What a rail promises: a refused charge changes nothing, a receipt names what was charged,
  and a charge touches only the account it is made on.
\<close>

locale settlement_rail =
  fixes rcharge :: "'r \<Rightarrow> bytes \<Rightarrow> u64 \<Rightarrow> string \<Rightarrow> ('e + SettlementReceipt) \<times> 'r"
    and rbalance :: "'r \<Rightarrow> bytes \<Rightarrow> string \<Rightarrow> i64"
  assumes charge_refused: "fst (rcharge r p a c) = Inl e \<Longrightarrow> snd (rcharge r p a c) = r"
    and charge_receipt:
      "fst (rcharge r p a c) = Inr rc \<Longrightarrow> sr_payer rc = p \<and> sr_amount rc = a \<and> sr_currency rc = c"
    and charge_isolated: "(q, d) \<noteq> (p, c) \<Longrightarrow> rbalance (snd (rcharge r p a c)) q d = rbalance r q d"
begin

text \<open>A billing run over subscriptions leaves every account without one alone.\<close>

lemma billing_run_isolated:
  assumes "(q, d) \<notin> (\<lambda>s. (sub_payer s, sub_currency s)) ` set subs"
  shows "rbalance (foldl (\<lambda>r s. snd (subscription_charge rcharge s r)) r subs) q d = rbalance r q d"
  using assms
proof (induction subs arbitrary: r)
  case (Cons s subs)
  then have "(q, d) \<noteq> (sub_payer s, sub_currency s)" by auto
  then have "rbalance (snd (subscription_charge rcharge s r)) q d = rbalance r q d"
    by (simp add: subscription_charge_def charge_isolated)
  with Cons show ?case by simp
qed simp

lemma subscription_charge_receipt:
  "fst (subscription_charge rcharge s r) = Inr rc \<Longrightarrow>
   sr_payer rc = sub_payer s \<and> sr_amount rc = sub_monthly_amount s \<and> sr_currency rc = sub_currency s"
  by (auto simp: subscription_charge_def dest: charge_receipt)

end

interpretation lr: settlement_rail ledger_charge ledger_balance
  by unfold_locales
    (auto simp: ledger_charge_def ledger_balance_def ledger_next_seq_def Let_def split: if_splits)

section \<open>Lemmas\<close>

text \<open>The sum of the balances of one currency after an update of one account.\<close>

lemma sum_filter_al_insert:
  fixes m :: "((bytes \<times> string) \<times> i64) list"
  assumes "distinct (al_keys m)"
  shows "(\<Sum>p\<leftarrow>filter (\<lambda>p. snd (fst p) = c) (al_insert k v m). snd p)
         = (\<Sum>p\<leftarrow>filter (\<lambda>p. snd (fst p) = c) m. snd p)
           + (if snd k = c then v - al_get_or 0 m k else 0)"
  using assms
proof (induction m)
  case (Cons p m)
  have absent: "map_of m (fst p) = None"
    using Cons.prems by (simp add: map_of_eq_None_iff)
  show ?case
  proof (cases "k = fst p")
    case True
    then show ?thesis by (cases p) (simp add: al_get_or_def algebra_simps)
  next
    case False
    with Cons show ?thesis by (cases p) (simp add: al_get_or_def algebra_simps)
  qed
qed simp

datatype ledger_cmd = Deposit bytes u64 string | Charge bytes u64 string

fun ledger_step :: "InMemoryLedger \<Rightarrow> ledger_cmd \<Rightarrow> InMemoryLedger" where
  "ledger_step l (Deposit p a c) = deposit l p a c"
| "ledger_step l (Charge p a c) = snd (ledger_charge l p a c)"

definition ledger_inv :: "InMemoryLedger \<Rightarrow> bool" where
  "ledger_inv l = (distinct (al_keys (il_balances l)) \<and> (\<forall>c. grand_total l c = 0))"

lemma ledger_inv_new: "ledger_inv ledger_new"
  by (simp add: ledger_inv_def ledger_new_def grand_total_def)

interpretation lg: invariant_machine ledger_step ledger_inv
proof
  fix l c assume inv: "ledger_inv l"
  then show "ledger_inv (ledger_step l c)"
    by (cases c) (auto simp: ledger_inv_def grand_total_def deposit_def ledger_charge_def
        ledger_next_seq_def Let_def sum_filter_al_insert algebra_simps)
qed

section \<open>Properties\<close>

text \<open>
  The ledger is double-entry: after any sequence of deposits and charges, in every
  currency the payers' balances and the house account sum to zero (in the wrapping arithmetic
  of \<open>i64\<close>, so also across overflows).
\<close>

lemma ledger_double_entry:
  "grand_total (foldl ledger_step ledger_new cmds) currency = 0"
  using lg.run_inv [OF ledger_inv_new, of cmds] by (simp add: ledger_inv_def)

text \<open>
  A charge of less than \<open>2^63\<close> minor units is checked: it succeeds exactly when the payer's
  balance covers it, leaves the payer a balance of exactly the difference, which is not
  negative, and otherwise changes nothing.
\<close>

lemma ledger_charge_checked:
  assumes "unat amount < 2 ^ 63"
  shows "is_ok (fst (ledger_charge l p amount c)) = (int (unat amount) \<le> sint (ledger_balance l p c))
    \<and> (if is_ok (fst (ledger_charge l p amount c))
       then sint (ledger_balance (snd (ledger_charge l p amount c)) p c)
              = sint (ledger_balance l p c) - int (unat amount)
            \<and> 0 \<le> sint (ledger_balance (snd (ledger_charge l p amount c)) p c)
       else snd (ledger_charge l p amount c) = l)"
proof -
  have small: "sint amount = int (unat amount)" by (rule sint_small [OF assms])
  then have pos: "0 \<le> sint amount" by simp
  have "sint (ledger_balance l p c) < 2 ^ 63" using sint_lt [of "ledger_balance l p c"] by simp
  then have "sint (ledger_balance l p c - amount) = sint (ledger_balance l p c) - sint amount"
    if "sint amount \<le> sint (ledger_balance l p c)"
    using that pos by (intro sint_diff_exact) simp_all
  then show ?thesis
    unfolding small [symmetric]
    by (auto simp: ledger_charge_def ledger_balance_def ledger_next_seq_def Let_def)
qed

lemma ledger_charge_checked_witness:
  "\<not> is_ok (fst (ledger_charge ledger_new [1] 5 ''USD''))"
  using ledger_charge_checked [of 5 ledger_new "[1]" "''USD''"]
  by (simp add: ledger_balance_def ledger_new_def)

text \<open>
  The cast to \<open>i64\<close> leaves larger charges unchecked: any charge above \<open>2^63\<close> minor units on
  an account the ledger has never seen succeeds, and gives the payer a positive balance.
\<close>

lemma ledger_charge_unchecked_above_i64:
  assumes "2 ^ 63 < unat amount"
  shows "is_ok (fst (ledger_charge ledger_new p amount c))
         \<and> 0 < sint (ledger_balance (snd (ledger_charge ledger_new p amount c)) p c)"
proof -
  have neg: "sint amount = int (unat amount) - 2 ^ 64" using assms by (intro sint_large) simp
  have "int (unat amount) < int (2 ^ 64)"
    using unat_lt_pow [of amount] by (simp only: of_nat_less_iff) simp
  moreover have "int (2 ^ 63) < int (unat amount)" using assms by (simp only: of_nat_less_iff)
  ultimately have range: "sint amount < 0" "- (2 ^ 63) < sint amount" by (simp_all add: neg)
  then have "sint (0 - amount) = sint (0 :: i64) - sint amount"
    by (intro sint_diff_exact) simp_all
  with range show ?thesis
    by (simp add: ledger_charge_def ledger_balance_def ledger_next_seq_def Let_def ledger_new_def al_get_or_def)
qed

lemma ledger_charge_unchecked_above_i64_witness:
  "is_ok (fst (ledger_charge ledger_new [1] (- 1) ''USD''))"
  using ledger_charge_unchecked_above_i64 [of "- 1" "[1]" "''USD''"] by (simp add: unat_max)

end
