(* ===== verification/Billing_Sim.thy ===== *)
theory Billing_Sim
  imports Billing_Prepaid Billing_Settlement
begin

text \<open>
  The billing engine (\<open>crates/pier-billing/src/sim.rs\<close>): a stream of billing events driven
  through the meter, the tariff, the prepaid ledger, the receipt log and a settlement rail.
  The rail and the rendering of its errors are arguments, as the source is generic in them.
\<close>

section \<open>Events and outcomes\<close>

datatype BillingEvent =
    TopUpEvent bytes u64 string
  | MeteredUsage bytes ResourceKind u64
  | TariffChange TariffSchedule
  | RefundEvent bytes u64
  | MonthlyCharge bytes u64 string

datatype BillingOutcome =
    ToppedUp TopUpRecord
  | Debited DebitRecord "UsageReceipt list"
  | DebitFailed bytes PrepaidError
  | TariffChanged
  | Refunded RefundRecord
  | LowBalanceNotice bytes u64
  | ExhaustedNotice bytes
  | MonthlyCharged SettlementReceipt
  | MonthlyChargeFailed bytes string

record ('ik, 'r) SimEngine =
  se_meter :: InMemoryMeter
  se_ledger :: PrepaidLedger
  se_schedule :: TariffSchedule
  se_log :: ReceiptLog
  se_ik :: 'ik
  se_rail :: 'r

definition engine_new :: "PrepaidLedger \<Rightarrow> TariffSchedule \<Rightarrow> 'ik \<Rightarrow> 'r \<Rightarrow> ('ik, 'r) SimEngine" where
  "engine_new ledger schedule ik rail =
     \<lparr> se_meter = meter_new, se_ledger = ledger, se_schedule = schedule, se_log = log_new,
       se_ik = ik, se_rail = rail \<rparr>"

section \<open>One event\<close>

definition state_notification :: "('ik, 'r) SimEngine \<Rightarrow> bytes \<Rightarrow> BillingOutcome list" where
  "state_notification eng payer =
     (case state (se_ledger eng) payer of
        LowBalance \<Rightarrow> [LowBalanceNotice payer (balance (se_ledger eng) payer)]
      | Exhausted \<Rightarrow> [ExhaustedNotice payer]
      | StateOk \<Rightarrow> [])"

definition apply_metered ::
  "('cv, 'f, 'ce, 'ik, 'ie) kotva \<Rightarrow> ('ik, 'r) SimEngine \<Rightarrow> bytes \<Rightarrow> ResourceKind \<Rightarrow> u64
   \<Rightarrow> BillingOutcome list \<times> ('ik, 'r) SimEngine" where
  "apply_metered K eng payer kind units =
     (let m = meter_record (se_meter eng) payer kind units;
          (usage, m) = meter_reset m payer;
          eng = eng\<lparr> se_meter := m \<rparr>
      in case (evaluate (se_schedule eng) usage :: 'ce BillingError + Bill) of
           Inr bill \<Rightarrow>
             (case debit_and_receipt K (se_ledger eng) payer bill (se_log eng) (se_ik eng) of
                (Inr (record, receipts), ledger, log) \<Rightarrow>
                  let eng = eng\<lparr> se_ledger := ledger, se_log := log \<rparr>
                  in (Debited record receipts # state_notification eng payer, eng)
              | (Inl e, ledger, log) \<Rightarrow>
                  ([DebitFailed payer e], eng\<lparr> se_ledger := ledger, se_log := log \<rparr>))
         | Inl _ \<Rightarrow>
             ([DebitFailed payer (CurrencyMismatch ''unpriced-kind'' (pl_currency (se_ledger eng)))], eng))"

text \<open>\<open>None\<close> is a panic of the source (the \<open>expect\<close> of a top-up).\<close>

fun sim_apply ::
  "('cv, 'f, 'ce, 'ik, 'ie) kotva
   \<Rightarrow> ('r \<Rightarrow> bytes \<Rightarrow> u64 \<Rightarrow> string \<Rightarrow> ('e + SettlementReceipt) \<times> 'r) \<Rightarrow> ('e \<Rightarrow> string)
   \<Rightarrow> ('ik, 'r) SimEngine \<Rightarrow> BillingEvent
   \<Rightarrow> (BillingOutcome list \<times> ('ik, 'r) SimEngine) option" where
  "sim_apply K charge dbg eng (TopUpEvent payer amount fref) =
     (case top_up (se_ledger eng) payer amount fref of
        None \<Rightarrow> None
      | Some (record, ledger) \<Rightarrow> Some ([ToppedUp record], eng\<lparr> se_ledger := ledger \<rparr>))"
| "sim_apply K charge dbg eng (MeteredUsage payer kind units) =
     Some (apply_metered K eng payer kind units)"
| "sim_apply K charge dbg eng (TariffChange schedule) =
     Some ([TariffChanged], eng\<lparr> se_schedule := schedule \<rparr>)"
| "sim_apply K charge dbg eng (RefundEvent payer amount) =
     (case refund (se_ledger eng) payer amount of
        (Inr record, ledger) \<Rightarrow>
          let eng = eng\<lparr> se_ledger := ledger \<rparr>
          in Some (Refunded record # state_notification eng payer, eng)
      | (Inl e, ledger) \<Rightarrow> Some ([DebitFailed payer e], eng\<lparr> se_ledger := ledger \<rparr>))"
| "sim_apply K charge dbg eng (MonthlyCharge payer amount currency) =
     (case charge (se_rail eng) payer amount currency of
        (Inr receipt, rail) \<Rightarrow> Some ([MonthlyCharged receipt], eng\<lparr> se_rail := rail \<rparr>)
      | (Inl e, rail) \<Rightarrow> Some ([MonthlyChargeFailed payer (dbg e)], eng\<lparr> se_rail := rail \<rparr>))"

fun replay ::
  "('cv, 'f, 'ce, 'ik, 'ie) kotva
   \<Rightarrow> ('r \<Rightarrow> bytes \<Rightarrow> u64 \<Rightarrow> string \<Rightarrow> ('e + SettlementReceipt) \<times> 'r) \<Rightarrow> ('e \<Rightarrow> string)
   \<Rightarrow> ('ik, 'r) SimEngine \<Rightarrow> BillingEvent list
   \<Rightarrow> (BillingOutcome list \<times> ('ik, 'r) SimEngine) option" where
  "replay K charge dbg eng [] = Some ([], eng)"
| "replay K charge dbg eng (ev # evs) =
     (case sim_apply K charge dbg eng ev of
        None \<Rightarrow> None
      | Some (out, eng') \<Rightarrow>
          (case replay K charge dbg eng' evs of
             None \<Rightarrow> None
           | Some (outs, eng'') \<Rightarrow> Some (out @ outs, eng'')))"

section \<open>Specification\<close>

text \<open>
  The engine's invariant: the ledger's own, a meter with nothing left in it, and a log whose
  receipts verify.
\<close>

definition sim_inv :: "('cv, 'f, 'ce, 'ik, 'ie) kotva \<Rightarrow> ('ik, 'r) SimEngine \<Rightarrow> bool" where
  "sim_inv K eng =
     (prepaid_inv (se_ledger eng) \<and> (\<forall>p. meter_usage (se_meter eng) p = []) \<and> log_inv K (se_log eng))"

section \<open>Lemmas\<close>

lemma sim_inv_new: "prepaid_inv ledger \<Longrightarrow> sim_inv K (engine_new ledger schedule ik rail)"
  by (simp add: sim_inv_def engine_new_def log_inv_def verify_all_def log_new_def)

text \<open>A metered event is billed as its own increment: the usage is the event's alone.\<close>

lemma metered_snapshot:
  assumes "\<And>p. meter_usage m p = []"
  shows "\<exists>m'. meter_reset (meter_record m payer kind units) payer = ([(kind, units)], m')
              \<and> (\<forall>p. meter_usage m' p = [])"
proof -
  have "fst (meter_reset (meter_record m payer kind units) payer) = [(kind, units)]"
    by (simp add: im.reset_snapshot im.record_after_reset assms)
  moreover have "\<forall>p. meter_usage (snd (meter_reset (meter_record m payer kind units) payer)) p = []"
    by (simp add: im.usage_reset im.usage_record assms)
  ultimately show ?thesis by (metis prod.collapse)
qed

lemma debit_and_receipt_cases:
  assumes "debit_and_receipt K l payer bill log ik = (res, l', log')"
  obtains (refused) e where "res = Inl e" "debit l payer bill = (Inl e, l)" "l' = l" "log' = log"
  | (paid) r rs where "res = Inr (r, rs)" "debit l payer bill = (Inr r, l')"
      "issue_for_bill K log payer bill ik = (rs, log')"
proof (cases rule: debit_cases [of l payer bill])
  case (refused e)
  with assms show ?thesis by (intro that(1) [of e]) (auto simp: debit_and_receipt_def)
next
  case (accepted r)
  obtain rs log'' where "issue_for_bill K log payer bill ik = (rs, log'')" by fastforce
  with assms accepted show ?thesis by (intro that(2) [of r rs]) (auto simp: debit_and_receipt_def)
qed

text \<open>What a metered event does, on each of its branches.\<close>

lemma apply_metered_cases:
  fixes K :: "('cv, 'f, 'ce, 'ik, 'ie) kotva"
  assumes empty: "\<And>p. meter_usage (se_meter eng) p = []"
    and ap: "apply_metered K eng payer kind units = (out, eng')"
  obtains (unpriced) m' where "evaluate (se_schedule eng) [(kind, units)] = (Inl (UnpricedKind kind) :: 'ce BillingError + Bill)"
      "\<forall>p. meter_usage m' p = []" "eng' = eng\<lparr> se_meter := m' \<rparr>"
      "out = [DebitFailed payer (CurrencyMismatch ''unpriced-kind'' (pl_currency (se_ledger eng)))]"
  | (refused) m' bill e where "evaluate (se_schedule eng) [(kind, units)] = (Inr bill :: 'ce BillingError + Bill)"
      "debit (se_ledger eng) payer bill = (Inl e, se_ledger eng)"
      "\<forall>p. meter_usage m' p = []" "eng' = eng\<lparr> se_meter := m' \<rparr>" "out = [DebitFailed payer e]"
  | (paid) m' bill r rs l' log' where "evaluate (se_schedule eng) [(kind, units)] = (Inr bill :: 'ce BillingError + Bill)"
      "debit (se_ledger eng) payer bill = (Inr r, l')"
      "issue_for_bill K (se_log eng) payer bill (se_ik eng) = (rs, log')"
      "\<forall>p. meter_usage m' p = []" "eng' = eng\<lparr> se_meter := m', se_ledger := l', se_log := log' \<rparr>"
      "out = Debited r rs # state_notification eng' payer"
proof -
  from metered_snapshot [OF empty] obtain m' where m':
    "meter_reset (meter_record (se_meter eng) payer kind units) payer = ([(kind, units)], m')"
    "\<forall>p. meter_usage m' p = []" by blast
  show ?thesis
  proof (cases "evaluate (se_schedule eng) [(kind, units)] :: 'ce BillingError + Bill")
    case (Inl e)
    then have "e = UnpricedKind kind" by (auto simp: evaluate_error split: if_splits)
    with Inl ap m' show ?thesis by (intro unpriced [of m']) (auto simp: apply_metered_def Let_def)
  next
    case (Inr bill)
    obtain res l' log' where dr:
      "debit_and_receipt K (se_ledger eng) payer bill (se_log eng) (se_ik eng) = (res, l', log')"
      by (metis prod_cases3)
    from dr show ?thesis
    proof (cases rule: debit_and_receipt_cases)
      case (refused e)
      with Inr ap m' dr show ?thesis
        by (intro that(2) [of bill e m']) (auto simp: apply_metered_def Let_def)
    next
      case (paid r rs)
      with Inr ap m' dr show ?thesis
        by (intro that(3) [of bill r l' rs log' m']) (auto simp: apply_metered_def Let_def)
    qed
  qed
qed

lemma length_state_notification: "length (state_notification eng payer) \<le> 1"
  by (simp add: state_notification_def split: BillingState.split)

lemma issue_for_bill_inv: "log_inv K log \<Longrightarrow> issue_for_bill K log payer bill ik = (rs, log') \<Longrightarrow> log_inv K log'"
  using rl.step_inv [of K log "IssueForBill payer bill ik"] by simp

lemma apply_metered_inv:
  assumes inv: "sim_inv K eng" and ap: "apply_metered K eng payer kind units = (out, eng')"
  shows "sim_inv K eng' \<and> 1 \<le> length out \<and> length out \<le> 2"
proof -
  have empty: "\<And>p. meter_usage (se_meter eng) p = []" using inv by (simp add: sim_inv_def)
  from empty ap show ?thesis
  proof (cases rule: apply_metered_cases)
    case (paid m' bill r rs l' log')
    then have "prepaid_inv l'" "log_inv K log'"
      using inv prepaid_inv_debit [of "se_ledger eng" payer bill] issue_for_bill_inv
      by (auto simp: sim_inv_def)
    with paid inv length_state_notification [of eng' payer] show ?thesis by (simp add: sim_inv_def)
  qed (use inv in \<open>auto simp: sim_inv_def\<close>)
qed

lemma sim_apply_inv:
  assumes inv: "sim_inv K eng"
  shows "\<exists>out eng'. sim_apply K charge dbg eng ev = Some (out, eng') \<and> sim_inv K eng'
                    \<and> 1 \<le> length out \<and> length out \<le> 2"
proof (cases ev)
  case (TopUpEvent payer amount fref)
  obtain r l' where "top_up (se_ledger eng) payer amount fref = Some (r, l')"
    using top_up_total [of "se_ledger eng" payer amount fref] inv by (fastforce simp: sim_inv_def)
  with inv prepaid_inv_top_up show ?thesis by (fastforce simp: TopUpEvent sim_inv_def)
next
  case (MeteredUsage payer kind units)
  then show ?thesis using apply_metered_inv [OF inv] by (metis sim_apply.simps(2) prod.collapse)
next
  case (TariffChange schedule)
  with inv show ?thesis by (simp add: sim_inv_def)
next
  case (RefundEvent payer amount)
  have "prepaid_inv (snd (refund (se_ledger eng) payer amount))"
    using inv by (simp add: sim_inv_def prepaid_inv_refund)
  then show ?thesis
    using inv length_state_notification
    by (cases rule: refund_cases [of "se_ledger eng" payer amount])
      (auto simp: RefundEvent sim_inv_def Let_def)
next
  case (MonthlyCharge payer amount currency)
  obtain res rail where "charge (se_rail eng) payer amount currency = (res, rail)" by fastforce
  with inv show ?thesis by (cases res) (simp_all add: MonthlyCharge sim_inv_def)
qed

lemma replay_inv:
  "sim_inv K eng \<Longrightarrow> \<exists>outs eng'. replay K charge dbg eng evs = Some (outs, eng') \<and> sim_inv K eng'
     \<and> length evs \<le> length outs \<and> length outs \<le> 2 * length evs"
proof (induction evs arbitrary: eng)
  case (Cons ev evs)
  obtain out eng1 where 1: "sim_apply K charge dbg eng ev = Some (out, eng1)" "sim_inv K eng1"
    "1 \<le> length out" "length out \<le> 2"
    using sim_apply_inv [OF Cons.prems] by blast
  obtain outs eng2 where "replay K charge dbg eng1 evs = Some (outs, eng2)" "sim_inv K eng2"
    "length evs \<le> length outs" "length outs \<le> 2 * length evs"
    using Cons.IH [OF 1(2)] by blast
  with 1 show ?case by (intro exI [of _ "out @ outs"] exI [of _ eng2]) simp
qed simp

section \<open>The billing machine\<close>

text \<open>
  What the engine promises, as a machine over natural numbers: the credit of each payer, the funding
  references seen, the schedule in force and the bills paid so far. A top-up counts once per
  reference, up to the largest \<open>u64\<close>. Metered usage is paid when its kind is priced, the schedule is in
  the ledger's currency and the payer has the charge; otherwise nothing is taken and nothing is
  billed, and the usage is lost to the operator. A refund is paid when the payer has it. The monthly
  charge is the rail's affair.
\<close>

record SpecBill =
  sb_payer :: bytes
  sb_kind :: ResourceKind
  sb_units :: u64
  sb_billed :: nat
  sb_charge :: nat

record BillingSpec =
  bs_balance :: "bytes \<Rightarrow> nat"
  bs_refs :: "string set"
  bs_schedule :: TariffSchedule
  bs_billed :: "SpecBill list"

definition spec_init :: "TariffSchedule \<Rightarrow> BillingSpec" where
  "spec_init schedule = \<lparr> bs_balance = (\<lambda>_. 0), bs_refs = {}, bs_schedule = schedule, bs_billed = [] \<rparr>"

definition spec_bill :: "TariffSchedule \<Rightarrow> bytes \<Rightarrow> ResourceKind \<Rightarrow> u64 \<Rightarrow> SpecBill" where
  "spec_bill s payer kind units =
     \<lparr> sb_payer = payer, sb_kind = kind, sb_units = units, sb_billed = unat units - free_of s kind,
       sb_charge = min ((unat units - free_of s kind) * price_of s kind) (2 ^ 64 - 1) \<rparr>"

fun spec_step :: "string \<Rightarrow> BillingSpec \<Rightarrow> BillingEvent \<Rightarrow> BillingSpec" where
  "spec_step currency s (TopUpEvent payer amount fref) =
     (if fref \<in> bs_refs s then s
      else s\<lparr> bs_balance := (bs_balance s)(payer := min (bs_balance s payer + unat amount) (2 ^ 64 - 1)),
              bs_refs := insert fref (bs_refs s) \<rparr>)"
| "spec_step currency s (MeteredUsage payer kind units) =
     (let b = spec_bill (bs_schedule s) payer kind units in
      if kind \<in> fst ` set (ts_prices (bs_schedule s)) \<and> ts_currency (bs_schedule s) = currency
         \<and> sb_charge b \<le> bs_balance s payer
      then s\<lparr> bs_balance := (bs_balance s)(payer := bs_balance s payer - sb_charge b), bs_billed := bs_billed s @ [b] \<rparr>
      else s)"
| "spec_step currency s (TariffChange schedule) = s\<lparr> bs_schedule := schedule \<rparr>"
| "spec_step currency s (RefundEvent payer amount) =
     (if unat amount \<le> bs_balance s payer
      then s\<lparr> bs_balance := (bs_balance s)(payer := bs_balance s payer - unat amount) \<rparr> else s)"
| "spec_step currency s (MonthlyCharge payer amount cur) = s"

text \<open>
  The receipt of a paid bill, as the operator signs it: number, payer, kind, metered and billed units,
  amount and currency. And the debits a list of outcomes reports.
\<close>

definition receipt_for ::
  "('cv, 'f, 'ce, 'ik, 'ie) kotva \<Rightarrow> 'ik \<Rightarrow> string \<Rightarrow> nat \<Rightarrow> SpecBill \<Rightarrow> UsageReceipt \<Rightarrow> bool" where
  "receipt_for K ik currency i b r \<longleftrightarrow>
     (\<exists>p. r = op_sign K p ik \<and> op_payer p = sb_payer b \<and> op_kind p = sb_kind b \<and> op_metered_units p = sb_units b
        \<and> unat (op_billed_units p) = sb_billed b \<and> unat (op_amount p) = sb_charge b
        \<and> op_currency p = currency \<and> op_sequence p = of_nat i)"

definition receipts_for ::
  "('cv, 'f, 'ce, 'ik, 'ie) kotva \<Rightarrow> 'ik \<Rightarrow> string \<Rightarrow> SpecBill list \<Rightarrow> UsageReceipt list \<Rightarrow> bool" where
  "receipts_for K ik currency bs rs \<longleftrightarrow>
     length rs = length bs \<and> (\<forall>i < length bs. receipt_for K ik currency i (bs ! i) (rs ! i))"

definition debits_reported :: "BillingOutcome list \<Rightarrow> (bytes \<times> nat) list" where
  "debits_reported outs =
     concat (map (\<lambda>x. case x of Debited r _ \<Rightarrow> [(db_payer r, unat (db_amount r))] | _ \<Rightarrow> []) outs)"

text \<open>The engine represents a state of the machine.\<close>

definition sim_abs ::
  "('cv, 'f, 'ce, 'ik, 'ie) kotva \<Rightarrow> 'ik \<Rightarrow> string \<Rightarrow> ('ik, 'r) SimEngine \<Rightarrow> BillingSpec \<Rightarrow> bool" where
  "sim_abs K ik currency eng s \<longleftrightarrow>
     (\<forall>p. unat (balance (se_ledger eng) p) = bs_balance s p)
   \<and> pl_credited_refs (se_ledger eng) = bs_refs s \<and> pl_currency (se_ledger eng) = currency
   \<and> se_schedule eng = bs_schedule s \<and> se_ik eng = ik
   \<and> receipts_for K ik currency (bs_billed s) (log_receipts (se_log eng))
   \<and> log_next_sequence (se_log eng) = of_nat (length (bs_billed s))"

lemma sim_abs_new: "sim_abs K ik currency (engine_new (prepaid_new currency threshold) schedule ik rail) (spec_init schedule)"
  by (simp add: sim_abs_def engine_new_def prepaid_new_def spec_init_def balance_def log_new_def receipts_for_def)

lemma debits_reported_simps [simp]:
  "debits_reported [] = []" "debits_reported (xs @ ys) = debits_reported xs @ debits_reported ys"
  "debits_reported (state_notification eng payer) = []"
  by (simp_all add: debits_reported_def state_notification_def split: BillingState.split)

lemma receipts_for_snoc:
  "receipts_for K ik currency bs rs \<Longrightarrow> receipt_for K ik currency (length bs) b r \<Longrightarrow>
   receipts_for K ik currency (bs @ [b]) (rs @ [r])"
  by (auto simp: receipts_for_def nth_append less_Suc_eq)

text \<open>When a debit goes through, as the machine says it.\<close>

lemma debit_iff:
  "(\<exists>e. debit l payer bill = (Inl e, l)) \<longleftrightarrow> \<not> (bill_currency bill = pl_currency l \<and> unat (bill_amount bill) \<le> unat (balance l payer))"
  by (auto simp: debit_def Let_def word_less_nat_alt next_seq_def)

lemma apply_metered_refines:
  fixes K :: "('cv, 'f, 'ce, 'ik, 'ie) kotva"
  assumes inv: "sim_inv K eng" and abs: "sim_abs K ik currency eng s" and ap: "apply_metered K eng payer kind units = (out, eng')"
  shows "sim_abs K ik currency eng' (spec_step currency s (MeteredUsage payer kind units))
    \<and> (\<exists>new. bs_billed (spec_step currency s (MeteredUsage payer kind units)) = bs_billed s @ new
           \<and> debits_reported out = map (\<lambda>b. (sb_payer b, sb_charge b)) new)"
proof -
  have empty: "\<And>p. meter_usage (se_meter eng) p = []" using inv by (simp add: sim_inv_def)
  let ?b = "spec_bill (bs_schedule s) payer kind units"
  have sched: "se_schedule eng = bs_schedule s" and cur: "pl_currency (se_ledger eng) = currency"
    and bal: "\<And>p. unat (balance (se_ledger eng) p) = bs_balance s p"
    using abs by (simp_all add: sim_abs_def)
  have bill: "kind \<in> fst ` set (ts_prices (bs_schedule s)) \<and> bill_currency bill = ts_currency (bs_schedule s)
      \<and> unat (bill_amount bill) = sb_charge ?b
      \<and> (\<exists>item. bill_line_items bill = [item] \<and> line_item_ok (bs_schedule s) (kind, units) item)"
    if ev: "evaluate (se_schedule eng) [(kind, units)] = (Inr bill :: 'ce BillingError + Bill)" for bill
  proof -
    have priced: "fst ` set [(kind, units)] \<subseteq> fst ` set (ts_prices (bs_schedule s))"
      using evaluate_Inr_priced [OF ev] by (simp add: sched)
    obtain b where b: "evaluate (bs_schedule s) [(kind, units)] = (Inr b :: 'ce BillingError + Bill)"
      "bill_currency b = ts_currency (bs_schedule s)"
      "unat (bill_amount b) = min (charge_spec (bs_schedule s) [(kind, units)]) (2 ^ 64 - 1)"
      "list_all2 (line_item_ok (bs_schedule s)) [(kind, units)] (bill_line_items b)"
      by (rule evaluate_ok [OF priced])
    have "bill = b" using ev b(1) by (simp add: sched)
    with b priced show ?thesis by (auto simp: spec_bill_def charge_spec_def list_all2_Cons1)
  qed
  from empty ap show ?thesis
  proof (cases rule: apply_metered_cases)
    case (unpriced m')
    then have "kind \<notin> fst ` set (ts_prices (bs_schedule s))"
      by (auto simp: evaluate_error sched split: if_splits)
    then have "spec_step currency s (MeteredUsage payer kind units) = s" by (simp add: Let_def)
    with unpriced abs show ?thesis by (simp add: sim_abs_def debits_reported_def del: spec_step.simps)
  next
    case (refused m' b e)
    have "\<not> (bill_currency b = pl_currency (se_ledger eng) \<and> unat (bill_amount b) \<le> unat (balance (se_ledger eng) payer))"
      using refused(2) debit_iff by blast
    then have "spec_step currency s (MeteredUsage payer kind units) = s"
      using bill [OF refused(1)] by (auto simp: Let_def cur bal)
    with refused abs show ?thesis by (simp add: sim_abs_def debits_reported_def del: spec_step.simps)
  next
    case (paid m' b r rs l' log')
    note b = bill [OF paid(1)]
    obtain item where item: "bill_line_items b = [item]" "line_item_ok (bs_schedule s) (kind, units) item" using b by blast
    have acc: "bill_currency b = currency" "unat (bill_amount b) \<le> bs_balance s payer" "db_payer r = payer" "db_amount r = bill_amount b"
      "\<And>p. unat (balance l' p) = (if p = payer then bs_balance s p - sb_charge ?b else bs_balance s p)"
      "pl_credited_refs l' = pl_credited_refs (se_ledger eng)" "pl_currency l' = currency"
      using paid(2) b by (cases rule: debit_cases [of "se_ledger eng" payer b];
        auto simp: cur bal [symmetric] balance_def unat_sub word_le_nat_alt)+
    have spec: "spec_step currency s (MeteredUsage payer kind units)
        = s\<lparr> bs_balance := (bs_balance s)(payer := bs_balance s payer - sb_charge ?b), bs_billed := bs_billed s @ [?b] \<rparr>"
      using b acc(1,2) by (simp add: Let_def)
    let ?p = "line_op payer (bill_currency b) (log_next_sequence (se_log eng)) item"
    have log': "log_receipts log' = log_receipts (se_log eng) @ [op_sign K ?p ik]"
      "log_next_sequence log' = log_next_sequence (se_log eng) + 1"
      using paid(3) abs by (auto simp: issue_for_bill_def issue_lines_eq item(1) sim_abs_def Let_def)
    have "receipt_for K ik currency (length (bs_billed s)) ?b (op_sign K ?p ik)"
      unfolding receipt_for_def using item(2) abs acc(1)
      by (intro exI [of _ ?p]) (auto simp: line_op_def line_item_ok_def spec_bill_def sim_abs_def)
    then have "sim_abs K ik currency eng' (spec_step currency s (MeteredUsage payer kind units))"
      unfolding spec using abs paid(5) log' acc(5-7) by (auto simp: sim_abs_def intro: receipts_for_snoc)
    moreover have "debits_reported out = map (\<lambda>b. (sb_payer b, sb_charge b)) [?b]"
      using paid(6) b acc(3,4) debits_reported_simps(3) [of eng' payer]
      by (simp add: debits_reported_def spec_bill_def)
    moreover have "bs_billed (spec_step currency s (MeteredUsage payer kind units)) = bs_billed s @ [?b]" unfolding spec by simp
    ultimately show ?thesis by blast
  qed
qed

lemma sim_apply_refines:
  assumes inv: "sim_inv K eng" and abs: "sim_abs K ik currency eng s" and ap: "sim_apply K charge dbg eng ev = Some (out, eng')"
  shows "sim_abs K ik currency eng' (spec_step currency s ev)
    \<and> (\<exists>new. bs_billed (spec_step currency s ev) = bs_billed s @ new
           \<and> debits_reported out = map (\<lambda>b. (sb_payer b, sb_charge b)) new)"
proof (cases ev)
  case (TopUpEvent payer amount fref)
  then obtain r l' where t: "top_up (se_ledger eng) payer amount fref = Some (r, l')"
    and e: "out = [ToppedUp r]" "eng' = eng\<lparr> se_ledger := l' \<rparr>"
    using ap by (auto split: option.splits)
  from t show ?thesis
    by (cases rule: top_up_cases)
       (use abs in \<open>auto simp: TopUpEvent e sim_abs_def debits_reported_def balance_def unat_saturating_add\<close>)
next
  case (MeteredUsage payer kind units)
  then show ?thesis using apply_metered_refines [OF inv abs, of payer kind units out eng'] ap by simp
next
  case (TariffChange schedule)
  then show ?thesis using ap abs by (auto simp: sim_abs_def debits_reported_def)
next
  case (RefundEvent payer amount)
  show ?thesis
  proof (cases rule: refund_cases [of "se_ledger eng" payer amount])
    case refused
    then have "\<not> unat amount \<le> bs_balance s payer" using abs by (simp add: sim_abs_def word_less_nat_alt)
    then show ?thesis using ap abs refused by (auto simp: RefundEvent sim_abs_def debits_reported_def)
  next
    case (accepted r)
    then have "unat amount \<le> bs_balance s payer" using abs by (simp add: sim_abs_def word_le_nat_alt)
    then show ?thesis using ap abs accepted debits_reported_simps(3) [of eng' payer]
      by (auto simp: RefundEvent sim_abs_def debits_reported_def balance_def unat_sub Let_def)
  qed
next
  case (MonthlyCharge payer amount cur)
  obtain res rail where "charge (se_rail eng) payer amount cur = (res, rail)" by fastforce
  then show ?thesis using ap abs by (cases res) (auto simp: MonthlyCharge sim_abs_def debits_reported_def)
qed

lemma replay_refines:
  "sim_inv K eng \<Longrightarrow> sim_abs K ik currency eng s \<Longrightarrow> replay K charge dbg eng evs = Some (outs, eng') \<Longrightarrow>
   sim_abs K ik currency eng' (foldl (spec_step currency) s evs)
   \<and> (\<exists>new. bs_billed (foldl (spec_step currency) s evs) = bs_billed s @ new
          \<and> debits_reported outs = map (\<lambda>b. (sb_payer b, sb_charge b)) new)"
proof (induction evs arbitrary: eng s outs)
  case (Cons ev evs)
  obtain out eng1 where 1: "sim_apply K charge dbg eng ev = Some (out, eng1)" "sim_inv K eng1"
    using sim_apply_inv [OF Cons.prems(1)] by blast
  then obtain outs' where 2: "replay K charge dbg eng1 evs = Some (outs', eng')" "outs = out @ outs'"
    using Cons.prems(3) by (auto split: option.splits)
  from sim_apply_refines [OF Cons.prems(1,2) 1(1)] obtain new where
    n: "sim_abs K ik currency eng1 (spec_step currency s ev)" "bs_billed (spec_step currency s ev) = bs_billed s @ new"
      "debits_reported out = map (\<lambda>b. (sb_payer b, sb_charge b)) new" by blast
  from Cons.IH [OF 1(2) n(1) 2(1)] obtain new' where
    "sim_abs K ik currency eng' (foldl (spec_step currency) (spec_step currency s ev) evs)"
    "bs_billed (foldl (spec_step currency) (spec_step currency s ev) evs) = bs_billed (spec_step currency s ev) @ new'"
    "debits_reported outs' = map (\<lambda>b. (sb_payer b, sb_charge b)) new'" by blast
  with n 2 show ?case by (intro conjI exI [of _ "new @ new'"]) simp_all
qed simp

section \<open>Properties\<close>

text \<open>
  (C1) Replaying any stream of events on a fresh ledger, over any rail, never panics and does what the
  billing machine does: at the end every payer's balance is the machine's; the debits reported are the
  bills the machine paid, in order, each with its payer and its charge under the tariff then in force;
  the receipt log holds exactly one receipt for each of these bills, signed by the operator and saying
  number, payer, kind, metered and billed units, charge and currency, and verifies. Usage that is
  unpriced, in another currency or beyond the payer's balance is not billed, and is not carried over
  either: the meter is empty. One outcome per event is reported, and at most one notification more, and
  no payer was debited and refunded more than was credited.
\<close>

theorem replay_sound:
  assumes "kotva_laws K"
  shows "\<exists>outs eng. replay K charge dbg (engine_new (prepaid_new currency threshold) schedule ik rail) evs = Some (outs, eng)
     \<and> length evs \<le> length outs \<and> length outs \<le> 2 * length evs
     \<and> (\<forall>p. unat (balance (se_ledger eng) p) = bs_balance (foldl (spec_step currency) (spec_init schedule) evs) p)
     \<and> debits_reported outs
         = map (\<lambda>b. (sb_payer b, sb_charge b)) (bs_billed (foldl (spec_step currency) (spec_init schedule) evs))
     \<and> receipts_for K ik currency (bs_billed (foldl (spec_step currency) (spec_init schedule) evs)) (log_receipts (se_log eng))
     \<and> (\<forall>p. unat (balance (se_ledger eng) p) + debited (se_ledger eng) p + refunded (se_ledger eng) p
            \<le> credited (se_ledger eng) p)
     \<and> (\<forall>p. meter_usage (se_meter eng) p = [])
     \<and> verify_all K (se_log eng) = Inr ()"
proof -
  have inv: "sim_inv K (engine_new (prepaid_new currency threshold) schedule ik rail)"
    by (rule sim_inv_new [OF prepaid_inv_new])
  from replay_inv [OF inv, of charge dbg evs] obtain outs eng where r:
    "replay K charge dbg (engine_new (prepaid_new currency threshold) schedule ik rail) evs = Some (outs, eng)"
    "sim_inv K eng" "length evs \<le> length outs" "length outs \<le> 2 * length evs" by blast
  from replay_refines [OF inv sim_abs_new r(1)] have
    "sim_abs K ik currency eng (foldl (spec_step currency) (spec_init schedule) evs)"
    "debits_reported outs = map (\<lambda>b. (sb_payer b, sb_charge b)) (bs_billed (foldl (spec_step currency) (spec_init schedule) evs))"
    by (auto simp: spec_init_def)
  with assms r show ?thesis
    by (auto simp: sim_abs_def sim_inv_def prepaid_inv_def balances_ok_def log_inv_def)
qed

theorem replay_sound_witness:
  "\<exists>outs eng. replay (ref_kotva (RU64 0)) ledger_charge (\<lambda>_. ''err'')
     (engine_new (prepaid_new ''USDC'' 10) sample_schedule [7] ledger_new)
     [TopUpEvent [1] 5000 ''a'', MeteredUsage [1] Connections 3, MeteredUsage [2] Connections 1, MeteredUsage [1] Messages 9] = Some (outs, eng)
   \<and> unat (balance (se_ledger eng) [1]) = 3500 \<and> debits_reported outs = [([1], 1500)] \<and> length (log_receipts (se_log eng)) = 1"
proof -
  let ?evs = "[TopUpEvent [1] 5000 ''a'', MeteredUsage [1] Connections 3, MeteredUsage [2] Connections 1, MeteredUsage [1] Messages 9]"
  let ?b = "\<lparr> sb_payer = [1], sb_kind = Connections, sb_units = 3, sb_billed = 3, sb_charge = 1500 \<rparr>"
  have s: "foldl (spec_step ''USDC'') (spec_init sample_schedule) ?evs
      = \<lparr> bs_balance = (\<lambda>_. 0)([1] := 3500), bs_refs = {''a''}, bs_schedule = sample_schedule, bs_billed = [?b] \<rparr>"
    by (simp add: spec_init_def spec_bill_def sample_schedule_def free_of_def price_of_def al_get_or_def)
  from replay_sound [OF ref_kotva_laws, of "RU64 0" ledger_charge "\<lambda>_. ''err''" "''USDC''" 10 sample_schedule "[7]" ledger_new ?evs]
  show ?thesis unfolding s by (auto simp: receipts_for_def)
qed

text \<open>
  Paid usage is billed exactly and receipted: in an engine with nothing left unbilled, when
  the kind is priced, the currencies agree and the payer's balance covers the charge, a metered
  event debits exactly the charge of the tariff specification, issues one receipt, and leaves
  every other payer's balance alone.
\<close>

lemma metered_usage_billed_exactly:
  fixes K :: "('cv, 'f, 'ce, 'ik, 'ie) kotva"
  assumes inv: "sim_inv K eng"
    and priced: "kind \<in> fst ` set (ts_prices (se_schedule eng))"
    and cur: "ts_currency (se_schedule eng) = pl_currency (se_ledger eng)"
    and cover: "charge_spec (se_schedule eng) [(kind, units)] \<le> unat (balance (se_ledger eng) payer)"
  shows "\<exists>r rs notes eng'. apply_metered K eng payer kind units = (Debited r rs # notes, eng')
     \<and> unat (db_amount r) = charge_spec (se_schedule eng) [(kind, units)]
     \<and> unat (balance (se_ledger eng') payer) + charge_spec (se_schedule eng) [(kind, units)]
         = unat (balance (se_ledger eng) payer)
     \<and> length rs = 1
     \<and> (\<forall>q. q \<noteq> payer \<longrightarrow> balance (se_ledger eng') q = balance (se_ledger eng) q)"
proof -
  obtain b where b: "evaluate (se_schedule eng) [(kind, units)] = (Inr b :: 'ce BillingError + Bill)"
    "bill_currency b = ts_currency (se_schedule eng)"
    "unat (bill_amount b) = min (charge_spec (se_schedule eng) [(kind, units)]) (2 ^ 64 - 1)"
    "list_all2 (line_item_ok (se_schedule eng)) [(kind, units)] (bill_line_items b)"
    by (rule evaluate_ok [of "[(kind, units)]" "se_schedule eng"]) (use priced in simp_all)
  have amount: "unat (bill_amount b) = charge_spec (se_schedule eng) [(kind, units)]"
    using b(3) cover unat_le_max [of "balance (se_ledger eng) payer"] by simp
  obtain out eng' where ap: "apply_metered K eng payer kind units = (out, eng')" by fastforce
  have empty: "\<And>p. meter_usage (se_meter eng) p = []" using inv by (simp add: sim_inv_def)
  from empty ap show ?thesis
  proof (cases rule: apply_metered_cases)
    case unpriced
    with b show ?thesis by simp
  next
    case (refused m' bill e)
    with b have "bill = b" by simp
    with refused b cur cover amount show ?thesis
      by (auto simp: debit_def Let_def word_less_nat_alt next_seq_def split: if_splits)
  next
    case (paid m' bill r rs l' log')
    with b have bill: "bill = b" by simp
    have "length rs = length (bill_line_items b)"
      using paid(3) by (auto simp: bill issue_for_bill_def issue_lines_eq Let_def)
    then have "length rs = 1" using list_all2_lengthD [OF b(4)] by simp
    moreover have "db_amount r = bill_amount b \<and> unat (balance l' payer) + unat (bill_amount b)
        = unat (balance (se_ledger eng) payer) \<and> (\<forall>q. q \<noteq> payer \<longrightarrow> balance l' q = balance (se_ledger eng) q)"
      using paid(2) by (cases rule: debit_cases [of "se_ledger eng" payer bill])
        (auto simp: bill balance_def unat_sub word_le_nat_alt)
    ultimately show ?thesis using paid ap amount by auto
  qed
qed

definition sample_engine :: "(bytes, InMemoryLedger) SimEngine" where
  "sample_engine = engine_new (prepaid_step (prepaid_new ''USDC'' 10) (TopUp [1] 5000 ''a'')) sample_schedule [7] ledger_new"

lemma metered_usage_billed_exactly_witness:
  "\<exists>r rs notes eng'. apply_metered (ref_kotva (RU64 0)) sample_engine [1] Connections 3 = (Debited r rs # notes, eng')
     \<and> unat (db_amount r) = 1500"
proof -
  have "prepaid_inv (prepaid_step (prepaid_new ''USDC'' 10) (TopUp [1] 5000 ''a''))"
    by (rule pp.step_inv [OF prepaid_inv_new])
  then have "sim_inv (ref_kotva (RU64 0)) sample_engine"
    unfolding sample_engine_def by (rule sim_inv_new)
  moreover have "charge_spec (se_schedule sample_engine) [(Connections, 3)] = 1500"
    by (simp add: charge_spec_def sample_engine_def engine_new_def sample_schedule_def free_of_def
        price_of_def al_get_or_def)
  moreover have "unat (balance (se_ledger sample_engine) [1]) = 5000"
    by (simp add: sample_engine_def engine_new_def prepaid_new_def prepaid_ops al_get_or_def saturating_add_def)
  moreover have "Connections \<in> fst ` set (ts_prices (se_schedule sample_engine))"
    "ts_currency (se_schedule sample_engine) = pl_currency (se_ledger sample_engine)"
    by (simp_all add: sample_engine_def engine_new_def sample_schedule_def prepaid_new_def prepaid_ops)
  ultimately show ?thesis
    using metered_usage_billed_exactly [of "ref_kotva (RU64 0)" sample_engine Connections 3 "[1]"] by fastforce
qed

text \<open>
  Unpaid usage is never receipted: a metered event either reports a debit, or leaves the
  ledger and the receipt log exactly as they were and reports a failed debit. The usage of a
  failed debit is dropped from the meter all the same.
\<close>

lemma unpaid_usage_not_receipted:
  assumes "sim_inv K eng" and "apply_metered K eng payer kind units = (out, eng')"
  shows "(\<exists>r rs notes. out = Debited r rs # notes)
     \<or> (\<exists>e. out = [DebitFailed payer e] \<and> se_ledger eng' = se_ledger eng \<and> se_log eng' = se_log eng
          \<and> meter_usage (se_meter eng') payer = [])"
proof -
  have "\<And>p. meter_usage (se_meter eng) p = []" using assms(1) by (simp add: sim_inv_def)
  from this assms(2) show ?thesis by (cases rule: apply_metered_cases) auto
qed

lemma unpaid_usage_not_receipted_witness:
  "\<exists>out eng'. apply_metered (ref_kotva (RU64 0)) sample_engine [2] Messages 3 = (out, eng')
     \<and> ((\<exists>r rs notes. out = Debited r rs # notes)
        \<or> (\<exists>e. out = [DebitFailed [2] e] \<and> se_ledger eng' = se_ledger sample_engine \<and> se_log eng' = se_log sample_engine
             \<and> meter_usage (se_meter eng') [2] = []))"
proof -
  have "sim_inv (ref_kotva (RU64 0)) sample_engine"
    unfolding sample_engine_def by (rule sim_inv_new [OF pp.step_inv [OF prepaid_inv_new]])
  moreover obtain out eng' where "apply_metered (ref_kotva (RU64 0)) sample_engine [2] Messages 3 = (out, eng')"
    by fastforce
  ultimately show ?thesis using unpaid_usage_not_receipted by blast
qed

end
