(* ===== verification/Billing_Pricing.thy ===== *)
theory Billing_Pricing
  imports Billing_Tariff
begin

text \<open>
  Recommended pricing (\<open>crates/pier-billing/src/pricing.rs\<close>): the cost-plus schedule of each
  coordinator kind from an operator's hosting costs, and the rounding of raw usage into
  billing batches.
\<close>

section \<open>Constants and rounding\<close>

definition RECOMMENDED_CURRENCY :: string where "RECOMMENDED_CURRENCY = ''USD''"
definition RECOMMENDED_MARKUP_X100 :: u64 where "RECOMMENDED_MARKUP_X100 = 200"
definition ASSUMED_MONTHLY_GIB :: u64 where "ASSUMED_MONTHLY_GIB = 500"
definition ASSUMED_MONTHLY_MESSAGES :: u64 where "ASSUMED_MONTHLY_MESSAGES = 200000"
definition ASSUMED_MONTHLY_COMPUTE_SECONDS :: u64 where "ASSUMED_MONTHLY_COMPUTE_SECONDS = 500000"
definition BYTES_FORWARDED_BATCH_BYTES :: u64 where "BYTES_FORWARDED_BATCH_BYTES = 1024 * 1024 * 1024"
definition MESSAGES_BATCH :: u64 where "MESSAGES_BATCH = 1000"
definition COMPUTE_SECONDS_BATCH :: u64 where "COMPUTE_SECONDS_BATCH = 1000"
definition NOMINAL_PERIOD_SECONDS :: u64 where "NOMINAL_PERIOD_SECONDS = 30 * 24 * 3600"

definition ceil_div :: "u64 \<Rightarrow> u64 \<Rightarrow> u64" where
  "ceil_div a b = (if b = 0 then 0 else saturating_add a (b - 1) div b)"

definition gib_billing_units :: "u64 \<Rightarrow> u64" where
  "gib_billing_units raw_bytes = ceil_div raw_bytes BYTES_FORWARDED_BATCH_BYTES"

definition messages_billing_units :: "u64 \<Rightarrow> u64" where
  "messages_billing_units raw_messages = ceil_div raw_messages MESSAGES_BATCH"

definition compute_seconds_billing_units :: "u64 \<Rightarrow> u64" where
  "compute_seconds_billing_units raw = ceil_div raw COMPUTE_SECONDS_BATCH"

definition markup :: "u64 \<Rightarrow> u64" where
  "markup cost = ceil_div (saturating_mul cost RECOMMENDED_MARKUP_X100) 100"

section \<open>Profiles and schedules\<close>

record HostingProfile =
  hp_name :: string
  base_vps_usd_cents_per_month :: u64
  bandwidth_usd_cents_per_gib :: u64
  reachability_premium_usd_cents_per_month :: u64

definition HETZNER_CX :: HostingProfile where
  "HETZNER_CX = \<lparr> hp_name = ''hetzner-cx-illustrative'', base_vps_usd_cents_per_month = 500,
     bandwidth_usd_cents_per_gib = 1, reachability_premium_usd_cents_per_month = 500 \<rparr>"

definition VULTR_GENERIC :: HostingProfile where
  "VULTR_GENERIC = \<lparr> hp_name = ''vultr-generic-illustrative'', base_vps_usd_cents_per_month = 600,
     bandwidth_usd_cents_per_gib = 1, reachability_premium_usd_cents_per_month = 500 \<rparr>"

definition GENERIC_VPS :: HostingProfile where
  "GENERIC_VPS = \<lparr> hp_name = ''generic-vps-conservative'', base_vps_usd_cents_per_month = 1000,
     bandwidth_usd_cents_per_gib = 2, reachability_premium_usd_cents_per_month = 1000 \<rparr>"

datatype CoordinatorPricingKind = PRelay | PMediaRelay | PReachabilityAdapter | PGateway | PCompute

definition recommended_schedule :: "ResourceKind \<Rightarrow> u64 \<Rightarrow> TariffSchedule" where
  "recommended_schedule kind price =
     \<lparr> ts_currency = RECOMMENDED_CURRENCY, ts_prices = bt_insert kind (max price 1) [],
       ts_free_allowance = [], ts_period_seconds = Some NOMINAL_PERIOD_SECONDS \<rparr>"

definition bandwidth_schedule :: "HostingProfile \<Rightarrow> bool \<Rightarrow> TariffSchedule" where
  "bandwidth_schedule profile include_reachability_premium =
     (let fixed = saturating_add (base_vps_usd_cents_per_month profile)
            (if include_reachability_premium
             then reachability_premium_usd_cents_per_month profile else 0);
          amortized_per_gib = ceil_div fixed ASSUMED_MONTHLY_GIB;
          cost_per_gib = saturating_add (bandwidth_usd_cents_per_gib profile) amortized_per_gib;
          recommended_per_gib = markup cost_per_gib
      in recommended_schedule BytesForwarded recommended_per_gib)"

definition gateway_schedule :: "HostingProfile \<Rightarrow> TariffSchedule" where
  "gateway_schedule profile =
     (let fixed = saturating_add (base_vps_usd_cents_per_month profile)
            (reachability_premium_usd_cents_per_month profile);
          amortized_per_1k_messages = ceil_div fixed (ASSUMED_MONTHLY_MESSAGES div MESSAGES_BATCH);
          recommended_per_1k = markup amortized_per_1k_messages
      in recommended_schedule Messages recommended_per_1k)"

definition compute_schedule :: "HostingProfile \<Rightarrow> TariffSchedule" where
  "compute_schedule profile =
     (let fixed = base_vps_usd_cents_per_month profile;
          amortized_per_1k_seconds =
            ceil_div fixed (ASSUMED_MONTHLY_COMPUTE_SECONDS div COMPUTE_SECONDS_BATCH);
          recommended_per_1k = markup amortized_per_1k_seconds
      in recommended_schedule ComputeSeconds recommended_per_1k)"

fun recommended_tariff :: "CoordinatorPricingKind \<Rightarrow> HostingProfile \<Rightarrow> TariffSchedule" where
  "recommended_tariff PRelay profile = bandwidth_schedule profile False"
| "recommended_tariff PMediaRelay profile = bandwidth_schedule profile False"
| "recommended_tariff PReachabilityAdapter profile = bandwidth_schedule profile True"
| "recommended_tariff PGateway profile = gateway_schedule profile"
| "recommended_tariff PCompute profile = compute_schedule profile"

section \<open>Specification\<close>

text \<open>
  For each kind the resource it prices, the batches it assumes to sell in a month, and the
  monthly cost of serving them, over the natural numbers.
\<close>

fun priced_kind :: "CoordinatorPricingKind \<Rightarrow> ResourceKind" where
  "priced_kind PGateway = Messages"
| "priced_kind PCompute = ComputeSeconds"
| "priced_kind _ = BytesForwarded"

fun assumed_batches :: "CoordinatorPricingKind \<Rightarrow> nat" where
  "assumed_batches PGateway = 200"
| "assumed_batches PCompute = 500"
| "assumed_batches _ = 500"

fun scarce_pricing :: "CoordinatorPricingKind \<Rightarrow> bool" where
  "scarce_pricing PReachabilityAdapter = True"
| "scarce_pricing PGateway = True"
| "scarce_pricing _ = False"

definition fixed_cost :: "CoordinatorPricingKind \<Rightarrow> HostingProfile \<Rightarrow> nat" where
  "fixed_cost k p = unat (base_vps_usd_cents_per_month p)
     + (if scarce_pricing k then unat (reachability_premium_usd_cents_per_month p) else 0)"

definition variable_cost :: "CoordinatorPricingKind \<Rightarrow> HostingProfile \<Rightarrow> nat" where
  "variable_cost k p = (if priced_kind k = BytesForwarded then unat (bandwidth_usd_cents_per_gib p) else 0)"

section \<open>Lemmas\<close>

lemmas pricing_consts = RECOMMENDED_MARKUP_X100_def ASSUMED_MONTHLY_GIB_def
  ASSUMED_MONTHLY_MESSAGES_def ASSUMED_MONTHLY_COMPUTE_SECONDS_def MESSAGES_BATCH_def
  COMPUTE_SECONDS_BATCH_def

lemma unat_ceil_div [word_nat]:
  "b \<noteq> 0 \<Longrightarrow> unat (ceil_div a b) = min (unat a + (unat b - 1)) (2 ^ 64 - 1) div unat b"
  by (simp add: ceil_div_def unat_div unat_saturating_add unat_minus_one)

text \<open>Without saturation, the batches cover the raw amount and waste less than one batch.\<close>

lemma ceil_div_covers:
  assumes "b \<noteq> 0" and "unat a + (unat b - 1) < 2 ^ 64"
  shows "unat a \<le> unat (ceil_div a b) * unat b"
    and "unat (ceil_div a b) * unat b < unat a + unat b"
proof -
  have pos: "0 < unat b" using assms(1) by (simp add: unat_gt_0)
  have eq: "unat (ceil_div a b) = (unat a + (unat b - 1)) div unat b"
    using assms by (simp add: unat_ceil_div)
  have "(unat a + (unat b - 1)) div unat b * unat b + (unat a + (unat b - 1)) mod unat b
        = unat a + (unat b - 1)" by (rule div_mult_mod_eq)
  moreover have "(unat a + (unat b - 1)) mod unat b < unat b" using pos by simp
  ultimately show "unat a \<le> unat (ceil_div a b) * unat b"
    and "unat (ceil_div a b) * unat b < unat a + unat b"
    unfolding eq using pos by linarith+
qed

lemma ceil_div_mono: "a \<le> a' \<Longrightarrow> ceil_div a b \<le> ceil_div a' b"
  by (cases "b = 0") (auto simp: word_le_nat_alt unat_ceil_div ceil_div_def [of _ 0] intro!: div_le_mono min.mono)

lemma saturating_mono:
  fixes a b c :: "'a::len word"
  shows "b \<le> c \<Longrightarrow> saturating_add a b \<le> saturating_add a c"
    and "b \<le> c \<Longrightarrow> saturating_mul b a \<le> saturating_mul c a"
  unfolding word_le_nat_alt unat_saturating_add unat_saturating_mul
  by (rule min.mono; simp)+

lemma markup_mono: "a \<le> b \<Longrightarrow> markup a \<le> markup b"
  by (simp add: markup_def ceil_div_mono saturating_mono)

lemma markup_covers:
  assumes "unat cost < 2 ^ 56"
  shows "2 * unat cost \<le> unat (markup cost)"
proof -
  have "unat (saturating_mul cost RECOMMENDED_MARKUP_X100) = unat cost * 200"
    using assms by (simp add: unat_saturating_mul pricing_consts)
  with assms show ?thesis
    using ceil_div_covers(1) [of 100 "saturating_mul cost RECOMMENDED_MARKUP_X100"]
    by (simp add: markup_def)
qed

text \<open>The price a recommended schedule sets, and that it sets no other.\<close>

lemma price_of_recommended_schedule [simp]:
  "price_of (recommended_schedule kind price) k = (if k = kind then max (unat price) 1 else 0)"
  by (auto simp: price_of_def recommended_schedule_def al_get_or_def max_def word_le_nat_alt)

lemma recommended_bandwidth_price:
  "price_of (bandwidth_schedule p prem) BytesForwarded =
     max (unat (markup (saturating_add (bandwidth_usd_cents_per_gib p)
       (ceil_div (saturating_add (base_vps_usd_cents_per_month p)
          (if prem then reachability_premium_usd_cents_per_month p else 0)) ASSUMED_MONTHLY_GIB)))) 1"
  by (simp add: bandwidth_schedule_def Let_def)

text \<open>Amortising a fixed cost over \<open>n\<close> batches and adding a cost per batch, before the markup.\<close>

lemma markup_recovers:
  fixes fixed bw n :: u64
  assumes n: "n \<noteq> 0" "unat n < 2 ^ 10" and small: "unat fixed < 2 ^ 52" "unat bw < 2 ^ 52"
  shows "2 * (unat fixed + unat bw * unat n) \<le> unat (markup (saturating_add bw (ceil_div fixed n))) * unat n"
proof -
  have pos: "1 \<le> unat n" using n(1) by (metis One_nat_def Suc_leI unat_gt_0)
  have nov: "unat fixed + (unat n - 1) < 2 ^ 64" using n(2) small by simp
  have cov: "unat fixed \<le> unat (ceil_div fixed n) * unat n"
    by (rule ceil_div_covers(1) [OF n(1) nov])
  have "unat (ceil_div fixed n) \<le> unat (ceil_div fixed n) * unat n" using pos by simp
  also have "\<dots> < unat fixed + unat n" by (rule ceil_div_covers(2) [OF n(1) nov])
  finally have up: "unat (ceil_div fixed n) < 2 ^ 52 + 2 ^ 10" using n(2) small by simp
  have cost: "unat (saturating_add bw (ceil_div fixed n)) = unat bw + unat (ceil_div fixed n)"
    using up small by (simp add: unat_saturating_add)
  then have "2 * (unat bw + unat (ceil_div fixed n)) \<le> unat (markup (saturating_add bw (ceil_div fixed n)))"
    using markup_covers [of "saturating_add bw (ceil_div fixed n)"] up small by simp
  from mult_le_mono1 [OF this, of "unat n"] cov show ?thesis by (simp add: algebra_simps)
qed

section \<open>Properties\<close>

text \<open>
  Cost recovery: for hosting costs below \<open>2^50\<close> cents, selling the assumed monthly
  batches at the recommended price returns at least twice (the markup) the fixed monthly cost,
  with the reachability premium where the kind carries it, plus the variable cost of the
  batches; and a recommended price is never zero.
\<close>

lemma recommended_price_recovers_cost:
  assumes "unat (base_vps_usd_cents_per_month p) < 2 ^ 50"
    and "unat (reachability_premium_usd_cents_per_month p) < 2 ^ 50"
    and "unat (bandwidth_usd_cents_per_gib p) < 2 ^ 50"
  shows "2 * (fixed_cost k p + variable_cost k p * assumed_batches k)
         \<le> price_of (recommended_tariff k p) (priced_kind k) * assumed_batches k
         \<and> 1 \<le> price_of (recommended_tariff k p) (priced_kind k)"
proof -
  have bw: "2 * (unat f + unat (bandwidth_usd_cents_per_gib p) * 500)
     \<le> unat (markup (saturating_add (bandwidth_usd_cents_per_gib p) (ceil_div f ASSUMED_MONTHLY_GIB))) * 500"
    if "unat f < 2 ^ 52" for f :: u64
    using markup_recovers [of ASSUMED_MONTHLY_GIB f] that assms(3) by (simp add: pricing_consts)
  have msg: "2 * unat f \<le> unat (markup (ceil_div f n)) * unat n"
    if "unat f < 2 ^ 52" "n \<noteq> 0" "unat n < 2 ^ 10" for f n :: u64
    using markup_recovers [of n f 0] that by simp
  let ?fix = "saturating_add (base_vps_usd_cents_per_month p) (reachability_premium_usd_cents_per_month p)"
  have fixed: "unat ?fix = unat (base_vps_usd_cents_per_month p) + unat (reachability_premium_usd_cents_per_month p)"
    using assms by (simp add: unat_saturating_add)
  show ?thesis
    using assms fixed bw [of "base_vps_usd_cents_per_month p"] bw [of ?fix] msg [of ?fix 200]
      msg [of "base_vps_usd_cents_per_month p" 500]
    by (cases k) (simp_all add: recommended_bandwidth_price gateway_schedule_def compute_schedule_def
        Let_def fixed_cost_def variable_cost_def pricing_consts max_def)
qed

lemma recommended_price_recovers_cost_witness:
  "2 * (fixed_cost PGateway HETZNER_CX + variable_cost PGateway HETZNER_CX * 200)
   \<le> price_of (recommended_tariff PGateway HETZNER_CX) Messages * 200"
  using recommended_price_recovers_cost [of HETZNER_CX PGateway] by (simp add: HETZNER_CX_def)

text \<open>
  The scarce-reachability premium never lowers a price: for every profile, saturated
  costs included, the recommended price of a reachability adapter is at least that of a relay.
\<close>

lemma reachability_premium_monotone:
  "price_of (recommended_tariff PRelay p) BytesForwarded
   \<le> price_of (recommended_tariff PReachabilityAdapter p) BytesForwarded"
proof -
  have "markup (saturating_add (bandwidth_usd_cents_per_gib p)
        (ceil_div (saturating_add (base_vps_usd_cents_per_month p) 0) ASSUMED_MONTHLY_GIB))
      \<le> markup (saturating_add (bandwidth_usd_cents_per_gib p)
        (ceil_div (saturating_add (base_vps_usd_cents_per_month p)
           (reachability_premium_usd_cents_per_month p)) ASSUMED_MONTHLY_GIB))"
    by (intro markup_mono saturating_mono ceil_div_mono) simp
  then show ?thesis
    unfolding recommended_tariff.simps recommended_bandwidth_price
    by (auto simp: word_le_nat_alt intro!: max.mono)
qed

text \<open>
  Rounding into billing batches: the GiB units recorded for a byte count cover the bytes
  exactly when the count is at most \<open>2^64 - 2^30\<close>. Above that the saturating addition in the
  ceiling division truncates, and the last partial GiB is not billed.
\<close>

lemma gib_billing_units_cover:
  "unat raw \<le> unat (gib_billing_units raw) * 2 ^ 30 \<longleftrightarrow> unat raw \<le> 2 ^ 64 - 2 ^ 30"
proof (cases "unat raw \<le> 2 ^ 64 - 2 ^ 30")
  case True
  then show ?thesis
    using ceil_div_covers(1) [of BYTES_FORWARDED_BATCH_BYTES raw]
    by (simp add: gib_billing_units_def BYTES_FORWARDED_BATCH_BYTES_def)
next
  case False
  then have "unat (gib_billing_units raw) = 2 ^ 34 - 1"
    by (simp add: gib_billing_units_def BYTES_FORWARDED_BATCH_BYTES_def unat_ceil_div)
  with False show ?thesis by simp
qed

end
