(* ===== verification/Conformance.thy ===== *)
theory Conformance
  imports Economics_Descriptor
begin

text \<open>
  The conformance harness (\<open>crates/pier-conformance/src/lib.rs\<close>): what a coordinator declares
  about itself, the findings COORD-1 to COORD-8 that \<open>check\<close> derives from the declarations, and
  the verdict of a report. A trait object \<open>&dyn Coordinator\<close> is the record of the values its
  methods return.
\<close>

section \<open>Declarations\<close>

datatype LockIn = LockInNone | Requires string

datatype ScarceResource = SmtpEgress | PublicIngress

datatype SelfHost = Backstop | ScarceReachabilityException ScarceResource | SelfHostNone string

datatype Gate = Authorization | Classification string | DerivedViewOnly | NoDeliveryPath

datatype Metering = NotMetered | SignedReceiptsToPayer | NoReceipts string

datatype Settlement = ExistingAssetsOnly | MintsToken string

record Coordinator =
  co_kind :: CoordinatorKind
  co_descriptor :: Descriptor
  co_lock_in :: LockIn
  co_self_host :: SelfHost
  co_gate :: Gate
  co_metering :: Metering
  co_settlement :: Settlement

fun plausible_for :: "ScarceResource \<Rightarrow> CoordinatorKind \<Rightarrow> bool" where
  "plausible_for SmtpEgress kind = (kind = Gateway)"
| "plausible_for PublicIngress kind = (kind = ReachabilityAdapter)"

section \<open>Findings and reports\<close>

datatype Outcome = Pass | Violation string | Behavioral string

record Finding =
  f_id :: string
  f_clause :: string
  f_outcome :: Outcome

record Report =
  r_kind :: CoordinatorKind
  r_findings :: "Finding list"

definition is_violation :: "Outcome \<Rightarrow> bool" where
  "is_violation oc = (case oc of Violation _ \<Rightarrow> True | _ \<Rightarrow> False)"

definition is_behavioral :: "Outcome \<Rightarrow> bool" where
  "is_behavioral oc = (case oc of Behavioral _ \<Rightarrow> True | _ \<Rightarrow> False)"

definition is_conformant :: "Report \<Rightarrow> bool" where
  "is_conformant rep = (\<not> list_ex (\<lambda>f. is_violation (f_outcome f)) (r_findings rep))"

definition behavioral :: "Report \<Rightarrow> Finding list" where
  "behavioral rep = filter (\<lambda>f. is_behavioral (f_outcome f)) (r_findings rep)"

text \<open>String literals of the source are UTF-8: the section sign and the dash are byte sequences.\<close>

definition sect :: "string \<Rightarrow> string" where
  "sect s = [CHR 0xC2, CHR 0xA7] @ s"

definition em_dash :: string where
  "em_dash = [CHR 0xE2, CHR 0x80, CHR 0x94]"

fun resource_debug :: "ScarceResource \<Rightarrow> string" where
  "resource_debug SmtpEgress = ''SmtpEgress''"
| "resource_debug PublicIngress = ''PublicIngress''"

definition coord4 :: "ContentVisibility \<Rightarrow> Outcome" where
  "coord4 v =
     (if must_not_present_as_verified v
      then Behavioral (''declared-level '' @ visibility_str v
             @ '' claim: client MUST surface it as unverified, not verified ('' @ sect ''3.4)'')
      else Pass)"

definition check :: "Coordinator \<Rightarrow> Report" where
  "check c =
     (let d = co_descriptor c in
      \<lparr> r_kind = co_kind c,
        r_findings =
        [\<lparr> f_id = ''COORD-1'', f_clause = sect ''2.1'',
           f_outcome = (if d_kind d = co_kind c
             then Behavioral ''verify descriptor signature once kotva-core is pinned''
             else Violation (''descriptor kind '' @ as_str (d_kind d) @ '' != operating kind ''
                    @ as_str (co_kind c))) \<rparr>,
         \<lparr> f_id = ''COORD-2'', f_clause = sect ''2.2'',
           f_outcome = (case co_lock_in c of LockInNone \<Rightarrow> Pass | Requires why \<Rightarrow> Violation why) \<rparr>,
         \<lparr> f_id = ''COORD-3'', f_clause = sect ''2.3'',
           f_outcome = (case co_self_host c of
               Backstop \<Rightarrow> Pass
             | ScarceReachabilityException resource \<Rightarrow>
                 (if plausible_for resource (co_kind c) then Pass
                  else Violation (as_str (co_kind c) @ '' claims the scarce-reachability exception for ''
                    @ resource_debug resource @ '', which that kind cannot need. Note that ''
                    @ sect ''26 legacy-rail adapters report kind=gateway while needing no scarce resource at all ''
                    @ em_dash @ '' the kind alone is not evidence.''))
             | SelfHostNone why \<Rightarrow> Violation why) \<rparr>,
         \<lparr> f_id = ''COORD-4'', f_clause = sect ''2.4/'' @ sect ''3'',
           f_outcome = coord4 (d_visibility d) \<rparr>,
         \<lparr> f_id = ''COORD-5'', f_clause = sect ''3.2'',
           f_outcome = Behavioral ''assert observed TLS behavior matches the declared visibility class'' \<rparr>,
         \<lparr> f_id = ''COORD-6'', f_clause = sect ''4'',
           f_outcome = (case co_gate c of Classification why \<Rightarrow> Violation why | _ \<Rightarrow> Pass) \<rparr>,
         \<lparr> f_id = ''COORD-7'', f_clause = sect ''6'',
           f_outcome = (case co_metering c of NoReceipts why \<Rightarrow> Violation why | _ \<Rightarrow> Pass) \<rparr>,
         \<lparr> f_id = ''COORD-8'', f_clause = sect ''6'',
           f_outcome = (case co_settlement c of ExistingAssetsOnly \<Rightarrow> Pass | MintsToken why \<Rightarrow> Violation why) \<rparr>] \<rparr>)"

section \<open>The verdict\<close>

text \<open>The declarations a conformant coordinator may make, stated without the report.\<close>

definition declarations_ok :: "Coordinator \<Rightarrow> bool" where
  "declarations_ok c =
     (d_kind (co_descriptor c) = co_kind c
    \<and> co_lock_in c = LockInNone
    \<and> (co_self_host c = Backstop
       \<or> co_self_host c = ScarceReachabilityException SmtpEgress \<and> co_kind c = Gateway
       \<or> co_self_host c = ScarceReachabilityException PublicIngress \<and> co_kind c = ReachabilityAdapter)
    \<and> co_gate c \<in> {Authorization, DerivedViewOnly, NoDeliveryPath}
    \<and> co_metering c \<in> {NotMetered, SignedReceiptsToPayer}
    \<and> co_settlement c = ExistingAssetsOnly)"

lemmas report_simps = check_def coord4_def is_violation_def is_behavioral_def is_conformant_def Let_def

lemma plausible_for_iff:
  "plausible_for r k = (r = SmtpEgress \<and> k = Gateway \<or> r = PublicIngress \<and> k = ReachabilityAdapter)"
  by (cases r) simp_all

lemma coord4_not_violation [simp]: "\<not> is_violation (coord4 v)"
  by (simp add: coord4_def is_violation_def)

lemma coord4_behavioral [simp]: "is_behavioral (coord4 v) = must_not_present_as_verified v"
  by (simp add: coord4_def is_behavioral_def)

lemma check_conformant_iff: "is_conformant (check c) \<longleftrightarrow> declarations_ok c"
  by (auto simp: is_conformant_def check_def Let_def declarations_ok_def plausible_for_iff is_violation_def
      coord4_def split: LockIn.splits SelfHost.splits Gate.splits Metering.splits Settlement.splits
      ScarceResource.splits)

text \<open>
  The report is complete and its verdict exact: it holds the eight findings COORD-1 to COORD-8
  in order, one each; the report is conformant exactly when the declarations are acceptable (the
  kinds agree, no lock-in, self-hosting or the scarce-reachability exception of the matching kind,
  no content classification, receipts whenever metered, no minted token); and what is left to a
  behavioural test of a conformant coordinator is COORD-1 and COORD-5, plus COORD-4 exactly when a
  blind claim is only declared.
\<close>

lemma check_verdict_exact:
  "map f_id (r_findings (check c))
     = [''COORD-1'', ''COORD-2'', ''COORD-3'', ''COORD-4'', ''COORD-5'', ''COORD-6'', ''COORD-7'', ''COORD-8'']
   \<and> (is_conformant (check c) \<longleftrightarrow> declarations_ok c)
   \<and> map f_id (behavioral (check c))
     = (if d_kind (co_descriptor c) = co_kind c then [''COORD-1''] else [])
       @ (if must_not_present_as_verified (d_visibility (co_descriptor c)) then [''COORD-4''] else [])
       @ [''COORD-5'']"
proof (intro conjI)
  show "map f_id (r_findings (check c))
     = [''COORD-1'', ''COORD-2'', ''COORD-3'', ''COORD-4'', ''COORD-5'', ''COORD-6'', ''COORD-7'', ''COORD-8'']"
    by (simp add: check_def Let_def)
  show "is_conformant (check c) \<longleftrightarrow> declarations_ok c" by (rule check_conformant_iff)
  have "is_behavioral (case co_lock_in c of LockInNone \<Rightarrow> Pass | Requires why \<Rightarrow> Violation why) = False"
    "is_behavioral (case co_gate c of Classification why \<Rightarrow> Violation why | _ \<Rightarrow> Pass) = False"
    "is_behavioral (case co_metering c of NoReceipts why \<Rightarrow> Violation why | _ \<Rightarrow> Pass) = False"
    "is_behavioral (case co_settlement c of ExistingAssetsOnly \<Rightarrow> Pass | MintsToken why \<Rightarrow> Violation why) = False"
    by (simp_all add: is_behavioral_def split: LockIn.split Gate.split Metering.split Settlement.split)
  then show "map f_id (behavioral (check c))
     = (if d_kind (co_descriptor c) = co_kind c then [''COORD-1''] else [])
       @ (if must_not_present_as_verified (d_visibility (co_descriptor c)) then [''COORD-4''] else [])
       @ [''COORD-5'']"
    by (simp add: behavioral_def check_def Let_def) (simp add: is_behavioral_def split: SelfHost.split)
qed

end
