(* ===== verification/Coordinators.thy ===== *)
theory Coordinators
  imports Conformance
begin

text \<open>
  The coordinator kinds the repository ships: arbiter, indexer, labeler, matcher, oracle, relay,
  media relay, infrastructure service, mail gateway and reachability adapter
  (\<open>crates/pier-*/src/lib.rs\<close>, \<open>pier-gateway/src/coordinator.rs\<close>), with the closed registry
  of control abilities of the infrastructure service (\<open>pier-infra-service/src/control.rs\<close>).
  Each coordinator is its descriptor and its metered flag; the trait methods are the record of
  declarations that \<open>Conformance\<close> checks.
\<close>

record KindCoordinator =
  kc_descriptor :: Descriptor
  kc_metered :: bool

section \<open>Arbiter\<close>

definition ARBITER_VISIBILITY :: ContentVisibility where
  "ARBITER_VISIBILITY = vis Terminating Declared"

definition arbiter_new :: "Descriptor \<Rightarrow> bool \<Rightarrow> KindCoordinator" where
  "arbiter_new descriptor metered = \<lparr> kc_descriptor = descriptor, kc_metered = metered \<rparr>"

definition arbiter_signed ::
  "('cv, 'f, 'ce, 'ik, 'ie) kotva \<Rightarrow> 'ik \<Rightarrow> bytes \<Rightarrow> Tariff option \<Rightarrow> bool
     \<Rightarrow> KindCoordinator \<times> SignedDescriptor" where
  "arbiter_signed K ik policy tariff metered =
     (let descriptor = \<lparr> d_identity = ik_public K ik, d_kind = Arbiter,
            d_visibility = ARBITER_VISIBILITY, d_policy = policy, d_tariff = tariff \<rparr>;
          signed = descriptor_sign K descriptor ik
      in (arbiter_new descriptor metered, signed))"

definition arbiter_coordinator :: "KindCoordinator \<Rightarrow> Coordinator" where
  "arbiter_coordinator c =
     \<lparr> co_kind = Arbiter, co_descriptor = kc_descriptor c, co_lock_in = LockInNone,
       co_self_host = Backstop, co_gate = NoDeliveryPath,
       co_metering = (if kc_metered c then SignedReceiptsToPayer else NotMetered),
       co_settlement = ExistingAssetsOnly \<rparr>"

section \<open>Labeler\<close>

definition LABELER_VISIBILITY :: ContentVisibility where
  "LABELER_VISIBILITY = vis Terminating Declared"

definition labeler_new :: "Descriptor \<Rightarrow> bool \<Rightarrow> KindCoordinator" where
  "labeler_new descriptor metered = \<lparr> kc_descriptor = descriptor, kc_metered = metered \<rparr>"

definition labeler_signed ::
  "('cv, 'f, 'ce, 'ik, 'ie) kotva \<Rightarrow> 'ik \<Rightarrow> bytes \<Rightarrow> Tariff option \<Rightarrow> bool
     \<Rightarrow> KindCoordinator \<times> SignedDescriptor" where
  "labeler_signed K ik policy tariff metered =
     (let descriptor = \<lparr> d_identity = ik_public K ik, d_kind = Labeler,
            d_visibility = LABELER_VISIBILITY, d_policy = policy, d_tariff = tariff \<rparr>;
          signed = descriptor_sign K descriptor ik
      in (labeler_new descriptor metered, signed))"

definition labeler_coordinator :: "KindCoordinator \<Rightarrow> Coordinator" where
  "labeler_coordinator c =
     \<lparr> co_kind = Labeler, co_descriptor = kc_descriptor c, co_lock_in = LockInNone,
       co_self_host = Backstop, co_gate = DerivedViewOnly,
       co_metering = (if kc_metered c then SignedReceiptsToPayer else NotMetered),
       co_settlement = ExistingAssetsOnly \<rparr>"

section \<open>Oracle\<close>

definition ORACLE_VISIBILITY :: ContentVisibility where
  "ORACLE_VISIBILITY = vis Terminating Declared"

definition oracle_new :: "Descriptor \<Rightarrow> bool \<Rightarrow> KindCoordinator" where
  "oracle_new descriptor metered = \<lparr> kc_descriptor = descriptor, kc_metered = metered \<rparr>"

definition oracle_signed ::
  "('cv, 'f, 'ce, 'ik, 'ie) kotva \<Rightarrow> 'ik \<Rightarrow> bytes \<Rightarrow> Tariff option \<Rightarrow> bool
     \<Rightarrow> KindCoordinator \<times> SignedDescriptor" where
  "oracle_signed K ik policy tariff metered =
     (let descriptor = \<lparr> d_identity = ik_public K ik, d_kind = Oracle,
            d_visibility = ORACLE_VISIBILITY, d_policy = policy, d_tariff = tariff \<rparr>;
          signed = descriptor_sign K descriptor ik
      in (oracle_new descriptor metered, signed))"

definition oracle_coordinator :: "KindCoordinator \<Rightarrow> Coordinator" where
  "oracle_coordinator c =
     \<lparr> co_kind = Oracle, co_descriptor = kc_descriptor c, co_lock_in = LockInNone,
       co_self_host = Backstop, co_gate = NoDeliveryPath,
       co_metering = (if kc_metered c then SignedReceiptsToPayer else NotMetered),
       co_settlement = ExistingAssetsOnly \<rparr>"

section \<open>Relay\<close>

definition RELAY_VISIBILITY :: ContentVisibility where
  "RELAY_VISIBILITY = vis Blind Structural"

definition relay_new :: "Descriptor \<Rightarrow> bool \<Rightarrow> KindCoordinator" where
  "relay_new descriptor metered = \<lparr> kc_descriptor = descriptor, kc_metered = metered \<rparr>"

definition relay_signed ::
  "('cv, 'f, 'ce, 'ik, 'ie) kotva \<Rightarrow> 'ik \<Rightarrow> bytes \<Rightarrow> Tariff option \<Rightarrow> bool
     \<Rightarrow> KindCoordinator \<times> SignedDescriptor" where
  "relay_signed K ik policy tariff metered =
     (let descriptor = \<lparr> d_identity = ik_public K ik, d_kind = Relay,
            d_visibility = RELAY_VISIBILITY, d_policy = policy, d_tariff = tariff \<rparr>;
          signed = descriptor_sign K descriptor ik
      in (relay_new descriptor metered, signed))"

definition relay_coordinator :: "KindCoordinator \<Rightarrow> Coordinator" where
  "relay_coordinator c =
     \<lparr> co_kind = Relay, co_descriptor = kc_descriptor c, co_lock_in = LockInNone,
       co_self_host = Backstop, co_gate = NoDeliveryPath,
       co_metering = (if kc_metered c then SignedReceiptsToPayer else NotMetered),
       co_settlement = ExistingAssetsOnly \<rparr>"

section \<open>MediaRelay\<close>

definition MEDIA_RELAY_VISIBILITY :: ContentVisibility where
  "MEDIA_RELAY_VISIBILITY = vis BlindRouting Structural"

definition media_relay_new :: "Descriptor \<Rightarrow> bool \<Rightarrow> KindCoordinator" where
  "media_relay_new descriptor metered = \<lparr> kc_descriptor = descriptor, kc_metered = metered \<rparr>"

definition media_relay_signed ::
  "('cv, 'f, 'ce, 'ik, 'ie) kotva \<Rightarrow> 'ik \<Rightarrow> bytes \<Rightarrow> Tariff option \<Rightarrow> bool
     \<Rightarrow> KindCoordinator \<times> SignedDescriptor" where
  "media_relay_signed K ik policy tariff metered =
     (let descriptor = \<lparr> d_identity = ik_public K ik, d_kind = MediaRelay,
            d_visibility = MEDIA_RELAY_VISIBILITY, d_policy = policy, d_tariff = tariff \<rparr>;
          signed = descriptor_sign K descriptor ik
      in (media_relay_new descriptor metered, signed))"

definition media_relay_coordinator :: "KindCoordinator \<Rightarrow> Coordinator" where
  "media_relay_coordinator c =
     \<lparr> co_kind = MediaRelay, co_descriptor = kc_descriptor c, co_lock_in = LockInNone,
       co_self_host = Backstop, co_gate = NoDeliveryPath,
       co_metering = (if kc_metered c then SignedReceiptsToPayer else NotMetered),
       co_settlement = ExistingAssetsOnly \<rparr>"

section \<open>Indexer\<close>

datatype QueryChannel = QueryTerminating | QueryAttested

fun indexer_declared_visibility :: "QueryChannel \<Rightarrow> ContentVisibility" where
  "indexer_declared_visibility QueryTerminating = vis Terminating Declared"
| "indexer_declared_visibility QueryAttested = vis Blind Attested"

definition indexer_new :: "Descriptor \<Rightarrow> bool \<Rightarrow> KindCoordinator" where
  "indexer_new descriptor metered = \<lparr> kc_descriptor = descriptor, kc_metered = metered \<rparr>"

definition indexer_signed ::
  "('cv, 'f, 'ce, 'ik, 'ie) kotva \<Rightarrow> 'ik \<Rightarrow> QueryChannel \<Rightarrow> bytes \<Rightarrow> Tariff option \<Rightarrow> bool
     \<Rightarrow> KindCoordinator \<times> SignedDescriptor" where
  "indexer_signed K ik channel policy tariff metered =
     (let descriptor = \<lparr> d_identity = ik_public K ik, d_kind = Indexer,
            d_visibility = indexer_declared_visibility channel, d_policy = policy, d_tariff = tariff \<rparr>;
          signed = descriptor_sign K descriptor ik
      in (indexer_new descriptor metered, signed))"

definition indexer_coordinator :: "KindCoordinator \<Rightarrow> Coordinator" where
  "indexer_coordinator c =
     \<lparr> co_kind = Indexer, co_descriptor = kc_descriptor c, co_lock_in = LockInNone,
       co_self_host = Backstop, co_gate = DerivedViewOnly,
       co_metering = (if kc_metered c then SignedReceiptsToPayer else NotMetered),
       co_settlement = ExistingAssetsOnly \<rparr>"

section \<open>Matcher\<close>

datatype MatchChannel = MatchTerminating | MatchAttested

fun matcher_declared_visibility :: "MatchChannel \<Rightarrow> ContentVisibility" where
  "matcher_declared_visibility MatchTerminating = vis Terminating Declared"
| "matcher_declared_visibility MatchAttested = vis Blind Attested"

definition matcher_new :: "Descriptor \<Rightarrow> bool \<Rightarrow> KindCoordinator" where
  "matcher_new descriptor metered = \<lparr> kc_descriptor = descriptor, kc_metered = metered \<rparr>"

definition matcher_signed ::
  "('cv, 'f, 'ce, 'ik, 'ie) kotva \<Rightarrow> 'ik \<Rightarrow> MatchChannel \<Rightarrow> bytes \<Rightarrow> Tariff option \<Rightarrow> bool
     \<Rightarrow> KindCoordinator \<times> SignedDescriptor" where
  "matcher_signed K ik channel policy tariff metered =
     (let descriptor = \<lparr> d_identity = ik_public K ik, d_kind = Matcher,
            d_visibility = matcher_declared_visibility channel, d_policy = policy, d_tariff = tariff \<rparr>;
          signed = descriptor_sign K descriptor ik
      in (matcher_new descriptor metered, signed))"

definition matcher_coordinator :: "KindCoordinator \<Rightarrow> Coordinator" where
  "matcher_coordinator c =
     \<lparr> co_kind = Matcher, co_descriptor = kc_descriptor c, co_lock_in = LockInNone,
       co_self_host = Backstop, co_gate = DerivedViewOnly,
       co_metering = (if kc_metered c then SignedReceiptsToPayer else NotMetered),
       co_settlement = ExistingAssetsOnly \<rparr>"

section \<open>InfraService\<close>

datatype InfraServiceChannel = InfraTerminating | InfraAttested

fun infra_service_declared_visibility :: "InfraServiceChannel \<Rightarrow> ContentVisibility" where
  "infra_service_declared_visibility InfraTerminating = vis Terminating Declared"
| "infra_service_declared_visibility InfraAttested = vis Blind Attested"

definition infra_service_new :: "Descriptor \<Rightarrow> bool \<Rightarrow> KindCoordinator" where
  "infra_service_new descriptor metered = \<lparr> kc_descriptor = descriptor, kc_metered = metered \<rparr>"

definition infra_service_signed ::
  "('cv, 'f, 'ce, 'ik, 'ie) kotva \<Rightarrow> 'ik \<Rightarrow> InfraServiceChannel \<Rightarrow> bytes \<Rightarrow> Tariff option \<Rightarrow> bool
     \<Rightarrow> KindCoordinator \<times> SignedDescriptor" where
  "infra_service_signed K ik channel policy tariff metered =
     (let descriptor = \<lparr> d_identity = ik_public K ik, d_kind = InfraService,
            d_visibility = infra_service_declared_visibility channel, d_policy = policy, d_tariff = tariff \<rparr>;
          signed = descriptor_sign K descriptor ik
      in (infra_service_new descriptor metered, signed))"

definition infra_service_coordinator :: "KindCoordinator \<Rightarrow> Coordinator" where
  "infra_service_coordinator c =
     \<lparr> co_kind = InfraService, co_descriptor = kc_descriptor c, co_lock_in = LockInNone,
       co_self_host = Backstop, co_gate = NoDeliveryPath,
       co_metering = (if kc_metered c then SignedReceiptsToPayer else NotMetered),
       co_settlement = ExistingAssetsOnly \<rparr>"

section \<open>Gateway\<close>

definition gateway_new ::
  "('cv, 'f, 'ce, 'ik, 'ie) kotva \<Rightarrow> 'ik \<Rightarrow> bytes \<Rightarrow> bool \<Rightarrow> KindCoordinator" where
  "gateway_new K identity policy metered =
     \<lparr> kc_descriptor = \<lparr> d_identity = ik_public K identity, d_kind = Gateway,
         d_visibility = vis Terminating Declared, d_policy = policy, d_tariff = None \<rparr>,
       kc_metered = metered \<rparr>"

definition gateway_sign ::
  "('cv, 'f, 'ce, 'ik, 'ie) kotva \<Rightarrow> KindCoordinator \<Rightarrow> 'ik \<Rightarrow> SignedDescriptor" where
  "gateway_sign K c ik = descriptor_sign K (kc_descriptor c) ik"

definition gateway_coordinator :: "KindCoordinator \<Rightarrow> Coordinator" where
  "gateway_coordinator c =
     \<lparr> co_kind = Gateway, co_descriptor = kc_descriptor c, co_lock_in = LockInNone,
       co_self_host = ScarceReachabilityException SmtpEgress, co_gate = Authorization,
       co_metering = (if kc_metered c then SignedReceiptsToPayer else NotMetered),
       co_settlement = ExistingAssetsOnly \<rparr>"

section \<open>Reachability adapter\<close>

datatype NameKind = OwnDomain | AdapterZoneVanity

fun name_declared_visibility :: "NameKind \<Rightarrow> ContentVisibility" where
  "name_declared_visibility OwnDomain = vis BlindRouting Structural"
| "name_declared_visibility AdapterZoneVanity = vis BlindRouting Declared"

definition reachability_adapter_new :: "Descriptor \<Rightarrow> bool \<Rightarrow> KindCoordinator" where
  "reachability_adapter_new descriptor metered = \<lparr> kc_descriptor = descriptor, kc_metered = metered \<rparr>"

definition reachability_adapter_coordinator :: "KindCoordinator \<Rightarrow> Coordinator" where
  "reachability_adapter_coordinator c =
     \<lparr> co_kind = ReachabilityAdapter, co_descriptor = kc_descriptor c, co_lock_in = LockInNone,
       co_self_host = ScarceReachabilityException PublicIngress, co_gate = NoDeliveryPath,
       co_metering = (if kc_metered c then SignedReceiptsToPayer else NotMetered),
       co_settlement = ExistingAssetsOnly \<rparr>"

section \<open>Control abilities of the infrastructure service\<close>

definition COMMON :: "string list" where
  "COMMON = [''provision'', ''inspect'', ''list'', ''reconfigure'', ''observe'', ''export'', ''destroy'']"

definition BOX :: "string list" where
  "BOX = [''start'', ''stop'', ''restart'', ''snapshot'', ''console'']"

definition VOLUME :: "string list" where
  "VOLUME = [''attach'', ''detach'', ''resize'', ''snapshot'']"

definition BUCKET :: "string list" where
  "BUCKET = [''read'', ''write'', ''delete'', ''serve'']"

definition EDGE_FN :: "string list" where
  "EDGE_FN = [''deploy'', ''invoke'', ''rollback'']"

definition per_elemental :: "string \<Rightarrow> string list option" where
  "per_elemental service =
     (if service = ''box'' then Some BOX
      else if service = ''volume'' then Some VOLUME
      else if service = ''bucket'' then Some BUCKET
      else if service = ''edge-fn'' then Some EDGE_FN
      else None)"

definition accepts_ability :: "string \<Rightarrow> string \<Rightarrow> bool" where
  "accepts_ability service ability =
     (case per_elemental service of
        Some per \<Rightarrow> ability \<in> set COMMON \<or> ability \<in> set per
      | None \<Rightarrow> False)"

datatype AbilityRefused = AbilityRefused

definition authorize_ability :: "string \<Rightarrow> string \<Rightarrow> AbilityRefused + unit" where
  "authorize_ability service ability =
     (if accepts_ability service ability then Inr () else Inl AbilityRefused)"

section \<open>Properties\<close>

text \<open>
  The contract every kind keeps towards the harness: whatever the descriptor, the declarations of
  the kind are acceptable, so only a descriptor of another kind can make the report fail.
\<close>

locale coordinator_kind =
  fixes decl :: "KindCoordinator \<Rightarrow> Coordinator" and kind :: CoordinatorKind
  assumes decl_kind: "co_kind (decl c) = kind"
    and decl_descriptor: "co_descriptor (decl c) = kc_descriptor c"
    and decl_metering: "co_metering (decl c) = (if kc_metered c then SignedReceiptsToPayer else NotMetered)"
    and decl_ok: "d_kind (kc_descriptor c) = kind \<Longrightarrow> declarations_ok (decl c)"
begin

lemma conformant_iff: "is_conformant (check (decl c)) \<longleftrightarrow> d_kind (kc_descriptor c) = kind"
proof -
  have "is_conformant (check (decl c)) = declarations_ok (decl c)" by (rule check_conformant_iff)
  moreover have "declarations_ok (decl c) \<Longrightarrow> d_kind (kc_descriptor c) = kind"
    by (simp add: declarations_ok_def decl_kind decl_descriptor)
  ultimately show ?thesis using decl_ok by blast
qed

end

interpretation ar: coordinator_kind arbiter_coordinator Arbiter
  by unfold_locales (simp_all add: arbiter_coordinator_def declarations_ok_def)

interpretation la: coordinator_kind labeler_coordinator Labeler
  by unfold_locales (simp_all add: labeler_coordinator_def declarations_ok_def)

interpretation ora: coordinator_kind oracle_coordinator Oracle
  by unfold_locales (simp_all add: oracle_coordinator_def declarations_ok_def)

interpretation re: coordinator_kind relay_coordinator Relay
  by unfold_locales (simp_all add: relay_coordinator_def declarations_ok_def)

interpretation mr: coordinator_kind media_relay_coordinator MediaRelay
  by unfold_locales (simp_all add: media_relay_coordinator_def declarations_ok_def)

interpretation ix: coordinator_kind indexer_coordinator Indexer
  by unfold_locales (simp_all add: indexer_coordinator_def declarations_ok_def)

interpretation ma: coordinator_kind matcher_coordinator Matcher
  by unfold_locales (simp_all add: matcher_coordinator_def declarations_ok_def)

interpretation isv: coordinator_kind infra_service_coordinator InfraService
  by unfold_locales (simp_all add: infra_service_coordinator_def declarations_ok_def)

interpretation gw: coordinator_kind gateway_coordinator Gateway
  by unfold_locales (simp_all add: gateway_coordinator_def declarations_ok_def)

interpretation ra: coordinator_kind reachability_adapter_coordinator ReachabilityAdapter
  by unfold_locales (simp_all add: reachability_adapter_coordinator_def declarations_ok_def)

text \<open>What the constructors of the repository return, with the declarations of the kind.\<close>

definition shipped ::
  "('cv, 'f, 'ce, 'ik, 'ie) kotva \<Rightarrow> 'ik \<Rightarrow> bytes \<Rightarrow> Tariff option \<Rightarrow> bool \<Rightarrow> QueryChannel \<Rightarrow> MatchChannel
     \<Rightarrow> InfraServiceChannel \<Rightarrow> (Coordinator \<times> SignedDescriptor) list" where
  "shipped K ik policy tariff metered q m i =
     [map_prod arbiter_coordinator id (arbiter_signed K ik policy tariff metered),
      map_prod labeler_coordinator id (labeler_signed K ik policy tariff metered),
      map_prod oracle_coordinator id (oracle_signed K ik policy tariff metered),
      map_prod relay_coordinator id (relay_signed K ik policy tariff metered),
      map_prod media_relay_coordinator id (media_relay_signed K ik policy tariff metered),
      map_prod indexer_coordinator id (indexer_signed K ik q policy tariff metered),
      map_prod matcher_coordinator id (matcher_signed K ik m policy tariff metered),
      map_prod infra_service_coordinator id (infra_service_signed K ik i policy tariff metered),
      (gateway_coordinator (gateway_new K ik policy metered),
       gateway_sign K (gateway_new K ik policy metered) ik)]"

lemmas shipped_defs = shipped_def arbiter_signed_def labeler_signed_def oracle_signed_def relay_signed_def
  media_relay_signed_def indexer_signed_def matcher_signed_def infra_service_signed_def gateway_sign_def
  gateway_new_def arbiter_new_def labeler_new_def oracle_new_def relay_new_def media_relay_new_def
  indexer_new_def matcher_new_def infra_service_new_def

lemmas kind_conformant = ar.conformant_iff la.conformant_iff ora.conformant_iff re.conformant_iff
  mr.conformant_iff ix.conformant_iff ma.conformant_iff isv.conformant_iff gw.conformant_iff

lemmas kind_descriptor = ar.decl_descriptor la.decl_descriptor ora.decl_descriptor re.decl_descriptor
  mr.decl_descriptor ix.decl_descriptor ma.decl_descriptor isv.decl_descriptor gw.decl_descriptor

lemma shipped_conformant:
  "list_all (\<lambda>(c, sd). is_conformant (check c)) (shipped K ik policy tariff metered q m i)"
  by (simp add: shipped_defs Let_def kind_conformant)

lemma shipped_signed:
  "list_all (\<lambda>(c, sd). sd = descriptor_sign K (co_descriptor c) ik \<and> d_identity (co_descriptor c) = ik_public K ik)
     (shipped K ik policy tariff metered q m i)"
  by (simp add: shipped_defs Let_def kind_descriptor)

lemma shipped_no_unverified_claim:
  "list_all (\<lambda>(c, sd). \<not> must_not_present_as_verified (d_visibility (co_descriptor c)))
     (shipped K ik policy tariff metered q m i)"
  by (cases q; cases m; cases i)
    (simp_all add: shipped_defs Let_def kind_descriptor must_not_present_as_verified_def is_verifiable_def
      ARBITER_VISIBILITY_def LABELER_VISIBILITY_def ORACLE_VISIBILITY_def RELAY_VISIBILITY_def
      MEDIA_RELAY_VISIBILITY_def)

text \<open>
  Every coordinator the repository constructs is conformant: for each kind with a signing
  constructor, whatever the key, the policy, the tariff, the metered flag and the channel, the
  report of the coordinator has no violation, the descriptor handed out beside it is the one the
  coordinator operates under and verifies, and no constructor makes a blind claim that a client
  would have to present as unverified.
\<close>

lemma shipped_coordinators_conformant:
  assumes K: "kotva_laws K" and mem: "(c, sd) \<in> set (shipped K ik policy tariff metered q m i)"
  shows "is_conformant (check c) \<and> sd_descriptor sd = co_descriptor c \<and> signed_verify K sd = Inr ()
    \<and> \<not> must_not_present_as_verified (d_visibility (co_descriptor c))"
proof (intro conjI)
  have sd: "sd = descriptor_sign K (co_descriptor c) ik" "d_identity (co_descriptor c) = ik_public K ik"
    using shipped_signed [of K ik policy tariff metered q m i] mem by (auto simp: list_all_iff)
  show "is_conformant (check c)"
    using shipped_conformant [of K ik policy tariff metered q m i] mem by (auto simp: list_all_iff)
  show "sd_descriptor sd = co_descriptor c" by (simp add: sd descriptor_sign_def)
  show "signed_verify K sd = Inr ()"
    by (simp add: sd signed_verify_def descriptor_sign_def kotva_simps [OF K])
  show "\<not> must_not_present_as_verified (d_visibility (co_descriptor c))"
    using shipped_no_unverified_claim [of K ik policy tariff metered q m i] mem by (auto simp: list_all_iff)
qed

lemma shipped_coordinators_conformant_witness:
  "is_conformant (check (gateway_coordinator (gateway_new (ref_kotva (RU64 0)) [7] [1] True)))"
  using shipped_coordinators_conformant [OF ref_kotva_laws [of "RU64 0"],
      of "gateway_coordinator (gateway_new (ref_kotva (RU64 0)) [7] [1] True)"
         "gateway_sign (ref_kotva (RU64 0)) (gateway_new (ref_kotva (RU64 0)) [7] [1] True) [7]"
         "[7]" "[1]" None True QueryAttested MatchAttested InfraTerminating]
  by (simp add: shipped_def)

lemma per_elemental_None: "per_elemental s = None \<longleftrightarrow> s \<notin> {''box'', ''volume'', ''bucket'', ''edge-fn''}"
  by (simp add: per_elemental_def)

lemma refuses_all_iff:
  "(\<forall>ability. authorize_ability s ability = Inl AbilityRefused) \<longleftrightarrow> per_elemental s = None"
proof (cases "per_elemental s")
  case (Some per)
  have "''list'' \<in> set COMMON" by (simp add: COMMON_def)
  with Some have "authorize_ability s ''list'' = Inr ()" by (simp add: authorize_ability_def accepts_ability_def)
  with Some show ?thesis by (metis Inl_Inr_False option.distinct(1))
qed (simp add: authorize_ability_def accepts_ability_def)

text \<open>
  The registry of control abilities is closed and fails closed: an ability is authorized
  exactly when it is a common ability of a known elemental or one of that elemental's own; a
  service outside the four elementals accepts nothing; and the registry has 44 pairs in all, so no
  ability is reachable through a near match.
\<close>

lemma ability_registry_closed:
  "(authorize_ability service ability = Inr ()
      \<longleftrightarrow> (\<exists>per. per_elemental service = Some per \<and> (ability \<in> set COMMON \<or> ability \<in> set per)))
   \<and> ((\<forall>ability. authorize_ability service ability = Inl AbilityRefused)
      \<longleftrightarrow> service \<notin> {''box'', ''volume'', ''bucket'', ''edge-fn''})
   \<and> card {(s, a). authorize_ability s a = Inr ()} = 44"
proof (intro conjI)
  show "authorize_ability service ability = Inr ()
     \<longleftrightarrow> (\<exists>per. per_elemental service = Some per \<and> (ability \<in> set COMMON \<or> ability \<in> set per))"
    by (auto simp: authorize_ability_def accepts_ability_def split: option.splits)
  show "(\<forall>ability. authorize_ability service ability = Inl AbilityRefused)
     \<longleftrightarrow> service \<notin> {''box'', ''volume'', ''bucket'', ''edge-fn''}"
    unfolding per_elemental_None [symmetric] by (rule refuses_all_iff)
  let ?abilities = "\<lambda>s. set (COMMON @ the (per_elemental s))"
  let ?services = "{''box'', ''volume'', ''bucket'', ''edge-fn''}"
  have "authorize_ability s a = Inr () \<longleftrightarrow> s \<in> ?services \<and> a \<in> ?abilities s" for s a
    using per_elemental_None [of s]
    by (cases "per_elemental s") (simp_all add: authorize_ability_def accepts_ability_def)
  then have "{(s, a). authorize_ability s a = Inr ()} = Sigma ?services ?abilities"
    by (simp only: Sigma_def) blast
  then have "card {(s, a). authorize_ability s a = Inr ()} = (\<Sum>s \<in> ?services. card (?abilities s))"
    by (simp only: card_SigmaI finite_set ball_simps finite.intros simp_thms)
  moreover have "card (?abilities ''box'') = 12" "card (?abilities ''volume'') = 11"
    "card (?abilities ''bucket'') = 11" "card (?abilities ''edge-fn'') = 10"
    by (simp_all add: per_elemental_def COMMON_def BOX_def VOLUME_def BUCKET_def EDGE_FN_def)
  ultimately show "card {(s, a). authorize_ability s a = Inr ()} = 44" by simp
qed

end
