(* ===== verification/Gateway_B64.thy ===== *)
theory Gateway_B64
  imports Prelude
begin

text \<open>
  Text encodings of bytes in the gateway: the base64 codec (\<open>crates/pier-gateway/src/b64.rs\<close>)
  and the lowercase base32 of alias tokens and key-derived aliases (\<open>alias_map.rs\<close>,
  \<open>authz.rs\<close>). The accumulators are 32-bit words, as in the code: their upper bits hold what
  earlier input left there, and the proofs show it never reaches the output.
\<close>

unbundle bit_operations_syntax

section \<open>Base64\<close>

definition ALPHABET :: string where
  "ALPHABET = ''ABCDEFGHIJKLMNOPQRSTUVWXYZabcdefghijklmnopqrstuvwxyz0123456789+/''"

definition b64_char :: "u32 \<Rightarrow> char" where
  "b64_char w = ALPHABET ! unat (w AND 0x3f)"

fun chunks3 :: "bytes \<Rightarrow> bytes list" where
  "chunks3 (a # b # c # xs) = [a, b, c] # chunks3 xs"
| "chunks3 [] = []"
| "chunks3 xs = [xs]"

definition encode_chunk :: "bytes \<Rightarrow> string" where
  "encode_chunk chunk =
     (let b0 = ucast (chunk ! 0) :: u32;
          b1 = ucast (if 1 < length chunk then chunk ! 1 else 0) :: u32;
          b2 = ucast (if 2 < length chunk then chunk ! 2 else 0) :: u32;
          n = (push_bit 16 b0 OR push_bit 8 b1) OR b2
      in [b64_char (drop_bit 18 n), b64_char (drop_bit 12 n),
          if 1 < length chunk then b64_char (drop_bit 6 n) else CHR ''='',
          if 2 < length chunk then b64_char n else CHR ''=''])"

definition b64_encode :: "bytes \<Rightarrow> string" where
  "b64_encode input = concat (map encode_chunk (chunks3 input))"

text \<open>What one input byte means to the decoder.\<close>

datatype B64Sym = Val u8 | Stop | Skip | Bad

definition b64_sym :: "char \<Rightarrow> B64Sym" where
  "b64_sym ch =
     (let c = (of_char ch :: u8) in
      if 65 \<le> c \<and> c \<le> 90 then Val (c - 65)
      else if 97 \<le> c \<and> c \<le> 122 then Val (c - 97 + 26)
      else if 48 \<le> c \<and> c \<le> 57 then Val (c - 48 + 52)
      else if c = 43 then Val 62
      else if c = 47 then Val 63
      else if c = 61 then Stop
      else if c = 32 \<or> c = 9 \<or> c = 13 \<or> c = 10 then Skip
      else Bad)"

fun b64_loop :: "u32 \<Rightarrow> nat \<Rightarrow> bytes \<Rightarrow> string \<Rightarrow> string + bytes" where
  "b64_loop bits nbits out [] = Inr out"
| "b64_loop bits nbits out (c # cs) =
     (case b64_sym c of
        Stop \<Rightarrow> Inr out
      | Skip \<Rightarrow> b64_loop bits nbits out cs
      | Bad \<Rightarrow> Inl ''invalid base64 character''
      | Val v \<Rightarrow>
          (let bits = push_bit 6 bits OR ucast v; nbits = nbits + 6 in
           if nbits \<ge> 8
           then b64_loop bits (nbits - 8) (out @ [ucast (drop_bit (nbits - 8) bits)]) cs
           else b64_loop bits nbits out cs))"

definition b64_decode :: "string \<Rightarrow> string + bytes" where
  "b64_decode input = b64_loop 0 0 [] input"

section \<open>Base32\<close>

definition BASE32_LOWER :: string where
  "BASE32_LOWER = ''abcdefghijklmnopqrstuvwxyz234567''"

fun base32_drain :: "u32 \<Rightarrow> nat \<Rightarrow> string \<Rightarrow> nat \<times> string" where
  "base32_drain bits nbits out =
     (if nbits \<ge> 5
      then base32_drain bits (nbits - 5) (out @ [BASE32_LOWER ! unat (drop_bit (nbits - 5) bits AND 0x1f)])
      else (nbits, out))"

declare base32_drain.simps [simp del]

fun base32_loop :: "u32 \<Rightarrow> nat \<Rightarrow> string \<Rightarrow> bytes \<Rightarrow> string" where
  "base32_loop bits nbits out [] =
     (if nbits > 0 then out @ [BASE32_LOWER ! unat (push_bit (5 - nbits) bits AND 0x1f)] else out)"
| "base32_loop bits nbits out (b # input) =
     (let bits = push_bit 8 bits OR ucast b;
          (nbits, out) = base32_drain bits (nbits + 8) out
      in base32_loop bits nbits out input)"

definition base32_lower :: "bytes \<Rightarrow> string" where
  "base32_lower input = base32_loop 0 0 [] input"

section \<open>The base64 round trip\<close>

lemma unat_and_mask_lt: "unat (w AND 0x3f :: u32) < 64" "unat (w AND 0x1f :: u32) < 32"
proof -
  have "w AND 0x3f = take_bit 6 w" "w AND 0x1f = take_bit 5 w"
    by (simp_all add: take_bit_eq_mask mask_eq_decr_exp)
  then show "unat (w AND 0x3f) < 64" "unat (w AND 0x1f) < 32"
    using take_bit_nat_less_exp [of 6 "unat w"] take_bit_nat_less_exp [of 5 "unat w"]
    by (simp_all add: unsigned_take_bit_eq)
qed

lemma b64_sym_ALPHABET: "k < 64 \<Longrightarrow> b64_sym (ALPHABET ! k) = Val (of_nat k)"
proof -
  have "\<forall>k \<in> set [0..<64]. b64_sym (ALPHABET ! k) = Val (of_nat k)"
    by (simp add: upt_rec ALPHABET_def b64_sym_def)
  then show "k < 64 \<Longrightarrow> b64_sym (ALPHABET ! k) = Val (of_nat k)" by simp
qed

lemma b64_sym_char [simp]: "b64_sym (b64_char w) = Val (ucast (w AND 0x3f))"
  by (simp add: b64_char_def b64_sym_ALPHABET unat_and_mask_lt unsigned_ucast_eq)

lemma b64_sym_pad [simp]: "b64_sym (CHR ''='') = Stop"
  by (simp add: b64_sym_def)

lemma and_3f: "w AND 0x3f = take_bit 6 w" for w :: u32
  by (simp add: take_bit_eq_mask mask_eq_decr_exp)

lemma sextet_ucast [simp]: "ucast (ucast (w AND 0x3f) :: u8) = w AND 0x3f" for w :: u32
  unfolding and_3f by (rule bit_word_eqI) (auto simp: bit_simps)

lemma byte_eqI: "(\<And>n. n < 8 \<Longrightarrow> bit a n = bit b n) \<Longrightarrow> a = b" for a b :: u8
  by (rule bit_word_eqI) simp

lemma bit_byte_high: "8 \<le> n \<Longrightarrow> bit a n = False" for a :: u8
  using bit_imp_le_length [of a n] by auto

lemma bit_byte_of: "n < 8 \<Longrightarrow> bit (ucast w :: u8) n = bit w n" for w :: u32
  by (auto simp: bit_ucast_iff)

text \<open>
  Four sextets hold three bytes, whatever the accumulator held before: the sextets \<open>s0\<close> to \<open>s3\<close>
  of the 24-bit group of \<open>a\<close>, \<open>b\<close>, \<open>c\<close> shifted in one after the other.
\<close>

definition group24 :: "u8 \<Rightarrow> u8 \<Rightarrow> u8 \<Rightarrow> u32" where
  "group24 a b c = (push_bit 16 (ucast a) OR push_bit 8 (ucast b)) OR ucast c"

definition shift_in :: "u32 \<Rightarrow> u32 \<Rightarrow> u32" where
  "shift_in bits w = push_bit 6 bits OR (w AND 0x3f)"

lemma bit_group24:
  "n < 32 \<Longrightarrow> bit (group24 a b c) n = (16 \<le> n \<and> bit a (n - 16) \<or> 8 \<le> n \<and> bit b (n - 8) \<or> bit c n)"
  by (auto simp: group24_def bit_push_bit_iff bit_or_iff bit_ucast_iff)

lemma bit_shift_in: "n < 32 \<Longrightarrow> bit (shift_in x w) n = (if n < 6 then bit w n else bit x (n - 6))"
  by (auto simp: shift_in_def and_3f bit_push_bit_iff bit_or_iff bit_take_bit_iff)

lemmas sextet_bits = bit_byte_of bit_shift_in bit_group24 bit_drop_bit_eq bit_byte_high

lemma shift_in_byte0:
  "ucast (drop_bit 4 (shift_in (shift_in bits (drop_bit 18 (group24 a b c))) (drop_bit 12 (group24 a b c)))) = a"
  by (rule byte_eqI) (simp add: sextet_bits, arith)

lemma shift_in_byte1:
  "ucast (drop_bit 2 (shift_in (shift_in bits (drop_bit 12 (group24 a b c))) (drop_bit 6 (group24 a b c)))) = b"
  by (rule byte_eqI) (simp add: sextet_bits, arith)

lemma shift_in_byte2:
  "ucast (shift_in (shift_in bits (drop_bit 6 (group24 a b c))) (group24 a b c)) = c"
  by (rule byte_eqI) (simp add: sextet_bits, arith)

lemma b64_loop_pad: "b64_loop bits nbits out (CHR ''='' # cs) = Inr out"
  by simp

lemma b64_loop_char:
  "b64_loop bits nbits out (b64_char w # cs) =
     (if nbits + 6 \<ge> 8
      then b64_loop (shift_in bits w) (nbits + 6 - 8) (out @ [ucast (drop_bit (nbits + 6 - 8) (shift_in bits w))]) cs
      else b64_loop (shift_in bits w) (nbits + 6) out cs)"
  by (simp add: shift_in_def Let_def)

lemma encode_chunk_cases:
  "encode_chunk [a] = [b64_char (drop_bit 18 (group24 a 0 0)), b64_char (drop_bit 12 (group24 a 0 0)), CHR ''='', CHR ''='']"
  "encode_chunk [a, b] = [b64_char (drop_bit 18 (group24 a b 0)), b64_char (drop_bit 12 (group24 a b 0)),
     b64_char (drop_bit 6 (group24 a b 0)), CHR ''='']"
  "encode_chunk [a, b, c] = [b64_char (drop_bit 18 (group24 a b c)), b64_char (drop_bit 12 (group24 a b c)),
     b64_char (drop_bit 6 (group24 a b c)), b64_char (group24 a b c)]"
  by (simp_all add: encode_chunk_def group24_def Let_def)

lemma b64_loop_encode: "b64_loop bits 0 out (b64_encode input) = Inr (out @ input)"
proof (induction input arbitrary: bits out rule: chunks3.induct)
  case (1 a b c xs)
  then show ?case
    by (simp add: b64_encode_def encode_chunk_cases b64_loop_char shift_in_byte0 shift_in_byte1 shift_in_byte2
        del: b64_loop.simps)
qed (simp_all add: b64_encode_def encode_chunk_cases b64_loop_char b64_loop_pad shift_in_byte0 shift_in_byte1
    b64_loop.simps(1) del: b64_loop.simps(2))

text \<open>
  Base64 round trip: decoding what the encoder writes returns the bytes, for every input and
  every length modulo three; the encoding has four characters for each started group of three.
\<close>

lemma b64_roundtrip:
  "b64_decode (b64_encode input) = Inr input \<and> length (b64_encode input) = 4 * ((length input + 2) div 3)"
proof
  show "b64_decode (b64_encode input) = Inr input"
    by (simp add: b64_decode_def b64_loop_encode)
  show "length (b64_encode input) = 4 * ((length input + 2) div 3)"
    by (induction input rule: chunks3.induct) (simp_all add: b64_encode_def encode_chunk_cases div_if)
qed

section \<open>Base32 of a token\<close>

text \<open>The characters emitted so far, and the bits left over, from the bits fed so far.\<close>

lemma base32_drain_spec:
  "fst (base32_drain bits nbits out) = nbits mod 5
   \<and> length (snd (base32_drain bits nbits out)) = length out + nbits div 5
   \<and> set (snd (base32_drain bits nbits out)) \<subseteq> set out \<union> set BASE32_LOWER"
proof (induction bits nbits out rule: base32_drain.induct)
  case (1 bits nbits out)
  have "BASE32_LOWER ! unat (w AND 0x1f :: u32) \<in> set BASE32_LOWER" for w
    using unat_and_mask_lt(2) [of w] by (intro nth_mem) (simp add: BASE32_LOWER_def)
  with 1 show ?case
    by (cases "5 \<le> nbits") (auto simp: base32_drain.simps [of bits nbits] le_div_geq le_mod_geq)
qed

lemma div_5_carry: "x div 5 + (y + x mod 5) div 5 = (x + y) div (5 :: nat)"
proof -
  have "x + y = (y + x mod 5) + x div 5 * 5" by simp
  then have "(x + y) div 5 = ((y + x mod 5) + x div 5 * 5) div 5" by (rule arg_cong)
  also have "\<dots> = x div 5 + (y + x mod 5) div 5" by (rule div_mult_self1) simp
  finally show ?thesis by (rule sym)
qed

lemma base32_loop_spec:
  "nbits < 5 \<Longrightarrow> length (base32_loop bits nbits out input) = length out + (8 * length input + nbits + 4) div 5
   \<and> set (base32_loop bits nbits out input) \<subseteq> set out \<union> set BASE32_LOWER"
proof (induction input arbitrary: bits nbits out)
  case Nil
  have "BASE32_LOWER ! unat (w AND 0x1f :: u32) \<in> set BASE32_LOWER" for w
    using unat_and_mask_lt(2) [of w] by (intro nth_mem) (simp add: BASE32_LOWER_def)
  with Nil show ?case by (cases "nbits = 0") (auto simp: div_if)
next
  case (Cons b input)
  let ?bits = "push_bit 8 bits OR ucast b"
  obtain n' out' where d: "base32_drain ?bits (nbits + 8) out = (n', out')" by fastforce
  with base32_drain_spec [of ?bits "nbits + 8" out]
  have "n' = (nbits + 8) mod 5" "length out' = length out + (nbits + 8) div 5"
    "set out' \<subseteq> set out \<union> set BASE32_LOWER" by simp_all
  moreover have "n' < 5" using calculation(1) by simp
  moreover have "(nbits + 8) div 5 + (8 * length input + (nbits + 8) mod 5 + 4) div 5
      = (8 * length (b # input) + nbits + 4) div 5"
    using div_5_carry [of "nbits + 8" "8 * length input + 4"] by (simp add: algebra_simps)
  ultimately show ?case using Cons.IH [of n' ?bits out'] by (auto simp: d)
qed

lemma length_base32_lower: "length (base32_lower input) = (8 * length input + 4) div 5"
  using base32_loop_spec [of 0 0 "[]" input] by (simp add: base32_lower_def)

lemma set_base32_lower: "set (base32_lower input) \<subseteq> set BASE32_LOWER"
  using base32_loop_spec [of 0 0 "[]" input] by (simp add: base32_lower_def)

end
