(* ===== verification/Gateway_AliasMap.thy ===== *)
theory Gateway_AliasMap
  imports Gateway_B64
begin

text \<open>
  The gateway alias map (\<open>crates/pier-gateway/src/alias_map.rs\<close>): random tokens that stand for
  a native address or an identity, with an optional expiry, a one-time flag and explicit burning.
  The random source \<open>getrandom\<close> is not under \<open>src\<close>: a call of the model takes the list of draws
  the source would give, \<open>None\<close> for a draw that fails (the code aborts there). The minting loop
  may draw again while tokens collide; a list that runs out is a loop still running.
\<close>

section \<open>Rows and the map\<close>

definition TOKEN_ENTROPY_BYTES :: nat where "TOKEN_ENTROPY_BYTES = 16"

datatype AliasTarget = NativeTarget string string | IdentityTarget bytes

datatype GatewayAliasError = Unmapped

fun alias_error_code :: "GatewayAliasError \<Rightarrow> u16" where
  "alias_error_code Unmapped = 0x0605"

record AliasRow =
  ar_target :: AliasTarget
  ar_correspondent :: "string option"
  ar_expires_at_ms :: "u64 option"
  ar_one_time :: bool
  ar_burned :: bool

definition is_expired :: "AliasRow \<Rightarrow> u64 \<Rightarrow> bool" where
  "is_expired row now_ms = (case ar_expires_at_ms row of Some ex \<Rightarrow> now_ms \<ge> ex | None \<Rightarrow> False)"

type_synonym GatewayAliasMap = "(string \<times> AliasRow) list"

definition alias_map_new :: GatewayAliasMap where
  "alias_map_new = []"

section \<open>Operations\<close>

datatype mint_result = Minted string GatewayAliasMap "bytes option list" | MintAbort | MintRunning

definition random_alias_token :: "bytes \<Rightarrow> string" where
  "random_alias_token raw = base32_lower raw"

fun mint_loop :: "GatewayAliasMap \<Rightarrow> AliasRow \<Rightarrow> bytes option list \<Rightarrow> mint_result" where
  "mint_loop rows row [] = MintRunning"
| "mint_loop rows row (None # draws) = MintAbort"
| "mint_loop rows row (Some raw # draws) =
     (let token = random_alias_token raw in
      if map_of rows token = None then Minted token (al_insert token row rows) draws
      else mint_loop rows row draws)"

definition mint_row ::
  "GatewayAliasMap \<Rightarrow> AliasTarget \<Rightarrow> string option \<Rightarrow> u64 option \<Rightarrow> bool \<Rightarrow> u64 \<Rightarrow> bytes option list \<Rightarrow> mint_result" where
  "mint_row rows target correspondent ttl_ms one_time now_ms draws =
     (let expires_at_ms = map_option (\<lambda>ttl. saturating_add now_ms ttl) ttl_ms;
          row = \<lparr> ar_target = target, ar_correspondent = correspondent, ar_expires_at_ms = expires_at_ms,
                  ar_one_time = one_time, ar_burned = False \<rparr>
      in mint_loop rows row draws)"

definition mint :: "GatewayAliasMap \<Rightarrow> AliasTarget \<Rightarrow> bytes option list \<Rightarrow> mint_result" where
  "mint rows target draws = mint_row rows target None None False 0 draws"

definition mint_with ::
  "GatewayAliasMap \<Rightarrow> AliasTarget \<Rightarrow> string option \<Rightarrow> u64 option \<Rightarrow> bool \<Rightarrow> u64 \<Rightarrow> bytes option list \<Rightarrow> mint_result" where
  "mint_with rows target correspondent ttl_ms one_time now_ms draws =
     mint_row rows target correspondent ttl_ms one_time now_ms draws"

definition alias_resolve ::
  "GatewayAliasMap \<Rightarrow> string \<Rightarrow> u64 \<Rightarrow> (GatewayAliasError + AliasTarget) \<times> GatewayAliasMap" where
  "alias_resolve rows alias now_ms =
     (case map_of rows alias of
        None \<Rightarrow> (Inl Unmapped, rows)
      | Some row \<Rightarrow>
          if ar_burned row \<or> is_expired row now_ms then (Inl Unmapped, rows)
          else (Inr (ar_target row),
                if ar_one_time row then al_insert alias (row\<lparr>ar_burned := True\<rparr>) rows else rows))"

definition correspondent_of :: "GatewayAliasMap \<Rightarrow> string \<Rightarrow> u64 \<Rightarrow> string option" where
  "correspondent_of rows alias now_ms =
     (case map_of rows alias of
        None \<Rightarrow> None
      | Some row \<Rightarrow> if ar_burned row \<or> is_expired row now_ms then None else ar_correspondent row)"

definition burn :: "GatewayAliasMap \<Rightarrow> string \<Rightarrow> bool \<times> GatewayAliasMap" where
  "burn rows alias =
     (case map_of rows alias of
        Some row \<Rightarrow> (True, al_insert alias (row\<lparr>ar_burned := True\<rparr>) rows)
      | None \<Rightarrow> (False, rows))"

definition alias_len :: "GatewayAliasMap \<Rightarrow> nat" where
  "alias_len rows = length rows"

definition alias_is_empty :: "GatewayAliasMap \<Rightarrow> bool" where
  "alias_is_empty rows = (rows = [])"

section \<open>Runs\<close>

datatype alias_cmd =
    CMint AliasTarget "string option" "u64 option" bool u64 "bytes option list"
  | CResolve string u64
  | CBurn string

fun alias_step :: "GatewayAliasMap \<Rightarrow> alias_cmd \<Rightarrow> GatewayAliasMap" where
  "alias_step rows (CMint target corr ttl one_time now draws) =
     (case mint_with rows target corr ttl one_time now draws of Minted _ rows' _ \<Rightarrow> rows' | _ \<Rightarrow> rows)"
| "alias_step rows (CResolve alias now) = snd (alias_resolve rows alias now)"
| "alias_step rows (CBurn alias) = snd (burn rows alias)"

section \<open>Lemmas\<close>

lemma mint_loop_Minted:
  "mint_loop rows row draws = Minted token rows' rest \<Longrightarrow>
     map_of rows token = None \<and> rows' = al_insert token row rows \<and> (\<exists>raw. Some raw \<in> set draws \<and> token = base32_lower raw)"
  by (induction rows row draws rule: mint_loop.induct)
    (auto simp: Let_def random_alias_token_def split: if_splits)

lemma mint_loop_returns:
  "None \<notin> set draws \<Longrightarrow> Some raw \<in> set draws \<Longrightarrow> map_of rows (base32_lower raw) = None
     \<Longrightarrow> \<exists>token rows' rest. mint_loop rows row draws = Minted token rows' rest"
  by (induction rows row draws rule: mint_loop.induct) (auto simp: Let_def random_alias_token_def)

text \<open>A row keeps everything but its burned flag, which is never cleared.\<close>

definition row_le :: "AliasRow \<Rightarrow> AliasRow \<Rightarrow> bool" where
  "row_le a b \<longleftrightarrow> b = a \<or> b = a\<lparr>ar_burned := True\<rparr>"

definition map_le_rows :: "GatewayAliasMap \<Rightarrow> GatewayAliasMap \<Rightarrow> bool" where
  "map_le_rows m m' \<longleftrightarrow> (\<forall>a row. map_of m a = Some row \<longrightarrow> (\<exists>row'. map_of m' a = Some row' \<and> row_le row row'))"

lemma row_le_refl [simp]: "row_le a a" by (simp add: row_le_def)

lemma row_le_trans: "row_le a b \<Longrightarrow> row_le b c \<Longrightarrow> row_le a c"
  by (auto simp: row_le_def)

lemma alias_step_le: "map_le_rows m (alias_step m c)"
proof (cases c)
  case (CMint target corr ttl one_time now draws)
  then show ?thesis
    by (auto simp: map_le_rows_def mint_with_def mint_row_def Let_def split: mint_result.splits
        dest!: mint_loop_Minted)
qed (auto simp: map_le_rows_def alias_resolve_def burn_def row_le_def split: option.splits)

lemma map_le_rows_refl: "map_le_rows m m" by (auto simp: map_le_rows_def)

lemma map_le_rows_trans: "map_le_rows a b \<Longrightarrow> map_le_rows b c \<Longrightarrow> map_le_rows a c"
  unfolding map_le_rows_def by (meson row_le_trans)

interpretation am: invariant_machine alias_step "\<lambda>m. distinct (al_keys m)"
proof
  fix m :: GatewayAliasMap and c assume "distinct (al_keys m)"
  then show "distinct (al_keys (alias_step m c))"
    by (cases c) (auto simp: mint_with_def mint_row_def Let_def alias_resolve_def burn_def
        split: mint_result.splits option.splits dest!: mint_loop_Minted)
qed

lemma alias_run_le: "distinct (al_keys m) \<Longrightarrow> map_le_rows m (foldl alias_step m cs)"
  by (rule am.run_mono) (auto intro: alias_step_le map_le_rows_refl map_le_rows_trans)

lemma row_after_run:
  assumes "distinct (al_keys m)" "map_of m a = Some row"
  obtains row' where "map_of (foldl alias_step m cs) a = Some row'" "row_le row row'"
  using alias_run_le [OF assms(1), of cs] assms(2) unfolding map_le_rows_def by blast

lemma burned_never_resolves:
  assumes "distinct (al_keys m)" "map_of m a = Some row" "ar_burned row"
  shows "alias_resolve (foldl alias_step m cs) a now = (Inl Unmapped, foldl alias_step m cs)"
proof -
  obtain row' where "map_of (foldl alias_step m cs) a = Some row'" "row_le row row'"
    using row_after_run [OF assms(1,2)] .
  with assms(3) show ?thesis by (auto simp: alias_resolve_def row_le_def)
qed

section \<open>Properties\<close>

text \<open>
  Minting returns a fresh token: as soon as the random source gives a draw whose token is not
  in use (and does not fail), minting returns; the token it returns was not in use, has 26
  characters of the base32 alphabet when drawn from 16 bytes, and the map gains exactly that row.
\<close>

lemma mint_fresh:
  assumes ok: "None \<notin> set draws" and fresh: "Some raw \<in> set draws" "map_of rows (base32_lower raw) = None"
    and len: "\<forall>r. Some r \<in> set draws \<longrightarrow> length r = TOKEN_ENTROPY_BYTES"
  shows "\<exists>token rows' rest. mint_with rows target corr ttl one_time now draws = Minted token rows' rest
     \<and> map_of rows token = None \<and> length token = 26 \<and> set token \<subseteq> set BASE32_LOWER
     \<and> map_of rows' = (map_of rows)(token \<mapsto> \<lparr> ar_target = target, ar_correspondent = corr,
          ar_expires_at_ms = map_option (saturating_add now) ttl, ar_one_time = one_time, ar_burned = False \<rparr>)"
proof -
  let ?row = "\<lparr> ar_target = target, ar_correspondent = corr,
      ar_expires_at_ms = map_option (saturating_add now) ttl, ar_one_time = one_time, ar_burned = False \<rparr>"
  obtain token rows' rest where m: "mint_loop rows ?row draws = Minted token rows' rest"
    using mint_loop_returns [OF ok fresh] by blast
  from mint_loop_Minted [OF m] obtain r where r: "Some r \<in> set draws" "token = base32_lower r"
    and new: "map_of rows token = None" "rows' = al_insert token ?row rows" by blast
  have "length token = 26" using r len by (simp add: length_base32_lower TOKEN_ENTROPY_BYTES_def)
  moreover have "set token \<subseteq> set BASE32_LOWER" unfolding r(2) by (rule set_base32_lower)
  ultimately show ?thesis using m new
    by (intro exI [of _ token] exI [of _ rows'] exI [of _ rest]) (simp add: mint_with_def mint_row_def Let_def)
qed

lemma mint_fresh_witness:
  "\<exists>token rows' rest. mint_with alias_map_new (IdentityTarget [1]) None (Some 10) True 5 [Some (replicate 16 0)]
      = Minted token rows' rest \<and> length token = 26"
proof -
  have "\<exists>token rows' rest. mint_with alias_map_new (IdentityTarget [1]) None (Some 10) True 5 [Some (replicate 16 0)]
        = Minted token rows' rest
     \<and> map_of alias_map_new token = None \<and> length token = 26 \<and> set token \<subseteq> set BASE32_LOWER
     \<and> map_of rows' = (map_of alias_map_new)(token \<mapsto> \<lparr> ar_target = IdentityTarget [1], ar_correspondent = None,
          ar_expires_at_ms = map_option (saturating_add 5) (Some 10), ar_one_time = True, ar_burned = False \<rparr>)"
    by (rule mint_fresh [of _ "replicate 16 0"]) (simp_all add: alias_map_new_def TOKEN_ENTROPY_BYTES_def)
  then show ?thesis by blast
qed

text \<open>
  A one-time alias resolves at most once: once it has resolved, no sequence of mints,
  resolutions and burns makes it resolve again. The same holds of a burned alias.
\<close>

lemma one_time_alias_resolves_once:
  assumes "distinct (al_keys m)" and "map_of m a = Some row" and "ar_one_time row"
    and "alias_resolve m a now = (Inr t, m')"
  shows "fst (alias_resolve (foldl alias_step m' cs) a now') = Inl Unmapped
     \<and> correspondent_of (foldl alias_step m' cs) a now' = None"
proof -
  have m': "m' = al_insert a (row\<lparr>ar_burned := True\<rparr>) m"
    using assms by (auto simp: alias_resolve_def split: if_splits)
  then have d: "distinct (al_keys m')" using assms(1) by simp
  have row: "map_of m' a = Some (row\<lparr>ar_burned := True\<rparr>)" by (simp add: m')
  obtain row' where "map_of (foldl alias_step m' cs) a = Some row'" "row_le (row\<lparr>ar_burned := True\<rparr>) row'"
    using row_after_run [OF d row] .
  then show ?thesis using burned_never_resolves [OF d row, of cs now']
    by (auto simp: correspondent_of_def row_le_def)
qed

definition sample_alias_map :: GatewayAliasMap where
  "sample_alias_map = [(''tok'', \<lparr> ar_target = IdentityTarget [9], ar_correspondent = None,
     ar_expires_at_ms = Some 100, ar_one_time = True, ar_burned = False \<rparr>)]"

lemma one_time_alias_resolves_once_witness:
  "fst (alias_resolve (foldl alias_step (snd (alias_resolve sample_alias_map ''tok'' 5)) [CBurn ''x'', CResolve ''tok'' 6])
     ''tok'' 7) = Inl Unmapped"
  using one_time_alias_resolves_once [of sample_alias_map "''tok''" "snd (hd sample_alias_map)" 5 "IdentityTarget [9]"
      "snd (alias_resolve sample_alias_map ''tok'' 5)" "[CBurn ''x'', CResolve ''tok'' 6]" 7]
  by (simp add: sample_alias_map_def alias_resolve_def is_expired_def burn_def)

text \<open>
  An alias is never retargeted and never outlives its expiry: after any sequence of
  operations a known alias resolves to the target it was given or not at all, and from its
  expiry time on it does not resolve.
\<close>

lemma alias_never_retargeted:
  assumes "distinct (al_keys m)" and "map_of m a = Some row"
  shows "fst (alias_resolve (foldl alias_step m cs) a now) \<in> {Inr (ar_target row), Inl Unmapped}
     \<and> (is_expired row now \<longrightarrow> fst (alias_resolve (foldl alias_step m cs) a now) = Inl Unmapped)"
proof -
  obtain row' where "map_of (foldl alias_step m cs) a = Some row'" "row_le row row'"
    using row_after_run [OF assms] .
  then show ?thesis by (auto simp: alias_resolve_def row_le_def is_expired_def)
qed

lemma alias_never_retargeted_witness:
  "fst (alias_resolve (foldl alias_step sample_alias_map [CBurn ''x'']) ''tok'' 100) = Inl Unmapped"
  using alias_never_retargeted [of sample_alias_map "''tok''" "snd (hd sample_alias_map)" "[CBurn ''x'']" 100]
  by (simp add: sample_alias_map_def is_expired_def)

end
