(* ===== verification/Gateway_Attestation.thy ===== *)
theory Gateway_Attestation
  imports Economics_Descriptor
begin

text \<open>
  Gateway attestations (\<open>crates/pier-gateway/src/attestation.rs\<close>): the domain-bound key of a
  gateway, the attestation it signs over a delivered message, the length-prefixed body that is
  signed, verification against the key the domain publishes, and the static key resolver.
  \<open>ContentId\<close> belongs to \<open>kotva-core\<close>: its type is a parameter, with the bytes it exposes given
  by the function \<open>cid_bytes\<close>.
\<close>

section \<open>Keys and attestations\<close>

definition ATTESTATION_DS :: bytes where
  "ATTESTATION_DS = ascii ''DMTAP-v0/gateway-attestation'' @ [0]"

record 'ik AttestationKey =
  ak_domain :: string
  ak_selector :: string
  ak_key :: 'ik

definition attestation_key_new :: "string \<Rightarrow> string \<Rightarrow> 'ik \<Rightarrow> 'ik AttestationKey" where
  "attestation_key_new domain selector key = \<lparr> ak_domain = domain, ak_selector = selector, ak_key = key \<rparr>"

definition ak_public :: "('cv, 'f, 'ce, 'ik, 'ie) kotva \<Rightarrow> 'ik AttestationKey \<Rightarrow> bytes" where
  "ak_public K ak = ik_public K (ak_key ak)"

definition sign_ds :: "('cv, 'f, 'ce, 'ik, 'ie) kotva \<Rightarrow> 'ik AttestationKey \<Rightarrow> bytes \<Rightarrow> bytes \<Rightarrow> bytes" where
  "sign_ds K ak ds preimage = sign_domain K (ak_key ak) ds preimage"

record 'cid Attestation =
  at_domain :: string
  at_selector :: string
  at_gateway_key :: bytes
  at_received_at :: u64
  at_smtp_mail_from :: string
  at_smtp_rcpt_to :: string
  at_mote_id :: 'cid
  at_sig :: bytes

definition push_framed :: "bytes \<Rightarrow> bytes \<Rightarrow> bytes" where
  "push_framed m b = m @ to_be_bytes (of_nat (length b)) @ b"

definition attestation_signing_body :: "('cid \<Rightarrow> bytes) \<Rightarrow> 'cid Attestation \<Rightarrow> bytes" where
  "attestation_signing_body cid_bytes a =
     (let m = push_framed [] (ascii (at_domain a));
          m = push_framed m (ascii (at_selector a));
          m = push_framed m (at_gateway_key a);
          m = m @ to_be_bytes (at_received_at a);
          m = push_framed m (ascii (at_smtp_mail_from a));
          m = push_framed m (ascii (at_smtp_rcpt_to a));
          m = push_framed m (cid_bytes (at_mote_id a))
      in m)"

definition attest ::
  "('cv, 'f, 'ce, 'ik, 'ie) kotva \<Rightarrow> ('cid \<Rightarrow> bytes) \<Rightarrow> 'ik AttestationKey \<Rightarrow> 'cid \<Rightarrow> string \<Rightarrow> string \<Rightarrow> u64
     \<Rightarrow> 'cid Attestation" where
  "attest K cid_bytes ak mote_id smtp_mail_from smtp_rcpt_to received_at =
     (let att = \<lparr> at_domain = ak_domain ak, at_selector = ak_selector ak, at_gateway_key = ik_public K (ak_key ak),
            at_received_at = received_at, at_smtp_mail_from = smtp_mail_from, at_smtp_rcpt_to = smtp_rcpt_to,
            at_mote_id = mote_id, at_sig = [] \<rparr>
      in att\<lparr>at_sig := sign_domain K (ak_key ak) ATTESTATION_DS (attestation_signing_body cid_bytes att)\<rparr>)"

datatype 'ie AttestationError = WrongDomain | NoPublishedKey | KeyMismatch | MoteMismatch | ABadSignature 'ie

definition attestation_verify ::
  "('cv, 'f, 'ce, 'ik, 'ie) kotva \<Rightarrow> ('cid \<Rightarrow> bytes) \<Rightarrow> 'cid Attestation \<Rightarrow> string \<Rightarrow> bytes option \<Rightarrow> 'cid
     \<Rightarrow> 'ie AttestationError + unit" where
  "attestation_verify K cid_bytes a expected_domain published_key wrapped_mote_id =
     (if at_domain a \<noteq> expected_domain then Inl WrongDomain
      else if at_mote_id a \<noteq> wrapped_mote_id then Inl MoteMismatch
      else res_bind (ok_or NoPublishedKey published_key) (\<lambda>published.
        if published \<noteq> at_gateway_key a then Inl KeyMismatch
        else map_err ABadSignature
               (verify_domain K published ATTESTATION_DS (attestation_signing_body cid_bytes a) (at_sig a))))"

section \<open>The static key resolver\<close>

type_synonym StaticGwKeys = "(string \<times> string \<times> bytes) list"

definition gw_publish :: "StaticGwKeys \<Rightarrow> string \<Rightarrow> string \<Rightarrow> bytes \<Rightarrow> StaticGwKeys" where
  "gw_publish entries domain selector key = entries @ [(domain, selector, key)]"

definition resolve_gw_key :: "StaticGwKeys \<Rightarrow> string \<Rightarrow> string \<Rightarrow> bytes option" where
  "resolve_gw_key entries domain selector =
     map_option (\<lambda>(_, _, k). k) (List.find (\<lambda>(d, s, _). d = domain \<and> s = selector) entries)"

section \<open>The signed body is unambiguous\<close>

text \<open>A frame is read back: equal framed prefixes give equal contents and equal rests.\<close>

definition frame :: "bytes \<Rightarrow> bytes" where
  "frame b = to_be_bytes (of_nat (length b)) @ b"

lemma frame_inject:
  assumes "length a < 2 ^ 64" and "length b < 2 ^ 64"
  shows "frame a @ r = frame b @ s \<longleftrightarrow> a = b \<and> r = s"
proof
  assume "frame a @ r = frame b @ s"
  then have eq: "to_be_bytes (of_nat (length a)) @ a @ r = to_be_bytes (of_nat (length b)) @ b @ s"
    by (simp add: frame_def)
  then have "to_be_bytes (of_nat (length a)) = to_be_bytes (of_nat (length b))"
    by (simp del: to_be_bytes_inject)
  then have "(of_nat (length a) :: u64) = of_nat (length b)" by simp
  then have "unat (of_nat (length a) :: u64) = unat (of_nat (length b) :: u64)" by (rule arg_cong)
  then have "length a = length b" using assms by (simp add: unsigned_of_nat take_bit_nat_eq_self)
  with eq show "a = b \<and> r = s" by simp
qed simp

lemma be_inject: "to_be_bytes a @ r = to_be_bytes b @ s \<longleftrightarrow> a = b \<and> r = s"
  by simp

lemma signing_body_frames:
  "attestation_signing_body cid_bytes a =
     frame (ascii (at_domain a)) @ frame (ascii (at_selector a)) @ frame (at_gateway_key a)
     @ to_be_bytes (at_received_at a) @ frame (ascii (at_smtp_mail_from a))
     @ frame (ascii (at_smtp_rcpt_to a)) @ frame (cid_bytes (at_mote_id a)) @ []"
  by (simp add: attestation_signing_body_def push_framed_def frame_def Let_def)

lemma of_char_u8_inject: "(of_char c :: u8) = of_char d \<longleftrightarrow> c = d"
proof
  assume "(of_char c :: u8) = of_char d"
  then have "(of_nat (of_char c) :: u8) = of_nat (of_char d)" by (simp only: of_nat_of_char)
  then have "unat (of_nat (of_char c) :: u8) = unat (of_nat (of_char d) :: u8)" by (rule arg_cong)
  then have "take_bit 8 (of_char c :: nat) = take_bit 8 (of_char d :: nat)" by (simp add: unsigned_of_nat)
  then show "c = d" by (simp add: take_bit_nat_eq_self)
qed simp

lemma ascii_inject [simp]: "ascii s = ascii t \<longleftrightarrow> s = t"
  unfolding ascii_def by (rule inj_map_eq_map) (simp add: inj_def of_char_u8_inject)

lemma length_ascii [simp]: "length (ascii s) = length s"
  by (simp add: ascii_def)

text \<open>Every field of an attestation is shorter than \<open>2 ^ 64\<close> bytes, as any slice is.\<close>

definition attestation_sized :: "('cid \<Rightarrow> bytes) \<Rightarrow> 'cid Attestation \<Rightarrow> bool" where
  "attestation_sized cid_bytes a \<longleftrightarrow>
     length (at_domain a) < 2 ^ 64 \<and> length (at_selector a) < 2 ^ 64 \<and> length (at_gateway_key a) < 2 ^ 64
   \<and> length (at_smtp_mail_from a) < 2 ^ 64 \<and> length (at_smtp_rcpt_to a) < 2 ^ 64
   \<and> length (cid_bytes (at_mote_id a)) < 2 ^ 64"

lemma signing_body_inject:
  assumes "attestation_sized cid_bytes a" and "attestation_sized cid_bytes b"
  shows "attestation_signing_body cid_bytes a = attestation_signing_body cid_bytes b \<longleftrightarrow>
     at_domain a = at_domain b \<and> at_selector a = at_selector b \<and> at_gateway_key a = at_gateway_key b
   \<and> at_received_at a = at_received_at b \<and> at_smtp_mail_from a = at_smtp_mail_from b
   \<and> at_smtp_rcpt_to a = at_smtp_rcpt_to b \<and> cid_bytes (at_mote_id a) = cid_bytes (at_mote_id b)"
  using assms unfolding attestation_sized_def
  by (simp only: signing_body_frames frame_inject be_inject length_ascii ascii_inject simp_thms)

text \<open>
  The signed body of an attestation is unambiguous: two attestations whose fields are shorter
  than \<open>2 ^ 64\<close> bytes have the same body only if they agree in every field that is signed, so a
  signature over one cannot be presented as a signature over another by moving bytes between
  fields.
\<close>

lemma attestation_body_unambiguous:
  assumes "attestation_sized cid_bytes a" and "attestation_sized cid_bytes b" and "inj cid_bytes"
    and "attestation_signing_body cid_bytes a = attestation_signing_body cid_bytes b"
  shows "a\<lparr>at_sig := []\<rparr> = b\<lparr>at_sig := []\<rparr>"
proof -
  have "at_mote_id a = at_mote_id b"
    using assms(4) injD [OF assms(3)] unfolding signing_body_inject [OF assms(1,2)] by blast
  with assms(4) show ?thesis unfolding signing_body_inject [OF assms(1,2)]
    by (cases a; cases b) simp
qed

definition sample_attestation :: "bytes Attestation" where
  "sample_attestation = attest (ref_kotva (RU64 0)) id (attestation_key_new ''ex.org'' ''s1'' [7]) [1, 2] ''a@b'' ''c@d'' 9"

lemma attestation_sized_sample: "attestation_sized id sample_attestation"
  by (simp add: attestation_sized_def sample_attestation_def attest_def attestation_key_new_def Let_def)

lemma attestation_body_unambiguous_witness:
  "attestation_signing_body id (sample_attestation\<lparr>at_smtp_rcpt_to := ''c@e''\<rparr>)
     \<noteq> attestation_signing_body id sample_attestation"
proof
  assume eq: "attestation_signing_body id (sample_attestation\<lparr>at_smtp_rcpt_to := ''c@e''\<rparr>)
     = attestation_signing_body id sample_attestation"
  have "attestation_sized id (sample_attestation\<lparr>at_smtp_rcpt_to := ''c@e''\<rparr>)"
    using attestation_sized_sample by (simp add: attestation_sized_def)
  from attestation_body_unambiguous [OF this attestation_sized_sample inj_on_id eq] show False
    by (simp add: sample_attestation_def attest_def Let_def)
qed

section \<open>Verification\<close>

text \<open>
  Attestations verify exactly where they should: an attestation a gateway key signs verifies
  for the delivered message under the domain of the key and the key that domain publishes, and
  verification fails closed, with the error the code names, for any other domain, another message,
  a domain without a published key, or a published key other than the gateway's.
\<close>

lemma attestation_verify_exact:
  fixes K :: "('cv, 'f, 'ce, 'ik, 'ie) kotva"
  assumes "kotva_laws K" and "a = attest K cid_bytes ak mote mail_from rcpt_to at"
  shows "attestation_verify K cid_bytes a expected published m =
     (if expected \<noteq> ak_domain ak then Inl WrongDomain
      else if m \<noteq> mote then Inl MoteMismatch
      else (case published of
              None \<Rightarrow> Inl NoPublishedKey
            | Some k \<Rightarrow> if k \<noteq> ak_public K ak then Inl KeyMismatch else Inr ()))"
  using assms
  by (auto simp: attestation_verify_def attest_def attestation_signing_body_def ak_public_def Let_def
      kotva_simps split: option.split)

lemma attestation_verify_exact_witness:
  "attestation_verify (ref_kotva (RU64 0)) id sample_attestation ''ex.org'' (Some [7]) [1, 2] = Inr ()"
  using attestation_verify_exact [OF ref_kotva_laws sample_attestation_def, of "''ex.org''" "Some [7]" "[1, 2]"]
  by (simp add: attestation_key_new_def ak_public_def)

text \<open>The first published key of a domain and selector is the one that resolves.\<close>

lemma resolve_gw_key_publish:
  "resolve_gw_key (gw_publish entries d s k) d' s' =
     (case resolve_gw_key entries d' s' of
        Some k' \<Rightarrow> Some k'
      | None \<Rightarrow> if d = d' \<and> s = s' then Some k else None)"
  by (induction entries) (auto simp: resolve_gw_key_def gw_publish_def)

end
