(* ===== verification/Gateway_Provenance.thy ===== *)
theory Gateway_Provenance
  imports Gateway_Attestation
begin

text \<open>
  Provenance (\<open>crates/pier-gateway/src/provenance.rs\<close>): the attestation a bridging gateway adds
  to a message, the provenance record a recipient assembles, their wire forms, the authorization
  and metering seams, and the bridge that ties them. \<open>msg_digest\<close> is the content identifier of
  \<open>kotva-core\<close>: a function parameter \<open>digest\<close>.
\<close>

section \<open>Gateway attestations\<close>

definition GATEWAY_ATTEST_DS :: bytes where
  "GATEWAY_ATTEST_DS = ascii ''DMTAP-v0/gateway-attest'' @ [0]"

definition DISC_LEGACY_BRIDGE :: u8 where "DISC_LEGACY_BRIDGE = 1"

record GatewayAttestation =
  ga_disc :: u8
  ga_domain :: string
  ga_selector :: string
  ga_recv_at :: u64
  ga_msg_digest :: bytes
  ga_legacy_from :: "string option"
  ga_seq :: "u8 option"
  ga_sig :: bytes

definition ga_to_cv :: "('cv, 'f, 'ce, 'ik, 'ie) kotva \<Rightarrow> bool \<Rightarrow> GatewayAttestation \<Rightarrow> 'cv" where
  "ga_to_cv K include_sig a =
     cv_map K
       ([(0, cv_u64 K (ucast (ga_disc a))), (1, cv_text K (ga_domain a)), (2, cv_text K (ga_selector a)),
         (3, cv_u64 K (ga_recv_at a)), (4, cv_bytes K (ga_msg_digest a))]
        @ (case ga_legacy_from a of Some lf \<Rightarrow> [(5, cv_text K lf)] | None \<Rightarrow> [])
        @ (case ga_seq a of Some seq \<Rightarrow> [(6, cv_u64 K (ucast seq))] | None \<Rightarrow> [])
        @ (if include_sig then [(7, cv_bytes K (ga_sig a))] else []))"

definition ga_det_cbor :: "('cv, 'f, 'ce, 'ik, 'ie) kotva \<Rightarrow> GatewayAttestation \<Rightarrow> bytes" where
  "ga_det_cbor K a = cbor_encode K (ga_to_cv K True a)"

definition ga_signing_body :: "('cv, 'f, 'ce, 'ik, 'ie) kotva \<Rightarrow> GatewayAttestation \<Rightarrow> bytes" where
  "ga_signing_body K a = cbor_encode K (ga_to_cv K False a)"

definition ga_sign ::
  "('cv, 'f, 'ce, 'ik, 'ie) kotva \<Rightarrow> (bytes \<Rightarrow> bytes) \<Rightarrow> 'ik AttestationKey \<Rightarrow> bytes \<Rightarrow> string option \<Rightarrow> u64 \<Rightarrow> u8
     \<Rightarrow> GatewayAttestation" where
  "ga_sign K digest att_key rfc5322_bytes legacy_from recv_at seq =
     (let att = \<lparr> ga_disc = DISC_LEGACY_BRIDGE, ga_domain = ak_domain att_key, ga_selector = ak_selector att_key,
            ga_recv_at = recv_at, ga_msg_digest = digest rfc5322_bytes, ga_legacy_from = legacy_from,
            ga_seq = (if seq = 0 then None else Some seq), ga_sig = [] \<rparr>
      in att\<lparr>ga_sig := sign_ds K att_key GATEWAY_ATTEST_DS (ga_signing_body K att)\<rparr>)"

definition ga_from_cv :: "('cv, 'f, 'ce, 'ik, 'ie) kotva \<Rightarrow> 'cv \<Rightarrow> 'ce + GatewayAttestation" where
  "ga_from_cv K cv =
     res_bind (fields_from_cv K cv) (\<lambda>f.
     res_bind (fields_req K f 0) (\<lambda>(x, f). res_bind (as_u8 K x) (\<lambda>disc.
     res_bind (fields_req K f 1) (\<lambda>(x, f). res_bind (as_text K x) (\<lambda>domain.
     res_bind (fields_req K f 2) (\<lambda>(x, f). res_bind (as_text K x) (\<lambda>selector.
     res_bind (fields_req K f 3) (\<lambda>(x, f). res_bind (as_u64 K x) (\<lambda>recv_at.
     res_bind (fields_req K f 4) (\<lambda>(x, f). res_bind (as_bytes K x) (\<lambda>msg_digest.
     (\<lambda>(x, f). res_bind (opt_read (as_text K) x) (\<lambda>legacy_from.
     (\<lambda>(x, f). res_bind (opt_read (as_u8 K) x) (\<lambda>seq.
     res_bind (fields_req K f 7) (\<lambda>(x, f). res_bind (as_bytes K x) (\<lambda>sig.
     res_bind (deny_unknown K f) (\<lambda>_.
     Inr \<lparr> ga_disc = disc, ga_domain = domain, ga_selector = selector, ga_recv_at = recv_at,
           ga_msg_digest = msg_digest, ga_legacy_from = legacy_from, ga_seq = seq, ga_sig = sig \<rparr>)))))
     (fields_take K f 6)))
     (fields_take K f 5))))))))))))"

definition ga_from_det_cbor :: "('cv, 'f, 'ce, 'ik, 'ie) kotva \<Rightarrow> bytes \<Rightarrow> 'ce + GatewayAttestation" where
  "ga_from_det_cbor K b = res_bind (cbor_decode K b) (ga_from_cv K)"

datatype ProvenanceError = ProvInvalid | ProvKeyUntrusted

fun provenance_code :: "ProvenanceError \<Rightarrow> u16" where
  "provenance_code ProvInvalid = 0x0601"
| "provenance_code ProvKeyUntrusted = 0x0602"

definition ga_verify ::
  "('cv, 'f, 'ce, 'ik, 'ie) kotva \<Rightarrow> (bytes \<Rightarrow> bytes) \<Rightarrow> GatewayAttestation \<Rightarrow> string \<Rightarrow> bytes option \<Rightarrow> bytes
     \<Rightarrow> ProvenanceError + unit" where
  "ga_verify K digest a expected_domain published_key rfc5322_bytes =
     (if ga_disc a \<noteq> DISC_LEGACY_BRIDGE then Inl ProvInvalid
      else if \<not> eq_ignore_ascii_case (ga_domain a) expected_domain then Inl ProvKeyUntrusted
      else if ga_msg_digest a \<noteq> digest rfc5322_bytes then Inl ProvInvalid
      else res_bind (ok_or ProvKeyUntrusted published_key) (\<lambda>key.
        map_err (\<lambda>_. ProvInvalid) (verify_domain K key GATEWAY_ATTEST_DS (ga_signing_body K a) (ga_sig a))))"

section \<open>Provenance records\<close>

datatype Tier = TierPrivate | TierFast

fun tier_as_u8 :: "Tier \<Rightarrow> u8" where
  "tier_as_u8 TierPrivate = 1"
| "tier_as_u8 TierFast = 2"

definition tier_from_u8 :: "('cv, 'f, 'ce, 'ik, 'ie) kotva \<Rightarrow> u8 \<Rightarrow> 'ce + Tier" where
  "tier_from_u8 K b =
     (if b = 1 then Inr TierPrivate else if b = 2 then Inr TierFast
      else Inl (unknown_discriminant K (ucast b)))"

datatype Profile = NotApplicable | Standard | HighSecurity

fun profile_as_u8 :: "Profile \<Rightarrow> u8" where
  "profile_as_u8 NotApplicable = 0"
| "profile_as_u8 Standard = 1"
| "profile_as_u8 HighSecurity = 2"

definition profile_from_u8 :: "('cv, 'f, 'ce, 'ik, 'ie) kotva \<Rightarrow> u8 \<Rightarrow> 'ce + Profile" where
  "profile_from_u8 K b =
     (if b = 0 then Inr NotApplicable else if b = 1 then Inr Standard else if b = 2 then Inr HighSecurity
      else Inl (unknown_discriminant K (ucast b)))"

datatype Origin = PureMesh | GatewayTouched

fun origin_as_u8 :: "Origin \<Rightarrow> u8" where
  "origin_as_u8 PureMesh = 0"
| "origin_as_u8 GatewayTouched = 1"

record ProvenanceRecord =
  pr_tier :: Tier
  pr_profile :: Profile
  pr_origin :: Origin
  pr_gateways :: "GatewayAttestation list"
  pr_min_hops :: "u8 option"
  pr_observed_at :: "u64 option"

definition assemble ::
  "Tier \<Rightarrow> Profile \<Rightarrow> u8 option \<Rightarrow> u64 option \<Rightarrow> GatewayAttestation list \<Rightarrow> ProvenanceRecord" where
  "assemble tier profile min_hops observed_at verified_gateways =
     \<lparr> pr_tier = tier, pr_profile = profile,
       pr_origin = (if verified_gateways = [] then PureMesh else GatewayTouched),
       pr_gateways = verified_gateways, pr_min_hops = min_hops, pr_observed_at = observed_at \<rparr>"

definition is_pure_mesh :: "ProvenanceRecord \<Rightarrow> bool" where
  "is_pure_mesh r = (pr_origin r = PureMesh)"

definition gateway_hops :: "ProvenanceRecord \<Rightarrow> nat" where
  "gateway_hops r = length (pr_gateways r)"

definition record_to_cv :: "('cv, 'f, 'ce, 'ik, 'ie) kotva \<Rightarrow> ProvenanceRecord \<Rightarrow> 'cv" where
  "record_to_cv K r =
     cv_map K
       ([(1, cv_u64 K (ucast (tier_as_u8 (pr_tier r)))), (2, cv_u64 K (ucast (profile_as_u8 (pr_profile r)))),
         (3, cv_u64 K (ucast (origin_as_u8 (pr_origin r)))),
         (4, cv_array K (map (ga_to_cv K True) (pr_gateways r)))]
        @ (case pr_min_hops r of Some h \<Rightarrow> [(5, cv_u64 K (ucast h))] | None \<Rightarrow> [])
        @ (case pr_observed_at r of Some t \<Rightarrow> [(6, cv_u64 K t)] | None \<Rightarrow> []))"

definition record_det_cbor :: "('cv, 'f, 'ce, 'ik, 'ie) kotva \<Rightarrow> ProvenanceRecord \<Rightarrow> bytes" where
  "record_det_cbor K r = cbor_encode K (record_to_cv K r)"

definition origin_of ::
  "('cv, 'f, 'ce, 'ik, 'ie) kotva \<Rightarrow> u8 \<Rightarrow> GatewayAttestation list \<Rightarrow> 'ce + Origin" where
  "origin_of K origin_byte gateways =
     (if origin_byte = 0 \<and> gateways = [] then Inr PureMesh
      else if origin_byte = 1 \<and> gateways \<noteq> [] then Inr GatewayTouched
      else Inl (unknown_discriminant K (ucast origin_byte)))"

definition record_from_det_cbor :: "('cv, 'f, 'ce, 'ik, 'ie) kotva \<Rightarrow> bytes \<Rightarrow> 'ce + ProvenanceRecord" where
  "record_from_det_cbor K b =
     res_bind (cbor_decode K b) (\<lambda>cv.
     res_bind (fields_from_cv K cv) (\<lambda>f.
     res_bind (fields_req K f 1) (\<lambda>(x, f). res_bind (as_u8 K x) (\<lambda>t. res_bind (tier_from_u8 K t) (\<lambda>tier.
     res_bind (fields_req K f 2) (\<lambda>(x, f). res_bind (as_u8 K x) (\<lambda>p. res_bind (profile_from_u8 K p) (\<lambda>profile.
     res_bind (fields_req K f 3) (\<lambda>(x, f). res_bind (as_u8 K x) (\<lambda>origin_byte.
     res_bind (fields_req K f 4) (\<lambda>(x, f). res_bind (as_array K x) (\<lambda>items.
     res_bind (res_collect (ga_from_cv K) items) (\<lambda>gateways.
     (\<lambda>(x, f). res_bind (opt_read (as_u8 K) x) (\<lambda>min_hops.
     (\<lambda>(x, f). res_bind (opt_read (as_u64 K) x) (\<lambda>observed_at.
     res_bind (deny_unknown K f) (\<lambda>_.
     res_bind (origin_of K origin_byte gateways) (\<lambda>origin.
     Inr \<lparr> pr_tier = tier, pr_profile = profile, pr_origin = origin, pr_gateways = gateways,
           pr_min_hops = min_hops, pr_observed_at = observed_at \<rparr>))))
     (fields_take K f 6)))
     (fields_take K f 5))))))))))))))"

section \<open>Authorization, metering and the bridge\<close>

datatype BridgeDirection = Inbound | Outbound

datatype AuthzDecision = Allowed string | Denied string

type_synonym StaticGatewayAuthz = "(string \<times> string) list"

definition static_allow :: "StaticGatewayAuthz \<Rightarrow> string \<Rightarrow> string \<Rightarrow> StaticGatewayAuthz" where
  "static_allow entries domain account = entries @ [(domain, account)]"

definition static_authorize :: "StaticGatewayAuthz \<Rightarrow> BridgeDirection \<Rightarrow> string \<Rightarrow> AuthzDecision" where
  "static_authorize entries direction domain =
     (case List.find (\<lambda>(d, _). eq_ignore_ascii_case d domain) entries of
        Some (_, account) \<Rightarrow> Allowed account
      | None \<Rightarrow> Denied (''domain '' @ domain @ '' not authorized to relay through this gateway''))"

record MeterEvent =
  me_direction :: BridgeDirection
  me_account :: string
  me_domain :: string
  me_msg_digest :: bytes
  me_at :: u64

type_synonym CountingMeter = "MeterEvent list"

definition counting_record :: "CountingMeter \<Rightarrow> MeterEvent \<Rightarrow> CountingMeter" where
  "counting_record events event = events @ [event]"

datatype BridgeError = NotAuthorized string

text \<open>
  The bridge owns its key and two trait objects: the policy is the function \<open>authorize\<close>, the meter
  a state with the function \<open>rec\<close> that records one event in it.
\<close>

definition bridge ::
  "('cv, 'f, 'ce, 'ik, 'ie) kotva \<Rightarrow> (bytes \<Rightarrow> bytes) \<Rightarrow> 'ik AttestationKey
     \<Rightarrow> (BridgeDirection \<Rightarrow> string \<Rightarrow> AuthzDecision) \<Rightarrow> ('m \<Rightarrow> MeterEvent \<Rightarrow> 'm) \<Rightarrow> 'm
     \<Rightarrow> BridgeDirection \<Rightarrow> string \<Rightarrow> bytes \<Rightarrow> string option \<Rightarrow> u64 \<Rightarrow> GatewayAttestation list
     \<Rightarrow> (BridgeError + GatewayAttestation) \<times> 'm" where
  "bridge K digest att_key authorize rec meter direction self_host_domain rfc5322_bytes legacy_from recv_at prior_chain =
     (case authorize direction self_host_domain of
        Denied reason \<Rightarrow> (Inl (NotAuthorized reason), meter)
      | Allowed account \<Rightarrow>
          (let seq = (of_nat (length prior_chain) :: u8);
               att = ga_sign K digest att_key rfc5322_bytes legacy_from recv_at seq
           in (Inr att, rec meter \<lparr> me_direction = direction, me_account = account, me_domain = self_host_domain,
                          me_msg_digest = ga_msg_digest att, me_at = recv_at \<rparr>)))"

definition chain_append :: "GatewayAttestation list \<Rightarrow> GatewayAttestation \<Rightarrow> GatewayAttestation list" where
  "chain_append prior hop = prior @ [hop]"

section \<open>Lemmas\<close>

lemma tier_from_as [simp]: "tier_from_u8 K (tier_as_u8 t) = Inr t"
  by (cases t) (simp_all add: tier_from_u8_def)

lemma profile_from_as [simp]: "profile_from_u8 K (profile_as_u8 p) = Inr p"
  by (cases p) (simp_all add: profile_from_u8_def)

lemma ga_from_to_cv:
  assumes K: "kotva_laws K"
  shows "ga_from_cv K (ga_to_cv K True a) = Inr a"
  unfolding ga_from_cv_def ga_to_cv_def
  apply (rule fields_step_plain [OF K])
   apply (simp split: option.split)
  apply (rule req_step_plain [OF K], assumption, simp, simp add: kotva_simps [OF K])
  apply (rule req_step_plain [OF K], assumption, simp add: al_remove_def, simp add: kotva_simps [OF K])
  apply (rule req_step_plain [OF K], assumption, simp add: al_remove_def, simp add: kotva_simps [OF K])
  apply (rule req_step_plain [OF K], assumption, simp add: al_remove_def, simp add: kotva_simps [OF K])
  apply (rule req_step_plain [OF K], assumption, simp add: al_remove_def, simp add: kotva_simps [OF K])
  apply (rule take_step [OF K], assumption)
  apply (cases a, cases "ga_legacy_from a"; cases "ga_seq a")
     apply (simp_all add: opt_read_def al_remove_def kotva_simps [OF K])
     apply (rule take_step [OF K], assumption, simp add: opt_read_def al_remove_def kotva_simps [OF K],
      rule req_step_plain [OF K], assumption, simp, simp add: al_remove_def kotva_simps [OF K])+
  done

lemma collect_ga_from_to_cv:
  "kotva_laws K \<Longrightarrow> res_collect (ga_from_cv K) (map (ga_to_cv K True) gs) = Inr gs"
  by (induction gs) (simp_all add: ga_from_to_cv)

definition record_wf :: "ProvenanceRecord \<Rightarrow> bool" where
  "record_wf r \<longleftrightarrow> (pr_origin r = PureMesh \<longleftrightarrow> pr_gateways r = [])"

lemma assemble_wf: "record_wf (assemble tier profile min_hops observed_at gateways)"
  by (simp add: assemble_def record_wf_def)

lemma origin_checked: "record_wf r \<Longrightarrow> origin_of K (origin_as_u8 (pr_origin r)) (pr_gateways r) = Inr (pr_origin r)"
  by (cases "pr_origin r") (auto simp: record_wf_def origin_of_def)

lemma record_from_to_cbor:
  assumes K: "kotva_laws K" and wf: "record_wf r"
    and codec: "cbor_decode K (record_det_cbor K r) = Inr (record_to_cv K r)"
  shows "record_from_det_cbor K (record_det_cbor K r) = Inr r"
  unfolding record_from_det_cbor_def codec res_bind_simps unfolding record_to_cv_def
  apply (rule fields_step_plain [OF K])
   apply (simp split: option.split)
  apply (rule req_step_plain [OF K], assumption, simp, simp add: kotva_simps [OF K])
  apply (rule req_step_plain [OF K], assumption, simp add: al_remove_def, simp add: kotva_simps [OF K])
  apply (rule req_step_plain [OF K], assumption, simp add: al_remove_def, simp add: kotva_simps [OF K])
  apply (rule req_step_plain [OF K], assumption, simp add: al_remove_def,
    simp add: kotva_simps [OF K] collect_ga_from_to_cv [OF K])
  apply (rule take_step [OF K], assumption)
  apply (cases "pr_min_hops r"; cases "pr_observed_at r")
     apply (simp_all add: opt_read_def al_remove_def kotva_simps [OF K])
     apply (rule take_step [OF K], assumption,
      simp add: opt_read_def al_remove_def kotva_simps [OF K] origin_checked [OF wf])+
  done

text \<open>
  The seam of the policy: whether a domain may relay does not depend on the case of its name, nor
  on the direction.
\<close>

definition is_allowed :: "AuthzDecision \<Rightarrow> bool" where
  "is_allowed d = (case d of Allowed _ \<Rightarrow> True | Denied _ \<Rightarrow> False)"

locale gateway_authz =
  fixes authorize :: "BridgeDirection \<Rightarrow> string \<Rightarrow> AuthzDecision"
  assumes case_insensitive:
    "eq_ignore_ascii_case d e \<Longrightarrow> is_allowed (authorize dir d) = is_allowed (authorize dir' e)"
begin

text \<open>A bridge behind such a policy answers and meters a domain whatever the case of its name.\<close>

lemma bridge_case_insensitive:
  assumes "eq_ignore_ascii_case d e"
  shows "is_ok (fst (bridge K digest ak authorize rec m dir d msg lf at prior))
       = is_ok (fst (bridge K digest ak authorize rec m dir' e msg lf at prior))"
  using case_insensitive [OF assms, of dir dir']
  by (auto simp: bridge_def is_allowed_def Let_def split: AuthzDecision.splits)

end

interpretation sa: gateway_authz "static_authorize entries"
proof
  fix d e dir dir' assume eq: "eq_ignore_ascii_case d e"
  have "(\<lambda>(x, _ :: string). eq_ignore_ascii_case x d) = (\<lambda>(x, _). eq_ignore_ascii_case x e)"
    using eq by (auto simp: eq_ignore_ascii_case_def)
  then show "is_allowed (static_authorize entries dir d) = is_allowed (static_authorize entries dir' e)"
    by (simp add: static_authorize_def is_allowed_def split: option.split)
qed

lemma ga_sign_verifies:
  assumes "kotva_laws K" and "eq_ignore_ascii_case (ak_domain ak) expected"
  shows "ga_verify K digest (ga_sign K digest ak msg lf at seq) expected (Some (ak_public K ak)) msg = Inr ()"
  using assms
  by (simp add: ga_verify_def ga_sign_def Let_def sign_ds_def ak_public_def ga_signing_body_def ga_to_cv_def
      kotva_simps)

section \<open>Properties\<close>

text \<open>
  A bridge attests and meters exactly what it is authorized to carry: when the policy allows
  the domain, the attestation it returns verifies, under the gateway's own domain in any case and
  its published key, for the message and for no message of another digest, and the meter gains
  exactly one event, for the account the policy named and the digest of the message; when the
  policy denies, nothing is attested and nothing is metered.
\<close>

lemma bridge_attests_and_meters:
  fixes K :: "('cv, 'f, 'ce, 'ik, 'ie) kotva"
  assumes K: "kotva_laws K"
    and br: "bridge K digest ak authorize counting_record m dir dmn msg lf at prior = (res, m')"
  shows "case authorize dir dmn of
      Denied reason \<Rightarrow> res = Inl (NotAuthorized reason) \<and> m' = m
    | Allowed account \<Rightarrow>
        (\<exists>att. res = Inr att
         \<and> m' = m @ [\<lparr> me_direction = dir, me_account = account, me_domain = dmn,
                       me_msg_digest = digest msg, me_at = at \<rparr>]
         \<and> (\<forall>e. eq_ignore_ascii_case (ak_domain ak) e \<longrightarrow>
              ga_verify K digest att e (Some (ak_public K ak)) msg = Inr ())
         \<and> (\<forall>e k other. digest other \<noteq> digest msg \<longrightarrow> \<not> is_ok (ga_verify K digest att e k other)))"
proof (cases "authorize dir dmn")
  case (Denied reason)
  with br show ?thesis by (simp add: bridge_def)
next
  case (Allowed account)
  define att where "att = ga_sign K digest ak msg lf at (of_nat (length prior))"
  have dig: "ga_msg_digest att = digest msg" by (simp add: att_def ga_sign_def Let_def)
  have res: "res = Inr att" "m' = m @ [\<lparr> me_direction = dir, me_account = account, me_domain = dmn,
                       me_msg_digest = digest msg, me_at = at \<rparr>]"
    using br Allowed dig by (auto simp: bridge_def counting_record_def Let_def att_def)
  have "ga_verify K digest att e (Some (ak_public K ak)) msg = Inr ()" if "eq_ignore_ascii_case (ak_domain ak) e" for e
    unfolding att_def by (rule ga_sign_verifies [OF K that])
  moreover have "\<not> is_ok (ga_verify K digest att e k other)" if "digest other \<noteq> digest msg" for e k other
    using that dig by (simp add: ga_verify_def)
  ultimately show ?thesis using res Allowed by auto
qed

lemma bridge_attests_and_meters_witness:
  "snd (bridge (ref_kotva (RU64 0)) id (attestation_key_new ''gw.org'' ''s'' [7])
        (static_authorize [(''a.org'', ''acct'')]) counting_record [] Inbound ''A.org'' [1, 2] None 9 [])
     = [\<lparr> me_direction = Inbound, me_account = ''acct'', me_domain = ''A.org'', me_msg_digest = [1, 2], me_at = 9 \<rparr>]"
proof -
  have "static_authorize [(''a.org'', ''acct'')] Inbound ''A.org'' = Allowed ''acct''"
    by (simp add: static_authorize_def eq_ignore_ascii_case_def to_ascii_lowercase_def to_lower_char_def
        is_ascii_uppercase_def char_eq_char_of_iff)
  with bridge_attests_and_meters [OF ref_kotva_laws surjective_pairing, of "RU64 0" id
      "attestation_key_new ''gw.org'' ''s'' [7]" "static_authorize [(''a.org'', ''acct'')]" "[]" Inbound "''A.org''"
      "[1, 2]" None 9 "[]"]
  show ?thesis by auto
qed

text \<open>
  Provenance records survive the wire and stay honest about their origin: the record a
  recipient assembles decodes to itself, and any record that decodes at all is marked pure mesh
  exactly when it carries no gateway attestation.
\<close>

lemma provenance_record_roundtrip:
  assumes "kotva_laws K" and "r = assemble tier profile min_hops observed_at gateways"
    and "cbor_decode K (record_det_cbor K r) = Inr (record_to_cv K r)"
  shows "record_from_det_cbor K (record_det_cbor K r) = Inr r
     \<and> (\<forall>b r'. record_from_det_cbor K b = Inr r' \<longrightarrow> (is_pure_mesh r' \<longleftrightarrow> gateway_hops r' = 0))"
proof
  show "record_from_det_cbor K (record_det_cbor K r) = Inr r"
    using record_from_to_cbor [OF assms(1) _ assms(3)] assemble_wf assms(2) by blast
  show "\<forall>b r'. record_from_det_cbor K b = Inr r' \<longrightarrow> (is_pure_mesh r' \<longleftrightarrow> gateway_hops r' = 0)"
    by (auto simp: record_from_det_cbor_def res_bind_Inr_iff case_prod_beta origin_of_def is_pure_mesh_def gateway_hops_def
        split: if_splits)
qed

definition sample_record :: ProvenanceRecord where
  "sample_record = assemble TierFast Standard (Some 3) None []"

lemma provenance_record_roundtrip_witness:
  "record_from_det_cbor (ref_kotva (record_to_cv (ref_kotva (RU64 0)) sample_record))
     (record_det_cbor (ref_kotva (record_to_cv (ref_kotva (RU64 0)) sample_record)) sample_record) = Inr sample_record"
proof -
  let ?v = "record_to_cv (ref_kotva (RU64 0)) sample_record"
  have "record_to_cv (ref_kotva ?v) sample_record = ?v"
    by (simp add: record_to_cv_def sample_record_def assemble_def)
  then have "cbor_decode (ref_kotva ?v) (record_det_cbor (ref_kotva ?v) sample_record)
      = Inr (record_to_cv (ref_kotva ?v) sample_record)"
    by (simp add: record_det_cbor_def)
  from provenance_record_roundtrip [OF ref_kotva_laws sample_record_def this] show ?thesis by simp
qed

text \<open>
  The position a bridge writes into an attestation is the number of prior hops modulo 256,
  with zero left out: a chain of 256 prior hops is numbered like an empty one.
\<close>

lemma bridge_seq_wraps:
  assumes "bridge K digest ak authorize rec m dir dmn msg lf at prior = (Inr att, m')"
  shows "ga_seq att = (if length prior mod 256 = 0 then None else Some (of_nat (length prior mod 256)))"
proof -
  have seq: "ga_seq att = (if (of_nat (length prior) :: u8) = 0 then None else Some (of_nat (length prior)))"
    using assms by (auto simp: bridge_def ga_sign_def Let_def split: AuthzDecision.splits)
  have "(of_nat (length prior) :: u8) = of_nat (length prior mod 256)"
    by (simp add: word_of_nat_eq_iff take_bit_eq_mod)
  moreover have "(of_nat (length prior) :: u8) = 0 \<longleftrightarrow> length prior mod 256 = 0"
    using word_of_nat_eq_0_iff [where 'a = 8, of "length prior"] by (simp add: mod_eq_0_iff_dvd)
  ultimately show ?thesis using seq by simp
qed

lemma bridge_seq_wraps_witness:
  "ga_seq (projr (fst (bridge (ref_kotva (RU64 0)) id (attestation_key_new ''gw.org'' ''s'' [7])
     (\<lambda>_ _. Allowed ''a'') counting_record [] Inbound ''a.org'' [1] None 9 (replicate 256 undefined)))) = None"
proof -
  have "bridge (ref_kotva (RU64 0)) id (attestation_key_new ''gw.org'' ''s'' [7])
     (\<lambda>_ _. Allowed ''a'') counting_record [] Inbound ''a.org'' [1] None 9 (replicate 256 undefined)
     = (Inr (projr (fst (bridge (ref_kotva (RU64 0)) id (attestation_key_new ''gw.org'' ''s'' [7])
     (\<lambda>_ _. Allowed ''a'') counting_record [] Inbound ''a.org'' [1] None 9 (replicate 256 undefined)))),
       snd (bridge (ref_kotva (RU64 0)) id (attestation_key_new ''gw.org'' ''s'' [7])
     (\<lambda>_ _. Allowed ''a'') counting_record [] Inbound ''a.org'' [1] None 9 (replicate 256 undefined)))"
    by (simp add: bridge_def Let_def)
  from bridge_seq_wraps [OF this] show ?thesis by simp
qed

end
