(* ===== verification/Gateway_Admission.thy ===== *)
theory Gateway_Admission
  imports Gateway_Provenance Gateway_B64
begin

text \<open>
  Admission to a gateway (\<open>crates/pier-gateway/src/authz.rs\<close>, first half): the operating modes,
  the challenges a registry issues, the registered identities and \<open>admit\<close>, which checks the age
  of a challenge, the signature over it, the registration of the key, and consumes its nonce. The
  nonce ledger behind the mutex is part of the registry's state; each call holds the lock, so calls
  are steps. Identifiers of \<open>kotva-core\<close> enter through \<open>digest\<close>, the digest of a public key.
\<close>

section \<open>Modes\<close>

datatype AuthzMode = OpenPublic | KeyRegistered

datatype GatewayMode = ModePrivate | RegisteredClientsOnly | ModePublic

definition gateway_mode_parse :: "string \<Rightarrow> GatewayMode option" where
  "gateway_mode_parse v =
     (let s = map (\<lambda>c. if c = CHR ''_'' then CHR ''-'' else c) (to_ascii_lowercase (trim v)) in
      if s \<in> {''private'', ''single'', ''operator''} then Some ModePrivate
      else if s \<in> {''registered-clients-only'', ''registered-clients'', ''registered'', ''clients''}
           then Some RegisteredClientsOnly
      else if s \<in> {''public'', ''open'', ''open-registration''} then Some ModePublic
      else None)"

fun gateway_mode_label :: "GatewayMode \<Rightarrow> string" where
  "gateway_mode_label ModePrivate = ''private''"
| "gateway_mode_label RegisteredClientsOnly = ''registered-clients-only''"
| "gateway_mode_label ModePublic = ''public''"

definition is_zero_third_party :: "GatewayMode \<Rightarrow> bool" where
  "is_zero_third_party m = (m = ModePrivate)"

section \<open>Challenges, identities and the registry\<close>

definition ADMISSION_DS :: bytes where
  "ADMISSION_DS = ascii ''DMTAP-v0/gateway-admission'' @ [0]"

record Challenge =
  ch_nonce :: bytes
  ch_issued_at :: u64

definition challenge_signing_body :: "Challenge \<Rightarrow> bytes" where
  "challenge_signing_body c = ch_nonce c @ to_be_bytes (ch_issued_at c)"

record Quota =
  q_free_messages :: u64
  q_hard_cap_messages :: u64
  q_free_bytes :: u64
  q_hard_cap_bytes :: u64

record RegisteredIdentity =
  ri_public_key :: bytes
  ri_account :: string
  ri_domain :: string
  ri_quota :: Quota

record Admission =
  adm_account :: string
  adm_domain :: string
  adm_public_key :: bytes

datatype AdmissionError = ChallengeExpired | AdmBadSignature | UnknownKey | UnknownOrConsumedChallenge

record IdentityRegistry =
  ir_mode :: AuthzMode
  ir_challenge_ttl_ms :: u64
  ir_entries :: "RegisteredIdentity list"
  ir_issued_nonces :: "(bytes \<times> u64) list"

definition key_registered :: IdentityRegistry where
  "key_registered = \<lparr> ir_mode = KeyRegistered, ir_challenge_ttl_ms = 300000, ir_entries = [], ir_issued_nonces = [] \<rparr>"

definition open_public :: IdentityRegistry where
  "open_public = \<lparr> ir_mode = OpenPublic, ir_challenge_ttl_ms = 300000, ir_entries = [], ir_issued_nonces = [] \<rparr>"

definition with_challenge_ttl :: "IdentityRegistry \<Rightarrow> u64 \<Rightarrow> IdentityRegistry" where
  "with_challenge_ttl reg ttl_ms = reg\<lparr>ir_challenge_ttl_ms := ttl_ms\<rparr>"

definition register :: "IdentityRegistry \<Rightarrow> RegisteredIdentity \<Rightarrow> IdentityRegistry" where
  "register reg identity =
     reg\<lparr>ir_entries := filter (\<lambda>e. ri_public_key e \<noteq> ri_public_key identity) (ir_entries reg) @ [identity]\<rparr>"

definition identity_for_key :: "IdentityRegistry \<Rightarrow> bytes \<Rightarrow> RegisteredIdentity option" where
  "identity_for_key reg public_key = List.find (\<lambda>e. ri_public_key e = public_key) (ir_entries reg)"

definition identity_for_domain :: "IdentityRegistry \<Rightarrow> string \<Rightarrow> RegisteredIdentity option" where
  "identity_for_domain reg domain = List.find (\<lambda>e. eq_ignore_ascii_case (ri_domain e) domain) (ir_entries reg)"

definition issue_challenge :: "IdentityRegistry \<Rightarrow> bytes \<Rightarrow> u64 \<Rightarrow> Challenge \<times> IdentityRegistry" where
  "issue_challenge reg nonce issued_at =
     (let cutoff = saturating_sub issued_at (ir_challenge_ttl_ms reg);
          issued = filter (\<lambda>(_, t). t \<ge> cutoff) (ir_issued_nonces reg);
          issued = al_insert nonce issued_at issued
      in (\<lparr> ch_nonce = nonce, ch_issued_at = issued_at \<rparr>, reg\<lparr>ir_issued_nonces := issued\<rparr>))"

definition peek_issued_at :: "IdentityRegistry \<Rightarrow> bytes \<Rightarrow> u64 option" where
  "peek_issued_at reg nonce = map_of (ir_issued_nonces reg) nonce"

definition consume_nonce :: "IdentityRegistry \<Rightarrow> bytes \<Rightarrow> u64 \<Rightarrow> (AdmissionError + u64) \<times> IdentityRegistry" where
  "consume_nonce reg nonce presented_issued_at =
     (case map_of (ir_issued_nonces reg) nonce of
        Some stored \<Rightarrow>
          if stored = presented_issued_at
          then (Inr stored, reg\<lparr>ir_issued_nonces := al_remove nonce (ir_issued_nonces reg)\<rparr>)
          else (Inl UnknownOrConsumedChallenge, reg)
      | None \<Rightarrow> (Inl UnknownOrConsumedChallenge, reg))"

definition key_fingerprint :: "(bytes \<Rightarrow> bytes) \<Rightarrow> bytes \<Rightarrow> string" where
  "key_fingerprint digest public_key = base32_lower (take 10 (digest public_key))"

definition admission_of :: "(bytes \<Rightarrow> bytes) \<Rightarrow> IdentityRegistry \<Rightarrow> bytes \<Rightarrow> AdmissionError + Admission" where
  "admission_of digest reg presented_key =
     (case ir_mode reg of
        KeyRegistered \<Rightarrow>
          (case identity_for_key reg presented_key of
             Some i \<Rightarrow> Inr \<lparr> adm_account = ri_account i, adm_domain = ri_domain i, adm_public_key = presented_key \<rparr>
           | None \<Rightarrow> Inl UnknownKey)
      | OpenPublic \<Rightarrow>
          (case identity_for_key reg presented_key of
             Some i \<Rightarrow> Inr \<lparr> adm_account = ri_account i, adm_domain = ri_domain i, adm_public_key = presented_key \<rparr>
           | None \<Rightarrow> Inr \<lparr> adm_account = ''anon:'' @ key_fingerprint digest presented_key, adm_domain = [],
                            adm_public_key = presented_key \<rparr>))"

definition admit ::
  "('cv, 'f, 'ce, 'ik, 'ie) kotva \<Rightarrow> (bytes \<Rightarrow> bytes) \<Rightarrow> IdentityRegistry \<Rightarrow> Challenge \<Rightarrow> bytes \<Rightarrow> bytes \<Rightarrow> u64
     \<Rightarrow> (AdmissionError + Admission) \<times> IdentityRegistry" where
  "admit K digest reg challenge presented_key sig now =
     (let effective_issued_at =
            (case peek_issued_at reg (ch_nonce challenge) of Some t \<Rightarrow> t | None \<Rightarrow> ch_issued_at challenge) in
      if now < effective_issued_at \<or> saturating_sub now effective_issued_at > ir_challenge_ttl_ms reg
      then (Inl ChallengeExpired, reg)
      else case verify_domain K presented_key ADMISSION_DS (challenge_signing_body challenge) sig of
        Inl _ \<Rightarrow> (Inl AdmBadSignature, reg)
      | Inr _ \<Rightarrow>
          (case admission_of digest reg presented_key of
             Inl e \<Rightarrow> (Inl e, reg)
           | Inr admission \<Rightarrow>
               (case consume_nonce reg (ch_nonce challenge) (ch_issued_at challenge) of
                  (Inl e, reg') \<Rightarrow> (Inl e, reg')
                | (Inr _, reg') \<Rightarrow> (Inr admission, reg'))))"

definition registry_authorize :: "IdentityRegistry \<Rightarrow> BridgeDirection \<Rightarrow> string \<Rightarrow> AuthzDecision" where
  "registry_authorize reg direction domain =
     (case ir_mode reg of
        OpenPublic \<Rightarrow> Allowed (''public:'' @ domain)
      | KeyRegistered \<Rightarrow>
          (case identity_for_domain reg domain of
             Some i \<Rightarrow> Allowed (ri_account i)
           | None \<Rightarrow> Denied (''domain '' @ domain @ '' is not registered with this gateway'')))"

section \<open>Runs\<close>

datatype admission_cmd =
    IssueChallenge bytes u64
  | Admit Challenge bytes bytes u64
  | Register RegisteredIdentity

fun admission_step ::
  "('cv, 'f, 'ce, 'ik, 'ie) kotva \<Rightarrow> (bytes \<Rightarrow> bytes) \<Rightarrow> IdentityRegistry \<Rightarrow> admission_cmd \<Rightarrow> IdentityRegistry" where
  "admission_step K digest reg (IssueChallenge nonce t) = snd (issue_challenge reg nonce t)"
| "admission_step K digest reg (Admit c key sig now) = snd (admit K digest reg c key sig now)"
| "admission_step K digest reg (Register i) = register reg i"

definition registry_inv :: "IdentityRegistry \<Rightarrow> bool" where
  "registry_inv reg \<longleftrightarrow> distinct (al_keys (ir_issued_nonces reg)) \<and> distinct (map ri_public_key (ir_entries reg))"

section \<open>Lemmas\<close>

text \<open>What an admission requires, as one condition on the registry and the presented values.\<close>

definition admissible ::
  "('cv, 'f, 'ce, 'ik, 'ie) kotva \<Rightarrow> IdentityRegistry \<Rightarrow> Challenge \<Rightarrow> bytes \<Rightarrow> bytes \<Rightarrow> u64 \<Rightarrow> bool" where
  "admissible K reg c key sig now \<longleftrightarrow>
     map_of (ir_issued_nonces reg) (ch_nonce c) = Some (ch_issued_at c)
   \<and> unat (ch_issued_at c) \<le> unat now
   \<and> unat now - unat (ch_issued_at c) \<le> unat (ir_challenge_ttl_ms reg)
   \<and> is_ok (verify_domain K key ADMISSION_DS (challenge_signing_body c) sig)
   \<and> (ir_mode reg = KeyRegistered \<longrightarrow> key \<in> ri_public_key ` set (ir_entries reg))"

lemma is_ok_iff: "is_ok r \<longleftrightarrow> (\<exists>x. r = Inr x)"
  by (cases r) auto

lemma identity_for_key_None: "identity_for_key reg key = None \<longleftrightarrow> key \<notin> ri_public_key ` set (ir_entries reg)"
  by (auto simp: identity_for_key_def find_None_iff)

lemma admission_of_ok:
  "is_ok (admission_of digest reg key) \<longleftrightarrow> (ir_mode reg = KeyRegistered \<longrightarrow> key \<in> ri_public_key ` set (ir_entries reg))"
  using identity_for_key_None [of reg key]
  by (auto simp: admission_of_def split: AuthzMode.splits option.splits)

lemma admission_of_key: "admission_of digest reg key = Inr adm \<Longrightarrow> adm_public_key adm = key"
  by (auto simp: admission_of_def split: AuthzMode.splits option.splits)

lemma admit_exact:
  "admissible K reg c key sig now \<Longrightarrow> admit K digest reg c key sig now =
     (admission_of digest reg key, reg\<lparr>ir_issued_nonces := al_remove (ch_nonce c) (ir_issued_nonces reg)\<rparr>)"
  "\<not> admissible K reg c key sig now \<Longrightarrow> \<exists>e. admit K digest reg c key sig now = (Inl e, reg)"
proof -
  note defs = admit_def Let_def consume_nonce_def peek_issued_at_def admissible_def word_less_nat_alt
    unat_saturating_sub admission_of_ok [of digest, symmetric] is_ok_iff
  show "admissible K reg c key sig now \<Longrightarrow> admit K digest reg c key sig now =
     (admission_of digest reg key, reg\<lparr>ir_issued_nonces := al_remove (ch_nonce c) (ir_issued_nonces reg)\<rparr>)"
    by (auto simp: defs)
  show "\<not> admissible K reg c key sig now \<Longrightarrow> \<exists>e. admit K digest reg c key sig now = (Inl e, reg)"
    by (auto simp: defs split: option.split sum.split)
qed

lemma distinct_filter_keys: "distinct (al_keys m) \<Longrightarrow> distinct (al_keys (filter P m))"
  by (rule distinct_map_filter)

interpretation ad: invariant_machine "admission_step K digest" registry_inv
proof
  fix reg c assume inv: "registry_inv reg"
  show "registry_inv (admission_step K digest reg c)"
  proof (cases c)
    case (IssueChallenge nonce t)
    with inv show ?thesis
      by (simp add: issue_challenge_def registry_inv_def Let_def distinct_filter_keys)
  next
    case (Admit ch key sig now)
    with inv show ?thesis
      using admit_exact [of K reg ch key sig now digest]
      by (cases "admissible K reg ch key sig now") (auto simp: registry_inv_def)
  next
    case (Register i)
    with inv show ?thesis by (auto simp: registry_inv_def register_def distinct_map_filter)
  qed
qed

text \<open>A nonce that is not in the ledger stays out of it until it is issued again.\<close>

definition not_reissued :: "bytes \<Rightarrow> admission_cmd list \<Rightarrow> bool" where
  "not_reissued nonce cs \<longleftrightarrow> (\<forall>t. IssueChallenge nonce t \<notin> set cs)"

lemma map_of_filter_None: "map_of m k = None \<Longrightarrow> map_of (filter P m) k = None"
  by (auto simp: map_of_eq_None_iff)

lemma consumed_step:
  "map_of (ir_issued_nonces reg) n = None \<Longrightarrow> (\<And>t. c \<noteq> IssueChallenge n t)
     \<Longrightarrow> map_of (ir_issued_nonces (admission_step K digest reg c)) n = None"
proof (cases c)
  case (Admit ch key sig now)
  assume "map_of (ir_issued_nonces reg) n = None"
  with Admit show ?thesis
    using admit_exact [of K reg ch key sig now digest] by (cases "admissible K reg ch key sig now") auto
qed (auto simp: issue_challenge_def Let_def register_def map_of_filter_None)

lemma consumed_run:
  "map_of (ir_issued_nonces reg) n = None \<Longrightarrow> not_reissued n cs
     \<Longrightarrow> map_of (ir_issued_nonces (foldl (admission_step K digest) reg cs)) n = None"
proof (induction cs arbitrary: reg)
  case (Cons c cs)
  have "map_of (ir_issued_nonces (admission_step K digest reg c)) n = None"
    using Cons.prems by (intro consumed_step) (auto simp: not_reissued_def)
  with Cons show ?case by (simp add: not_reissued_def)
qed simp

section \<open>Properties\<close>

text \<open>
  (C4) Admission is exact: it succeeds if and only if the challenge is one this gateway issued and
  has not consumed, presented with the time it was issued at, not before it and not later than the
  time to live allows, the signature over the challenge verifies under the presented key, and in
  the registered mode the key is registered; it then returns the account of that key and consumes
  the nonce, and a refused admission leaves the registry as it was.
\<close>

theorem admit_iff_admissible:
  "(is_ok (fst (admit K digest reg c key sig now)) \<longleftrightarrow> admissible K reg c key sig now)
   \<and> snd (admit K digest reg c key sig now) =
       (if admissible K reg c key sig now
        then reg\<lparr>ir_issued_nonces := al_remove (ch_nonce c) (ir_issued_nonces reg)\<rparr> else reg)
   \<and> (\<forall>adm. fst (admit K digest reg c key sig now) = Inr adm \<longrightarrow>
        adm_public_key adm = key \<and> admission_of digest reg key = Inr adm)"
proof (cases "admissible K reg c key sig now")
  case True
  then have "is_ok (admission_of digest reg key)" by (simp add: admissible_def admission_of_ok)
  with True show ?thesis using admission_of_key by (auto simp: admit_exact(1))
next
  case False
  then show ?thesis using admit_exact(2) [of K reg c key sig now digest] by auto
qed

text \<open>A challenge of nonce \<open>[5]\<close> issued at 100 and signed by the key \<open>[7]\<close> of the reference instance.\<close>

definition sample_registry :: IdentityRegistry where
  "sample_registry = snd (issue_challenge open_public [5] 100)"

definition sample_challenge :: Challenge where
  "sample_challenge = \<lparr> ch_nonce = [5], ch_issued_at = 100 \<rparr>"

definition sample_sig :: bytes where
  "sample_sig = [7] @ ADMISSION_DS @ [5] @ to_be_bytes 100"

lemma sample_admissible: "admissible (ref_kotva (RU64 0)) sample_registry sample_challenge [7] sample_sig 200"
proof -
  have "verify_domain (ref_kotva (RU64 0)) [7] ADMISSION_DS (challenge_signing_body sample_challenge) sample_sig = Inr ()"
    by (simp add: ref_kotva_def challenge_signing_body_def sample_challenge_def sample_sig_def)
  then show ?thesis
    by (simp add: admissible_def issue_challenge_def open_public_def sample_registry_def sample_challenge_def)
qed

theorem admit_iff_admissible_witness:
  "adm_public_key (projr (fst (admit (ref_kotva (RU64 0)) id sample_registry sample_challenge [7] sample_sig 200))) = [7]"
  using admit_iff_admissible [of "ref_kotva (RU64 0)" id sample_registry sample_challenge "[7]" sample_sig 200]
    sample_admissible by (auto simp: is_ok_iff)

text \<open>
  (C25) A challenge is good for one admission: after an admission has succeeded, no sequence of
  admissions, registrations and issues of other nonces lets any admission with the same nonce
  succeed again, whatever key and signature come with it.
\<close>

theorem admission_nonce_single_use:
  assumes "is_ok (fst (admit K digest reg c key sig now))" and "not_reissued (ch_nonce c) cs"
    and "ch_nonce c' = ch_nonce c"
  shows "\<not> is_ok (fst (admit K digest (foldl (admission_step K digest) (snd (admit K digest reg c key sig now)) cs)
             c' key' sig' now'))"
proof -
  let ?reg = "snd (admit K digest reg c key sig now)"
  have adm: "admissible K reg c key sig now"
  proof (rule ccontr)
    assume "\<not> admissible K reg c key sig now"
    with assms(1) admit_exact(2) [of K reg c key sig now digest] show False by auto
  qed
  have "map_of (ir_issued_nonces ?reg) (ch_nonce c) = None" by (simp add: admit_exact(1) [OF adm])
  from consumed_run [OF this assms(2), of K digest] assms(3)
  have "\<not> admissible K (foldl (admission_step K digest) ?reg cs) c' key' sig' now'"
    by (simp add: admissible_def)
  from admit_exact(2) [OF this, of digest] show ?thesis by auto
qed

theorem admission_nonce_single_use_witness:
  "\<not> is_ok (fst (admit (ref_kotva (RU64 0)) id (foldl (admission_step (ref_kotva (RU64 0)) id)
      (snd (admit (ref_kotva (RU64 0)) id sample_registry sample_challenge [7] sample_sig 200))
      [IssueChallenge [6] 300]) sample_challenge [7] sample_sig 210))"
proof -
  have "is_ok (fst (admit (ref_kotva (RU64 0)) id sample_registry sample_challenge [7] sample_sig 200))"
    using sample_admissible
    by (simp add: admit_exact(1)) (simp add: admission_of_ok sample_registry_def issue_challenge_def open_public_def)
  then show ?thesis
    by (rule admission_nonce_single_use) (simp_all add: not_reissued_def sample_challenge_def)
qed

text \<open>The registry's policy decides a domain whatever the case of its name, in both directions.\<close>

interpretation ra_authz: gateway_authz "registry_authorize reg"
proof
  fix d e dir dir' assume eq: "eq_ignore_ascii_case d e"
  have "(\<lambda>i :: RegisteredIdentity. eq_ignore_ascii_case (ri_domain i) d) = (\<lambda>i. eq_ignore_ascii_case (ri_domain i) e)"
    using eq by (auto simp: eq_ignore_ascii_case_def)
  then show "is_allowed (registry_authorize reg dir d) = is_allowed (registry_authorize reg dir' e)"
    by (simp add: registry_authorize_def identity_for_domain_def is_allowed_def split: option.split AuthzMode.split)
qed

lemma gateway_mode_label_parse: "gateway_mode_parse (gateway_mode_label m) = Some m"
  by (cases m) (simp_all add: gateway_mode_parse_def trim_def trim_end_while_def is_whitespace_def
      to_ascii_lowercase_def to_lower_char_def is_ascii_uppercase_def)

end
