(* ===== verification/Gateway_Quota.thy ===== *)
theory Gateway_Quota
  imports Gateway_Admission
begin

text \<open>
  Quotas (\<open>crates/pier-gateway/src/authz.rs\<close>, the quota ledger): the per-account limits, the usage
  behind the mutex, the charge of one message against both hard caps, and the charge followed by a
  meter event. The counters are 64-bit and saturate; a cap of zero is no cap.
\<close>

section \<open>Definitions\<close>

definition quota_new :: "u64 \<Rightarrow> u64 \<Rightarrow> u64 \<Rightarrow> u64 \<Rightarrow> Quota" where
  "quota_new free_messages hard_cap_messages free_bytes hard_cap_bytes =
     \<lparr> q_free_messages = free_messages, q_hard_cap_messages = hard_cap_messages,
       q_free_bytes = free_bytes, q_hard_cap_bytes = hard_cap_bytes \<rparr>"

definition quota_messages :: "u64 \<Rightarrow> u64 \<Rightarrow> Quota" where
  "quota_messages free_messages hard_cap_messages =
     \<lparr> q_free_messages = free_messages, q_hard_cap_messages = hard_cap_messages,
       q_free_bytes = 0, q_hard_cap_bytes = 0 \<rparr>"

record Usage =
  u_messages :: u64
  u_bytes :: u64

definition usage_default :: Usage where
  "usage_default = \<lparr> u_messages = 0, u_bytes = 0 \<rparr>"

definition over_free_allowance :: "Usage \<Rightarrow> Quota \<Rightarrow> bool" where
  "over_free_allowance u q =
     (u_messages u > q_free_messages q \<or> q_free_bytes q \<noteq> 0 \<and> u_bytes u > q_free_bytes q)"

datatype QuotaError =
    Unregistered string
  | MessageCapExceeded string u64
  | VolumeCapExceeded string u64

record QuotaLedger =
  ql_limits :: "(string \<times> Quota) list"
  ql_usage :: "(string \<times> Usage) list"

definition quota_ledger_new :: QuotaLedger where
  "quota_ledger_new = \<lparr> ql_limits = [], ql_usage = [] \<rparr>"

definition upsert_quota :: "QuotaLedger \<Rightarrow> string \<Rightarrow> Quota \<Rightarrow> QuotaLedger" where
  "upsert_quota l account quota = l\<lparr>ql_limits := al_insert account quota (ql_limits l)\<rparr>"

definition usage :: "QuotaLedger \<Rightarrow> string \<Rightarrow> Usage" where
  "usage l account = al_get_or usage_default (ql_usage l) account"

text \<open>\<open>entry(account).or_default()\<close> leaves a default entry behind on the refused branches too.\<close>

definition try_charge :: "QuotaLedger \<Rightarrow> string \<Rightarrow> u64 \<Rightarrow> (QuotaError + Usage) \<times> QuotaLedger" where
  "try_charge l account msg_bytes =
     (case map_of (ql_limits l) account of
        None \<Rightarrow> (Inl (Unregistered account), l)
      | Some quota \<Rightarrow>
          (let cur = usage l account;
               entered = l\<lparr>ql_usage := al_insert account cur (ql_usage l)\<rparr>;
               next_messages = saturating_add (u_messages cur) 1 in
           if q_hard_cap_messages quota \<noteq> 0 \<and> next_messages > q_hard_cap_messages quota
           then (Inl (MessageCapExceeded account (q_hard_cap_messages quota)), entered)
           else
             (let next_bytes = saturating_add (u_bytes cur) msg_bytes in
              if q_hard_cap_bytes quota \<noteq> 0 \<and> next_bytes > q_hard_cap_bytes quota
              then (Inl (VolumeCapExceeded account (q_hard_cap_bytes quota)), entered)
              else
                (let cur' = \<lparr> u_messages = next_messages, u_bytes = next_bytes \<rparr>
                 in (Inr cur', l\<lparr>ql_usage := al_insert account cur' (ql_usage l)\<rparr>)))))"

definition charge_and_meter ::
  "(bytes \<Rightarrow> bytes) \<Rightarrow> ('m \<Rightarrow> MeterEvent \<Rightarrow> 'm) \<Rightarrow> QuotaLedger \<Rightarrow> 'm \<Rightarrow> string \<Rightarrow> string \<Rightarrow> BridgeDirection \<Rightarrow> bytes \<Rightarrow> u64
     \<Rightarrow> (QuotaError + Usage) \<times> QuotaLedger \<times> 'm" where
  "charge_and_meter digest rec l meter account domain direction rfc5322_bytes at =
     (case try_charge l account (of_nat (length rfc5322_bytes)) of
        (Inl e, l') \<Rightarrow> (Inl e, l', meter)
      | (Inr u, l') \<Rightarrow>
          (Inr u, l', rec meter \<lparr> me_direction = direction, me_account = account, me_domain = domain,
                                  me_msg_digest = digest rfc5322_bytes, me_at = at \<rparr>))"

section \<open>Charging exactly\<close>

text \<open>What a charge may take an account to, on natural numbers.\<close>

definition within_caps :: "Quota \<Rightarrow> nat \<Rightarrow> nat \<Rightarrow> bool" where
  "within_caps q messages byts \<longleftrightarrow>
     (q_hard_cap_messages q = 0 \<or> messages \<le> unat (q_hard_cap_messages q))
   \<and> (q_hard_cap_bytes q = 0 \<or> byts \<le> unat (q_hard_cap_bytes q))"

abbreviation sat64 :: "nat \<Rightarrow> nat" where
  "sat64 n \<equiv> min n (2 ^ 64 - 1)"

lemma unat_sat64: "unat (saturating_add a b :: u64) = sat64 (unat a + unat b)"
  by (simp add: unat_saturating_add)

lemma try_charge_cases:
  obtains (unregistered) "map_of (ql_limits l) a = None" "try_charge l a n = (Inl (Unregistered a), l)"
  | (charged) q u where "map_of (ql_limits l) a = Some q"
      "try_charge l a n = (Inr u, l\<lparr>ql_usage := al_insert a u (ql_usage l)\<rparr>)"
      "u_messages u = saturating_add (u_messages (usage l a)) 1" "u_bytes u = saturating_add (u_bytes (usage l a)) n"
      "within_caps q (unat (u_messages u)) (unat (u_bytes u))"
  | (refused) q e where "map_of (ql_limits l) a = Some q"
      "try_charge l a n = (Inl e, l\<lparr>ql_usage := al_insert a (usage l a) (ql_usage l)\<rparr>)"
      "\<not> within_caps q (unat (saturating_add (u_messages (usage l a)) 1)) (unat (saturating_add (u_bytes (usage l a)) n))"
proof (cases "map_of (ql_limits l) a")
  case None
  then show thesis by (intro unregistered) (simp_all add: try_charge_def)
next
  case (Some q)
  let ?u = "\<lparr> u_messages = saturating_add (u_messages (usage l a)) 1, u_bytes = saturating_add (u_bytes (usage l a)) n \<rparr>"
  show thesis
  proof (cases "within_caps q (unat (u_messages ?u)) (unat (u_bytes ?u))")
    case True
    then have "try_charge l a n = (Inr ?u, l\<lparr>ql_usage := al_insert a ?u (ql_usage l)\<rparr>)"
      using Some by (auto simp: try_charge_def Let_def within_caps_def word_less_nat_alt)
    from charged [OF Some this] True show thesis by simp
  next
    case False
    then have "\<exists>e. try_charge l a n = (Inl e, l\<lparr>ql_usage := al_insert a (usage l a) (ql_usage l)\<rparr>)"
      using Some by (auto simp: try_charge_def Let_def within_caps_def word_less_nat_alt)
    with refused [OF Some] False show thesis by auto
  qed
qed

lemma usage_insert [simp]:
  "usage (l\<lparr>ql_usage := al_insert a u (ql_usage l)\<rparr>) b = (if b = a then u else usage l b)"
  by (simp add: usage_def)

section \<open>Runs of charges\<close>

fun charge_all :: "QuotaLedger \<Rightarrow> (string \<times> u64) list \<Rightarrow> (QuotaError + Usage) list \<times> QuotaLedger" where
  "charge_all l [] = ([], l)"
| "charge_all l ((a, n) # cs) =
     (let (r, l1) = try_charge l a n; (rs, l2) = charge_all l1 cs in (r # rs, l2))"

text \<open>The messages and the bytes that were accepted for an account.\<close>

definition accepted :: "string \<Rightarrow> (string \<times> u64) list \<Rightarrow> (QuotaError + Usage) list \<Rightarrow> u64 list" where
  "accepted a cs rs = map (\<lambda>((_, n), _). n) (filter (\<lambda>((b, _), r). b = a \<and> is_ok r) (zip cs rs))"

definition caps_inv :: "QuotaLedger \<Rightarrow> bool" where
  "caps_inv l \<longleftrightarrow> (\<forall>a q. map_of (ql_limits l) a = Some q \<longrightarrow>
     within_caps q (unat (u_messages (usage l a))) (unat (u_bytes (usage l a))))"

interpretation ql: invariant_machine "\<lambda>l (a, n). snd (try_charge l a n)" caps_inv
proof
  fix l and c :: "string \<times> u64" assume inv: "caps_inv l"
  obtain a n where c: "c = (a, n)" by fastforce
  show "caps_inv (case c of (a, n) \<Rightarrow> snd (try_charge l a n))"
    unfolding c using inv
    by (cases rule: try_charge_cases [of l a n]) (auto simp: caps_inv_def)
qed

lemma charge_all_foldl: "snd (charge_all l cs) = foldl (\<lambda>l (a, n). snd (try_charge l a n)) l cs"
proof (induction cs arbitrary: l)
  case (Cons c cs)
  then show ?case by (cases c) (simp add: case_prod_beta Let_def)
qed simp

lemma accepted_Cons:
  "accepted a ((b, n) # cs) (r # rs) = (if b = a \<and> is_ok r then [n] else []) @ accepted a cs rs"
  by (simp add: accepted_def)

lemma sat64_sat64: "sat64 (sat64 m + k) = sat64 (m + k)"
  by linarith

lemma charge_all_usage:
  assumes "charge_all l cs = (rs, l')"
  shows "unat (u_messages (usage l' a)) = sat64 (unat (u_messages (usage l a)) + length (accepted a cs rs))"
    and "unat (u_bytes (usage l' a)) = sat64 (unat (u_bytes (usage l a)) + (\<Sum>n\<leftarrow>accepted a cs rs. unat n))"
  using assms
proof (induction l cs arbitrary: rs l' rule: charge_all.induct)
  case (1 l)
  {
    case 1
    then show ?case using unat_lt_pow [of "u_messages (usage l a)"] by (auto simp: accepted_def)
  next
    case 2
    then show ?case using unat_lt_pow [of "u_bytes (usage l a)"] by (auto simp: accepted_def)
  }
next
  case (2 l b n cs)
  obtain r l1 where r: "try_charge l b n = (r, l1)" by fastforce
  obtain rs1 l2 where rs: "charge_all l1 cs = (rs1, l2)" by fastforce
  note IH = "2.IH" [OF r [symmetric] refl rs]
  have step: "unat (u_messages (usage l1 a)) = sat64 (unat (u_messages (usage l a)) + (if b = a \<and> is_ok r then 1 else 0))"
    "unat (u_bytes (usage l1 a)) = sat64 (unat (u_bytes (usage l a)) + (if b = a \<and> is_ok r then unat n else 0))"
    using r unat_lt_pow [of "u_messages (usage l a)"] unat_lt_pow [of "u_bytes (usage l a)"]
    by (cases rule: try_charge_cases [of l b n]; auto simp: unat_sat64)+
  {
    case 1
    with r rs IH(1) step(1) show ?case by (auto simp: accepted_Cons sat64_sat64)
  next
    case 2
    with r rs IH(2) step(2) show ?case by (auto simp: accepted_Cons sat64_sat64 add.assoc)
  }
qed

section \<open>Properties\<close>

text \<open>
  No account ever passes its hard caps: with the limits configured before any traffic, after
  any sequence of charges the counters of every account are within its non-zero caps, and they
  count exactly the accepted messages and their bytes (up to saturation at the 64-bit maximum);
  refused charges count nothing.
\<close>

lemma quota_caps_hold:
  assumes "ql_usage l = []" and "charge_all l cs = (rs, l')"
  shows "(\<forall>a q. map_of (ql_limits l') a = Some q \<longrightarrow>
            within_caps q (unat (u_messages (usage l' a))) (unat (u_bytes (usage l' a))))
     \<and> (\<forall>a. unat (u_messages (usage l' a)) = sat64 (length (accepted a cs rs)))
     \<and> (\<forall>a. unat (u_bytes (usage l' a)) = sat64 (\<Sum>n\<leftarrow>accepted a cs rs. unat n))"
proof -
  have zero: "usage l a = usage_default" for a using assms(1) by (simp add: usage_def)
  have "caps_inv l" by (simp add: caps_inv_def zero usage_default_def within_caps_def)
  then have "caps_inv l'" using ql.run_inv [of l cs] charge_all_foldl [of l cs] assms(2) by simp
  then show ?thesis using charge_all_usage [OF assms(2)] by (simp add: caps_inv_def zero usage_default_def)
qed

lemma quota_caps_hold_witness:
  "unat (u_messages (usage (snd (charge_all (upsert_quota quota_ledger_new ''a'' (quota_new 1 2 0 0))
      [(''a'', 5), (''b'', 6), (''a'', 7), (''a'', 8)])) ''a'')) \<le> 2"
proof -
  let ?l = "upsert_quota quota_ledger_new ''a'' (quota_new 1 2 0 0)"
  let ?r = "charge_all ?l [(''a'', 5), (''b'', 6), (''a'', 7), (''a'', 8)]"
  have "ql_usage ?l = []" by (simp add: upsert_quota_def quota_ledger_new_def)
  moreover have "?r = (fst ?r, snd ?r)" by simp
  ultimately have "\<forall>a q. map_of (ql_limits (snd ?r)) a = Some q \<longrightarrow>
      within_caps q (unat (u_messages (usage (snd ?r) a))) (unat (u_bytes (usage (snd ?r) a)))"
    using quota_caps_hold by blast
  moreover have "map_of (ql_limits (snd ?r)) ''a'' = Some (quota_new 1 2 0 0)"
    by (simp add: upsert_quota_def quota_ledger_new_def try_charge_def Let_def quota_new_def usage_def
        al_get_or_def usage_default_def saturating_add_def)
  ultimately show ?thesis by (fastforce simp: within_caps_def quota_new_def)
qed

text \<open>
  A message is metered exactly when it is charged: a charge that is accepted appends one meter
  event for the account and the digest of the message, and a charge that is refused records nothing
  and changes no account's usage.
\<close>

lemma charged_iff_metered:
  "let (r, l', m') = charge_and_meter digest counting_record l m account domain direction msg at in
     (if is_ok r
      then m' = m @ [\<lparr> me_direction = direction, me_account = account, me_domain = domain,
                       me_msg_digest = digest msg, me_at = at \<rparr>]
      else m' = m \<and> (\<forall>b. usage l' b = usage l b))
   \<and> (\<forall>b. b \<noteq> account \<longrightarrow> usage l' b = usage l b) \<and> ql_limits l' = ql_limits l"
  by (cases rule: try_charge_cases [of l account "of_nat (length msg)"])
    (simp_all add: charge_and_meter_def counting_record_def Let_def)

lemma charged_iff_metered_witness:
  "snd (snd (charge_and_meter id counting_record quota_ledger_new [] ''a'' ''d'' Outbound [1] 5)) = []"
  using charged_iff_metered [of id quota_ledger_new "[]" "''a''" "''d''" Outbound "[1]" 5]
  by (simp add: charge_and_meter_def try_charge_def quota_ledger_new_def)

end
