(* ===== verification/Gateway_ForwardedAddr.thy ===== *)
theory Gateway_ForwardedAddr
  imports Prelude
begin

text \<open>
  Forwarded addresses (\<open>crates/pier-gateway/src/forwarded_addr.rs\<close>): a native address
  \<open>local@domain\<close> written as one local part of the gateway's domain, with \<open>-\<close> and \<open>.\<close> escaped
  inside the two components and a single bare \<open>.\<close> between them, and its decoder.
\<close>

section \<open>Definitions\<close>

datatype ForwardedAddrError = InvalidLocal string | InvalidDomain string | TooLong nat

definition MAX_LOCALPART_LEN :: nat where "MAX_LOCALPART_LEN = 64"

text \<open>
  \<open>push(b as char)\<close> writes the code point of the byte in UTF-8: one byte below 128, two from there.
\<close>

definition byte_as_char :: "char \<Rightarrow> string" where
  "byte_as_char c =
     (let n = (of_char c :: nat) in
      if n < 128 then [c] else [char_of (192 + n div 64), char_of (128 + n mod 64)])"

fun escape_into :: "string \<Rightarrow> string \<Rightarrow> string" where
  "escape_into [] out = out"
| "escape_into (b # s) out =
     (if b = CHR ''-'' then escape_into s (out @ ''--'')
      else if b = CHR ''.'' then escape_into s (out @ ''-.'')
      else escape_into s (out @ byte_as_char b))"

fun unescape_loop :: "string \<Rightarrow> string \<Rightarrow> string option" where
  "unescape_loop out [] = Some out"
| "unescape_loop out (b # s) =
     (if b = CHR ''-''
      then (case s of
              c # s' \<Rightarrow> if c = CHR ''-'' then unescape_loop (out @ ''-'') s'
                       else if c = CHR ''.'' then unescape_loop (out @ ''.'') s'
                       else None
            | [] \<Rightarrow> None)
      else if b = CHR ''.'' then None
      else unescape_loop (out @ byte_as_char b) s)"

definition unescape_component :: "string \<Rightarrow> string option" where
  "unescape_component s = unescape_loop [] s"

fun contains_str :: "string \<Rightarrow> string \<Rightarrow> bool" where
  "contains_str p [] = (p = [])"
| "contains_str p (c # s) = (starts_with p (c # s) \<or> contains_str p s)"

definition is_valid_local :: "string \<Rightarrow> bool" where
  "is_valid_local lp =
     (if lp = [] \<or> length lp > MAX_LOCALPART_LEN \<or> hd lp = CHR ''.'' \<or> last lp = CHR ''.''
         \<or> contains_str ''..'' lp
      then False
      else list_all (\<lambda>c. is_ascii_alphanumeric c \<or> c \<in> set ''.-_+'') lp)"

definition is_valid_label :: "string \<Rightarrow> bool" where
  "is_valid_label label =
     (if label = [] \<or> length label > 63 then False
      else if hd label = CHR ''-'' \<or> last label = CHR ''-'' then False
      else list_all (\<lambda>c. is_ascii_alphanumeric c \<or> c = CHR ''-'') label)"

definition is_valid_domain :: "string \<Rightarrow> bool" where
  "is_valid_domain domain =
     (if domain = [] \<or> length domain > 253 then False
      else (let labels = split_on CHR ''.'' domain
            in list_all is_valid_label labels \<and> length labels \<ge> 1))"

definition encode :: "string \<Rightarrow> string \<Rightarrow> ForwardedAddrError + string" where
  "encode local0 native_domain0 =
     (let loc = to_ascii_lowercase local0; native_domain = to_ascii_lowercase native_domain0 in
      if \<not> is_valid_local loc then Inl (InvalidLocal loc)
      else if \<not> is_valid_domain native_domain then Inl (InvalidDomain native_domain)
      else (let out = escape_into native_domain (escape_into loc [] @ ''.'')
            in if length out > MAX_LOCALPART_LEN then Inl (TooLong (length out)) else Inr out))"

text \<open>The first loop of the decoder: the local part up to the first bare dot, and the rest.\<close>

fun scan_local :: "string \<Rightarrow> string \<Rightarrow> (string \<times> string) option" where
  "scan_local loc [] = None"
| "scan_local loc (b # s) =
     (if b = CHR ''-''
      then (case s of
              c # s' \<Rightarrow> if c = CHR ''-'' then scan_local (loc @ ''-'') s'
                       else if c = CHR ''.'' then scan_local (loc @ ''.'') s'
                       else None
            | [] \<Rightarrow> None)
      else if b = CHR ''.'' then Some (loc, s)
      else scan_local (loc @ byte_as_char b) s)"

definition decode :: "string \<Rightarrow> (string \<times> string) option" where
  "decode gateway_localpart =
     (let s = to_ascii_lowercase gateway_localpart in
      case scan_local [] s of
        None \<Rightarrow> None
      | Some (loc, rest) \<Rightarrow>
          (case unescape_component rest of
             None \<Rightarrow> None
           | Some native_domain \<Rightarrow>
               if \<not> is_valid_local loc \<or> \<not> is_valid_domain native_domain then None
               else (case encode loc native_domain of
                       Inr canonical \<Rightarrow> if canonical = s then Some (loc, native_domain) else None
                     | Inl _ \<Rightarrow> None)))"

section \<open>Lemmas\<close>

lemma to_lower_char_idem [simp]: "to_lower_char (to_lower_char c) = to_lower_char c"
  by (auto simp: to_lower_char_def is_ascii_uppercase_def)

lemma to_ascii_lowercase_idem [simp]: "to_ascii_lowercase (to_ascii_lowercase s) = to_ascii_lowercase s"
  by (simp add: to_ascii_lowercase_def)

abbreviation ascii_only :: "string \<Rightarrow> bool" where
  "ascii_only s \<equiv> list_all (\<lambda>c. (of_char c :: nat) < 128) s"

lemma escape_into_acc: "escape_into s out = out @ escape_into s []"
proof (induction s arbitrary: out)
  case (Cons b s)
  show ?case
    by (simp add: Cons.IH [of "out @ _"] Cons.IH [of "byte_as_char b"] Cons.IH [of "''--''"] Cons.IH [of "''-.''"])
qed simp

lemma unescape_escape: "ascii_only s \<Longrightarrow> unescape_loop out (escape_into s []) = Some (out @ s)"
proof (induction s arbitrary: out)
  case (Cons b s)
  then show ?case
    by (auto simp: escape_into_acc [of s "_ # _"] byte_as_char_def)
qed simp

lemma scan_escape: "ascii_only s \<Longrightarrow> scan_local loc (escape_into s [] @ CHR ''.'' # r) = Some (loc @ s, r)"
proof (induction s arbitrary: loc)
  case (Cons b s)
  then show ?case
    by (auto simp: escape_into_acc [of s "_ # _"] byte_as_char_def)
qed simp

lemma is_ascii_alphanumeric_ascii: "is_ascii_alphanumeric c \<Longrightarrow> (of_char c :: nat) < 128"
  by (auto simp: is_ascii_alphanumeric_def is_ascii_uppercase_def is_ascii_lowercase_def is_ascii_digit_def)

lemma is_valid_local_ascii: "is_valid_local s \<Longrightarrow> ascii_only s"
  by (auto simp: is_valid_local_def list_all_iff split: if_splits dest: is_ascii_alphanumeric_ascii)

lemma set_split_on: "x \<in> set s \<Longrightarrow> x = c \<or> (\<exists>p \<in> set (split_on c s). x \<in> set p)"
  by (induction s) (auto split: list.splits)

lemma is_valid_domain_ascii: "is_valid_domain s \<Longrightarrow> ascii_only s"
  using set_split_on [of _ s "CHR ''.''"]
  by (fastforce simp: is_valid_domain_def is_valid_label_def list_all_iff Let_def split: if_splits
      dest: is_ascii_alphanumeric_ascii)

lemma decode_encode:
  assumes "encode l d = Inr (to_ascii_lowercase g)"
  shows "decode g = Some (to_ascii_lowercase l, to_ascii_lowercase d)"
proof -
  let ?l = "to_ascii_lowercase l" and ?d = "to_ascii_lowercase d"
  have l: "is_valid_local ?l" and d: "is_valid_domain ?d"
    and g: "to_ascii_lowercase g = escape_into ?l [] @ CHR ''.'' # escape_into ?d []"
    using assms by (auto simp: encode_def Let_def escape_into_acc [of ?d "_ @ _"] split: if_splits)
  have "encode ?l ?d = encode l d" by (simp add: encode_def)
  with assms g l d show ?thesis
    by (simp add: decode_def g scan_escape is_valid_local_ascii unescape_component_def unescape_escape
        is_valid_domain_ascii)
qed

lemma decode_canonical: "decode g = Some (l, d) \<Longrightarrow> encode l d = Inr (to_ascii_lowercase g)"
  by (auto simp: decode_def Let_def split: option.splits prod.splits sum.splits if_splits)

lemma scan_local_no_dot: "CHR ''.'' \<notin> set s \<Longrightarrow> scan_local loc s = None"
proof (induction loc s rule: scan_local.induct)
  case (2 loc b s)
  then show ?case by (cases s) auto
qed simp

lemma decode_no_dot: "CHR ''.'' \<notin> set s \<Longrightarrow> to_ascii_lowercase s = s \<Longrightarrow> decode s = None"
  by (simp add: decode_def scan_local_no_dot)

text \<open>
  The forwarded-address codec is exact: a gateway local part decodes to a pair if and only if
  the pair is in lower case and its encoding is that local part, up to the case of the letters.
  Every encoding therefore decodes to the address it was made from, two addresses never share an
  encoding, and nothing decodes that the encoder does not produce.
\<close>

lemma forwarded_addr_exact:
  "decode g = Some (l, d)
     \<longleftrightarrow> encode l d = Inr (to_ascii_lowercase g) \<and> to_ascii_lowercase l = l \<and> to_ascii_lowercase d = d"
proof
  assume dec: "decode g = Some (l, d)"
  then have "encode l d = Inr (to_ascii_lowercase g)" by (rule decode_canonical)
  with decode_encode [OF this] dec
  show "encode l d = Inr (to_ascii_lowercase g) \<and> to_ascii_lowercase l = l \<and> to_ascii_lowercase d = d" by simp
next
  assume "encode l d = Inr (to_ascii_lowercase g) \<and> to_ascii_lowercase l = l \<and> to_ascii_lowercase d = d"
  then show "decode g = Some (l, d)" using decode_encode [of l d g] by simp
qed

text \<open>An encoding is itself in lower case and fits a local part.\<close>

lemma escape_lower:
  "ascii_only s \<Longrightarrow> to_ascii_lowercase s = s \<Longrightarrow> to_ascii_lowercase (escape_into s []) = escape_into s []"
proof (induction s)
  case (Cons b s)
  have "to_lower_char (CHR ''-'') = CHR ''-''" "to_lower_char (CHR ''.'') = CHR ''.''"
    by (simp_all add: to_lower_char_def is_ascii_uppercase_def)
  with Cons show ?case
    by (auto simp: escape_into_acc [of s "_ # _"] byte_as_char_def to_ascii_lowercase_def)
qed simp

lemma encode_lower: "encode l d = Inr e \<Longrightarrow> to_ascii_lowercase e = e \<and> length e \<le> 64"
proof -
  assume e: "encode l d = Inr e"
  let ?l = "to_ascii_lowercase l" and ?d = "to_ascii_lowercase d"
  have l: "is_valid_local ?l" and d: "is_valid_domain ?d" and len: "length e \<le> 64"
    and g: "e = escape_into ?l [] @ CHR ''.'' # escape_into ?d []"
    using e by (auto simp: encode_def Let_def escape_into_acc [of ?d "_ @ _"] MAX_LOCALPART_LEN_def split: if_splits)
  have "to_ascii_lowercase (escape_into ?l []) = escape_into ?l []"
    "to_ascii_lowercase (escape_into ?d []) = escape_into ?d []"
    by (simp_all add: escape_lower is_valid_local_ascii [OF l] is_valid_domain_ascii [OF d])
  then have "to_ascii_lowercase e = e"
    unfolding g by (simp add: to_ascii_lowercase_def to_lower_char_def is_ascii_uppercase_def)
  with len show ?thesis by simp
qed

text \<open>
  Forwarded-address round trip: whenever an address encodes, the encoding fits the 64 octets
  of a local part and decodes to the address in lower case; so two addresses with the same
  encoding differ at most in case.
\<close>

lemma forwarded_addr_roundtrip:
  assumes "encode l d = Inr e"
  shows "length e \<le> 64 \<and> decode e = Some (to_ascii_lowercase l, to_ascii_lowercase d)
     \<and> (\<forall>l' d'. encode l' d' = Inr e \<longrightarrow> eq_ignore_ascii_case l l' \<and> eq_ignore_ascii_case d d')"
proof -
  have e: "to_ascii_lowercase e = e" "length e \<le> 64" using encode_lower [OF assms] by simp_all
  have dec: "decode e = Some (to_ascii_lowercase l', to_ascii_lowercase d')" if "encode l' d' = Inr e" for l' d'
    using decode_encode [of l' d' e] that e by simp
  show ?thesis using e(2) dec [OF assms] dec by (auto simp: eq_ignore_ascii_case_def)
qed

lemma forwarded_addr_roundtrip_witness:
  "encode ''Jo.Do'' ''ex-a.org'' = Inr ''jo-.do.ex--a-.org'' \<and> decode ''jo-.do.ex--a-.org'' = Some (''jo.do'', ''ex-a.org'')"
proof -
  have e: "encode ''Jo.Do'' ''ex-a.org'' = Inr ''jo-.do.ex--a-.org''"
    by (simp add: encode_def Let_def to_ascii_lowercase_def to_lower_char_def is_ascii_uppercase_def is_valid_local_def
        is_valid_domain_def is_valid_label_def MAX_LOCALPART_LEN_def is_ascii_alphanumeric_def
        is_ascii_lowercase_def is_ascii_digit_def starts_with_def byte_as_char_def char_of_eq_iff)
  with forwarded_addr_roundtrip [OF e] show ?thesis
    by (simp add: to_ascii_lowercase_def to_lower_char_def is_ascii_uppercase_def char_of_eq_iff)
qed

end
