(* ===== verification/Gateway_Vanity.thy ===== *)
theory Gateway_Vanity
  imports Gateway_Admission Gateway_ForwardedAddr
begin

text \<open>
  Local-part allocation (\<open>crates/pier-gateway/src/authz.rs\<close>, the alias allocator): vanity names and
  key-derived names under the gateway's domain, the reserved names of the directory, allocation,
  release and resolution. \<open>digest\<close> is the digest of a public key, from \<open>kotva-core\<close>.
\<close>

section \<open>Definitions\<close>

definition key_derived_localpart :: "(bytes \<Rightarrow> bytes) \<Rightarrow> bytes \<Rightarrow> string" where
  "key_derived_localpart digest public_key = ''k'' @ base32_lower (take 10 (digest public_key))"

definition RESERVED_ALIAS_PREFIX :: string where "RESERVED_ALIAS_PREFIX = ''dmtap1-''"

definition MAX_VANITY_LEN :: nat where "MAX_VANITY_LEN = 64"

datatype AliasError =
    InvalidLocalPart string
  | ContainsDot string
  | Taken string
  | ReservedCollision string
  | ShadowsDirectoryIdentity string
  | InvalidGatewayDomain string

record AliasAllocator =
  aa_domain :: string
  aa_vanity :: "(string \<times> bytes) list"
  aa_reverse :: "(bytes \<times> string) list"
  aa_reserved :: "string list"

definition is_key_derived_form :: "string \<Rightarrow> bool" where
  "is_key_derived_form lp =
     (case strip_prefix ''k'' lp of
        None \<Rightarrow> False
      | Some rest \<Rightarrow> length rest = 16 \<and> list_all (\<lambda>c. c \<in> set BASE32_LOWER) rest)"

definition is_valid_vanity_charset :: "string \<Rightarrow> bool" where
  "is_valid_vanity_charset lp =
     (if lp = [] \<or> length lp > MAX_VANITY_LEN then False
      else list_all (\<lambda>c. is_ascii_alphanumeric c \<or> c \<in> set ''-_+'') lp)"

definition is_valid_dns_label :: "string \<Rightarrow> bool" where
  "is_valid_dns_label label =
     (if label = [] \<or> length label > 63 then False
      else if hd label = CHR ''-'' \<or> last label = CHR ''-'' then False
      else list_all (\<lambda>c. is_ascii_alphanumeric c \<or> c = CHR ''-'') label)"

definition is_valid_dns_domain :: "string \<Rightarrow> bool" where
  "is_valid_dns_domain domain =
     (if domain = [] \<or> length domain > 253 then False
      else (let labels = split_on CHR ''.'' domain
            in list_all is_valid_dns_label labels \<and> length labels \<ge> 1))"

definition for_domain :: "string \<Rightarrow> AliasError + AliasAllocator" where
  "for_domain raw =
     (let d = to_ascii_lowercase (trim raw) in
      if \<not> is_valid_dns_domain d then Inl (InvalidGatewayDomain raw)
      else Inr \<lparr> aa_domain = d, aa_vanity = [], aa_reverse = [], aa_reserved = [] \<rparr>)"

definition reserve_localpart :: "AliasAllocator \<Rightarrow> string \<Rightarrow> AliasAllocator" where
  "reserve_localpart al local_part =
     (let lp = to_ascii_lowercase (trim local_part) in
      al\<lparr>aa_vanity := al_remove lp (aa_vanity al),
         aa_reverse := filter (\<lambda>(_, v). v \<noteq> lp) (aa_reverse al),
         aa_reserved := List.insert lp (aa_reserved al)\<rparr>)"

definition reserve_directory_address :: "AliasAllocator \<Rightarrow> string \<Rightarrow> bool \<times> AliasAllocator" where
  "reserve_directory_address al email =
     (case rsplit_once CHR ''@'' email of
        Some (lp, d) \<Rightarrow>
          if eq_ignore_ascii_case (trim d) (aa_domain al) then (True, reserve_localpart al lp) else (False, al)
      | None \<Rightarrow> (False, al))"

definition qualify :: "AliasAllocator \<Rightarrow> string \<Rightarrow> string" where
  "qualify al local_part = local_part @ ''@'' @ aa_domain al"

definition check_vanity :: "AliasAllocator \<Rightarrow> string \<Rightarrow> AliasError + string" where
  "check_vanity al local_part =
     (if CHR ''.'' \<in> set local_part then Inl (ContainsDot local_part)
      else (let lp = to_ascii_lowercase local_part in
        if \<not> is_valid_vanity_charset lp then Inl (InvalidLocalPart local_part)
        else if starts_with RESERVED_ALIAS_PREFIX lp \<or> is_key_derived_form lp then Inl (ReservedCollision local_part)
        else if lp \<in> set (aa_reserved al) then Inl (ShadowsDirectoryIdentity local_part)
        else Inr lp))"

text \<open>\<open>reverse.iter().position(|(k, _)| k == key)\<close> followed by \<open>reverse.remove(pos)\<close>.\<close>

fun remove_key :: "bytes \<Rightarrow> (bytes \<times> string) list \<Rightarrow> (string \<times> (bytes \<times> string) list) option" where
  "remove_key key [] = None"
| "remove_key key ((k, lp) # r) =
     (if k = key then Some (lp, r) else map_option (\<lambda>(old, r'). (old, (k, lp) # r')) (remove_key key r))"

definition allocate_vanity :: "AliasAllocator \<Rightarrow> bytes \<Rightarrow> string \<Rightarrow> (AliasError + string) \<times> AliasAllocator" where
  "allocate_vanity al public_key local_part =
     (case check_vanity al local_part of
        Inl e \<Rightarrow> (Inl e, al)
      | Inr lp \<Rightarrow>
          (case map_of (aa_vanity al) lp of
             Some existing \<Rightarrow>
               if existing = public_key then (Inr (qualify al lp), al) else (Inl (Taken local_part), al)
           | None \<Rightarrow>
               (let (vanity, reverse) =
                  (case remove_key public_key (aa_reverse al) of
                     Some (old, reverse) \<Rightarrow> (al_remove old (aa_vanity al), reverse)
                   | None \<Rightarrow> (aa_vanity al, aa_reverse al));
                  al' = al\<lparr>aa_vanity := al_insert lp public_key vanity, aa_reverse := reverse @ [(public_key, lp)]\<rparr>
                in (Inr (qualify al' lp), al'))))"

definition release_vanity :: "AliasAllocator \<Rightarrow> bytes \<Rightarrow> string option \<times> AliasAllocator" where
  "release_vanity al public_key =
     (case remove_key public_key (aa_reverse al) of
        None \<Rightarrow> (None, al)
      | Some (lp, reverse) \<Rightarrow>
          (let al' = al\<lparr>aa_vanity := al_remove lp (aa_vanity al), aa_reverse := reverse\<rparr>
           in (Some (qualify al' lp), al')))"

definition alias_for :: "(bytes \<Rightarrow> bytes) \<Rightarrow> AliasAllocator \<Rightarrow> bytes \<Rightarrow> string" where
  "alias_for digest al public_key =
     qualify al (case List.find (\<lambda>(k, _). k = public_key) (aa_reverse al) of
                   Some (_, lp) \<Rightarrow> lp
                 | None \<Rightarrow> key_derived_localpart digest public_key)"

definition resolve :: "(bytes \<Rightarrow> bytes) \<Rightarrow> AliasAllocator \<Rightarrow> string \<Rightarrow> bytes list \<Rightarrow> bytes option" where
  "resolve digest al address registered_keys =
     (let addr = to_ascii_lowercase (trim address) in
      case rsplit_once CHR ''@'' addr of
        None \<Rightarrow> None
      | Some (lp, d) \<Rightarrow>
          if d \<noteq> aa_domain al then None
          else (case map_of (aa_vanity al) lp of
                  Some k \<Rightarrow> Some k
                | None \<Rightarrow> List.find (\<lambda>k. key_derived_localpart digest k = lp) registered_keys))"

section \<open>The invariant\<close>

definition vanity_ok :: "string \<Rightarrow> bool" where
  "vanity_ok lp \<longleftrightarrow> is_valid_vanity_charset lp \<and> to_ascii_lowercase lp = lp
     \<and> \<not> starts_with RESERVED_ALIAS_PREFIX lp \<and> \<not> is_key_derived_form lp"

definition alloc_inv :: "AliasAllocator \<Rightarrow> bool" where
  "alloc_inv al \<longleftrightarrow>
     is_valid_dns_domain (aa_domain al) \<and> to_ascii_lowercase (aa_domain al) = aa_domain al
   \<and> distinct (map fst (aa_reverse al)) \<and> distinct (map snd (aa_reverse al))
   \<and> (\<forall>lp k. map_of (aa_vanity al) lp = Some k \<longleftrightarrow> (k, lp) \<in> set (aa_reverse al))
   \<and> (\<forall>lp \<in> snd ` set (aa_reverse al). vanity_ok lp \<and> lp \<notin> set (aa_reserved al))"

datatype alloc_cmd =
    AllocateVanity bytes string
  | ReleaseVanity bytes
  | ReserveLocalpart string
  | ReserveDirectoryAddress string

fun alloc_step :: "AliasAllocator \<Rightarrow> alloc_cmd \<Rightarrow> AliasAllocator" where
  "alloc_step al (AllocateVanity key lp) = snd (allocate_vanity al key lp)"
| "alloc_step al (ReleaseVanity key) = snd (release_vanity al key)"
| "alloc_step al (ReserveLocalpart lp) = reserve_localpart al lp"
| "alloc_step al (ReserveDirectoryAddress email) = snd (reserve_directory_address al email)"

lemma remove_key_None: "remove_key key r = None \<longleftrightarrow> key \<notin> fst ` set r"
  by (induction key r rule: remove_key.induct) (auto split: if_splits)

lemma remove_key_Some:
  "remove_key key r = Some (old, r') \<Longrightarrow> distinct (map fst r) \<Longrightarrow>
     (key, old) \<in> set r \<and> r' = filter (\<lambda>(k, _). k \<noteq> key) r"
proof (induction key r arbitrary: r' rule: remove_key.induct)
  case (2 key k lp r)
  have "filter (\<lambda>(x, _). x \<noteq> key) r = r" if "key \<notin> fst ` set r"
    using that by (force simp: filter_id_conv)
  with 2 show ?case by (auto split: if_splits)
qed simp

lemma check_vanity_ok: "check_vanity al s = Inr lp \<Longrightarrow> vanity_ok lp \<and> lp \<notin> set (aa_reserved al)"
  by (auto simp: check_vanity_def vanity_ok_def Let_def split: if_splits)

lemma reserve_localpart_inv: "alloc_inv al \<Longrightarrow> alloc_inv (reserve_localpart al lp)"
  unfolding alloc_inv_def reserve_localpart_def Let_def
  by (auto simp: distinct_map_filter)

text \<open>Dropping the name of one key keeps the two maps inverse to each other.\<close>

lemma drop_key_inv:
  assumes inv: "alloc_inv al" and rm: "remove_key key (aa_reverse al) = Some (old, r)"
  shows "alloc_inv (al\<lparr>aa_vanity := al_remove old (aa_vanity al), aa_reverse := r\<rparr>) \<and> key \<notin> fst ` set r"
proof -
  have r: "(key, old) \<in> set (aa_reverse al)" "r = filter (\<lambda>(k, _). k \<noteq> key) (aa_reverse al)"
    using remove_key_Some [OF rm] inv by (auto simp: alloc_inv_def)
  have uniq: "lp = old \<longleftrightarrow> k = key" if "(k, lp) \<in> set (aa_reverse al)" for k lp
    using that r(1) inv unfolding alloc_inv_def
    by (metis eq_key_imp_eq_value distinct_map inj_onD fst_conv snd_conv)
  show ?thesis using inv uniq unfolding r alloc_inv_def
    by (auto simp: distinct_map_filter)
qed

lemma add_key_inv:
  assumes "alloc_inv al" "vanity_ok lp" "lp \<notin> set (aa_reserved al)" "map_of (aa_vanity al) lp = None"
    "key \<notin> fst ` set (aa_reverse al)"
  shows "alloc_inv (al\<lparr>aa_vanity := al_insert lp key (aa_vanity al), aa_reverse := aa_reverse al @ [(key, lp)]\<rparr>)"
proof -
  have new: "(k, lp) \<notin> set (aa_reverse al)" for k
    using assms(1,4) unfolding alloc_inv_def by (metis option.distinct(1))
  then have "lp \<notin> snd ` set (aa_reverse al)" by force
  with assms new show ?thesis unfolding alloc_inv_def by auto
qed

interpretation va: invariant_machine alloc_step alloc_inv
proof
  fix al c assume inv: "alloc_inv al"
  show "alloc_inv (alloc_step al c)"
  proof (cases c)
    case (AllocateVanity key s)
    show ?thesis
    proof (cases "check_vanity al s")
      case (Inr lp)
      note ok = check_vanity_ok [OF Inr]
      show ?thesis
      proof (cases "map_of (aa_vanity al) lp")
        case None
        show ?thesis
        proof (cases "remove_key key (aa_reverse al)")
          case new: None
          then have "key \<notin> fst ` set (aa_reverse al)" by (simp add: remove_key_None)
          with add_key_inv [OF inv _ _ None, of key] ok AllocateVanity Inr None new show ?thesis
            by (simp add: allocate_vanity_def Let_def)
        next
          case (Some p)
          obtain old r where p: "p = (old, r)" by fastforce
          note d = drop_key_inv [OF inv Some [unfolded p]]
          then show ?thesis using add_key_inv [OF d [THEN conjunct1], of lp key] ok AllocateVanity Inr None Some p
            by (simp add: allocate_vanity_def Let_def)
        qed
      qed (use inv AllocateVanity Inr in \<open>simp add: allocate_vanity_def\<close>)
    qed (use inv AllocateVanity in \<open>simp add: allocate_vanity_def\<close>)
  next
    case (ReleaseVanity key)
    then show ?thesis using inv drop_key_inv [OF inv, of key]
      by (auto simp: release_vanity_def Let_def split: option.splits)
  next
    case (ReserveLocalpart lp)
    then show ?thesis using reserve_localpart_inv [OF inv] by simp
  next
    case (ReserveDirectoryAddress email)
    then show ?thesis using inv reserve_localpart_inv [OF inv]
      by (auto simp: reserve_directory_address_def split: option.split)
  qed
qed

section \<open>Reading a qualified alias\<close>

text \<open>Characters that survive trimming, case folding and the split at the at sign.\<close>

definition addr_char :: "char \<Rightarrow> bool" where
  "addr_char c \<longleftrightarrow> \<not> is_whitespace c \<and> c \<noteq> CHR ''@''"

lemma alnum_addr_char: "is_ascii_alphanumeric c \<Longrightarrow> addr_char c"
  by (auto simp: addr_char_def is_ascii_alphanumeric_def is_ascii_uppercase_def is_ascii_lowercase_def
      is_ascii_digit_def is_whitespace_def)

lemma vanity_addr_chars: "is_valid_vanity_charset lp \<Longrightarrow> list_all addr_char lp"
proof -
  assume "is_valid_vanity_charset lp"
  then have "list_all (\<lambda>c. is_ascii_alphanumeric c \<or> c \<in> set ''-_+'') lp"
    by (simp add: is_valid_vanity_charset_def split: if_splits)
  moreover have "list_all addr_char ''-_+''" by (simp add: addr_char_def is_whitespace_def)
  then have "is_ascii_alphanumeric c \<or> c \<in> set ''-_+'' \<Longrightarrow> addr_char c" for c
    unfolding list_all_iff using alnum_addr_char by blast
  ultimately show "list_all addr_char lp" by (rule list.pred_mono_strong)
qed

lemma domain_addr_chars: "is_valid_dns_domain d \<Longrightarrow> list_all addr_char d"
proof -
  have "addr_char (CHR ''-'')" "addr_char (CHR ''.'')" by (simp_all add: addr_char_def is_whitespace_def)
  then show "is_valid_dns_domain d \<Longrightarrow> list_all addr_char d"
    using set_split_on [of _ d "CHR ''.''"]
    by (fastforce simp: is_valid_dns_domain_def is_valid_dns_label_def list_all_iff Let_def alnum_addr_char
        split: if_splits)
qed

lemma base32_addr_chars: "list_all addr_char (base32_lower xs)" "to_ascii_lowercase (base32_lower xs) = base32_lower xs"
proof -
  have "list_all (\<lambda>c. addr_char c \<and> to_lower_char c = c) BASE32_LOWER"
    by (simp add: BASE32_LOWER_def addr_char_def is_whitespace_def to_lower_char_def is_ascii_uppercase_def)
  then show "list_all addr_char (base32_lower xs)" "to_ascii_lowercase (base32_lower xs) = base32_lower xs"
    using set_base32_lower [of xs] by (auto simp: list_all_iff to_ascii_lowercase_def intro!: map_idI)
qed

lemma dropWhile_none: "list_all (\<lambda>c. \<not> P c) s \<Longrightarrow> dropWhile P s = s"
  by (cases s) auto

lemma trim_id: "list_all (\<lambda>c. \<not> is_whitespace c) s \<Longrightarrow> trim s = s"
  by (simp add: trim_def trim_end_while_def dropWhile_none list_all_rev)

lemma split_once_append: "c \<notin> set a \<Longrightarrow> split_once c (a @ c # b) = Some (a, b)"
  by (induction a) auto

lemma rsplit_once_append: "c \<notin> set b \<Longrightarrow> rsplit_once c (a @ c # b) = Some (a, b)"
  by (simp add: rsplit_once_def split_once_append)

lemma read_qualified:
  assumes inv: "alloc_inv al" and lp: "list_all addr_char lp" "to_ascii_lowercase lp = lp"
  shows "rsplit_once CHR ''@'' (to_ascii_lowercase (trim (qualify al lp))) = Some (lp, aa_domain al)"
proof -
  have d: "list_all addr_char (aa_domain al)" "to_ascii_lowercase (aa_domain al) = aa_domain al"
    using inv domain_addr_chars by (auto simp: alloc_inv_def)
  have "list_all (\<lambda>c. \<not> is_whitespace c) (qualify al lp)"
    using lp(1) d(1) by (auto simp: qualify_def addr_char_def list_all_iff is_whitespace_def)
  then have "trim (qualify al lp) = qualify al lp" by (rule trim_id)
  moreover have "to_ascii_lowercase (qualify al lp) = lp @ CHR ''@'' # aa_domain al"
    using lp(2) d(2) by (simp add: qualify_def to_ascii_lowercase_def to_lower_char_def is_ascii_uppercase_def)
  moreover have "CHR ''@'' \<notin> set (aa_domain al)" using d(1) by (auto simp: addr_char_def list_all_iff)
  ultimately show ?thesis by (simp add: rsplit_once_append)
qed

lemma resolve_qualified:
  assumes "alloc_inv al" "list_all addr_char lp" "to_ascii_lowercase lp = lp"
  shows "resolve digest al (qualify al lp) regs =
     (case map_of (aa_vanity al) lp of
        Some k \<Rightarrow> Some k | None \<Rightarrow> List.find (\<lambda>k. key_derived_localpart digest k = lp) regs)"
  by (simp add: resolve_def read_qualified [OF assms])

lemma key_derived_form:
  assumes "10 \<le> length (digest k)"
  shows "is_key_derived_form (key_derived_localpart digest k)"
proof -
  have "length (base32_lower (take 10 (digest k))) = 16"
    using assms by (simp add: length_base32_lower)
  then show ?thesis using set_base32_lower [of "take 10 (digest k)"]
    by (auto simp: is_key_derived_form_def key_derived_localpart_def strip_prefix_def starts_with_def list_all_iff)
qed

lemma key_derived_chars:
  "list_all addr_char (key_derived_localpart digest k)"
  "to_ascii_lowercase (key_derived_localpart digest k) = key_derived_localpart digest k"
  using base32_addr_chars [of "take 10 (digest k)"]
  by (simp_all add: key_derived_localpart_def to_ascii_lowercase_def addr_char_def is_whitespace_def
      to_lower_char_def is_ascii_uppercase_def)

lemma key_derived_not_vanity:
  assumes "alloc_inv al" "10 \<le> length (digest k)"
  shows "map_of (aa_vanity al) (key_derived_localpart digest k) = None"
proof (rule ccontr)
  assume "map_of (aa_vanity al) (key_derived_localpart digest k) \<noteq> None"
  then obtain k' where "(k', key_derived_localpart digest k) \<in> set (aa_reverse al)"
    using assms(1) by (auto simp: alloc_inv_def)
  then have "vanity_ok (key_derived_localpart digest k)" using assms(1) by (force simp: alloc_inv_def)
  then show False using key_derived_form [where digest = digest and k = k, OF assms(2)] by (simp add: vanity_ok_def)
qed

section \<open>Properties\<close>

text \<open>
  Aliases resolve to the key they stand for: in every state reached from a fresh allocator by
  allocations, releases and reservations, the alias shown for a key resolves back to that key, if
  the key has a vanity name, or if it is registered and no other registered key shares its
  key-derived name.
\<close>

lemma alias_for_resolves:
  assumes "for_domain d = Inr al0" and "al = foldl alloc_step al0 cs"
    and "10 \<le> length (digest key)"
    and "key \<in> fst ` set (aa_reverse al)
       \<or> key \<in> set regs \<and> (\<forall>k \<in> set regs. key_derived_localpart digest k = key_derived_localpart digest key \<longrightarrow> k = key)"
  shows "resolve digest al (alias_for digest al key) regs = Some key"
proof -
  have "alloc_inv al0"
    using assms(1) by (auto simp: for_domain_def alloc_inv_def Let_def split: if_splits)
  then have inv: "alloc_inv al" unfolding assms(2) by (rule va.run_inv)
  show ?thesis
  proof (cases "List.find (\<lambda>(k, _). k = key) (aa_reverse al)")
    case None
    then have "key \<notin> fst ` set (aa_reverse al)" by (force simp: find_None_iff)
    with assms(4) have reg: "key \<in> set regs"
      "\<forall>k \<in> set regs. key_derived_localpart digest k = key_derived_localpart digest key \<longrightarrow> k = key" by auto
    have "List.find (\<lambda>k. key_derived_localpart digest k = key_derived_localpart digest key) regs = Some key"
      using reg by (induction regs) auto
    then show ?thesis
      using None by (simp add: alias_for_def resolve_qualified [OF inv key_derived_chars]
          key_derived_not_vanity [where digest = digest and k = key, OF inv assms(3)])
  next
    case (Some p)
    obtain lp where p: "p = (key, lp)" "(key, lp) \<in> set (aa_reverse al)"
      using Some by (auto simp: find_Some_iff) (metis nth_mem)
    then have "vanity_ok lp" and van: "map_of (aa_vanity al) lp = Some key"
      using inv by (force simp: alloc_inv_def)+
    then have lp: "list_all addr_char lp" "to_ascii_lowercase lp = lp"
      using vanity_addr_chars by (auto simp: vanity_ok_def)
    show ?thesis using Some p van by (simp add: alias_for_def resolve_qualified [OF inv lp])
  qed
qed

definition sample_allocator :: AliasAllocator where
  "sample_allocator = \<lparr> aa_domain = ''gw.org'', aa_vanity = [], aa_reverse = [], aa_reserved = [] \<rparr>"

lemma for_domain_sample: "for_domain ''gw.org'' = Inr sample_allocator"
  by (simp add: for_domain_def Let_def trim_def trim_end_while_def is_whitespace_def to_ascii_lowercase_def
      to_lower_char_def is_ascii_uppercase_def is_valid_dns_domain_def is_valid_dns_label_def
      is_ascii_alphanumeric_def is_ascii_lowercase_def is_ascii_digit_def sample_allocator_def)

lemma alias_for_resolves_witness:
  "resolve (\<lambda>k. replicate 32 (hd k)) sample_allocator (alias_for (\<lambda>k. replicate 32 (hd k)) sample_allocator [3]) [[3]]
     = Some [3]"
  by (rule alias_for_resolves [OF for_domain_sample, where cs = "[]"]) (simp_all add: sample_allocator_def)

text \<open>
  Vanity names never shadow other namespaces: in every reachable state a resolved vanity name
  has no dot (so it is never a forwarded address), is not a reserved name of the directory, does
  not carry the reserved prefix, and is not the key-derived name of any key; so allocating names
  never captures the mail of an identity that has none. A key never holds two names.
\<close>

lemma vanity_never_shadows:
  assumes "for_domain d = Inr al0" and "al = foldl alloc_step al0 cs"
    and "map_of (aa_vanity al) lp = Some key"
  shows "decode lp = None \<and> lp \<notin> set (aa_reserved al) \<and> \<not> starts_with RESERVED_ALIAS_PREFIX lp
     \<and> (\<forall>digest k. 10 \<le> length (digest k) \<longrightarrow> lp \<noteq> key_derived_localpart digest k)
     \<and> (\<forall>lp'. map_of (aa_vanity al) lp' = Some key \<longrightarrow> lp' = lp)"
proof -
  have "alloc_inv al0"
    using assms(1) by (auto simp: for_domain_def alloc_inv_def Let_def split: if_splits)
  then have inv: "alloc_inv al" unfolding assms(2) by (rule va.run_inv)
  have rev: "(key, lp) \<in> set (aa_reverse al)" using inv assms(3) by (auto simp: alloc_inv_def)
  then have ok: "vanity_ok lp" "lp \<notin> set (aa_reserved al)" using inv by (force simp: alloc_inv_def)+
  have "CHR ''.'' \<notin> set lp"
    using ok(1) by (auto simp: vanity_ok_def is_valid_vanity_charset_def list_all_iff is_ascii_alphanumeric_def
        is_ascii_uppercase_def is_ascii_lowercase_def is_ascii_digit_def split: if_splits)
  then have dot: "decode lp = None" using ok(1) unfolding vanity_ok_def by (intro decode_no_dot) simp_all
  have inj: "lp' = lp" if "map_of (aa_vanity al) lp' = Some key" for lp'
  proof -
    have "(key, lp') \<in> set (aa_reverse al)" using that inv by (simp add: alloc_inv_def)
    with rev show ?thesis using inv unfolding alloc_inv_def by (metis eq_key_imp_eq_value)
  qed
  have derived: "lp \<noteq> key_derived_localpart digest k" if "10 \<le> length (digest k)" for digest k
    using key_derived_form [where digest = digest and k = k, OF that] ok(1) by (auto simp: vanity_ok_def)
  have prefix: "\<not> starts_with RESERVED_ALIAS_PREFIX lp" using ok(1) by (simp add: vanity_ok_def)
  have "\<forall>digest k. 10 \<le> length (digest k) \<longrightarrow> lp \<noteq> key_derived_localpart digest k"
    by (intro allI impI) (rule derived)
  moreover have "\<forall>lp'. map_of (aa_vanity al) lp' = Some key \<longrightarrow> lp' = lp" by (intro allI impI) (rule inj)
  ultimately show ?thesis using dot ok(2) prefix by (intro conjI)
qed

lemma vanity_never_shadows_witness:
  "decode ''bob'' = None \<and> ''bob'' \<noteq> key_derived_localpart (\<lambda>k. replicate 32 0) [9]"
proof -
  have "map_of (aa_vanity (foldl alloc_step sample_allocator [AllocateVanity [3] ''Bob''])) ''bob'' = Some [3]"
    by (simp add: sample_allocator_def allocate_vanity_def check_vanity_def Let_def to_ascii_lowercase_def
        to_lower_char_def is_ascii_uppercase_def is_valid_vanity_charset_def MAX_VANITY_LEN_def
        is_ascii_alphanumeric_def is_ascii_lowercase_def is_ascii_digit_def starts_with_def
        RESERVED_ALIAS_PREFIX_def is_key_derived_form_def strip_prefix_def char_of_eq_iff char_eq_char_of_iff)
  from vanity_never_shadows [OF for_domain_sample refl this]
  have "decode ''bob'' = None"
    and derived: "\<forall>digest k. 10 \<le> length (digest k) \<longrightarrow> ''bob'' \<noteq> key_derived_localpart digest k" by blast+
  moreover have "''bob'' \<noteq> key_derived_localpart (\<lambda>k. replicate 32 0) [9]"
    by (rule derived [rule_format]) simp
  ultimately show ?thesis by (intro conjI)
qed

end
