(* ===== verification/Rust_Text.thy ===== *)
theory Rust_Text
  imports Prelude
begin

text \<open>
  Text functions of Rust's standard library that the wire-level components use: the bytes of a
  string, \<open>String::from_utf8_lossy\<close>, checked slicing, \<open>str::lines\<close>, \<open>str::join\<close>, the big-endian
  bytes of a \<open>u16\<close>, and searches. A \<open>String\<close> is its list of bytes, written as characters.
\<close>

section \<open>Definitions\<close>

definition str_bytes :: "string \<Rightarrow> bytes" where
  "str_bytes s = map of_char s"

definition bytes_str :: "bytes \<Rightarrow> string" where
  "bytes_str b = map (\<lambda>x. char_of (unat x)) b"

text \<open>
  \<open>from_utf8_lossy\<close>: well-formed sequences stay, each maximal ill-formed part becomes one
  replacement character. \<open>utf8_step\<close> says whether the sequence that starts with the byte is
  complete, and how many of the bytes after it belong to it.
\<close>

definition is_cont :: "u8 \<Rightarrow> bool" where
  "is_cont b = (0x80 \<le> b \<and> b \<le> 0xBF)"

definition conts :: "nat \<Rightarrow> bytes \<Rightarrow> bool \<times> nat" where
  "conts n bs = (let k = length (takeWhile is_cont (take n bs)) in (k = n, k))"

definition after_second :: "bool \<Rightarrow> nat \<Rightarrow> bytes \<Rightarrow> bool \<times> nat" where
  "after_second good n cs = (if good then (let (done', k) = conts n cs in (done', Suc k)) else (False, 0))"

definition utf8_step :: "u8 \<Rightarrow> bytes \<Rightarrow> bool \<times> nat" where
  "utf8_step b bs =
     (if b < 0x80 then (True, 0)
      else if 0xC2 \<le> b \<and> b \<le> 0xDF then conts 1 bs
      else (case bs of
              [] \<Rightarrow> (False, 0)
            | c # cs \<Rightarrow>
                if b = 0xE0 then after_second (0xA0 \<le> c \<and> c \<le> 0xBF) 1 cs
                else if b = 0xED then after_second (0x80 \<le> c \<and> c \<le> 0x9F) 1 cs
                else if 0xE1 \<le> b \<and> b \<le> 0xEF then after_second (is_cont c) 1 cs
                else if b = 0xF0 then after_second (0x90 \<le> c \<and> c \<le> 0xBF) 2 cs
                else if 0xF1 \<le> b \<and> b \<le> 0xF3 then after_second (is_cont c) 2 cs
                else if b = 0xF4 then after_second (0x80 \<le> c \<and> c \<le> 0x8F) 2 cs
                else (False, 0)))"

function from_utf8_lossy :: "bytes \<Rightarrow> bytes" where
  "from_utf8_lossy [] = []"
| "from_utf8_lossy (b # bs) =
     (let (complete, k) = utf8_step b bs
      in (if complete then b # take k bs else [0xEF, 0xBF, 0xBD]) @ from_utf8_lossy (drop k bs))"
  by pat_completeness auto
termination by (relation "measure length") auto

definition lossy :: "bytes \<Rightarrow> string" where
  "lossy b = bytes_str (from_utf8_lossy b)"

text \<open>\<open>slice.get(i)\<close> and \<open>slice.get(a..b)\<close>.\<close>

definition get_at :: "'a list \<Rightarrow> nat \<Rightarrow> 'a option" where
  "get_at xs i = (if i < length xs then Some (xs ! i) else None)"

definition get_range :: "'a list \<Rightarrow> nat \<Rightarrow> nat \<Rightarrow> 'a list option" where
  "get_range xs a b = (if a \<le> b \<and> b \<le> length xs then Some (take (b - a) (drop a xs)) else None)"

text \<open>\<open>[String]::join(sep)\<close>.\<close>

fun join :: "string \<Rightarrow> string list \<Rightarrow> string" where
  "join sep [] = []"
| "join sep [x] = x"
| "join sep (x # y # ys) = x @ sep @ join sep (y # ys)"

text \<open>\<open>str::lines\<close>: the lines without their LF or CRLF line ends; no empty last line.\<close>

fun lines :: "string \<Rightarrow> string list" where
  "lines [] = []"
| "lines (c # cs) =
     (if c = CHR 0x0A then [] # lines cs
      else if c = CHR 0x0D \<and> starts_with [CHR 0x0A] cs then [] # lines (tl cs)
      else (case lines cs of [] \<Rightarrow> [[c]] | l # ls \<Rightarrow> (c # l) # ls))"

text \<open>The first index of a character, and the last.\<close>

fun find_char :: "char \<Rightarrow> string \<Rightarrow> nat option" where
  "find_char c [] = None"
| "find_char c (x # xs) = (if x = c then Some 0 else map_option Suc (find_char c xs))"

definition rfind_char :: "char \<Rightarrow> string \<Rightarrow> nat option" where
  "rfind_char c s = map_option (\<lambda>i. length s - 1 - i) (find_char c (rev s))"

definition trim_start :: "string \<Rightarrow> string" where
  "trim_start s = dropWhile is_whitespace s"

definition trim_matches :: "(char \<Rightarrow> bool) \<Rightarrow> string \<Rightarrow> string" where
  "trim_matches p s = trim_end_while p (dropWhile p s)"

definition strip_suffix :: "string \<Rightarrow> string \<Rightarrow> string option" where
  "strip_suffix p s = map_option rev (strip_prefix (rev p) (rev s))"

definition to_upper_char :: "char \<Rightarrow> char" where
  "to_upper_char c = (if is_ascii_lowercase c then char_of ((of_char c :: nat) - 32) else c)"

definition to_ascii_uppercase :: "string \<Rightarrow> string" where
  "to_ascii_uppercase s = map to_upper_char s"

text \<open>\<open>u16::to_be_bytes\<close> and \<open>u16::from_be_bytes\<close>.\<close>

definition be16 :: "u16 \<Rightarrow> bytes" where
  "be16 w = [ucast (drop_bit 8 w), ucast w]"

definition of_be16 :: "u8 \<Rightarrow> u8 \<Rightarrow> u16" where
  "of_be16 a b = push_bit 8 (ucast a) OR ucast b"

text \<open>The decimal form of an unsigned number.\<close>

function show_nat :: "nat \<Rightarrow> string" where
  "show_nat n = (if n < 10 then [char_of (48 + n)] else show_nat (n div 10) @ [char_of (48 + n mod 10)])"
  by pat_completeness auto
termination by (relation "measure (\<lambda>n. n)") auto

declare show_nat.simps [simp del]

text \<open>\<open>slice.windows(n).position(|w| w == p)\<close>: where a pattern first stands in a list.\<close>

fun find_sub :: "'a list \<Rightarrow> 'a list \<Rightarrow> nat option" where
  "find_sub p [] = (if p = [] then Some 0 else None)"
| "find_sub p (x # xs) =
     (if take (length p) (x # xs) = p then Some 0 else map_option Suc (find_sub p xs))"

section \<open>Lemmas\<close>

lemma take_bit_of_char: "take_bit 8 (of_char c :: nat) = of_char c"
  by (simp add: take_bit_nat_eq_self)

lemma unat_of_char [simp]: "unat (of_char c :: u8) = of_char c"
proof -
  have "unat (of_nat (of_char c) :: u8) = take_bit 8 (of_char c :: nat)" by (simp add: unsigned_of_nat)
  then show ?thesis by (simp only: of_nat_of_char take_bit_of_char)
qed

lemma of_char_word_inject [simp]: "(of_char c :: u8) = of_char d \<longleftrightarrow> c = d"
proof
  assume "(of_char c :: u8) = of_char d"
  then have "unat (of_char c :: u8) = unat (of_char d :: u8)" by simp
  then show "c = d" by (simp only: unat_of_char) simp
qed simp

lemma bytes_str_bytes [simp]: "bytes_str (str_bytes s) = s"
  by (simp add: bytes_str_def str_bytes_def comp_def)

lemma length_str_bytes [simp]: "length (str_bytes s) = length s"
  by (simp add: str_bytes_def)

lemma str_bytes_append [simp]: "str_bytes (a @ b) = str_bytes a @ str_bytes b"
  by (simp add: str_bytes_def)

text \<open>ASCII text is read as it is.\<close>

definition ascii_bytes :: "bytes \<Rightarrow> bool" where
  "ascii_bytes bs = list_all (\<lambda>b. b < 0x80) bs"

definition ascii_str :: "string \<Rightarrow> bool" where
  "ascii_str s = list_all (\<lambda>c. (of_char c :: u8) < 0x80) s"

lemma from_utf8_lossy_ascii: "ascii_bytes bs \<Longrightarrow> from_utf8_lossy bs = bs"
  by (induction bs) (simp_all add: ascii_bytes_def utf8_step_def)

lemma ascii_bytes_str_bytes [simp]: "ascii_bytes (str_bytes s) = ascii_str s"
  by (simp add: ascii_bytes_def ascii_str_def str_bytes_def list.pred_map comp_def)

lemma lossy_ascii: "ascii_str s \<Longrightarrow> lossy (str_bytes s) = s"
  by (simp add: lossy_def from_utf8_lossy_ascii)

lemma get_at_append [simp]:
  "get_at (xs @ ys) (length xs + i) = get_at ys i"
  by (simp add: get_at_def nth_append)

lemma get_at_append_0 [simp]: "get_at (xs @ ys) (length xs) = get_at ys 0"
  using get_at_append [of xs ys 0] by simp

lemma get_range_append [simp]:
  "get_range (xs @ ys) (length xs + a) (length xs + b) = get_range ys a b"
  by (auto simp: get_range_def)

lemma get_at_simps [simp]:
  "get_at [] i = None" "get_at (x # xs) 0 = Some x" "get_at (x # xs) (Suc i) = get_at xs i"
  by (simp_all add: get_at_def)

lemma get_range_simps [simp]:
  "get_range xs 0 0 = Some []"
  "get_range (x # xs) (Suc a) (Suc b) = get_range xs a b"
  "get_range (x # xs) 0 (Suc b) = map_option ((#) x) (get_range xs 0 b)"
  by (auto simp: get_range_def)

lemma get_range_prefix: "n = length xs \<Longrightarrow> get_range (xs @ ys) 0 n = Some xs"
  by (simp add: get_range_def)

lemma get_range_length: "get_range xs a b = Some ys \<Longrightarrow> length ys = b - a \<and> b \<le> length xs \<and> a \<le> b"
  by (auto simp: get_range_def split: if_splits)

lemma of_be16_be16: "of_be16 (ucast (drop_bit 8 w)) (ucast w) = w" for w :: u16
proof (rule bit_word_eqI)
  fix n assume "n < LENGTH(16)"
  then show "bit (of_be16 (ucast (drop_bit 8 w)) (ucast w)) n = bit w n"
    by (auto simp: of_be16_def bit_or_iff bit_push_bit_iff bit_ucast_iff bit_drop_bit_eq not_le)
qed

lemma length_be16 [simp]: "length (be16 w) = 2"
  by (simp add: be16_def)

text \<open>Decoding is idempotent: what it returns is well-formed and is read as it is.\<close>

lemma conts_complete:
  assumes "conts n bs = (True, k)"
  shows "k = n \<and> n \<le> length bs \<and> list_all is_cont (take n bs)"
proof -
  have n: "length (takeWhile is_cont (take n bs)) = n" and k: "k = n" using assms by (auto simp: conts_def Let_def)
  have "length (takeWhile is_cont (take n bs)) \<le> length (take n bs)" by (rule length_takeWhile_le)
  then have le: "n \<le> length bs" using n by simp
  then have "takeWhile is_cont (take n bs) = take n bs"
    using n by (metis length_take min.absorb2 take_all_iff takeWhile_eq_take order_refl)
  then show ?thesis using k le by (auto simp: takeWhile_eq_all_conv list_all_iff)
qed

lemma conts_again:
  assumes "conts n bs = (True, k)"
  shows "conts n (take k bs @ rest) = (True, k)"
proof -
  have k: "k = n" "n \<le> length bs" "list_all is_cont (take n bs)" using conts_complete [OF assms] by auto
  then have "takeWhile is_cont (take n bs) = take n bs" by (simp add: takeWhile_eq_all_conv list_all_iff)
  then have "length (takeWhile is_cont (take n bs)) = n" using k(2) by (simp only: length_take min_absorb2)
  then show ?thesis using k by (simp add: conts_def Let_def min_def)
qed

lemma after_second_again:
  assumes "after_second good n cs = (True, k)"
  shows "\<exists>j. k = Suc j \<and> after_second good n (take j cs @ rest) = (True, k)"
proof -
  obtain j where "good" "conts n cs = (True, j)" "k = Suc j"
    using assms by (auto simp: after_second_def split: if_splits prod.splits)
  then show ?thesis using conts_again [of n cs j rest] by (simp add: after_second_def)
qed

lemma utf8_step_again:
  assumes "utf8_step b bs = (True, k)"
  shows "utf8_step b (take k bs @ rest) = (True, k)"
proof (cases "b < 0x80 \<or> (0xC2 \<le> b \<and> b \<le> 0xDF)")
  case True
  with assms show ?thesis by (auto simp: utf8_step_def dest: conts_again split: if_splits)
next
  case False
  then obtain c cs where bs: "bs = c # cs" using assms by (cases bs) (auto simp: utf8_step_def)
  obtain good n where g: "utf8_step b (c # r) = after_second good n r" for r
    using False assms by (auto simp: utf8_step_def bs split: if_splits)
  then obtain j where "k = Suc j" "after_second good n (take j cs @ rest) = (True, k)"
    using after_second_again [of good n cs k rest] assms by (auto simp: bs)
  then show ?thesis by (simp add: bs g)
qed

lemma utf8_step_length: "utf8_step b bs = (True, k) \<Longrightarrow> k \<le> length bs"
  by (auto simp: utf8_step_def after_second_def split: if_splits list.splits prod.splits dest: conts_complete)

lemma from_utf8_lossy_idem: "from_utf8_lossy (from_utf8_lossy bs) = from_utf8_lossy bs"
proof (induction bs rule: from_utf8_lossy.induct)
  case (2 b bs)
  obtain complete k where u: "utf8_step b bs = (complete, k)" by (cases "utf8_step b bs")
  note IH = "2.IH" [OF u [symmetric] refl]
  show ?case
  proof (cases complete)
    case True
    then have "utf8_step b (take k bs @ from_utf8_lossy (drop k bs)) = (True, k)"
      using u utf8_step_again by simp
    moreover have "length (take k bs) = k" using u True utf8_step_length by simp
    ultimately show ?thesis using u True IH by simp
  next
    case False
    have "utf8_step 0xEF (0xBF # 0xBD # r) = (True, 2)" for r
      by (simp add: utf8_step_def after_second_def conts_def is_cont_def word_le_nat_alt)
    then show ?thesis using u False IH by simp
  qed
qed simp

lemma str_bytes_of_bytes [simp]: "str_bytes (bytes_str b) = b"
proof -
  have "(of_char (char_of (unat x)) :: u8) = x" for x :: u8
  proof -
    have "unat x < 256" using unat_lt_pow [of x] by simp
    then have "unat (of_char (char_of (unat x)) :: u8) = unat x" by (simp add: take_bit_nat_eq_self)
    then show ?thesis by (simp only: unsigned_word_eqI)
  qed
  then show ?thesis by (simp add: str_bytes_def bytes_str_def comp_def)
qed

lemma lossy_idem [simp]: "lossy (str_bytes (lossy b)) = lossy b"
  by (simp add: lossy_def from_utf8_lossy_idem)

lemma show_nat_digits: "list_all is_ascii_digit (show_nat n)"
proof (induction n rule: show_nat.induct)
  case (1 n)
  have d: "is_ascii_digit (char_of (48 + m))" if "m < 10" for m :: nat
    using that by (simp add: is_ascii_digit_def take_bit_nat_eq_self)
  show ?case by (subst show_nat.simps) (use 1 in \<open>auto simp: d\<close>)
qed

text \<open>Lines without line breaks inside are read back whole, whichever way they end.\<close>

definition good_line :: "string \<Rightarrow> bool" where
  "good_line l \<longleftrightarrow> CHR 0x0A \<notin> set l \<and> CHR 0x0D \<notin> set l"

lemma lines_line: "good_line l \<Longrightarrow> lines (l @ CHR 0x0A # r) = l # lines r"
  by (induction l) (auto simp: good_line_def)

lemma lines_concat: "list_all good_line ls \<Longrightarrow> lines (concat (map (\<lambda>l. l @ [CHR 0x0A]) ls)) = ls"
  by (induction ls) (simp_all add: lines_line)

lemma lines_crlf: "good_line l \<Longrightarrow> lines (l @ CHR 0x0D # CHR 0x0A # r) = l # lines r"
  by (induction l) (auto simp: good_line_def starts_with_def neq_Nil_conv)

lemma lines_crlf_concat:
  "list_all good_line ls \<Longrightarrow> lines (concat (map (\<lambda>l. l @ [CHR 0x0D, CHR 0x0A]) ls) @ r) = ls @ lines r"
  by (induction ls) (simp_all add: lines_crlf)

end
