(* ===== verification/Gateway_ColdGate.thy ===== *)
theory Gateway_ColdGate
  imports Rust_Text
begin

text \<open>
  The anti-abuse gate for unknown senders (\<open>ColdSenderGate\<close> of
  \<open>crates/pier-gateway/src/inbound.rs\<close>): allow and block lists, greylisting of new pairs of
  peer and sender, and the rate limit per peer. The clock is a trait object; each check takes the
  time it would read.
\<close>

section \<open>Definitions\<close>

datatype AbuseDecision = Accept | Reject u16 string

record GateState =
  gs_greylist :: "((string \<times> string) \<times> u64) list"
  gs_accepts :: "(string \<times> u64 list) list"

record ColdSenderGate =
  cg_known_ip_prefixes :: "string list"
  cg_known_senders :: "string list"
  cg_blocked_ip_prefixes :: "string list"
  cg_blocked_senders :: "string list"
  cg_greylist_min_retry_ms :: u64
  cg_greylist_ttl_ms :: u64
  cg_rate_limit :: u32
  cg_rate_window_ms :: u64
  cg_state :: GateState

definition cold_gate_new :: ColdSenderGate where
  "cold_gate_new =
     \<lparr> cg_known_ip_prefixes = [], cg_known_senders = [], cg_blocked_ip_prefixes = [], cg_blocked_senders = [],
       cg_greylist_min_retry_ms = 60000, cg_greylist_ttl_ms = 12 * 3600000, cg_rate_limit = 60,
       cg_rate_window_ms = 60000, cg_state = \<lparr> gs_greylist = [], gs_accepts = [] \<rparr> \<rparr>"

definition allow_ip_prefix :: "ColdSenderGate \<Rightarrow> string \<Rightarrow> ColdSenderGate" where
  "allow_ip_prefix g prefix = g\<lparr>cg_known_ip_prefixes := cg_known_ip_prefixes g @ [prefix]\<rparr>"

definition allow_sender :: "ColdSenderGate \<Rightarrow> string \<Rightarrow> ColdSenderGate" where
  "allow_sender g addr = g\<lparr>cg_known_senders := cg_known_senders g @ [to_ascii_lowercase addr]\<rparr>"

definition block_ip_prefix :: "ColdSenderGate \<Rightarrow> string \<Rightarrow> ColdSenderGate" where
  "block_ip_prefix g prefix = g\<lparr>cg_blocked_ip_prefixes := cg_blocked_ip_prefixes g @ [prefix]\<rparr>"

definition block_sender :: "ColdSenderGate \<Rightarrow> string \<Rightarrow> ColdSenderGate" where
  "block_sender g addr = g\<lparr>cg_blocked_senders := cg_blocked_senders g @ [to_ascii_lowercase addr]\<rparr>"

definition with_greylist :: "ColdSenderGate \<Rightarrow> u64 \<Rightarrow> u64 \<Rightarrow> ColdSenderGate" where
  "with_greylist g min_retry_ms ttl_ms =
     g\<lparr>cg_greylist_min_retry_ms := min_retry_ms, cg_greylist_ttl_ms := ttl_ms\<rparr>"

definition gate_with_rate_limit :: "ColdSenderGate \<Rightarrow> u32 \<Rightarrow> u64 \<Rightarrow> ColdSenderGate" where
  "gate_with_rate_limit g mx window_ms = g\<lparr>cg_rate_limit := mx, cg_rate_window_ms := window_ms\<rparr>"

definition is_known :: "ColdSenderGate \<Rightarrow> string \<Rightarrow> string \<Rightarrow> bool" where
  "is_known g peer_ip from' =
     (list_ex (\<lambda>p. starts_with p peer_ip) (cg_known_ip_prefixes g)
      \<or> to_ascii_lowercase from' \<in> set (cg_known_senders g))"

definition is_blocked :: "ColdSenderGate \<Rightarrow> string \<Rightarrow> string \<Rightarrow> bool" where
  "is_blocked g peer_ip from' =
     (list_ex (\<lambda>p. starts_with p peer_ip) (cg_blocked_ip_prefixes g)
      \<or> to_ascii_lowercase from' \<in> set (cg_blocked_senders g))"

definition RATE_REASON :: string where
  "RATE_REASON = ''4.7.1 rate limit exceeded, slow down and retry later''"

definition GREYLIST_REASON :: string where
  "GREYLIST_REASON = bytes_str (str_bytes ''4.7.1 greylisted '' @ [0xE2, 0x80, 0x94]
     @ str_bytes '' please retry shortly (cost for cold contact, '' @ [0xC2, 0xA7] @ str_bytes ''9)'')"

definition RETRY_REASON :: string where
  "RETRY_REASON = bytes_str (str_bytes ''4.7.1 greylisted '' @ [0xE2, 0x80, 0x94]
     @ str_bytes '' retry interval not yet elapsed'')"

definition cold_check :: "ColdSenderGate \<Rightarrow> u64 \<Rightarrow> string \<Rightarrow> string \<Rightarrow> AbuseDecision \<times> ColdSenderGate" where
  "cold_check g now peer_ip mail_from =
     (if is_blocked g peer_ip mail_from then (Reject 554 ''5.7.1 sender blocked by policy'', g)
      else if is_known g peer_ip mail_from then (Accept, g)
      else
        (let st = cg_state g;
             window_start = saturating_sub now (cg_rate_window_ms g);
             hits = filter (\<lambda>t. t \<ge> window_start) (al_get_or [] (gs_accepts st) peer_ip);
             st = st\<lparr>gs_accepts := al_insert peer_ip hits (gs_accepts st)\<rparr>
         in if (of_nat (length hits) :: u32) \<ge> cg_rate_limit g
            then (Reject 451 RATE_REASON, g\<lparr>cg_state := st\<rparr>)
            else
              (let key = (peer_ip, mail_from);
                   first_seen = map_of (gs_greylist st) key;
                   cold = (case first_seen of
                             Some ts \<Rightarrow> saturating_sub now ts > cg_greylist_ttl_ms g
                           | None \<Rightarrow> True)
               in if cold
                  then (Reject 451 GREYLIST_REASON,
                        g\<lparr>cg_state := st\<lparr>gs_greylist := al_insert key now (gs_greylist st)\<rparr>\<rparr>)
                  else
                    (case first_seen of
                       None \<Rightarrow> (Accept, g)
                     | Some ts \<Rightarrow>
                         if saturating_sub now ts < cg_greylist_min_retry_ms g
                         then (Reject 451 RETRY_REASON, g\<lparr>cg_state := st\<rparr>)
                         else (Accept,
                               g\<lparr>cg_state := st\<lparr>gs_accepts := al_insert peer_ip (hits @ [now]) (gs_accepts st)\<rparr>\<rparr>)))))"

section \<open>Runs of checks\<close>

type_synonym GateRequest = "u64 \<times> string \<times> string"

definition gate_step :: "ColdSenderGate \<Rightarrow> GateRequest \<Rightarrow> ColdSenderGate" where
  "gate_step g r = (case r of (now, ip, from') \<Rightarrow> snd (cold_check g now ip from'))"

definition gate_answer :: "ColdSenderGate \<Rightarrow> GateRequest \<Rightarrow> AbuseDecision" where
  "gate_answer g r = (case r of (now, ip, from') \<Rightarrow> fst (cold_check g now ip from'))"

text \<open>Checks change the state of the gate only.\<close>

lemma cold_check_config: "snd (cold_check g now ip f) = g\<lparr>cg_state := cg_state (snd (cold_check g now ip f))\<rparr>"
  by (simp add: cold_check_def Let_def split: option.splits)

lemma is_known_state [simp]: "is_known (g\<lparr>cg_state := s\<rparr>) = is_known g"
  by (simp add: is_known_def fun_eq_iff)

lemma gate_run_config:
  "foldl gate_step g rs = g\<lparr>cg_state := cg_state (foldl gate_step g rs)\<rparr>"
proof (induction rs arbitrary: g)
  case Nil
  then show ?case by simp
next
  case (Cons r rs)
  obtain now ip f where r: "r = (now, ip, f)" by (cases r) auto
  have "gate_step g r = g\<lparr>cg_state := cg_state (gate_step g r)\<rparr>"
    unfolding r gate_step_def using cold_check_config by simp
  with Cons.IH [of "gate_step g r"] show ?case
    by (metis (no_types, lifting) ColdSenderGate.surjective ColdSenderGate.update_convs(9) foldl_Cons)
qed

text \<open>A pair enters the greylist only by a check that deferred it, with the time of that check.\<close>

lemma greylist_after:
  assumes "map_of (gs_greylist (cg_state (gate_step g r))) (ip, f) = Some ts"
  shows "map_of (gs_greylist (cg_state g)) (ip, f) = Some ts
    \<or> (r = (ts, ip, f) \<and> gate_answer g r = Reject 451 GREYLIST_REASON)"
  using assms
  by (cases r) (auto simp: gate_step_def gate_answer_def cold_check_def Let_def split: if_splits option.splits)

lemma greylist_origin:
  assumes "map_of (gs_greylist (cg_state (foldl gate_step g rs))) (ip, f) = Some ts"
    and "gs_greylist (cg_state g) = []"
  shows "\<exists>j < length rs. rs ! j = (ts, ip, f)
    \<and> gate_answer (foldl gate_step g (take j rs)) (rs ! j) = Reject 451 GREYLIST_REASON"
  using assms(1)
proof (induction rs rule: rev_induct)
  case Nil
  then show ?case using assms(2) by simp
next
  case (snoc r rs)
  then consider "map_of (gs_greylist (cg_state (foldl gate_step g rs))) (ip, f) = Some ts"
    | "r = (ts, ip, f)" "gate_answer (foldl gate_step g rs) r = Reject 451 GREYLIST_REASON"
    using greylist_after [of "foldl gate_step g rs" r] by auto
  then show ?case
  proof cases
    case 1
    then obtain j where "j < length rs" "rs ! j = (ts, ip, f)"
        "gate_answer (foldl gate_step g (take j rs)) (rs ! j) = Reject 451 GREYLIST_REASON"
      using snoc.IH by blast
    then show ?thesis by (intro exI [of _ j]) (simp add: nth_append)
  next
    case 2
    then show ?thesis by (intro exI [of _ "length rs"]) simp
  qed
qed

lemma accept_cold:
  assumes "gate_answer g (now, ip, f) = Accept" "\<not> is_known g ip f"
  shows "\<exists>ts. map_of (gs_greylist (cg_state g)) (ip, f) = Some ts
    \<and> cg_greylist_min_retry_ms g \<le> saturating_sub now ts \<and> saturating_sub now ts \<le> cg_greylist_ttl_ms g"
  using assms by (auto simp: gate_answer_def cold_check_def Let_def not_less split: if_splits option.splits)

text \<open>
  An unknown sender is accepted only after it was deferred: whenever, over any run of checks from
  a gate with an empty greylist, a pair that is not on the allow lists is accepted, an earlier check
  of the same pair was answered 451 with the greylist reason, and the time between the two is at
  least the retry interval and at most the lifetime of an entry.
\<close>

lemma cold_sender_deferred_first:
  assumes "gs_greylist (cg_state g) = []" "i < length rs" "rs ! i = (now, ip, f)"
    and "gate_answer (foldl gate_step g (take i rs)) (rs ! i) = Accept" "\<not> is_known g ip f"
  shows "\<exists>j < i. \<exists>ts. rs ! j = (ts, ip, f)
    \<and> gate_answer (foldl gate_step g (take j rs)) (rs ! j) = Reject 451 GREYLIST_REASON
    \<and> cg_greylist_min_retry_ms g \<le> saturating_sub now ts \<and> saturating_sub now ts \<le> cg_greylist_ttl_ms g"
proof -
  let ?g = "foldl gate_step g (take i rs)"
  note cfg = gate_run_config [of g "take i rs"]
  have "\<not> is_known ?g ip f" using assms(5) by (subst cfg) simp
  moreover have "cg_greylist_min_retry_ms ?g = cg_greylist_min_retry_ms g" "cg_greylist_ttl_ms ?g = cg_greylist_ttl_ms g"
    by (subst cfg, simp)+
  ultimately obtain ts where ts: "map_of (gs_greylist (cg_state ?g)) (ip, f) = Some ts"
      "cg_greylist_min_retry_ms g \<le> saturating_sub now ts" "saturating_sub now ts \<le> cg_greylist_ttl_ms g"
    using accept_cold [of ?g now ip f] assms(3,4) by auto
  obtain j where "j < length (take i rs)" "take i rs ! j = (ts, ip, f)"
      "gate_answer (foldl gate_step g (take j (take i rs))) (take i rs ! j) = Reject 451 GREYLIST_REASON"
    using greylist_origin [OF ts(1) assms(1)] by blast
  with ts assms(2) show ?thesis by (intro exI [of _ j]) (auto simp: min_def)
qed

lemma cold_sender_deferred_first_witness:
  "\<exists>j < 1. \<exists>ts :: u64. [(0, ''9.9.9.9'', ''a@b''), (60000, ''9.9.9.9'', ''a@b'')] ! j = (ts, ''9.9.9.9'', ''a@b'')
    \<and> gate_answer (foldl gate_step cold_gate_new (take j [(0, ''9.9.9.9'', ''a@b''), (60000, ''9.9.9.9'', ''a@b'')]))
        ([(0, ''9.9.9.9'', ''a@b''), (60000, ''9.9.9.9'', ''a@b'')] ! j) = Reject 451 GREYLIST_REASON
    \<and> 60000 \<le> saturating_sub 60000 ts \<and> saturating_sub 60000 ts \<le> 43200000"
  using cold_sender_deferred_first [of cold_gate_new 1
      "[(0, ''9.9.9.9'', ''a@b''), (60000, ''9.9.9.9'', ''a@b'')]" 60000 "''9.9.9.9''" "''a@b''"]
  by (simp add: cold_gate_new_def gate_answer_def gate_step_def cold_check_def is_blocked_def is_known_def
      saturating_sub_def word_le_nat_alt word_less_nat_alt Let_def)

end
