(* ===== verification/Gateway_Dns.thy ===== *)
theory Gateway_Dns
  imports Rust_Text
begin

text \<open>
  The DNS client (\<open>crates/pier-gateway/src/dns.rs\<close>) and the conversion of domain names
  (\<open>crates/pier-gateway/src/idn.rs\<close>): the encoder of queries, the decoder of names with their
  compression pointers, the response parser, the decoders of record data, and the client itself.
  The IDNA conversion of the external crate, the random source and the exchange of one datagram are
  fields of the client. Offsets are natural numbers: a packet is far shorter than the address space.
\<close>

section \<open>Domain names\<close>

datatype IdnError =
    NotConvertible string string
  | LabelTooLong string string
  | NameTooLong string

definition domain_to_ascii :: "(string \<Rightarrow> string + string) \<Rightarrow> string \<Rightarrow> IdnError + string" where
  "domain_to_ascii idna domain =
     res_bind (map_err (NotConvertible domain) (idna domain)) (\<lambda>asc.
       let bare = (case strip_suffix ''.'' asc of Some b \<Rightarrow> b | None \<Rightarrow> asc) in
       if 253 < length bare then Inl (NameTooLong domain)
       else (case find (\<lambda>label. 63 < length label) (split_on CHR ''.'' bare) of
               Some label \<Rightarrow> Inl (LabelTooLong domain label)
             | None \<Rightarrow> Inr asc))"

section \<open>Messages\<close>

definition CLASS_IN :: u16 where "CLASS_IN = 1"
definition TYPE_A :: u16 where "TYPE_A = 1"
definition TYPE_MX :: u16 where "TYPE_MX = 15"
definition TYPE_TXT :: u16 where "TYPE_TXT = 16"
definition TYPE_AAAA :: u16 where "TYPE_AAAA = 28"

datatype DnsError = Truncated | BadPointer | Rcode u8

record ResourceRecord =
  rr_name :: string
  rr_rtype :: u16
  rr_rdata :: bytes
  rr_rdata_offset :: nat

record DnsMessage =
  dm_id :: u16
  dm_rcode :: u8
  dm_answers :: "ResourceRecord list"

definition dns_labels :: "string \<Rightarrow> string list" where
  "dns_labels name = filter (\<lambda>l. l \<noteq> []) (split_on CHR ''.'' (trim_end_matches CHR ''.'' name))"

definition encode_label :: "string \<Rightarrow> bytes" where
  "encode_label label = (let len = min (length label) 63 in of_nat len # take len (str_bytes label))"

definition encode_name :: "string \<Rightarrow> bytes" where
  "encode_name name = concat (map encode_label (dns_labels name)) @ [0]"

definition encode_query :: "u16 \<Rightarrow> string \<Rightarrow> u16 \<Rightarrow> bytes" where
  "encode_query txn qname qtype =
     be16 txn @ be16 0x0100 @ be16 1 @ be16 0 @ be16 0 @ be16 0
     @ encode_name qname @ be16 qtype @ be16 CLASS_IN"

text \<open>
  The loop of \<open>read_name\<close>: a pointer must go back from where it stands and counts as a jump, of
  which there are at most 33; between jumps the position moves forward.
\<close>

definition set_resume :: "nat option \<Rightarrow> nat \<Rightarrow> nat option" where
  "set_resume resume_at p = (case resume_at of None \<Rightarrow> Some p | Some r \<Rightarrow> Some r)"

type_synonym NameCursor = "string list \<times> nat \<times> nat option \<times> nat"

definition read_name_step :: "bytes \<Rightarrow> NameCursor \<Rightarrow> (DnsError + string \<times> nat) + NameCursor" where
  "read_name_step packet c = (case c of (labels, pos, resume_at, jumps) \<Rightarrow>
     (if 32 < jumps then Inl (Inl BadPointer)
      else (case get_at packet pos of
        None \<Rightarrow> Inl (Inl Truncated)
      | Some len \<Rightarrow>
          if len = 0 then
            Inl (Inr (join ''.'' labels, (case set_resume resume_at (pos + 1) of Some r \<Rightarrow> r | None \<Rightarrow> pos)))
          else if len AND 0xC0 = 0xC0 then
            (case get_at packet (pos + 1) of
               None \<Rightarrow> Inl (Inl Truncated)
             | Some b2 \<Rightarrow>
                 (let resume_at = set_resume resume_at (pos + 2);
                      ptr = push_bit 8 (unat (len AND 0x3F)) OR unat b2
                  in if length packet \<le> ptr \<or> pos \<le> ptr then Inl (Inl BadPointer)
                     else Inr (labels, ptr, resume_at, jumps + 1)))
          else if len AND 0xC0 \<noteq> 0 then Inl (Inl BadPointer)
          else
            (let lstart = pos + 1; lend = lstart + unat len in
             case get_range packet lstart lend of
               None \<Rightarrow> Inl (Inl Truncated)
             | Some b \<Rightarrow> Inr (labels @ [lossy b], lend, resume_at, jumps)))))"

definition cursor_work :: "bytes \<Rightarrow> NameCursor \<Rightarrow> nat" where
  "cursor_work packet c = (case c of (labels, pos, resume_at, jumps) \<Rightarrow>
     (33 - jumps) * (length packet + 1) + (length packet - pos))"

lemma read_name_step_work:
  assumes "read_name_step packet c = Inr c'"
  shows "cursor_work packet c' < cursor_work packet c"
proof -
  obtain labels pos resume_at jumps where c: "c = (labels, pos, resume_at, jumps)" by (cases c) auto
  obtain labels' pos' resume_at' jumps' where c': "c' = (labels', pos', resume_at', jumps')" by (cases c') auto
  have j: "jumps \<le> 32" and "pos < length packet"
    and "(jumps' = jumps + 1) \<or> (jumps' = jumps \<and> pos < pos')"
    using assms by (auto simp: read_name_step_def c c' get_at_def Let_def split: if_splits option.splits)
  then consider "jumps' = jumps + 1" | "jumps' = jumps" "length packet - pos' < length packet - pos" by linarith
  then show ?thesis
  proof cases
    case 1
    have "33 - jumps = Suc (33 - jumps')" using j 1 by simp
    then have "(33 - jumps) * (length packet + 1) = (33 - jumps') * (length packet + 1) + (length packet + 1)" by simp
    then show ?thesis by (simp add: cursor_work_def c c')
  next
    case 2
    then show ?thesis by (simp add: cursor_work_def c c')
  qed
qed

function read_name_from :: "bytes \<Rightarrow> NameCursor \<Rightarrow> DnsError + string \<times> nat" where
  "read_name_from packet c =
     (case read_name_step packet c of Inl r \<Rightarrow> r | Inr c' \<Rightarrow> read_name_from packet c')"
  by pat_completeness auto
termination
  by (relation "measure (\<lambda>(packet, c). cursor_work packet c)") (auto intro: read_name_step_work)

declare read_name_from.simps [simp del]

abbreviation read_name_loop ::
  "bytes \<Rightarrow> string list \<Rightarrow> nat \<Rightarrow> nat option \<Rightarrow> nat \<Rightarrow> DnsError + string \<times> nat" where
  "read_name_loop packet labels pos resume_at jumps \<equiv> read_name_from packet (labels, pos, resume_at, jumps)"

lemma read_name_loop_unfold:
  "read_name_loop packet labels pos resume_at jumps =
     (if 32 < jumps then Inl BadPointer
      else (case get_at packet pos of
        None \<Rightarrow> Inl Truncated
      | Some len \<Rightarrow>
          if len = 0 then
            Inr (join ''.'' labels, (case set_resume resume_at (pos + 1) of Some r \<Rightarrow> r | None \<Rightarrow> pos))
          else if len AND 0xC0 = 0xC0 then
            (case get_at packet (pos + 1) of
               None \<Rightarrow> Inl Truncated
             | Some b2 \<Rightarrow>
                 (let resume_at = set_resume resume_at (pos + 2);
                      ptr = push_bit 8 (unat (len AND 0x3F)) OR unat b2
                  in if length packet \<le> ptr \<or> pos \<le> ptr then Inl BadPointer
                     else read_name_loop packet labels ptr resume_at (jumps + 1)))
          else if len AND 0xC0 \<noteq> 0 then Inl BadPointer
          else
            (let lstart = pos + 1; lend = lstart + unat len in
             case get_range packet lstart lend of
               None \<Rightarrow> Inl Truncated
             | Some b \<Rightarrow> read_name_loop packet (labels @ [lossy b]) lend resume_at jumps)))"
  by (subst read_name_from.simps) (simp add: read_name_step_def Let_def split: option.split)

definition read_name :: "bytes \<Rightarrow> nat \<Rightarrow> DnsError + string \<times> nat" where
  "read_name packet start = read_name_loop packet [] start None 0"

definition read_u16 :: "bytes \<Rightarrow> nat \<Rightarrow> DnsError + u16" where
  "read_u16 packet pos =
     res_bind (ok_or Truncated (get_range packet pos (pos + 2))) (\<lambda>b. Inr (of_be16 (b ! 0) (b ! 1)))"

fun skip_questions :: "bytes \<Rightarrow> nat \<Rightarrow> nat \<Rightarrow> DnsError + nat" where
  "skip_questions packet 0 pos = Inr pos"
| "skip_questions packet (Suc n) pos =
     res_bind (read_name packet pos) (\<lambda>(_, next').
       let pos = next' + 4 in
       if length packet < pos then Inl Truncated else skip_questions packet n pos)"

definition read_answer :: "bytes \<Rightarrow> nat \<Rightarrow> DnsError + ResourceRecord \<times> nat" where
  "read_answer packet pos =
     res_bind (read_name packet pos) (\<lambda>(name, pos).
     res_bind (read_u16 packet pos) (\<lambda>rtype. let pos = pos + 2 in
     res_bind (read_u16 packet pos) (\<lambda>_. let pos = pos + 2 in
     res_bind (ok_or Truncated (get_range packet pos (pos + 4))) (\<lambda>_. let pos = pos + 4 in
     res_bind (read_u16 packet pos) (\<lambda>rdlength. let pos = pos + 2 in
     res_bind (ok_or Truncated (get_range packet pos (pos + unat rdlength))) (\<lambda>rdata.
       Inr (\<lparr> rr_name = name, rr_rtype = rtype, rr_rdata = rdata, rr_rdata_offset = pos \<rparr>,
            pos + unat rdlength)))))))"

fun read_answers :: "bytes \<Rightarrow> nat \<Rightarrow> nat \<Rightarrow> DnsError + ResourceRecord list" where
  "read_answers packet 0 pos = Inr []"
| "read_answers packet (Suc n) pos =
     res_bind (read_answer packet pos) (\<lambda>(rr, pos).
     res_bind (read_answers packet n pos) (\<lambda>rrs. Inr (rr # rrs)))"

definition parse_response :: "bytes \<Rightarrow> DnsError + DnsMessage" where
  "parse_response packet =
     (if length packet < 12 then Inl Truncated
      else
        res_bind (read_u16 packet 0) (\<lambda>id.
        res_bind (read_u16 packet 2) (\<lambda>flags.
        let rcode = (ucast (flags AND 0x000F) :: u8) in
        res_bind (read_u16 packet 4) (\<lambda>qdcount.
        res_bind (read_u16 packet 6) (\<lambda>ancount.
        res_bind (skip_questions packet (unat qdcount) 12) (\<lambda>pos.
          if rcode \<noteq> 0 then Inr \<lparr> dm_id = id, dm_rcode = rcode, dm_answers = [] \<rparr>
          else
            res_bind (read_answers packet (unat ancount) pos) (\<lambda>answers.
              Inr \<lparr> dm_id = id, dm_rcode = rcode, dm_answers = answers \<rparr>)))))))"

section \<open>Record data\<close>

definition parse_mx_rdata :: "bytes \<Rightarrow> ResourceRecord \<Rightarrow> DnsError + u16 \<times> string" where
  "parse_mx_rdata packet rr =
     (if length (rr_rdata rr) < 3 then Inl Truncated
      else
        (let preference = of_be16 (rr_rdata rr ! 0) (rr_rdata rr ! 1) in
         res_bind (read_name packet (rr_rdata_offset rr + 2)) (\<lambda>(exchange, _).
           Inr (preference, exchange))))"

definition parse_a_rdata :: "ResourceRecord \<Rightarrow> 32 word option" where
  "parse_a_rdata rr = (if length (rr_rdata rr) = 4 then Some (word_rcat (rr_rdata rr)) else None)"

definition parse_aaaa_rdata :: "ResourceRecord \<Rightarrow> 128 word option" where
  "parse_aaaa_rdata rr = (if length (rr_rdata rr) = 16 then Some (word_rcat (rr_rdata rr)) else None)"

function txt_strings :: "bytes \<Rightarrow> string" where
  "txt_strings [] = []"
| "txt_strings (len # rest) =
     (if length rest < unat len then []
      else lossy (take (unat len) rest) @ txt_strings (drop (unat len) rest))"
  by pat_completeness auto
termination by (relation "measure length") auto

definition parse_txt_rdata :: "ResourceRecord \<Rightarrow> string" where
  "parse_txt_rdata rr = txt_strings (rr_rdata rr)"

section \<open>The client\<close>

datatype 'e QueryError = QIdn IdnError | QIo 'e | QInvalidData DnsError

record 'e UdpDnsClient =
  uc_idna :: "string \<Rightarrow> string + string"
  uc_random_txn_id :: "'e + u16"
  uc_exchange :: "bytes \<Rightarrow> 'e + bytes"

definition query_raw :: "'e UdpDnsClient \<Rightarrow> string \<Rightarrow> u16 \<Rightarrow> 'e QueryError + bytes \<times> DnsMessage" where
  "query_raw c qname qtype =
     res_bind (map_err QIdn (domain_to_ascii (uc_idna c) qname)) (\<lambda>qname.
     res_bind (map_err QIo (uc_random_txn_id c)) (\<lambda>id.
     res_bind (map_err QIo (uc_exchange c (encode_query id qname qtype))) (\<lambda>datagram.
       let packet = take 4096 datagram in
       res_bind (map_err QInvalidData (parse_response packet)) (\<lambda>msg. Inr (packet, msg)))))"

definition query :: "'e UdpDnsClient \<Rightarrow> string \<Rightarrow> u16 \<Rightarrow> 'e QueryError + DnsMessage" where
  "query c qname qtype = res_bind (query_raw c qname qtype) (\<lambda>(_, msg). Inr msg)"

section \<open>Names read back\<close>

lemma label_len_bits: "n \<le> 63 \<Longrightarrow> (of_nat n :: u8) AND 0xC0 = 0"
proof -
  have "\<forall>n \<in> set [0..<64]. (of_nat n :: u8) AND 0xC0 = 0" by code_simp
  moreover assume "n \<le> 63"
  ultimately show ?thesis by simp
qed

definition good_label :: "string \<Rightarrow> bool" where
  "good_label l = (l \<noteq> [] \<and> length l \<le> 63 \<and> ascii_str l)"

lemma good_label_len:
  assumes "good_label l"
  shows "(of_nat (length l) :: u8) \<noteq> 0" "unat (of_nat (length l) :: u8) = length l"
proof -
  show u: "unat (of_nat (length l) :: u8) = length l"
    using assms by (simp add: good_label_def unsigned_of_nat take_bit_nat_eq_self)
  show "(of_nat (length l) :: u8) \<noteq> 0"
  proof
    assume "(of_nat (length l) :: u8) = 0"
    then have "unat (of_nat (length l) :: u8) = 0" by simp
    with u assms show False by (simp add: good_label_def)
  qed
qed

lemma encode_good_label: "good_label l \<Longrightarrow> encode_label l = of_nat (length l) # str_bytes l"
  by (simp add: encode_label_def good_label_def)

lemma read_good_label:
  assumes "good_label l" "jumps \<le> 32"
  shows "read_name_loop (pre @ encode_label l @ post) acc (length pre) resume_at jumps
         = read_name_loop (pre @ encode_label l @ post) (acc @ [l]) (length pre + length (encode_label l)) resume_at jumps"
proof -
  have r: "get_range (pre @ encode_label l @ post) (length pre + 1) (length pre + 1 + length l) = Some (str_bytes l)"
    using get_range_append [of pre "encode_label l @ post" 1 "1 + length l"]
    by (simp add: encode_good_label [OF assms(1)] get_range_prefix)
  have "lossy (str_bytes l) = l" using assms(1) by (simp add: good_label_def lossy_ascii)
  with r show ?thesis using good_label_len [OF assms(1)] assms
    by (subst read_name_loop_unfold)
       (simp add: encode_good_label label_len_bits good_label_def del: get_range_append)
qed

lemma read_labels:
  assumes "list_all good_label ls" "jumps \<le> 32"
  shows "read_name_loop (pre @ concat (map encode_label ls) @ 0 # post) acc (length pre) resume_at jumps
         = Inr (join ''.'' (acc @ ls),
                case resume_at of None \<Rightarrow> length pre + length (concat (map encode_label ls)) + 1 | Some r \<Rightarrow> r)"
  using assms(1)
proof (induction ls arbitrary: pre acc)
  case Nil
  show ?case using assms(2)
    by (subst read_name_loop_unfold) (simp add: set_resume_def split: option.splits)
next
  case (Cons l ls)
  have "read_name_loop (pre @ encode_label l @ concat (map encode_label ls) @ 0 # post) acc (length pre) resume_at jumps
      = read_name_loop ((pre @ encode_label l) @ concat (map encode_label ls) @ 0 # post) (acc @ [l])
          (length (pre @ encode_label l)) resume_at jumps"
    using read_good_label [of l jumps pre "concat (map encode_label ls) @ 0 # post"] Cons.prems assms(2) by simp
  also have "\<dots> = Inr (join ''.'' ((acc @ [l]) @ ls),
      case resume_at of None \<Rightarrow> length (pre @ encode_label l) + length (concat (map encode_label ls)) + 1 | Some r \<Rightarrow> r)"
    by (rule Cons.IH) (use Cons.prems in simp)
  finally show ?case by (simp add: add.assoc cong: option.case_cong)
qed

text \<open>The names the client may ask for: ASCII labels of at most 63 octets.\<close>

definition good_name :: "string \<Rightarrow> bool" where
  "good_name name = list_all good_label (dns_labels name)"

lemma read_encoded_name:
  assumes "good_name name"
  shows "read_name (pre @ encode_name name @ post) (length pre)
         = Inr (join ''.'' (dns_labels name), length pre + length (encode_name name))"
  using read_labels [of "dns_labels name" 0 pre post "[]" None] assms
  by (simp add: read_name_def encode_name_def good_name_def)

section \<open>What a message says\<close>

text \<open>
  The format of RFC 1035, read off a packet without reference to the decoder. \<open>name_at\<close>: a name stands
  at a position, given by its labels as octets, and its field ends at the next position; a name ends
  with the root, or with a pointer to a name that stands before it. The number counts the pointers on
  the way. Records and questions follow one another; what stands after the answers is not constrained.
\<close>

inductive name_at :: "bytes \<Rightarrow> nat \<Rightarrow> bytes list \<Rightarrow> nat \<Rightarrow> nat \<Rightarrow> bool" for packet where
  name_root: "get_at packet pos = Some 0 \<Longrightarrow> name_at packet pos [] (pos + 1) 0"
| name_label: "get_at packet pos = Some (of_nat (length l)) \<Longrightarrow> 1 \<le> length l \<Longrightarrow> length l \<le> 63 \<Longrightarrow>
    get_range packet (pos + 1) (pos + 1 + length l) = Some l \<Longrightarrow>
    name_at packet (pos + 1 + length l) ls nxt j \<Longrightarrow> name_at packet pos (l # ls) nxt j"
| name_pointer: "get_at packet pos = Some (0xC0 OR hi) \<Longrightarrow> hi < 64 \<Longrightarrow> get_at packet (pos + 1) = Some lo \<Longrightarrow>
    256 * unat hi + unat lo < pos \<Longrightarrow> name_at packet (256 * unat hi + unat lo) ls nxt j \<Longrightarrow>
    name_at packet pos ls (pos + 2) (Suc j)"

definition name_text :: "bytes list \<Rightarrow> string" where
  "name_text labels = join ''.'' (map lossy labels)"

definition MAX_POINTERS :: nat where
  "MAX_POINTERS = 32"

definition record_at :: "bytes \<Rightarrow> nat \<Rightarrow> ResourceRecord \<Rightarrow> nat \<Rightarrow> bool" where
  "record_at packet pos rr nxt \<longleftrightarrow>
     (\<exists>owner p j cls ttl len.
        name_at packet pos owner p j \<and> j \<le> MAX_POINTERS \<and> rr_name rr = name_text owner
      \<and> get_range packet p (p + 2) = Some (be16 (rr_rtype rr))
      \<and> get_range packet (p + 2) (p + 2 + 2) = Some (be16 cls)
      \<and> get_range packet (p + 2 + 2) (p + 2 + 2 + 4) = Some ttl
      \<and> get_range packet (p + 2 + 2 + 4) (p + 2 + 2 + 4 + 2) = Some (be16 len)
      \<and> rr_rdata_offset rr = p + 2 + 2 + 4 + 2
      \<and> get_range packet (rr_rdata_offset rr) (rr_rdata_offset rr + unat len) = Some (rr_rdata rr)
      \<and> nxt = rr_rdata_offset rr + unat len)"

inductive records_at :: "bytes \<Rightarrow> nat \<Rightarrow> ResourceRecord list \<Rightarrow> bool" for packet where
  records_none: "records_at packet pos []"
| records_one: "record_at packet pos rr nxt \<Longrightarrow> records_at packet nxt rrs \<Longrightarrow> records_at packet pos (rr # rrs)"

inductive questions_at :: "bytes \<Rightarrow> nat \<Rightarrow> nat \<Rightarrow> nat \<Rightarrow> bool" for packet where
  questions_none: "questions_at packet pos 0 pos"
| questions_one: "name_at packet pos q p j \<Longrightarrow> j \<le> MAX_POINTERS \<Longrightarrow> p + 4 \<le> length packet \<Longrightarrow>
    questions_at packet (p + 4) n nxt \<Longrightarrow> questions_at packet pos (Suc n) nxt"

definition answers_with :: "bytes \<Rightarrow> u16 \<Rightarrow> ResourceRecord list \<Rightarrow> bool" where
  "answers_with packet txn rrs \<longleftrightarrow>
     (\<exists>flags qdcount pos.
        12 \<le> length packet \<and> get_range packet 0 2 = Some (be16 txn)
      \<and> get_range packet 2 4 = Some (be16 flags) \<and> flags AND 0x000F = 0
      \<and> get_range packet 4 6 = Some (be16 qdcount)
      \<and> get_range packet 6 8 = Some (be16 (of_nat (length rrs))) \<and> length rrs < 65536
      \<and> questions_at packet 12 (unat qdcount) pos \<and> records_at packet pos rrs)"

lemma pointer_bits:
  assumes "(hi :: u8) < 64"
  shows "((0xC0 :: u8) OR hi) AND 0xC0 = 0xC0 \<and> ((0xC0 :: u8) OR hi) AND 0x3F = hi"
proof -
  have "\<forall>n \<in> set [0..<64]. ((0xC0 :: u8) OR of_nat n) AND 0xC0 = 0xC0 \<and> ((0xC0 :: u8) OR of_nat n) AND 0x3F = of_nat n" by code_simp
  moreover have "unat hi \<in> set [0..<64]" using assms by (simp add: word_less_nat_alt)
  ultimately have "((0xC0 :: u8) OR of_nat (unat hi)) AND 0xC0 = 0xC0 \<and> ((0xC0 :: u8) OR of_nat (unat hi)) AND 0x3F = of_nat (unat hi)"
    by blast
  then show ?thesis by simp
qed

lemma push_bit_or_low:
  assumes "b < 256"
  shows "push_bit 8 a OR b = 256 * a + (b :: nat)"
proof -
  have b: "take_bit 8 b = b" using assms by (simp add: take_bit_nat_eq_self)
  have "push_bit 8 a + b = push_bit 8 a OR b"
    by (rule disjunctive_add) (metis b bit_push_bit_iff_nat bit_take_bit_iff not_le)
  then show ?thesis by (simp add: push_bit_eq_mult)
qed

text \<open>The decoder reads every name the format allows, as long as it has at most 32 pointers.\<close>

lemma read_name_at:
  "name_at packet pos ls nxt j \<Longrightarrow> jumps + j \<le> 32 \<Longrightarrow>
   read_name_loop packet acc pos resume_at jumps
   = Inr (join ''.'' (acc @ map lossy ls), case resume_at of None \<Rightarrow> nxt | Some r \<Rightarrow> r)"
proof (induction arbitrary: acc resume_at jumps rule: name_at.induct)
  case (name_root pos)
  then show ?case by (subst read_name_loop_unfold) (simp add: set_resume_def split: option.splits)
next
  case (name_label pos l ls nxt j)
  have len: "unat (of_nat (length l) :: u8) = length l"
    using name_label.hyps(3) by (simp add: unsigned_of_nat take_bit_nat_eq_self)
  then have nz: "(of_nat (length l) :: u8) \<noteq> 0" using name_label.hyps(2) by (metis not_one_le_zero unsigned_0)
  have "read_name_loop packet acc pos resume_at jumps
      = read_name_loop packet (acc @ [lossy l]) (pos + 1 + length l) resume_at jumps"
    using name_label.hyps(1,4) name_label.prems nz len label_len_bits [OF name_label.hyps(3)]
    by (subst read_name_loop_unfold) (simp add: Let_def)
  then show ?case using name_label.IH [OF name_label.prems] by simp
next
  case (name_pointer pos hi lo ls nxt j)
  let ?t = "256 * unat hi + unat lo"
  note bits = pointer_bits [OF name_pointer.hyps(2)]
  have t: "push_bit 8 (unat (((0xC0 :: u8) OR hi) AND 0x3F)) OR unat lo = ?t"
    using bits push_bit_or_low [of "unat lo" "unat hi"] unat_lt_pow [of lo] by simp
  have nz: "(0xC0 :: u8) OR hi \<noteq> 0" using bits by auto
  have lt: "?t < length packet" "pos < length packet"
    using name_pointer.hyps(1,4) by (auto simp: get_at_def split: if_splits)
  have "read_name_loop packet acc pos resume_at jumps
      = read_name_loop packet acc ?t (set_resume resume_at (pos + 2)) (jumps + 1)"
    using name_pointer.hyps(1,3,4) name_pointer.prems nz bits t lt
    by (subst read_name_loop_unfold) (simp add: Let_def)
  then show ?case using name_pointer.IH [of "jumps + 1" acc "set_resume resume_at (pos + 2)"] name_pointer.prems
    by (simp add: set_resume_def split: option.splits)
qed

lemma read_name_allowed: "name_at packet pos ls nxt j \<Longrightarrow> j \<le> MAX_POINTERS \<Longrightarrow> read_name packet pos = Inr (name_text ls, nxt)"
  using read_name_at [of packet pos ls nxt j 0 "[]" None] by (simp add: read_name_def name_text_def MAX_POINTERS_def)

lemma read_u16_allowed: "get_range packet pos m = Some (be16 w) \<Longrightarrow> m = pos + 2 \<Longrightarrow> read_u16 packet pos = Inr w"
  by (simp add: read_u16_def be16_def of_be16_be16)

lemma read_answer_allowed: "record_at packet pos rr nxt \<Longrightarrow> read_answer packet pos = Inr (rr, nxt)"
proof -
  assume "record_at packet pos rr nxt"
  then obtain owner p j cls ttl len where r: "name_at packet pos owner p j" "j \<le> MAX_POINTERS" "rr_name rr = name_text owner"
    "get_range packet p (p + 2) = Some (be16 (rr_rtype rr))" "get_range packet (p + 2) (p + 2 + 2) = Some (be16 cls)"
    "get_range packet (p + 2 + 2) (p + 2 + 2 + 4) = Some ttl" "get_range packet (p + 2 + 2 + 4) (p + 2 + 2 + 4 + 2) = Some (be16 len)"
    "rr_rdata_offset rr = p + 2 + 2 + 4 + 2"
    "get_range packet (p + 2 + 2 + 4 + 2) (p + 2 + 2 + 4 + 2 + unat len) = Some (rr_rdata rr)"
    "nxt = p + 2 + 2 + 4 + 2 + unat len"
    unfolding record_at_def by metis
  have "\<lparr> rr_name = name_text owner, rr_rtype = rr_rtype rr, rr_rdata = rr_rdata rr, rr_rdata_offset = p + 2 + 2 + 4 + 2 \<rparr> = rr"
    using r(3,8) by simp
  then show ?thesis
    by (simp only: read_answer_def read_name_allowed [OF r(1,2)] read_u16_allowed [OF r(4) refl] read_u16_allowed [OF r(5) refl]
        read_u16_allowed [OF r(7) refl] r(6,9,10) Let_def res_bind_simps ok_or_simps prod.case)
qed

lemma read_answers_allowed: "records_at packet pos rrs \<Longrightarrow> read_answers packet (length rrs) pos = Inr rrs"
  by (induction rule: records_at.induct) (simp_all add: read_answer_allowed)

lemma skip_questions_allowed: "questions_at packet pos n nxt \<Longrightarrow> skip_questions packet n pos = Inr nxt"
  by (induction rule: questions_at.induct) (simp_all add: read_name_allowed Let_def)

lemma unat_of_nat_u16: "n < 65536 \<Longrightarrow> unat (of_nat n :: u16) = n"
  by (simp add: unsigned_of_nat take_bit_nat_eq_self)

text \<open>A message of the format without an error code is read whole: its number and its answers, in order.\<close>

lemma parse_response_complete:
  assumes "answers_with packet txn rrs"
  shows "parse_response packet = Inr \<lparr> dm_id = txn, dm_rcode = 0, dm_answers = rrs \<rparr>"
proof -
  obtain flags qdcount pos where r: "12 \<le> length packet" "get_range packet 0 2 = Some (be16 txn)"
    "get_range packet 2 4 = Some (be16 flags)" "flags AND 0x000F = 0" "get_range packet 4 6 = Some (be16 qdcount)"
    "get_range packet 6 8 = Some (be16 (of_nat (length rrs)))" "length rrs < 65536"
    "questions_at packet 12 (unat qdcount) pos" "records_at packet pos rrs"
    using assms unfolding answers_with_def by blast
  show ?thesis using r(1)
    by (simp add: parse_response_def read_u16_allowed [OF r(2)] read_u16_allowed [OF r(3)] read_u16_allowed [OF r(5)]
        read_u16_allowed [OF r(6)] r(4) skip_questions_allowed [OF r(8)] unat_of_nat_u16 [OF r(7)] read_answers_allowed [OF r(9)])
qed

lemma map_filter_rel: "list_all2 (\<lambda>x y. f x = Some y) xs ys \<Longrightarrow> List.map_filter f xs = ys"
  by (induction xs ys rule: list_all2_induct) (simp_all add: List.map_filter_def)

section \<open>The name decoder always returns\<close>

text \<open>A number of iterations of the loop, none when they do not suffice.\<close>

fun name_run :: "bytes \<Rightarrow> nat \<Rightarrow> NameCursor \<Rightarrow> (DnsError + string \<times> nat) option" where
  "name_run packet 0 c = None"
| "name_run packet (Suc n) c =
     (case read_name_step packet c of Inl r \<Rightarrow> Some r | Inr c' \<Rightarrow> name_run packet n c')"

lemma name_run_enough: "cursor_work packet c < n \<Longrightarrow> name_run packet n c = Some (read_name_from packet c)"
proof (induction n arbitrary: c)
  case 0
  then show ?case by simp
next
  case (Suc n)
  show ?case
  proof (cases "read_name_step packet c")
    case (Inl r)
    then show ?thesis by (simp add: read_name_from.simps)
  next
    case (Inr c')
    then have "cursor_work packet c' < n" using read_name_step_work [OF Inr] Suc.prems by linarith
    with Inr Suc.IH show ?thesis by (simp add: read_name_from.simps)
  qed
qed

text \<open>
  (C31) Decoding a name from any packet, however its compression pointers lie, ends after at most 34
  iterations per octet of the packet, one octet more counted, and returns what \<open>read_name\<close> returns.
\<close>

theorem read_name_terminates:
  "name_run packet (34 * (length packet + 1)) ([], start, None, 0) = Some (read_name packet start)"
  unfolding read_name_def by (rule name_run_enough) (simp add: cursor_work_def)

lemma read_name_from_bounds:
  "read_name_from packet c = Inr (name, nxt) \<Longrightarrow>
   (case c of (labels, pos, resume_at, jumps) \<Rightarrow>
      (case resume_at of Some r \<Rightarrow> nxt = r | None \<Rightarrow> pos < nxt \<and> nxt \<le> length packet))"
proof (induction packet c rule: read_name_from.induct)
  case (1 packet c)
  obtain labels pos resume_at jumps where c: "c = (labels, pos, resume_at, jumps)" by (cases c) auto
  show ?case
  proof (cases "read_name_step packet c")
    case (Inl r)
    with "1.prems" have "r = Inr (name, nxt)" by (simp add: read_name_from.simps)
    with Inl show ?thesis
      by (auto simp: read_name_step_def c set_resume_def get_at_def Let_def split: if_splits option.splits)
  next
    case (Inr c')
    with "1.prems" have "read_name_from packet c' = Inr (name, nxt)"
      by (subst (asm) read_name_from.simps) simp
    note IH = "1.IH" [OF Inr this]
    show ?thesis using Inr IH
      by (auto simp: read_name_step_def c set_resume_def get_at_def Let_def split: if_splits option.splits)
  qed
qed

text \<open>Sequential parsing always moves forward and stays inside the packet.\<close>

lemma read_name_bounds: "read_name packet start = Inr (name, nxt) \<Longrightarrow> start < nxt \<and> nxt \<le> length packet"
  unfolding read_name_def by (drule read_name_from_bounds) simp

lemma read_u16_bounds: "read_u16 packet pos = Inr w \<Longrightarrow> pos + 2 \<le> length packet"
  by (auto simp: read_u16_def res_simps get_range_def split: if_splits)

lemma read_answer_bounds:
  assumes "read_answer packet pos = Inr (rr, nxt)"
  shows "pos + 11 \<le> rr_rdata_offset rr \<and> nxt = rr_rdata_offset rr + length (rr_rdata rr)
    \<and> nxt \<le> length packet \<and> get_range packet (rr_rdata_offset rr) nxt = Some (rr_rdata rr)"
proof -
  obtain name p rdlength where "read_name packet pos = Inr (name, p)"
    and "get_range packet (p + 10) (p + 10 + unat rdlength) = Some (rr_rdata rr)"
    and "rr_rdata_offset rr = p + 10" "nxt = p + 10 + unat (rdlength :: u16)"
    using assms by (auto simp: read_answer_def res_simps Let_def case_prod_beta eval_nat_numeral)
  with read_name_bounds show ?thesis using get_range_length by fastforce
qed

lemma read_answers_bounds:
  "read_answers packet n pos = Inr rrs \<Longrightarrow>
   length rrs = n \<and> list_all (\<lambda>rr. get_range packet (rr_rdata_offset rr)
     (rr_rdata_offset rr + length (rr_rdata rr)) = Some (rr_rdata rr)) rrs"
proof (induction n arbitrary: pos rrs)
  case 0
  then show ?case by simp
next
  case (Suc n)
  then obtain rr nxt rest where "read_answer packet pos = Inr (rr, nxt)"
    and "read_answers packet n nxt = Inr rest" "rrs = rr # rest"
    by (auto simp: res_simps)
  with Suc.IH [of nxt rest] read_answer_bounds [of packet pos rr nxt] show ?case by auto
qed

text \<open>
  Whatever a server sends, an accepted response has exactly the answers its header counts (none
  with an error code), and the data of each is the part of the packet at its offset.
\<close>

lemma parse_response_sound:
  assumes "parse_response packet = Inr msg"
  shows "12 \<le> length packet
    \<and> (if dm_rcode msg = 0
       then read_u16 packet 6 = Inr (of_nat (length (dm_answers msg))) \<and> length (dm_answers msg) < 65536
       else dm_answers msg = [])
    \<and> list_all (\<lambda>rr. get_range packet (rr_rdata_offset rr) (rr_rdata_offset rr + length (rr_rdata rr))
                     = Some (rr_rdata rr)) (dm_answers msg)"
proof -
  obtain ancount pos where len: "12 \<le> length packet" and an: "read_u16 packet 6 = Inr ancount"
    and msg: "(if dm_rcode msg = 0 then read_answers packet (unat ancount) pos = Inr (dm_answers msg)
               else dm_answers msg = [])"
    using assms by (auto simp: parse_response_def res_simps Let_def split: if_splits)
  show ?thesis
  proof (cases "dm_rcode msg = 0")
    case True
    with msg have r: "read_answers packet (unat ancount) pos = Inr (dm_answers msg)" by simp
    from read_answers_bounds [OF r] show ?thesis using True len an unat_lt_pow [of ancount] by simp
  next
    case False
    with msg len show ?thesis by simp
  qed
qed

text \<open>
  A reply of a server for the name \<open>a.b\<close>: the question, one address record whose owner is a pointer to
  the question, and an additional record that nobody asked for.
\<close>

definition sample_packet :: bytes where
  "sample_packet =
     [0, 7, 0x81, 0x80, 0, 1, 0, 1, 0, 0, 0, 1,
      1, 97, 1, 98, 0, 0, 1, 0, 1,
      0xC0, 12, 0, 1, 0, 1, 0, 0, 0, 60, 0, 4, 10, 0, 0, 1,
      0, 0, 41, 4, 208, 0, 0, 0, 0, 0, 0]"

lemma sample_parse:
  "parse_response sample_packet = Inr \<lparr> dm_id = 7, dm_rcode = 0, dm_answers =
     [\<lparr> rr_name = ''a.b'', rr_rtype = TYPE_A, rr_rdata = [10, 0, 0, 1], rr_rdata_offset = 33 \<rparr>] \<rparr>"
  by code_simp

lemma parse_response_sound_witness:
  "12 \<le> length sample_packet \<and> read_u16 sample_packet 6 = Inr 1"
  using parse_response_sound [OF sample_parse] by simp

section \<open>Queries\<close>

lemma split_on_not_Nil [simp]: "split_on c s \<noteq> []"
  by (cases s) (auto split: list.splits)

lemma split_on_snoc: "split_on c (s @ [c]) = split_on c s @ [[]]"
  by (induction s) (auto split: list.splits)

lemma dns_labels_dot: "dns_labels (s @ ''.'') = dns_labels s"
  by (simp add: dns_labels_def trim_end_matches_def trim_end_while_def)

lemma dns_labels_eq: "dns_labels s = filter (\<lambda>l. l \<noteq> []) (split_on CHR ''.'' s)"
proof (induction s rule: rev_induct)
  case Nil
  then show ?case by (simp add: dns_labels_def trim_end_matches_def trim_end_while_def)
next
  case (snoc x xs)
  show ?case
  proof (cases "x = CHR ''.''")
    case True
    with snoc dns_labels_dot [of xs] show ?thesis by (simp add: split_on_snoc)
  next
    case False
    then show ?thesis by (simp add: dns_labels_def trim_end_matches_def trim_end_while_def)
  qed
qed

lemma strip_suffix_Some: "strip_suffix p s = Some b \<longleftrightarrow> s = b @ p"
proof -
  have "rev (drop (length p) (rev s)) @ p = s" if "take (length p) (rev s) = rev p"
    using that append_take_drop_id [of "length p" "rev s"] by (metis rev_append rev_rev_ident)
  then show ?thesis by (auto simp: strip_suffix_def strip_prefix_def starts_with_def)
qed

text \<open>The pieces of a split keep what holds of every character.\<close>

lemma split_on_all: "list_all P s \<Longrightarrow> l \<in> set (split_on c s) \<Longrightarrow> list_all P l"
proof (induction s arbitrary: l)
  case Nil
  then show ?case by simp
next
  case (Cons x xs)
  then show ?case by (cases "split_on c xs") (auto split: if_splits)
qed

text \<open>A converted name is one the encoder sends whole: the clamp to 63 octets never cuts a label.\<close>

lemma domain_to_ascii_good:
  assumes "domain_to_ascii idna d = Inr q" "ascii_str q"
  shows "good_name q"
proof -
  obtain bare where b: "q = bare \<or> q = bare @ ''.''"
    and len: "list_all (\<lambda>l. length l \<le> 63) (split_on CHR ''.'' bare)"
    using assms(1)
    by (auto simp: domain_to_ascii_def res_simps Let_def strip_suffix_Some find_None_iff list_all_iff not_less
        split: if_splits option.splits)
  have "dns_labels q = filter (\<lambda>l. l \<noteq> []) (split_on CHR ''.'' bare)"
    using b dns_labels_dot [of bare] dns_labels_eq [of bare] by auto
  moreover have "ascii_str bare" using b assms(2) by (auto simp: ascii_str_def)
  moreover from this have "ascii_str l" if "l \<in> set (split_on CHR ''.'' bare)" for l
    using split_on_all [OF _ that] by (simp add: ascii_str_def)
  ultimately show ?thesis using len by (auto simp: good_name_def good_label_def list_all_iff)
qed

text \<open>
  What a lookup rests on: the name converts to ASCII, the random source returns, and the exchange of
  the query returns a datagram the buffer holds.
\<close>

definition exchanged :: "'e UdpDnsClient \<Rightarrow> u16 \<Rightarrow> string \<Rightarrow> string \<Rightarrow> u16 \<Rightarrow> bytes \<Rightarrow> bool" where
  "exchanged c txn name q t datagram \<longleftrightarrow>
     domain_to_ascii (uc_idna c) name = Inr q \<and> uc_random_txn_id c = Inr txn
   \<and> uc_exchange c (encode_query txn q t) = Inr datagram \<and> length datagram \<le> 4096"

lemma query_raw_exchanged:
  assumes "exchanged c txn name q t datagram" "answers_with datagram rid rrs"
  shows "query_raw c name t = Inr (datagram, \<lparr> dm_id = rid, dm_rcode = 0, dm_answers = rrs \<rparr>)"
  using assms parse_response_complete [OF assms(2)] by (simp add: query_raw_def exchanged_def)

text \<open>
  The client accepts a reply under any transaction number: a datagram that answers the question
  with a number other than the one the query carried is parsed and its records are returned. The
  random number does not tell a forged answer from the server's.
\<close>

lemma dns_reply_id_unchecked:
  assumes "exchanged c txn name q t datagram" "answers_with datagram rid rrs" "rid \<noteq> txn"
  shows "\<exists>msg. query c name t = Inr msg \<and> dm_id msg \<noteq> txn \<and> dm_answers msg = rrs"
  using query_raw_exchanged [OF assms(1,2)] assms(3) by (simp add: query_def)

end
