(* ===== verification/Gateway_Mx.thy ===== *)
theory Gateway_Mx
  imports Gateway_Dns
begin

text \<open>
  Resolution of mail exchangers (\<open>crates/pier-gateway/src/mx.rs\<close>): the in-memory resolver and the
  one over the DNS client. The results of both are ordered by preference; without records the domain
  itself is the only host.
\<close>

section \<open>Definitions\<close>

record MxHost =
  mh_host :: string
  mh_preference :: u16

type_synonym MxResolver = "string \<Rightarrow> MxHost list"

type_synonym InMemoryMxResolver = "(string \<times> MxHost list) list"

definition mx_new :: InMemoryMxResolver where
  "mx_new = []"

definition mx_with_mx :: "InMemoryMxResolver \<Rightarrow> string \<Rightarrow> (string \<times> u16) list \<Rightarrow> InMemoryMxResolver" where
  "mx_with_mx r domain hosts =
     (let entries = map (\<lambda>(h, p). \<lparr> mh_host = h, mh_preference = p \<rparr>) hosts
      in al_insert (to_ascii_lowercase domain) entries r)"

definition in_memory_resolve_mx :: "InMemoryMxResolver \<Rightarrow> MxResolver" where
  "in_memory_resolve_mx r domain =
     (case map_of r (to_ascii_lowercase domain) of
        Some hosts \<Rightarrow> if hosts \<noteq> [] then sort_key mh_preference hosts
                      else [\<lparr> mh_host = domain, mh_preference = 0 \<rparr>]
      | None \<Rightarrow> [\<lparr> mh_host = domain, mh_preference = 0 \<rparr>])"

definition mx_of_answer :: "bytes \<Rightarrow> ResourceRecord \<Rightarrow> MxHost option" where
  "mx_of_answer packet rr =
     (case parse_mx_rdata packet rr of
        Inr (pref, host) \<Rightarrow> Some \<lparr> mh_host = host, mh_preference = pref \<rparr>
      | Inl _ \<Rightarrow> None)"

definition dns_resolve_mx :: "'e UdpDnsClient \<Rightarrow> MxResolver" where
  "dns_resolve_mx c domain =
     (let domain = (case domain_to_ascii (uc_idna c) domain of Inr d \<Rightarrow> d | Inl _ \<Rightarrow> domain);
          fallback = [\<lparr> mh_host = domain, mh_preference = 0 \<rparr>]
      in case query_raw c domain TYPE_MX of
           Inl _ \<Rightarrow> fallback
         | Inr (packet, msg) \<Rightarrow>
             (let hosts = List.map_filter (mx_of_answer packet)
                            (filter (\<lambda>rr. rr_rtype rr = TYPE_MX) (dm_answers msg))
              in sort_key mh_preference (if hosts = [] then fallback else hosts)))"

section \<open>The contract of a resolver\<close>

text \<open>
  A sender tries the hosts in the order it is given: there is at least one, and lower preferences
  come first.
\<close>

locale mx_resolver =
  fixes resolve :: MxResolver
  assumes resolve_some: "resolve domain \<noteq> []"
    and resolve_sorted: "sorted (map mh_preference (resolve domain))"
begin

lemma first_is_best: "h \<in> set (resolve domain) \<Longrightarrow> mh_preference (hd (resolve domain)) \<le> mh_preference h"
  using resolve_sorted [of domain] by (cases "resolve domain") auto

text \<open>The first host of any filtered list is still the best of those the filter keeps.\<close>

lemma first_eligible_is_best:
  assumes "filter P (resolve domain) = h # rest"
  shows "P h \<and> h \<in> set (resolve domain)
    \<and> (\<forall>g \<in> set (resolve domain). P g \<longrightarrow> mh_preference h \<le> mh_preference g)"
proof -
  have "sorted (map mh_preference (h # rest))"
    using resolve_sorted [of domain] unfolding assms [symmetric] by (rule sorted_filter)
  moreover have "set (h # rest) = {x \<in> set (resolve domain). P x}" unfolding assms [symmetric] by simp
  ultimately show ?thesis by auto
qed

end

lemma sort_key_Nil_iff [simp]: "sort_key f xs = [] \<longleftrightarrow> xs = []"
proof -
  have "length (sort_key f xs) = 0 \<longleftrightarrow> length xs = 0" by (simp only: length_sort)
  then show ?thesis by (simp only: length_0_conv)
qed

lemma in_memory_mx_laws:
  "in_memory_resolve_mx r domain \<noteq> [] \<and> sorted (map mh_preference (in_memory_resolve_mx r domain))"
  by (simp add: in_memory_resolve_mx_def split: option.splits)

lemma dns_mx_laws: "dns_resolve_mx c domain \<noteq> [] \<and> sorted (map mh_preference (dns_resolve_mx c domain))"
  by (auto simp: dns_resolve_mx_def Let_def split: sum.splits prod.splits)

interpretation memory_mx: mx_resolver "in_memory_resolve_mx r" for r
  by unfold_locales (simp_all add: in_memory_mx_laws)

interpretation dns_mx: mx_resolver "dns_resolve_mx c" for c
  by unfold_locales (simp_all add: dns_mx_laws)

section \<open>The two resolvers agree\<close>

text \<open>
  What a reply says about mail exchangers: an MX record gives a preference and, after it, the name of a
  host, which stands in the packet and may point anywhere back in it. A reply tells of the hosts \<open>hs\<close>
  when the MX records among its answers give these, in order; its other records, the question it
  echoes and what follows the answers are arbitrary.
\<close>

definition mx_record_at :: "bytes \<Rightarrow> ResourceRecord \<Rightarrow> MxHost \<Rightarrow> bool" where
  "mx_record_at packet rr h \<longleftrightarrow>
     (\<exists>labels nxt j.
        3 \<le> length (rr_rdata rr) \<and> take 2 (rr_rdata rr) = be16 (mh_preference h)
      \<and> name_at packet (rr_rdata_offset rr + 2) labels nxt j \<and> j \<le> MAX_POINTERS
      \<and> mh_host h = name_text labels)"

definition mx_reply :: "bytes \<Rightarrow> MxHost list \<Rightarrow> bool" where
  "mx_reply packet hs \<longleftrightarrow>
     (\<exists>txn rrs. answers_with packet txn rrs
        \<and> list_all2 (mx_record_at packet) (filter (\<lambda>rr. rr_rtype rr = TYPE_MX) rrs) hs)"

lemma mx_of_answer_at:
  assumes "mx_record_at packet rr h"
  shows "mx_of_answer packet rr = Some h"
proof -
  obtain labels nxt j where r: "3 \<le> length (rr_rdata rr)" "take 2 (rr_rdata rr) = be16 (mh_preference h)"
    "name_at packet (rr_rdata_offset rr + 2) labels nxt j" "j \<le> MAX_POINTERS" "mh_host h = name_text labels"
    using assms by (auto simp: mx_record_at_def)
  have "rr_rdata rr ! 0 = be16 (mh_preference h) ! 0" "rr_rdata rr ! 1 = be16 (mh_preference h) ! 1"
    using r(2) [symmetric] by simp_all
  then have "of_be16 (rr_rdata rr ! 0) (rr_rdata rr ! 1) = mh_preference h"
    by (simp add: be16_def of_be16_be16)
  then show ?thesis using r(1,5) read_name_allowed [OF r(3,4)]
    by (simp add: mx_of_answer_def parse_mx_rdata_def)
qed

lemma mx_host_eta: "map (\<lambda>h. \<lparr> mh_host = mh_host h, mh_preference = mh_preference h \<rparr>) hs = hs"
  for hs :: "MxHost list"
  by (rule map_idI) simp

text \<open>
  (C32) The resolver over the DNS client returns what the in-memory resolver returns for the records of
  the reply: when the name is unchanged by a second conversion and the query is answered by one
  datagram of at most 4096 octets, without an error code, in any encoding the format allows with no
  more than 32 pointers to a name, then the hosts of the MX records among its answers are returned in
  the order of their preferences, equal ones in the order of the reply, and the domain itself when
  there are none.
\<close>

theorem dns_mx_agrees:
  assumes "domain_to_ascii (uc_idna c) domain = Inr q"
    and "exchanged c txn q q TYPE_MX datagram" "mx_reply datagram hs"
  shows "dns_resolve_mx c domain
         = in_memory_resolve_mx (mx_with_mx mx_new q (map (\<lambda>h. (mh_host h, mh_preference h)) hs)) q"
proof -
  obtain rid rrs where r: "answers_with datagram rid rrs"
    and hs: "list_all2 (mx_record_at datagram) (filter (\<lambda>rr. rr_rtype rr = TYPE_MX) rrs) hs"
    using assms(3) by (auto simp: mx_reply_def)
  have "list_all2 (\<lambda>rr h. mx_of_answer datagram rr = Some h) (filter (\<lambda>rr. rr_rtype rr = TYPE_MX) rrs) hs"
    by (rule list.rel_mono_strong [OF hs]) (rule mx_of_answer_at)
  then have "List.map_filter (mx_of_answer datagram) (filter (\<lambda>rr. rr_rtype rr = TYPE_MX) rrs) = hs"
    by (rule map_filter_rel)
  then have "dns_resolve_mx c domain
      = sort_key mh_preference (if hs = [] then [\<lparr> mh_host = q, mh_preference = 0 \<rparr>] else hs)"
    by (simp add: dns_resolve_mx_def assms(1) query_raw_exchanged [OF assms(2) r] Let_def)
  also have "\<dots> = in_memory_resolve_mx (mx_with_mx mx_new q (map (\<lambda>h. (mh_host h, mh_preference h)) hs)) q"
    by (simp add: in_memory_resolve_mx_def mx_with_mx_def mx_new_def comp_def mx_host_eta)
  finally show ?thesis .
qed

text \<open>
  A reply for \<open>a.b\<close> with two exchangers, the host names compressed against the question, an alias record
  before them and an additional record after them.
\<close>

definition mx_packet :: bytes where
  "mx_packet =
     [0, 9, 0x81, 0x80, 0, 1, 0, 3, 0, 0, 0, 1,
      1, 97, 1, 98, 0, 0, 15, 0, 1,
      0xC0, 12, 0, 5, 0, 1, 0, 0, 0, 60, 0, 2, 0xC0, 12,
      0xC0, 12, 0, 15, 0, 1, 0, 0, 0, 60, 0, 6, 0, 20, 1, 110, 0xC0, 14,
      0xC0, 12, 0, 15, 0, 1, 0, 0, 0, 60, 0, 6, 0, 10, 1, 109, 0xC0, 14,
      0, 0, 41, 4, 208, 0, 0, 0, 0, 0, 0]"

definition sample_hosts :: "MxHost list" where
  "sample_hosts = [\<lparr> mh_host = ''n.b'', mh_preference = 20 \<rparr>, \<lparr> mh_host = ''m.b'', mh_preference = 10 \<rparr>]"

definition sample_mx_client :: "unit UdpDnsClient" where
  "sample_mx_client = \<lparr> uc_idna = Inr, uc_random_txn_id = Inr 1, uc_exchange = (\<lambda>_. Inr mx_packet) \<rparr>"

lemma sample_mx_ascii: "domain_to_ascii Inr ''a.b'' = Inr ''a.b''"
  by (simp add: domain_to_ascii_def strip_suffix_def strip_prefix_def starts_with_def)

lemma mx_names:
  "name_at mx_packet 12 [[97], [98]] 17 0" "name_at mx_packet 21 [[97], [98]] 23 1"
  "name_at mx_packet 35 [[97], [98]] 37 1" "name_at mx_packet 53 [[97], [98]] 55 1"
  "name_at mx_packet 49 [[110], [98]] 53 1" "name_at mx_packet 67 [[109], [98]] 71 1"
proof -
  note eval = mx_packet_def get_at_def get_range_def
  have root: "name_at mx_packet 16 [] 17 0"
    using name_root [of mx_packet 16] by (simp add: eval)
  have b: "name_at mx_packet 14 [[98]] 17 0"
    using name_label [of mx_packet 14 "[98]" "[]" 17 0] root by (simp add: eval)
  show ab: "name_at mx_packet 12 [[97], [98]] 17 0"
    using name_label [of mx_packet 12 "[97]" "[[98]]" 17 0] b by (simp add: eval)
  have ptr: "name_at mx_packet pos [[97], [98]] (pos + 2) 1"
    if "get_at mx_packet pos = Some 0xC0" "get_at mx_packet (pos + 1) = Some 12" "12 < pos" for pos
    using name_pointer [of mx_packet pos 0 12 "[[97], [98]]" 17 0] ab that by simp
  show "name_at mx_packet 21 [[97], [98]] 23 1" using ptr [of 21] by (simp add: eval)
  show "name_at mx_packet 35 [[97], [98]] 37 1" using ptr [of 35] by (simp add: eval)
  show "name_at mx_packet 53 [[97], [98]] 55 1" using ptr [of 53] by (simp add: eval)
  have "name_at mx_packet 51 [[98]] 53 1"
    using name_pointer [of mx_packet 51 0 14 "[[98]]" 17 0] b by (simp add: eval)
  then show "name_at mx_packet 49 [[110], [98]] 53 1"
    using name_label [of mx_packet 49 "[110]" "[[98]]" 53 1] by (simp add: eval)
  have "name_at mx_packet 69 [[98]] 71 1"
    using name_pointer [of mx_packet 69 0 14 "[[98]]" 17 0] b by (simp add: eval)
  then show "name_at mx_packet 67 [[109], [98]] 71 1"
    using name_label [of mx_packet 67 "[109]" "[[98]]" 71 1] by (simp add: eval)
qed

definition mx_records :: "ResourceRecord list" where
  "mx_records =
     [\<lparr> rr_name = ''a.b'', rr_rtype = 5, rr_rdata = [0xC0, 12], rr_rdata_offset = 33 \<rparr>,
      \<lparr> rr_name = ''a.b'', rr_rtype = TYPE_MX, rr_rdata = [0, 20, 1, 110, 0xC0, 14], rr_rdata_offset = 47 \<rparr>,
      \<lparr> rr_name = ''a.b'', rr_rtype = TYPE_MX, rr_rdata = [0, 10, 1, 109, 0xC0, 14], rr_rdata_offset = 65 \<rparr>]"

lemma mx_texts: "name_text [[97], [98]] = ''a.b''" "name_text [[110], [98]] = ''n.b''" "name_text [[109], [98]] = ''m.b''"
  by code_simp+

lemma mx_answers: "answers_with mx_packet 9 mx_records"
proof -
  note eval = mx_packet_def get_range_def be16_def mx_texts MAX_POINTERS_def TYPE_MX_def
  have r1: "record_at mx_packet 21 (mx_records ! 0) 35"
    unfolding record_at_def using mx_names(2)
    by (intro exI [of _ "[[97], [98]]"] exI [of _ 23] exI [of _ 1] exI [of _ "[0, 0, 0, 60]"] exI [of _ 2]) (simp add: eval mx_records_def)
  have r2: "record_at mx_packet 35 (mx_records ! 1) 53"
    unfolding record_at_def using mx_names(3)
    by (intro exI [of _ "[[97], [98]]"] exI [of _ 37] exI [of _ 1] exI [of _ "[0, 0, 0, 60]"] exI [of _ 6]) (simp add: eval mx_records_def)
  have r3: "record_at mx_packet 53 (mx_records ! 2) 71"
    unfolding record_at_def using mx_names(4)
    by (intro exI [of _ "[[97], [98]]"] exI [of _ 55] exI [of _ 1] exI [of _ "[0, 0, 0, 60]"] exI [of _ 6]) (simp add: eval mx_records_def)
  have rs: "records_at mx_packet 21 mx_records"
    using records_one [OF r1 records_one [OF r2 records_one [OF r3 records_none]]] by (simp add: mx_records_def)
  have qs: "questions_at mx_packet 12 (unat (1 :: u16)) 21"
    using questions_one [OF mx_names(1) _ _ questions_none] by (simp add: eval)
  show ?thesis
    unfolding answers_with_def using rs qs
    by (intro exI [of _ "0x8180"] exI [of _ 1] exI [of _ 21]) (simp add: eval mx_records_def)
qed

lemma mx_packet_reply: "mx_reply mx_packet sample_hosts"
proof -
  have "mx_record_at mx_packet (mx_records ! 1) (sample_hosts ! 0)"
    unfolding mx_record_at_def using mx_names(5)
    by (intro exI [of _ "[[110], [98]]"] exI [of _ 53] exI [of _ 1])
       (simp add: mx_records_def sample_hosts_def mx_texts be16_def MAX_POINTERS_def)
  moreover have "mx_record_at mx_packet (mx_records ! 2) (sample_hosts ! 1)"
    unfolding mx_record_at_def using mx_names(6)
    by (intro exI [of _ "[[109], [98]]"] exI [of _ 71] exI [of _ 1])
       (simp add: mx_records_def sample_hosts_def mx_texts be16_def MAX_POINTERS_def)
  ultimately have "list_all2 (mx_record_at mx_packet) (filter (\<lambda>rr. rr_rtype rr = TYPE_MX) mx_records) sample_hosts"
    by (simp add: mx_records_def sample_hosts_def TYPE_MX_def)
  then show ?thesis unfolding mx_reply_def using mx_answers by blast
qed

theorem dns_mx_agrees_witness:
  "map mh_host (dns_resolve_mx sample_mx_client ''a.b'') = [''m.b'', ''n.b'']"
proof -
  have a: "domain_to_ascii (uc_idna sample_mx_client) ''a.b'' = Inr ''a.b''"
    by (simp add: sample_mx_client_def sample_mx_ascii)
  have "exchanged sample_mx_client 1 ''a.b'' ''a.b'' TYPE_MX mx_packet"
    by (simp add: exchanged_def sample_mx_client_def sample_mx_ascii mx_packet_def)
  from dns_mx_agrees [OF a this mx_packet_reply] show ?thesis
    by (simp add: sample_hosts_def mx_with_mx_def in_memory_resolve_mx_def mx_new_def)
qed

lemma dns_reply_id_unchecked_witness:
  "\<exists>msg. query sample_mx_client ''a.b'' TYPE_MX = Inr msg \<and> dm_id msg \<noteq> 1 \<and> dm_answers msg = mx_records"
proof (rule dns_reply_id_unchecked [OF _ mx_answers])
  show "exchanged sample_mx_client 1 ''a.b'' ''a.b'' TYPE_MX mx_packet"
    by (simp add: exchanged_def sample_mx_client_def sample_mx_ascii mx_packet_def)
qed simp

end
