(* ===== verification/Gateway_SpfRecord.thy ===== *)
theory Gateway_SpfRecord
  imports Prelude
begin

text \<open>
  SPF records (\<open>crates/pier-gateway/src/spf.rs\<close>, the parser and the address matching): mechanisms
  with their qualifiers, the term and CIDR parsers, and membership of an address in a network.
  Addresses are words of 32 and 128 bits. The address parsers of the Rust standard library are
  written out as the library's documentation and source have them.
\<close>

unbundle bit_operations_syntax

section \<open>Addresses of the standard library\<close>

type_synonym Ipv4Addr = "32 word"
type_synonym Ipv6Addr = "128 word"

datatype IpAddr = V4 Ipv4Addr | V6 Ipv6Addr

text \<open>
  One decimal octet: one to three digits, no leading zero unless it is the only digit, at most 255.
\<close>

definition octet :: "string \<Rightarrow> u8 option" where
  "octet s =
     (if s = [] \<or> length s > 3 \<or> \<not> list_all is_ascii_digit s \<or> (hd s = CHR ''0'' \<and> length s > 1)
         \<or> digits_val 0 s > 255
      then None else Some (of_nat (digits_val 0 s)))"

definition parse_ipv4 :: "string \<Rightarrow> Ipv4Addr option" where
  "parse_ipv4 s =
     (case map octet (split_on CHR ''.'' s) of
        [Some a, Some b, Some c, Some d] \<Rightarrow>
          Some (push_bit 24 (ucast a) OR push_bit 16 (ucast b) OR push_bit 8 (ucast c) OR ucast d)
      | _ \<Rightarrow> None)"

definition hex_val :: "char \<Rightarrow> nat option" where
  "hex_val c =
     (let n = (of_char c :: nat) in
      if 48 \<le> n \<and> n \<le> 57 then Some (n - 48)
      else if 97 \<le> n \<and> n \<le> 102 then Some (n - 87)
      else if 65 \<le> n \<and> n \<le> 70 then Some (n - 55)
      else None)"

text \<open>A group of an IPv6 address: a run of one to four hexadecimal digits, and what follows it.\<close>

definition read_group :: "string \<Rightarrow> (nat \<times> string) option" where
  "read_group s =
     (let ds = takeWhile (\<lambda>c. hex_val c \<noteq> None) s in
      if ds = [] \<or> length ds > 4 then None
      else Some (foldl (\<lambda>n c. 16 * n + the (hex_val c)) 0 ds, dropWhile (\<lambda>c. hex_val c \<noteq> None) s))"

text \<open>An embedded IPv4 address: the longest run of digits and dots must hold four octets.\<close>

definition read_ipv4 :: "string \<Rightarrow> (nat list \<times> string) option" where
  "read_ipv4 s =
     (let isd = (\<lambda>c. is_ascii_digit c);
          oct = (\<lambda>s. let ds = takeWhile isd s in
                  map_option (\<lambda>v. (unat v, dropWhile isd s)) (octet ds));
          dot = (\<lambda>s. case s of c # cs \<Rightarrow> if c = CHR ''.'' then Some cs else None | [] \<Rightarrow> None)
      in Option.bind (oct s) (\<lambda>(a, s). Option.bind (dot s) (\<lambda>s.
         Option.bind (oct s) (\<lambda>(b, s). Option.bind (dot s) (\<lambda>s.
         Option.bind (oct s) (\<lambda>(c, s). Option.bind (dot s) (\<lambda>s.
         Option.bind (oct s) (\<lambda>(d, s). Some ([256 * a + b, 256 * c + d], s)))))))))"

definition read_sep :: "nat \<Rightarrow> string \<Rightarrow> string option" where
  "read_sep i s =
     (if i = 0 then Some s
      else case s of c # cs \<Rightarrow> if c = CHR '':'' then Some cs else None | [] \<Rightarrow> None)"

text \<open>
  \<open>read_groups\<close>: up to \<open>limit\<close> groups separated by colons, the last two possibly as an embedded
  IPv4 address; the groups, whether the address was embedded, and the rest of the input. The
  recursion is on the number of groups that may still come.
\<close>

fun read_groups :: "nat \<Rightarrow> nat \<Rightarrow> nat list \<Rightarrow> string \<Rightarrow> nat list \<times> bool \<times> string" where
  "read_groups i 0 acc s = (acc, False, s)"
| "read_groups i (Suc left) acc s =
     (case (if left > 0 then Option.bind (read_sep i s) read_ipv4 else None) of
        Some (gs, s') \<Rightarrow> (acc @ gs, True, s')
      | None \<Rightarrow>
          (case Option.bind (read_sep i s) read_group of
             Some (g, s') \<Rightarrow> read_groups (Suc i) left (acc @ [g]) s'
           | None \<Rightarrow> (acc, False, s)))"

definition ipv6_of_groups :: "nat list \<Rightarrow> Ipv6Addr" where
  "ipv6_of_groups gs = foldl (\<lambda>w g. push_bit 16 w OR of_nat g) 0 gs"

definition parse_ipv6 :: "string \<Rightarrow> Ipv6Addr option" where
  "parse_ipv6 s =
     (let (hd_groups, v4, rest) = read_groups 0 8 [] s in
      if length hd_groups = 8 then (if rest = [] then Some (ipv6_of_groups hd_groups) else None)
      else if v4 then None
      else (case strip_prefix ''::'' rest of
              None \<Rightarrow> None
            | Some rest \<Rightarrow>
                (let (tl_groups, _, rest) = read_groups 0 (8 - (length hd_groups + 1)) [] rest in
                 if rest \<noteq> [] then None
                 else Some (ipv6_of_groups
                        (hd_groups @ replicate (8 - length hd_groups - length tl_groups) 0 @ tl_groups)))))"

section \<open>Records\<close>

datatype Qualifier = QPass | QFail | QSoftFail | QNeutral

datatype Mechanism =
    All
  | Include string
  | A "string option" u8 u8
  | Mx "string option" u8 u8
  | Ip4 Ipv4Addr u8
  | Ip6 Ipv6Addr u8
  | Ptr
  | Exists string

record ParsedRecord =
  pr_mechanisms :: "(Qualifier \<times> Mechanism) list"
  pr_redirect :: "string option"

text \<open>\<open>str::parse::<u8>\<close>.\<close>

definition parse_u8 :: "string \<Rightarrow> unit + u8" where
  "parse_u8 s = (case parse_unsigned 255 s of Some n \<Rightarrow> Inr (of_nat n) | None \<Rightarrow> Inl ())"

definition parse_dual_cidr :: "string \<Rightarrow> unit + u8 \<times> u8" where
  "parse_dual_cidr cidr_part =
     (if cidr_part = [] then Inr (32, 128)
      else (case strip_prefix ''//'' cidr_part of
        Some v6only \<Rightarrow> res_bind (parse_u8 v6only) (\<lambda>v. if v > 128 then Inl () else Inr (32, v))
      | None \<Rightarrow>
          res_bind (ok_or () (strip_prefix ''/'' cidr_part)) (\<lambda>rest.
          (case split_on CHR ''/'' rest of
             [p] \<Rightarrow> res_bind (parse_u8 p) (\<lambda>c4. if c4 > 32 then Inl () else Inr (c4, 128))
           | [p, q] \<Rightarrow> res_bind (parse_u8 p) (\<lambda>c4. res_bind (parse_u8 q) (\<lambda>c6.
               if c4 > 32 \<or> c6 > 128 then Inl () else Inr (c4, c6)))
           | _ \<Rightarrow> Inl ()))))"

text \<open>\<open>(&rest[..idx], &rest[idx..])\<close> at the first character that satisfies a test.\<close>

definition split_at_first :: "(char \<Rightarrow> bool) \<Rightarrow> string \<Rightarrow> string \<times> string" where
  "split_at_first p s = (takeWhile (\<lambda>c. \<not> p c) s, dropWhile (\<lambda>c. \<not> p c) s)"

definition parse_domain_spec :: "string \<Rightarrow> unit + string option \<times> u8 \<times> u8" where
  "parse_domain_spec rest =
     (let (domain_part, cidr_part) = split_at_first (\<lambda>c. c = CHR ''/'') rest in
      res_bind
        (case strip_prefix '':'' domain_part of
           Some d \<Rightarrow> if d = [] then Inl () else Inr (Some d)
         | None \<Rightarrow> if domain_part = [] then Inr None else Inl ()) (\<lambda>domain.
      res_bind (parse_dual_cidr cidr_part) (\<lambda>(cidr4, cidr6). Inr (domain, cidr4, cidr6))))"

definition parse_ip4_cidr :: "string \<Rightarrow> unit + Ipv4Addr \<times> u8" where
  "parse_ip4_cidr v =
     res_bind (case split_once CHR ''/'' v of
                 Some (a, c) \<Rightarrow> res_bind (parse_u8 c) (\<lambda>n. Inr (a, n))
               | None \<Rightarrow> Inr (v, 32)) (\<lambda>(addr, cidr).
     if cidr > 32 then Inl ()
     else res_bind (ok_or () (parse_ipv4 addr)) (\<lambda>ip. Inr (ip, cidr)))"

definition parse_ip6_cidr :: "string \<Rightarrow> unit + Ipv6Addr \<times> u8" where
  "parse_ip6_cidr v =
     res_bind (case split_once CHR ''/'' v of
                 Some (a, c) \<Rightarrow> res_bind (parse_u8 c) (\<lambda>n. Inr (a, n))
               | None \<Rightarrow> Inr (v, 128)) (\<lambda>(addr, cidr).
     if cidr > 128 then Inl ()
     else res_bind (ok_or () (parse_ipv6 addr)) (\<lambda>ip. Inr (ip, cidr)))"

definition parse_mechanism :: "string \<Rightarrow> unit + Mechanism" where
  "parse_mechanism s =
     (if s = [] then Inl ()
      else
        (let (keyword, rest) = split_at_first (\<lambda>c. c = CHR '':'' \<or> c = CHR ''/'') s;
             kw = to_ascii_lowercase keyword in
         if kw = ''all'' then (if rest \<noteq> [] then Inl () else Inr All)
         else if kw = ''include'' then
           res_bind (ok_or () (strip_prefix '':'' rest)) (\<lambda>v. if v = [] then Inl () else Inr (Include v))
         else if kw = ''exists'' then
           res_bind (ok_or () (strip_prefix '':'' rest)) (\<lambda>v. if v = [] then Inl () else Inr (Exists v))
         else if kw = ''a'' then
           res_bind (parse_domain_spec rest) (\<lambda>(domain, cidr4, cidr6). Inr (A domain cidr4 cidr6))
         else if kw = ''mx'' then
           res_bind (parse_domain_spec rest) (\<lambda>(domain, cidr4, cidr6). Inr (Mx domain cidr4 cidr6))
         else if kw = ''ptr'' then
           (if rest \<noteq> [] \<and> (case strip_prefix '':'' rest of Some d \<Rightarrow> d = [] | None \<Rightarrow> True)
            then Inl () else Inr Ptr)
         else if kw = ''ip4'' then
           res_bind (ok_or () (strip_prefix '':'' rest)) (\<lambda>v.
           res_bind (parse_ip4_cidr v) (\<lambda>(net, cidr). Inr (Ip4 net cidr)))
         else if kw = ''ip6'' then
           res_bind (ok_or () (strip_prefix '':'' rest)) (\<lambda>v.
           res_bind (parse_ip6_cidr v) (\<lambda>(net, cidr). Inr (Ip6 net cidr)))
         else Inl ()))"

definition split_qualifier :: "string \<Rightarrow> Qualifier \<times> string" where
  "split_qualifier term =
     (case term of
        [] \<Rightarrow> (QPass, term)
      | c # cs \<Rightarrow>
          if c = CHR ''+'' then (QPass, cs)
          else if c = CHR ''-'' then (QFail, cs)
          else if c = CHR ''~'' then (QSoftFail, cs)
          else if c = CHR ''?'' then (QNeutral, cs)
          else (QPass, term))"

fun parse_terms ::
  "(Qualifier \<times> Mechanism) list \<Rightarrow> string option \<Rightarrow> string list \<Rightarrow> unit + ParsedRecord" where
  "parse_terms mechanisms redirect [] = Inr \<lparr> pr_mechanisms = mechanisms, pr_redirect = redirect \<rparr>"
| "parse_terms mechanisms redirect (term # terms) =
     (if term = [] then parse_terms mechanisms redirect terms
      else case split_once CHR ''='' term of
        Some (name, v) \<Rightarrow>
          if eq_ignore_ascii_case name ''redirect''
          then (if redirect \<noteq> None \<or> v = [] then Inl () else parse_terms mechanisms (Some v) terms)
          else parse_terms mechanisms redirect terms
      | None \<Rightarrow>
          (let (qualifier, rest) = split_qualifier term in
           res_bind (parse_mechanism rest) (\<lambda>mech.
           parse_terms (mechanisms @ [(qualifier, mech)]) redirect terms)))"

definition parse_record :: "string \<Rightarrow> unit + ParsedRecord" where
  "parse_record record_txt =
     (case split_whitespace record_txt of
        [] \<Rightarrow> Inl ()
      | version # terms \<Rightarrow> if version \<noteq> ''v=spf1'' then Inl () else parse_terms [] None terms)"

section \<open>Membership in a network\<close>

definition ipv4_in_cidr :: "Ipv4Addr \<Rightarrow> Ipv4Addr \<Rightarrow> u8 \<Rightarrow> bool" where
  "ipv4_in_cidr ip net cidr =
     (if cidr = 0 then True
      else (let cidr = min cidr 32;
                mask = (if cidr = 32 then - 1 else NOT (drop_bit (unat cidr) (- 1 :: 32 word)))
            in ip AND mask = net AND mask))"

definition ipv6_in_cidr :: "Ipv6Addr \<Rightarrow> Ipv6Addr \<Rightarrow> u8 \<Rightarrow> bool" where
  "ipv6_in_cidr ip net cidr =
     (if cidr = 0 then True
      else (let cidr = min cidr 128;
                mask = (if cidr = 128 then - 1 else NOT (drop_bit (unat cidr) (- 1 :: 128 word)))
            in ip AND mask = net AND mask))"

lemma word_bits_iff: "a = b \<longleftrightarrow> (\<forall>i < LENGTH('a). bit a i = bit b i)" for a b :: "'a::len word"
  by (auto intro: bit_word_eqI)

lemma bit_beyond: "LENGTH('a) \<le> i \<Longrightarrow> \<not> bit a i" for a :: "'a::len word"
  using bit_imp_le_length [of a i] by auto

lemma drop_bit_eq_iff:
  fixes a b :: "'a::len word"
  shows "drop_bit k a = drop_bit k b \<longleftrightarrow> (\<forall>i < LENGTH('a). k \<le> i \<longrightarrow> bit a i = bit b i)"
proof
  assume eq: "drop_bit k a = drop_bit k b"
  show "\<forall>i < LENGTH('a). k \<le> i \<longrightarrow> bit a i = bit b i"
  proof (intro allI impI)
    fix i assume "k \<le> i"
    moreover have "bit (drop_bit k a) (i - k) = bit (drop_bit k b) (i - k)" using eq by simp
    ultimately show "bit a i = bit b i" by (simp add: bit_drop_bit_eq)
  qed
next
  assume h: "\<forall>i < LENGTH('a). k \<le> i \<longrightarrow> bit a i = bit b i"
  show "drop_bit k a = drop_bit k b"
    unfolding word_bits_iff [of "drop_bit k a"]
  proof (intro allI impI)
    fix i
    have "bit a (k + i) = bit b (k + i)"
      using h bit_beyond [of "k + i" a] bit_beyond [of "k + i" b] by (cases "k + i < LENGTH('a)") auto
    then show "bit (drop_bit k a) i = bit (drop_bit k b) i" by (simp add: bit_drop_bit_eq)
  qed
qed

text \<open>A prefix mask compares exactly the leading bits.\<close>

lemma prefix_mask_iff:
  fixes a b :: "'a::len word"
  assumes "n \<le> LENGTH('a)"
  shows "a AND NOT (drop_bit n (- 1)) = b AND NOT (drop_bit n (- 1))
     \<longleftrightarrow> drop_bit (LENGTH('a) - n) a = drop_bit (LENGTH('a) - n) b"
proof -
  have mask: "bit (NOT (drop_bit n (- 1)) :: 'a word) i \<longleftrightarrow> LENGTH('a) - n \<le> i" if "i < LENGTH('a)" for i
    using that assms by (auto simp: bit_not_iff bit_drop_bit_eq bit_minus_1_iff bit_mask_iff)
  have "bit (a AND NOT (drop_bit n (- 1))) i = bit (b AND NOT (drop_bit n (- 1))) i
      \<longleftrightarrow> (LENGTH('a) - n \<le> i \<longrightarrow> bit a i = bit b i)" if "i < LENGTH('a)" for i
    unfolding bit_and_iff mask [OF that] by auto
  then show ?thesis unfolding drop_bit_eq_iff word_bits_iff [of "a AND _"] by blast
qed

lemma unat_u8_32: "unat (32 :: u8) = 32" "unat (128 :: u8) = 128"
  by simp_all

lemma ipv4_in_cidr_prefix:
  assumes "cidr \<le> 32"
  shows "ipv4_in_cidr ip net cidr \<longleftrightarrow> drop_bit (32 - unat cidr) ip = drop_bit (32 - unat cidr) net"
proof -
  have c: "unat cidr \<le> 32" "min cidr 32 = cidr" using assms by (simp_all add: word_le_nat_alt min_def)
  have "drop_bit 32 (x :: 32 word) = 0" for x by (rule bit_word_eqI) (simp add: bit_drop_bit_eq bit_beyond)
  moreover have "cidr = 32 \<Longrightarrow> ?thesis" by (simp add: ipv4_in_cidr_def)
  ultimately show ?thesis using prefix_mask_iff [where 'a = 32, of "unat cidr" ip net] c
    by (auto simp: ipv4_in_cidr_def Let_def)
qed

lemma ipv6_in_cidr_prefix:
  assumes "cidr \<le> 128"
  shows "ipv6_in_cidr ip net cidr \<longleftrightarrow> drop_bit (128 - unat cidr) ip = drop_bit (128 - unat cidr) net"
proof -
  have c: "unat cidr \<le> 128" "min cidr 128 = cidr" using assms by (simp_all add: word_le_nat_alt min_def)
  have "drop_bit 128 (x :: 128 word) = 0" for x by (rule bit_word_eqI) (simp add: bit_drop_bit_eq bit_beyond)
  moreover have "cidr = 128 \<Longrightarrow> ?thesis" by (simp add: ipv6_in_cidr_def)
  ultimately show ?thesis using prefix_mask_iff [where 'a = 128, of "unat cidr" ip net] c
    by (auto simp: ipv6_in_cidr_def Let_def)
qed

section \<open>Parsed records are well formed\<close>

definition mechanism_ok :: "Mechanism \<Rightarrow> bool" where
  "mechanism_ok m =
     (case m of
        A d c4 c6 \<Rightarrow> d \<noteq> Some [] \<and> c4 \<le> 32 \<and> c6 \<le> 128
      | Mx d c4 c6 \<Rightarrow> d \<noteq> Some [] \<and> c4 \<le> 32 \<and> c6 \<le> 128
      | Ip4 _ c \<Rightarrow> c \<le> 32
      | Ip6 _ c \<Rightarrow> c \<le> 128
      | Include d \<Rightarrow> d \<noteq> []
      | Exists d \<Rightarrow> d \<noteq> []
      | _ \<Rightarrow> True)"

lemma parse_dual_cidr_ok: "parse_dual_cidr s = Inr (c4, c6) \<Longrightarrow> c4 \<le> 32 \<and> c6 \<le> 128"
  unfolding parse_dual_cidr_def
  by (auto simp: res_bind_Inr_iff not_less split: if_splits option.splits)
    (auto simp: res_bind_Inr_iff not_less split: list.splits if_splits)

lemma parse_domain_spec_ok: "parse_domain_spec s = Inr (d, c4, c6) \<Longrightarrow> d \<noteq> Some [] \<and> c4 \<le> 32 \<and> c6 \<le> 128"
  by (auto simp: parse_domain_spec_def split_at_first_def res_bind_Inr_iff dest: parse_dual_cidr_ok
      split: if_splits option.splits)

lemma parse_ip_cidr_ok: "parse_ip4_cidr s = Inr (n4, c) \<Longrightarrow> c \<le> 32" "parse_ip6_cidr s = Inr (n6, c) \<Longrightarrow> c \<le> 128"
  by (auto simp: parse_ip4_cidr_def parse_ip6_cidr_def res_bind_Inr_iff not_less split: if_splits)

lemma parse_mechanism_ok: "parse_mechanism s = Inr m \<Longrightarrow> mechanism_ok m"
  unfolding parse_mechanism_def
  by (auto simp: mechanism_ok_def Let_def res_bind_Inr_iff split_at_first_def
      dest: parse_domain_spec_ok parse_ip_cidr_ok split: if_splits)

lemma parse_terms_ok:
  "parse_terms ms rd ts = Inr p \<Longrightarrow> \<forall>x \<in> set ms. mechanism_ok (snd x) \<Longrightarrow> \<forall>x \<in> set (pr_mechanisms p). mechanism_ok (snd x)"
proof (induction ts arbitrary: ms rd)
  case (Cons t ts)
  show ?case
  proof (cases "split_once CHR ''='' t")
    case None
    obtain q rest where "split_qualifier t = (q, rest)" by fastforce
    with None Cons show ?thesis by (fastforce simp: res_bind_Inr_iff parse_mechanism_ok split: if_splits)
  next
    case (Some p)
    with Cons show ?thesis by (cases p) (auto split: if_splits)
  qed
qed auto

text \<open>
  Address matching is exact on every parsed record: a mechanism of a record that parses names
  no empty domain and no prefix longer than the address, and with such a prefix an address is in
  the network exactly when its leading bits are those of the network, for both address families.
\<close>

lemma spf_match_exact:
  assumes "parse_record txt = Inr p" and "(q, m) \<in> set (pr_mechanisms p)"
  shows "mechanism_ok m
     \<and> (\<forall>net c ip. m = Ip4 net c \<longrightarrow>
          ipv4_in_cidr ip net c = (drop_bit (32 - unat c) ip = drop_bit (32 - unat c) net))
     \<and> (\<forall>net c ip. m = Ip6 net c \<longrightarrow>
          ipv6_in_cidr ip net c = (drop_bit (128 - unat c) ip = drop_bit (128 - unat c) net))"
proof -
  have "mechanism_ok m"
    using assms parse_terms_ok [of "[]" None _ p] by (fastforce simp: parse_record_def split: list.splits if_splits)
  then show ?thesis
    using ipv4_in_cidr_prefix ipv6_in_cidr_prefix by (auto simp: mechanism_ok_def split: Mechanism.splits)
qed

lemma spf_match_exact_witness:
  "ipv4_in_cidr 0x0A010203 0x0A000000 8 = (drop_bit (32 - unat (8 :: u8)) 0x0A010203 = drop_bit (32 - unat (8 :: u8)) (0x0A000000 :: 32 word))"
proof -
  have "parse_record ''v=spf1 ip4:10.0.0.0/8 -all''
      = Inr \<lparr> pr_mechanisms = [(QPass, Ip4 0x0A000000 8), (QFail, All)], pr_redirect = None \<rparr>"
    by (simp add: parse_record_def split_whitespace_def is_whitespace_def split_qualifier_def parse_mechanism_def
        split_at_first_def to_ascii_lowercase_def to_lower_char_def is_ascii_uppercase_def strip_prefix_def
        starts_with_def parse_ip4_cidr_def parse_u8_def parse_unsigned_def is_ascii_digit_def digit_val_def
        parse_ipv4_def octet_def eq_ignore_ascii_case_def)
  from spf_match_exact [OF this, of QPass "Ip4 0x0A000000 8"] show ?thesis by simp
qed

end
