(* ===== verification/Gateway_Spf.thy ===== *)
theory Gateway_Spf
  imports Gateway_SpfRecord
begin

text \<open>
  SPF evaluation (\<open>crates/pier-gateway/src/spf.rs\<close>, the evaluator): the resolver as a record of its
  four lookups, the in-memory resolver, the budgets of lookups and void lookups, the mechanisms, the
  include and redirect recursion and the check of a mail transaction. The evaluator's counters are
  the state of the model. \<open>check_host\<close> recurses with a greater depth until the depth guard; its
  termination is proved by that guard.
\<close>

section \<open>Results and resolvers\<close>

datatype SpfResult = SpfPass | SpfFail | SpfSoftFail | SpfNeutral | SpfNone | SpfTempError | SpfPermError

record SpfOutcome =
  so_result :: SpfResult
  so_domain :: string

definition unevaluated :: SpfOutcome where
  "unevaluated = \<lparr> so_result = SpfNone, so_domain = [] \<rparr>"

record SpfResolver =
  lookup_txt :: "string \<Rightarrow> unit + string list"
  lookup_a :: "string \<Rightarrow> unit + Ipv4Addr list"
  lookup_aaaa :: "string \<Rightarrow> unit + Ipv6Addr list"
  lookup_mx :: "string \<Rightarrow> unit + string list"

record InMemorySpfResolver =
  im_txt :: "(string \<times> string list) list"
  im_a :: "(string \<times> Ipv4Addr list) list"
  im_aaaa :: "(string \<times> Ipv6Addr list) list"
  im_mx :: "(string \<times> string list) list"
  im_failing :: "string list"

definition im_new :: InMemorySpfResolver where
  "im_new = \<lparr> im_txt = [], im_a = [], im_aaaa = [], im_mx = [], im_failing = [] \<rparr>"

definition with_txt :: "InMemorySpfResolver \<Rightarrow> string \<Rightarrow> string list \<Rightarrow> InMemorySpfResolver" where
  "with_txt r name values = r\<lparr>im_txt := al_insert (to_ascii_lowercase name) values (im_txt r)\<rparr>"

definition with_a :: "InMemorySpfResolver \<Rightarrow> string \<Rightarrow> Ipv4Addr list \<Rightarrow> InMemorySpfResolver" where
  "with_a r name ips = r\<lparr>im_a := al_insert (to_ascii_lowercase name) ips (im_a r)\<rparr>"

definition with_aaaa :: "InMemorySpfResolver \<Rightarrow> string \<Rightarrow> Ipv6Addr list \<Rightarrow> InMemorySpfResolver" where
  "with_aaaa r name ips = r\<lparr>im_aaaa := al_insert (to_ascii_lowercase name) ips (im_aaaa r)\<rparr>"

definition with_mx :: "InMemorySpfResolver \<Rightarrow> string \<Rightarrow> string list \<Rightarrow> InMemorySpfResolver" where
  "with_mx r name hosts = r\<lparr>im_mx := al_insert (to_ascii_lowercase name) hosts (im_mx r)\<rparr>"

definition with_failure :: "InMemorySpfResolver \<Rightarrow> string \<Rightarrow> InMemorySpfResolver" where
  "with_failure r name = r\<lparr>im_failing := List.insert (to_ascii_lowercase name) (im_failing r)\<rparr>"

definition im_lookup :: "InMemorySpfResolver \<Rightarrow> (string \<times> 'a list) list \<Rightarrow> string \<Rightarrow> unit + 'a list" where
  "im_lookup r m name =
     (let key = to_ascii_lowercase name in
      if key \<in> set (im_failing r) then Inl () else Inr (al_get_or [] m key))"

definition in_memory :: "InMemorySpfResolver \<Rightarrow> SpfResolver" where
  "in_memory r =
     \<lparr> lookup_txt = im_lookup r (im_txt r), lookup_a = im_lookup r (im_a r),
       lookup_aaaa = im_lookup r (im_aaaa r), lookup_mx = im_lookup r (im_mx r) \<rparr>"

section \<open>The evaluator\<close>

definition DEFAULT_MAX_LOOKUPS :: nat where "DEFAULT_MAX_LOOKUPS = 10"
definition DEFAULT_MAX_VOID_LOOKUPS :: nat where "DEFAULT_MAX_VOID_LOOKUPS = 2"
definition MAX_CHAIN_DEPTH :: nat where "MAX_CHAIN_DEPTH = 10"

fun qualifier_to_result :: "Qualifier \<Rightarrow> SpfResult" where
  "qualifier_to_result QPass = SpfPass"
| "qualifier_to_result QFail = SpfFail"
| "qualifier_to_result QSoftFail = SpfSoftFail"
| "qualifier_to_result QNeutral = SpfNeutral"

definition normalize :: "string \<Rightarrow> string" where
  "normalize d = to_ascii_lowercase (trim_end_matches CHR ''.'' (trim d))"

definition is_spf1_record :: "string \<Rightarrow> bool" where
  "is_spf1_record t = (let t = trim t in t = ''v=spf1'' \<or> starts_with ''v=spf1 '' t)"

fun mechanism_has_macro :: "Mechanism \<Rightarrow> bool" where
  "mechanism_has_macro (Include d) = (CHR ''%'' \<in> set d)"
| "mechanism_has_macro (Exists d) = (CHR ''%'' \<in> set d)"
| "mechanism_has_macro (A (Some d) _ _) = (CHR ''%'' \<in> set d)"
| "mechanism_has_macro (Mx (Some d) _ _) = (CHR ''%'' \<in> set d)"
| "mechanism_has_macro _ = False"

datatype MechOutcome = Match | NoMatch | Abort SpfResult

record Evaluator =
  ev_lookups :: nat
  ev_max_lookups :: nat
  ev_void_lookups :: nat
  ev_max_void_lookups :: nat

definition charge_lookup :: "Evaluator \<Rightarrow> (SpfResult + unit) \<times> Evaluator" where
  "charge_lookup ev =
     (let ev = ev\<lparr>ev_lookups := ev_lookups ev + 1\<rparr>
      in (if ev_lookups ev > ev_max_lookups ev then Inl SpfPermError else Inr (), ev))"

definition charge_void :: "Evaluator \<Rightarrow> (SpfResult + unit) \<times> Evaluator" where
  "charge_void ev =
     (let ev = ev\<lparr>ev_void_lookups := ev_void_lookups ev + 1\<rparr>
      in (if ev_void_lookups ev > ev_max_void_lookups ev then Inl SpfPermError else Inr (), ev))"

text \<open>\<open>match self.charge_void() { Ok(()) => NoMatch, Err(e) => Abort(e) }\<close>.\<close>

definition void_outcome :: "Evaluator \<Rightarrow> MechOutcome \<times> Evaluator" where
  "void_outcome ev =
     (case charge_void ev of (Inr _, ev) \<Rightarrow> (NoMatch, ev) | (Inl e, ev) \<Rightarrow> (Abort e, ev))"

definition match_address_lookup ::
  "SpfResolver \<Rightarrow> Evaluator \<Rightarrow> string \<Rightarrow> IpAddr \<Rightarrow> u8 \<Rightarrow> u8 \<Rightarrow> MechOutcome \<times> Evaluator" where
  "match_address_lookup R ev target ip cidr4 cidr6 =
     (case ip of
        V4 v4 \<Rightarrow>
          (case lookup_a R target of
             Inl _ \<Rightarrow> (Abort SpfTempError, ev)
           | Inr ips \<Rightarrow>
               if ips = [] then void_outcome ev
               else (if list_ex (\<lambda>a. ipv4_in_cidr v4 a cidr4) ips then Match else NoMatch, ev))
      | V6 v6 \<Rightarrow>
          (case lookup_aaaa R target of
             Inl _ \<Rightarrow> (Abort SpfTempError, ev)
           | Inr ips \<Rightarrow>
               if ips = [] then void_outcome ev
               else (if list_ex (\<lambda>a. ipv6_in_cidr v6 a cidr6) ips then Match else NoMatch, ev)))"

text \<open>The loop of the \<open>mx\<close> mechanism over the exchange hosts.\<close>

fun mx_loop ::
  "SpfResolver \<Rightarrow> Evaluator \<Rightarrow> IpAddr \<Rightarrow> u8 \<Rightarrow> u8 \<Rightarrow> string list \<Rightarrow> MechOutcome \<times> Evaluator" where
  "mx_loop R ev ip cidr4 cidr6 [] = (NoMatch, ev)"
| "mx_loop R ev ip cidr4 cidr6 (host # hosts) =
     (case charge_lookup ev of
        (Inl e, ev) \<Rightarrow> (Abort e, ev)
      | (Inr _, ev) \<Rightarrow>
          (case match_address_lookup R ev (normalize host) ip cidr4 cidr6 of
             (Match, ev) \<Rightarrow> (Match, ev)
           | (Abort r, ev) \<Rightarrow> (Abort r, ev)
           | (NoMatch, ev) \<Rightarrow> mx_loop R ev ip cidr4 cidr6 hosts))"

text \<open>
  \<open>eval_mechanism\<close>, with the recursive check of an included domain as the argument \<open>rec\<close>.
\<close>

definition eval_mechanism ::
  "(Evaluator \<Rightarrow> string \<Rightarrow> SpfResult \<times> Evaluator) \<Rightarrow> SpfResolver \<Rightarrow> Evaluator \<Rightarrow> Mechanism \<Rightarrow> string \<Rightarrow> IpAddr
     \<Rightarrow> MechOutcome \<times> Evaluator" where
  "eval_mechanism rec R ev m current_domain ip =
     (case m of
        All \<Rightarrow> (Match, ev)
      | Include target \<Rightarrow>
          (case charge_lookup ev of
             (Inl e, ev) \<Rightarrow> (Abort e, ev)
           | (Inr _, ev) \<Rightarrow>
               (let (r, ev) = rec ev target in
                ((case r of
                    SpfPass \<Rightarrow> Match
                  | SpfFail \<Rightarrow> NoMatch | SpfSoftFail \<Rightarrow> NoMatch | SpfNeutral \<Rightarrow> NoMatch
                  | SpfTempError \<Rightarrow> Abort SpfTempError
                  | SpfNone \<Rightarrow> Abort SpfPermError | SpfPermError \<Rightarrow> Abort SpfPermError), ev)))
      | Ip4 net cidr \<Rightarrow>
          (case ip of V4 v4 \<Rightarrow> (if ipv4_in_cidr v4 net cidr then Match else NoMatch, ev) | V6 _ \<Rightarrow> (NoMatch, ev))
      | Ip6 net cidr \<Rightarrow>
          (case ip of V6 v6 \<Rightarrow> (if ipv6_in_cidr v6 net cidr then Match else NoMatch, ev) | V4 _ \<Rightarrow> (NoMatch, ev))
      | A domain cidr4 cidr6 \<Rightarrow>
          (let target = (case domain of Some d \<Rightarrow> d | None \<Rightarrow> current_domain) in
           case charge_lookup ev of
             (Inl e, ev) \<Rightarrow> (Abort e, ev)
           | (Inr _, ev) \<Rightarrow> match_address_lookup R ev (normalize target) ip cidr4 cidr6)
      | Mx domain cidr4 cidr6 \<Rightarrow>
          (let target = (case domain of Some d \<Rightarrow> d | None \<Rightarrow> current_domain) in
           case charge_lookup ev of
             (Inl e, ev) \<Rightarrow> (Abort e, ev)
           | (Inr _, ev) \<Rightarrow>
               (case lookup_mx R (normalize target) of
                  Inl _ \<Rightarrow> (Abort SpfTempError, ev)
                | Inr hosts \<Rightarrow>
                    if hosts = [] then void_outcome ev else mx_loop R ev ip cidr4 cidr6 hosts))
      | Ptr \<Rightarrow>
          (case charge_lookup ev of (Inl e, ev) \<Rightarrow> (Abort e, ev) | (Inr _, ev) \<Rightarrow> (NoMatch, ev))
      | Exists target \<Rightarrow>
          (case charge_lookup ev of
             (Inl e, ev) \<Rightarrow> (Abort e, ev)
           | (Inr _, ev) \<Rightarrow>
               (case lookup_a R (normalize target) of
                  Inl _ \<Rightarrow> (Abort SpfTempError, ev)
                | Inr ips \<Rightarrow> if ips = [] then void_outcome ev else (Match, ev))))"

text \<open>The loop over the mechanisms of a record, then the redirect.\<close>

fun eval_record ::
  "(Evaluator \<Rightarrow> string \<Rightarrow> SpfResult \<times> Evaluator) \<Rightarrow> SpfResolver \<Rightarrow> Evaluator \<Rightarrow> string \<Rightarrow> IpAddr
     \<Rightarrow> (Qualifier \<times> Mechanism) list \<Rightarrow> string option \<Rightarrow> SpfResult \<times> Evaluator" where
  "eval_record rec R ev domain_n ip [] redirect =
     (case redirect of
        Some target \<Rightarrow>
          if CHR ''%'' \<in> set target then (SpfPermError, ev)
          else (case charge_lookup ev of
                  (Inl e, ev) \<Rightarrow> (e, ev)
                | (Inr _, ev) \<Rightarrow> rec ev target)
      | None \<Rightarrow> (SpfNeutral, ev))"
| "eval_record rec R ev domain_n ip ((q, m) # ms) redirect =
     (if mechanism_has_macro m then (SpfPermError, ev)
      else case eval_mechanism rec R ev m domain_n ip of
        (Match, ev) \<Rightarrow> (qualifier_to_result q, ev)
      | (NoMatch, ev) \<Rightarrow> eval_record rec R ev domain_n ip ms redirect
      | (Abort r, ev) \<Rightarrow> (r, ev))"

definition check_domain ::
  "(Evaluator \<Rightarrow> string \<Rightarrow> SpfResult \<times> Evaluator) \<Rightarrow> SpfResolver \<Rightarrow> Evaluator \<Rightarrow> string \<Rightarrow> IpAddr
     \<Rightarrow> SpfResult \<times> Evaluator" where
  "check_domain rec R ev domain ip =
     (let domain_n = normalize domain in
      if domain_n = [] then (SpfNone, ev)
      else (case lookup_txt R domain_n of
        Inl _ \<Rightarrow> (SpfTempError, ev)
      | Inr txts \<Rightarrow>
          (case filter is_spf1_record txts of
             [] \<Rightarrow> (SpfNone, ev)
           | [record_txt] \<Rightarrow>
               (case parse_record record_txt of
                  Inl _ \<Rightarrow> (SpfPermError, ev)
                | Inr parsed \<Rightarrow> eval_record rec R ev domain_n ip (pr_mechanisms parsed) (pr_redirect parsed))
           | _ \<Rightarrow> (SpfPermError, ev))))"

function check_host_at :: "SpfResolver \<Rightarrow> IpAddr \<Rightarrow> nat \<Rightarrow> Evaluator \<Rightarrow> string \<Rightarrow> SpfResult \<times> Evaluator" where
  "check_host_at R ip depth ev domain =
     (if depth > MAX_CHAIN_DEPTH then (SpfPermError, ev)
      else check_domain (\<lambda>ev d. check_host_at R ip (depth + 1) ev d) R ev domain ip)"
  by pat_completeness auto

termination check_host_at
  by (relation "measure (\<lambda>(R, ip, depth, ev, domain). Suc MAX_CHAIN_DEPTH - depth)") auto

declare check_host_at.simps [simp del]

definition evaluator_new :: Evaluator where
  "evaluator_new = \<lparr> ev_lookups = 0, ev_max_lookups = DEFAULT_MAX_LOOKUPS, ev_void_lookups = 0,
     ev_max_void_lookups = DEFAULT_MAX_VOID_LOOKUPS \<rparr>"

definition check_host :: "SpfResolver \<Rightarrow> IpAddr \<Rightarrow> string \<Rightarrow> string \<Rightarrow> SpfResult" where
  "check_host R ip domain sender = fst (check_host_at R ip 0 evaluator_new domain)"

definition domain_of :: "string \<Rightarrow> string option" where
  "domain_of addr =
     (let a = trim_end_matches CHR ''>'' (trim_start_matches CHR ''<'' (trim addr)) in
      case rsplit_once CHR ''@'' a of
        Some (_, d) \<Rightarrow> if d \<noteq> [] then Some d else None
      | None \<Rightarrow> None)"

definition spf_evaluate :: "SpfResolver \<Rightarrow> IpAddr \<Rightarrow> string \<Rightarrow> string option \<Rightarrow> SpfOutcome" where
  "spf_evaluate R ip mail_from helo_domain =
     (let trimmed = trim mail_from;
          helo = (case helo_domain of Some h \<Rightarrow> h | None \<Rightarrow> []);
          (sender, domain) =
            (if trimmed = [] \<or> trimmed = ''<>'' then (''postmaster@'' @ helo, helo)
             else (case domain_of trimmed of
                     Some d \<Rightarrow> (trimmed, d)
                   | None \<Rightarrow> (''postmaster@'' @ helo, helo)))
      in if domain = [] then \<lparr> so_result = SpfNone, so_domain = domain \<rparr>
         else \<lparr> so_result = check_host R ip domain sender, so_domain = domain \<rparr>)"

section \<open>The budgets\<close>

definition within :: "Evaluator \<Rightarrow> bool" where
  "within ev \<longleftrightarrow> ev_lookups ev \<le> ev_max_lookups ev \<and> ev_void_lookups ev \<le> ev_max_void_lookups ev"

text \<open>
  What a step of the evaluation may do to the counters: the limits stay, no counter passes its
  limit by more than one, and if the step did not end in a permanent error both are within.
\<close>

definition spent :: "Evaluator \<Rightarrow> bool \<Rightarrow> Evaluator \<Rightarrow> bool" where
  "spent ev permerror ev' \<longleftrightarrow>
     ev_max_lookups ev' = ev_max_lookups ev \<and> ev_max_void_lookups ev' = ev_max_void_lookups ev
   \<and> ev_lookups ev' \<le> ev_max_lookups ev + 1 \<and> ev_void_lookups ev' \<le> ev_max_void_lookups ev + 1
   \<and> (permerror \<or> within ev')"

lemma spent_refl: "within ev \<Longrightarrow> spent ev b ev"
  by (auto simp: spent_def within_def)

lemma spent_trans: "spent ev False ev1 \<Longrightarrow> spent ev1 b ev2 \<Longrightarrow> spent ev b ev2"
  by (auto simp: spent_def)

lemma spent_within: "spent ev False ev1 \<Longrightarrow> within ev1"
  by (simp add: spent_def)

lemma charge_lookup_cases:
  assumes "within ev"
  obtains ev1 where "charge_lookup ev = (Inl SpfPermError, ev1)" "spent ev True ev1"
  | ev1 where "charge_lookup ev = (Inr (), ev1)" "spent ev False ev1"
  using assms
  by (cases "ev_lookups ev < ev_max_lookups ev") (auto simp: charge_lookup_def spent_def within_def Let_def)

lemma void_outcome_spent:
  assumes "within ev"
  shows "spent ev (fst (void_outcome ev) = Abort SpfPermError) (snd (void_outcome ev))"
  using assms by (auto simp: void_outcome_def charge_void_def spent_def within_def Let_def)

lemma match_address_lookup_spent:
  "within ev \<Longrightarrow> spent ev (fst (match_address_lookup R ev t ip c4 c6) = Abort SpfPermError)
     (snd (match_address_lookup R ev t ip c4 c6))"
  using void_outcome_spent [of ev]
  by (auto simp: match_address_lookup_def spent_refl split: IpAddr.split sum.split)

lemma mx_loop_spent:
  "within ev \<Longrightarrow> spent ev (fst (mx_loop R ev ip c4 c6 hosts) = Abort SpfPermError) (snd (mx_loop R ev ip c4 c6 hosts))"
proof (induction hosts arbitrary: ev)
  case (Cons h hosts)
  from Cons.prems show ?case
  proof (cases rule: charge_lookup_cases)
    case (1 ev1)
    then show ?thesis by simp
  next
    case (2 ev1)
    obtain r ev2 where m: "match_address_lookup R ev1 (normalize h) ip c4 c6 = (r, ev2)" by fastforce
    with match_address_lookup_spent [OF spent_within [OF 2(2)], of R "normalize h" ip c4 c6]
    have s: "spent ev (r = Abort SpfPermError) ev2" using spent_trans [OF 2(2)] by simp
    show ?thesis
    proof (cases r)
      case NoMatch
      with s have "spent ev False ev2" by simp
      then show ?thesis using Cons.IH [OF spent_within] spent_trans m 2 NoMatch by auto
    qed (use m 2 s in simp_all)
  qed
qed (simp add: spent_refl)

text \<open>A checker of included and redirected domains that respects the budgets.\<close>

definition frugal :: "(Evaluator \<Rightarrow> string \<Rightarrow> SpfResult \<times> Evaluator) \<Rightarrow> bool" where
  "frugal rec \<longleftrightarrow> (\<forall>ev d. within ev \<longrightarrow> spent ev (fst (rec ev d) = SpfPermError) (snd (rec ev d)))"

lemma eval_mechanism_spent:
  assumes rec: "frugal rec" and w: "within ev"
  shows "spent ev (fst (eval_mechanism rec R ev m dn ip) = Abort SpfPermError) (snd (eval_mechanism rec R ev m dn ip))"
  using w
proof (cases rule: charge_lookup_cases)
  case (1 ev1)
  then show ?thesis
    by (cases m) (simp_all add: eval_mechanism_def spent_refl [OF w] split: IpAddr.split)
next
  case (2 ev1)
  note step = spent_trans [OF 2(2)] and w1 = spent_within [OF 2(2)]
  show ?thesis
  proof (cases m)
    case (Include t)
    obtain r ev2 where r: "rec ev1 t = (r, ev2)" by fastforce
    then have "spent ev (r = SpfPermError) ev2"
      using rec w1 step unfolding frugal_def by (metis fst_conv snd_conv)
    then show ?thesis using Include 2 r by (cases r) (simp_all add: eval_mechanism_def spent_def)
  next
    case (A d c4 c6)
    then show ?thesis using 2 step match_address_lookup_spent [OF w1] by (simp add: eval_mechanism_def Let_def)
  next
    case (Mx d c4 c6)
    then show ?thesis using 2 step mx_loop_spent [OF w1] void_outcome_spent [OF w1] spent_refl [OF w1]
      by (simp add: eval_mechanism_def Let_def split: sum.split)
  next
    case (Exists t)
    then show ?thesis using 2 step void_outcome_spent [OF w1] spent_refl [OF w1]
      by (simp add: eval_mechanism_def split: sum.split)
  qed (use 2 in \<open>simp_all add: eval_mechanism_def spent_refl [OF w] split: IpAddr.split\<close>)
qed

lemma eval_record_spent:
  assumes rec: "frugal rec"
  shows "within ev \<Longrightarrow> spent ev (fst (eval_record rec R ev dn ip ms rd) = SpfPermError) (snd (eval_record rec R ev dn ip ms rd))"
proof (induction ms arbitrary: ev)
  case Nil
  then show ?case
  proof (cases rule: charge_lookup_cases)
    case (1 ev1)
    then show ?thesis by (simp add: spent_refl [OF Nil] split: option.split)
  next
    case (2 ev1)
    then show ?thesis
      using rec spent_trans [OF 2(2)] spent_within [OF 2(2)] unfolding frugal_def
      by (simp add: spent_refl [OF Nil] split: option.split)
  qed
next
  case (Cons qm ms)
  obtain q m where qm: "qm = (q, m)" by fastforce
  obtain r ev1 where r: "eval_mechanism rec R ev m dn ip = (r, ev1)" by fastforce
  with eval_mechanism_spent [OF rec Cons.prems, of R m dn ip]
  have s: "spent ev (r = Abort SpfPermError) ev1" by simp
  show ?case
  proof (cases "mechanism_has_macro m")
    case True
    then show ?thesis using Cons.prems by (simp add: qm spent_refl)
  next
    case False
    show ?thesis
    proof (cases r)
      case Match
      then show ?thesis using s r False by (cases q) (simp_all add: qm)
    next
      case NoMatch
      with s have "spent ev False ev1" by simp
      then show ?thesis using Cons.IH [OF spent_within] spent_trans r NoMatch False by (auto simp: qm)
    next
      case (Abort x)
      then show ?thesis using s r False by (simp add: qm)
    qed
  qed
qed

lemma check_host_at_frugal: "frugal (\<lambda>ev d. check_host_at R ip depth ev d)"
proof (induction "Suc MAX_CHAIN_DEPTH - depth" arbitrary: depth rule: less_induct)
  case less
  show ?case unfolding frugal_def
  proof (intro allI impI)
    fix ev d assume w: "within ev"
    show "spent ev (fst (check_host_at R ip depth ev d) = SpfPermError) (snd (check_host_at R ip depth ev d))"
    proof (cases "depth > MAX_CHAIN_DEPTH")
      case True
      then show ?thesis by (simp add: check_host_at.simps spent_refl [OF w])
    next
      case False
      then have "frugal (\<lambda>ev d. check_host_at R ip (depth + 1) ev d)" by (intro less) simp
      from eval_record_spent [OF this w] False show ?thesis
        by (subst (1 2) check_host_at.simps)
          (simp add: check_domain_def Let_def spent_refl [OF w] split: sum.split list.split)
    qed
  qed
qed

section \<open>What a pass means\<close>

text \<open>
  A declarative reading of SPF, without budgets and without order: the one SPF record of a domain,
  the addresses a mechanism authorizes, and the domains that authorize an address.
\<close>

definition published :: "SpfResolver \<Rightarrow> string \<Rightarrow> ParsedRecord \<Rightarrow> bool" where
  "published R d p \<longleftrightarrow> (\<exists>txts rec_txt. lookup_txt R (normalize d) = Inr txts
     \<and> filter is_spf1_record txts = [rec_txt] \<and> parse_record rec_txt = Inr p)"

definition address_in :: "SpfResolver \<Rightarrow> IpAddr \<Rightarrow> string \<Rightarrow> u8 \<Rightarrow> u8 \<Rightarrow> bool" where
  "address_in R ip host c4 c6 \<longleftrightarrow>
     (case ip of
        V4 v4 \<Rightarrow> (\<exists>ips a. lookup_a R host = Inr ips \<and> a \<in> set ips \<and> ipv4_in_cidr v4 a c4)
      | V6 v6 \<Rightarrow> (\<exists>ips a. lookup_aaaa R host = Inr ips \<and> a \<in> set ips \<and> ipv6_in_cidr v6 a c6))"

definition mech_authorizes ::
  "(string \<Rightarrow> bool) \<Rightarrow> SpfResolver \<Rightarrow> IpAddr \<Rightarrow> string \<Rightarrow> Mechanism \<Rightarrow> bool" where
  "mech_authorizes P R ip dn m \<longleftrightarrow>
     (case m of
        All \<Rightarrow> True
      | Include t \<Rightarrow> P t
      | Ip4 net c \<Rightarrow> (\<exists>v4. ip = V4 v4 \<and> ipv4_in_cidr v4 net c)
      | Ip6 net c \<Rightarrow> (\<exists>v6. ip = V6 v6 \<and> ipv6_in_cidr v6 net c)
      | A d c4 c6 \<Rightarrow> address_in R ip (normalize (case d of Some d \<Rightarrow> d | None \<Rightarrow> dn)) c4 c6
      | Mx d c4 c6 \<Rightarrow> (\<exists>hosts h. lookup_mx R (normalize (case d of Some d \<Rightarrow> d | None \<Rightarrow> dn)) = Inr hosts
           \<and> h \<in> set hosts \<and> address_in R ip (normalize h) c4 c6)
      | Ptr \<Rightarrow> False
      | Exists t \<Rightarrow> (\<exists>ips. lookup_a R (normalize t) = Inr ips \<and> ips \<noteq> []))"

lemma mech_authorizes_mono [mono]:
  "(\<And>t. P t \<longrightarrow> Q t) \<Longrightarrow> mech_authorizes P R ip dn m \<longrightarrow> mech_authorizes Q R ip dn m"
  by (auto simp: mech_authorizes_def split: Mechanism.split)

inductive authorizes :: "SpfResolver \<Rightarrow> IpAddr \<Rightarrow> string \<Rightarrow> bool" for R ip where
  by_mechanism: "published R d p \<Longrightarrow> (QPass, m) \<in> set (pr_mechanisms p)
     \<Longrightarrow> mech_authorizes (authorizes R ip) R ip (normalize d) m \<Longrightarrow> authorizes R ip d"
| by_redirect: "published R d p \<Longrightarrow> pr_redirect p = Some t \<Longrightarrow> authorizes R ip t \<Longrightarrow> authorizes R ip d"

lemma match_address_lookup_Match:
  "match_address_lookup R ev t ip c4 c6 = (Match, ev') \<Longrightarrow> address_in R ip t c4 c6"
  by (auto simp: match_address_lookup_def address_in_def void_outcome_def list_ex_iff
      split: IpAddr.splits sum.splits if_splits prod.splits)

lemma mx_loop_Match: "mx_loop R ev ip c4 c6 hosts = (Match, ev') \<Longrightarrow> \<exists>h \<in> set hosts. address_in R ip (normalize h) c4 c6"
  by (induction hosts arbitrary: ev)
    (auto split: prod.splits sum.splits MechOutcome.splits dest: match_address_lookup_Match)

lemma void_outcome_not_Match: "fst (void_outcome ev) \<noteq> Match"
  by (simp add: void_outcome_def split: prod.split sum.split)

lemma eval_mechanism_Match:
  assumes "eval_mechanism rec R ev m dn ip = (Match, ev')"
    and "\<And>ev d. fst (rec ev d) = SpfPass \<Longrightarrow> P d"
  shows "mech_authorizes P R ip dn m"
proof (cases m)
  case (Include t)
  with assms show ?thesis
    by (auto simp: eval_mechanism_def mech_authorizes_def split: prod.splits sum.splits SpfResult.splits)
      (metis fst_conv)
next
  case (A d c4 c6)
  with assms(1) show ?thesis
    by (auto simp: eval_mechanism_def mech_authorizes_def Let_def split: prod.splits sum.splits
        dest: match_address_lookup_Match)
next
  case (Mx d c4 c6)
  with assms(1) void_outcome_not_Match show ?thesis
    by (auto simp: eval_mechanism_def mech_authorizes_def Let_def split: prod.splits sum.splits if_splits
        dest: mx_loop_Match) (metis fst_conv)
next
  case (Exists t)
  with assms(1) void_outcome_not_Match show ?thesis
    by (auto simp: eval_mechanism_def mech_authorizes_def split: prod.splits sum.splits if_splits) (metis fst_conv)
qed (use assms(1) in \<open>auto simp: eval_mechanism_def mech_authorizes_def split: IpAddr.splits prod.splits sum.splits if_splits\<close>)

lemma void_outcome_Abort: "fst (void_outcome ev) \<noteq> Abort SpfPass"
  by (auto simp: void_outcome_def charge_void_def Let_def)

lemma match_address_lookup_Abort: "fst (match_address_lookup R ev t ip c4 c6) \<noteq> Abort SpfPass"
  using void_outcome_Abort [of ev] by (auto simp: match_address_lookup_def split: IpAddr.split sum.split)

lemma mx_loop_Abort: "fst (mx_loop R ev ip c4 c6 hosts) \<noteq> Abort SpfPass"
proof (induction hosts arbitrary: ev)
  case (Cons h hosts)
  obtain r ev1 where c: "charge_lookup ev = (r, ev1)" by fastforce
  then have "r = Inl SpfPermError \<or> r = Inr ()" by (auto simp: charge_lookup_def Let_def split: if_splits)
  moreover obtain o2 ev2 where m: "match_address_lookup R ev1 (normalize h) ip c4 c6 = (o2, ev2)" by fastforce
  moreover have "o2 \<noteq> Abort SpfPass" using match_address_lookup_Abort m by (metis fst_conv)
  ultimately show ?case using Cons c by (cases o2) auto
qed simp

lemma eval_mechanism_Abort: "eval_mechanism rec R ev m dn ip \<noteq> (Abort SpfPass, ev')"
proof
  assume a: "eval_mechanism rec R ev m dn ip = (Abort SpfPass, ev')"
  obtain r ev1 where c: "charge_lookup ev = (r, ev1)" by fastforce
  then have r: "r = Inl SpfPermError \<or> r = Inr ()" by (auto simp: charge_lookup_def Let_def split: if_splits)
  from a c r show False
    using match_address_lookup_Abort [of R ev1] mx_loop_Abort [of R ev1] void_outcome_Abort [of ev1]
    by (cases m) ((auto simp: eval_mechanism_def Let_def split: IpAddr.splits sum.splits prod.splits if_splits
        SpfResult.splits), (metis fst_conv)+)
qed

lemma eval_record_Pass:
  assumes "\<And>ev d. fst (rec ev d) = SpfPass \<Longrightarrow> P d"
  shows "fst (eval_record rec R ev dn ip ms rd) = SpfPass \<Longrightarrow>
     (\<exists>m. (QPass, m) \<in> set ms \<and> mech_authorizes P R ip dn m) \<or> (\<exists>t. rd = Some t \<and> P t)"
proof (induction ms arbitrary: ev)
  case Nil
  then show ?case using assms
    by (auto simp: charge_lookup_def Let_def split: option.splits if_splits)
next
  case (Cons qm ms)
  obtain q m where qm: "qm = (q, m)" by fastforce
  obtain r ev1 where r: "eval_mechanism rec R ev m dn ip = (r, ev1)" by fastforce
  show ?case
  proof (cases r)
    case Match
    with Cons.prems r qm have "q = QPass" by (cases q) (auto split: if_splits)
    then show ?thesis using eval_mechanism_Match [OF r [unfolded Match] assms] qm by auto
  next
    case NoMatch
    then show ?thesis using Cons r qm by (auto split: if_splits)
  next
    case (Abort x)
    have "x \<noteq> SpfPass" using r Abort eval_mechanism_Abort by blast
    with Abort Cons.prems r qm show ?thesis by (auto split: if_splits)
  qed
qed

lemma check_host_at_Pass: "fst (check_host_at R ip depth ev d) = SpfPass \<Longrightarrow> authorizes R ip d"
proof (induction "Suc MAX_CHAIN_DEPTH - depth" arbitrary: depth ev d rule: less_induct)
  case less
  have depth: "\<not> depth > MAX_CHAIN_DEPTH" using less.prems by (auto simp: check_host_at.simps)
  let ?rec = "\<lambda>ev d. check_host_at R ip (depth + 1) ev d"
  have rec: "fst (?rec ev d) = SpfPass \<Longrightarrow> authorizes R ip d" for ev d
    using less.hyps [of "depth + 1"] depth by simp
  have "fst (check_domain ?rec R ev d ip) = SpfPass"
    using less.prems depth by (simp add: check_host_at.simps [of R ip depth])
  then obtain p where p: "published R d p"
    "fst (eval_record ?rec R ev (normalize d) ip (pr_mechanisms p) (pr_redirect p)) = SpfPass"
    by (auto simp: check_domain_def published_def Let_def split: if_splits sum.splits list.splits)
  have "(\<exists>m. (QPass, m) \<in> set (pr_mechanisms p) \<and> mech_authorizes (authorizes R ip) R ip (normalize d) m)
      \<or> (\<exists>t. pr_redirect p = Some t \<and> authorizes R ip t)"
    by (rule eval_record_Pass [OF _ p(2)]) (rule rec)
  then show ?case using by_mechanism [OF p(1)] by_redirect [OF p(1)] by blast
qed

section \<open>Properties\<close>

text \<open>
  SPF evaluation terminates within its budgets: whatever the resolver answers, with cycles of
  includes and redirects too, an evaluation charges at most 11 lookups and 3 void lookups, and a
  result other than a permanent error was reached with at most 10 lookups and 2 void lookups.
\<close>

lemma spf_budget:
  assumes "check_host_at R ip 0 evaluator_new domain = (r, ev)"
  shows "ev_lookups ev \<le> 11 \<and> ev_void_lookups ev \<le> 3
     \<and> (r \<noteq> SpfPermError \<longrightarrow> ev_lookups ev \<le> 10 \<and> ev_void_lookups ev \<le> 2)"
proof -
  have "within evaluator_new" by (simp add: within_def evaluator_new_def)
  then have "spent evaluator_new (r = SpfPermError) ev"
    using check_host_at_frugal [of R ip 0] assms unfolding frugal_def by (metis fst_conv snd_conv)
  then show ?thesis
    by (auto simp: spent_def within_def evaluator_new_def DEFAULT_MAX_LOOKUPS_def DEFAULT_MAX_VOID_LOOKUPS_def)
qed

text \<open>A resolver with one record, and one whose record includes itself for ever.\<close>

definition sample_resolver :: SpfResolver where
  "sample_resolver = in_memory (with_txt im_new ''a.org'' [''v=spf1 ip4:10.0.0.0/8 -all''])"

lemma spf_budget_witness:
  "ev_lookups (snd (check_host_at (in_memory (with_txt im_new ''a'' [''v=spf1 include:a''])) (V4 0) 0 evaluator_new ''a'')) \<le> 11"
  using spf_budget [OF surjective_pairing, of "in_memory (with_txt im_new ''a'' [''v=spf1 include:a''])" "V4 0" "''a''"]
  by simp

lemma spf_evaluate_authorized:
  "so_result (spf_evaluate R ip mail_from helo) = SpfPass \<Longrightarrow> authorizes R ip (so_domain (spf_evaluate R ip mail_from helo))"
  using check_host_at_Pass [of R ip 0 evaluator_new]
  by (auto simp: spf_evaluate_def check_host_def Let_def split: prod.splits if_splits)

text \<open>
  (C20) A pass is always published: when the evaluation of a mail transaction gives pass, the domain
  it was evaluated for authorizes the client address in the declarative reading of SPF, that is, its
  one SPF record has a mechanism with the pass qualifier that covers the address (directly, through
  a host of the domain, or through an included domain that authorizes it), or redirects to a domain
  that authorizes it.
\<close>

theorem spf_pass_authorized:
  assumes "so_result (spf_evaluate R ip mail_from helo) = SpfPass"
  shows "authorizes R ip (so_domain (spf_evaluate R ip mail_from helo))"
  using assms by (rule spf_evaluate_authorized)

lemma sample_record_parses:
  "parse_record ''v=spf1 ip4:10.0.0.0/8 -all''
     = Inr \<lparr> pr_mechanisms = [(QPass, Ip4 0x0A000000 8), (QFail, All)], pr_redirect = None \<rparr>"
  by (simp add: parse_record_def split_whitespace_def is_whitespace_def split_qualifier_def parse_mechanism_def
      split_at_first_def to_ascii_lowercase_def to_lower_char_def is_ascii_uppercase_def strip_prefix_def
      starts_with_def parse_ip4_cidr_def parse_u8_def parse_unsigned_def is_ascii_digit_def digit_val_def
      parse_ipv4_def octet_def eq_ignore_ascii_case_def)

lemma sample_normalize: "normalize ''a.org'' = ''a.org''"
  by (simp add: normalize_def trim_def trim_end_while_def trim_end_matches_def is_whitespace_def
      to_ascii_lowercase_def to_lower_char_def is_ascii_uppercase_def)

lemma sample_lookup: "lookup_txt sample_resolver ''a.org'' = Inr [''v=spf1 ip4:10.0.0.0/8 -all'']"
  by (simp add: sample_resolver_def in_memory_def with_txt_def im_new_def im_lookup_def al_get_or_def
      to_ascii_lowercase_def to_lower_char_def is_ascii_uppercase_def)

lemma sample_is_spf1: "is_spf1_record ''v=spf1 ip4:10.0.0.0/8 -all''"
  by (simp add: is_spf1_record_def trim_def trim_end_while_def is_whitespace_def starts_with_def)

lemma sample_spf_evaluate:
  "spf_evaluate sample_resolver (V4 0x0A010203) ''bob@a.org'' None = \<lparr> so_result = SpfPass, so_domain = ''a.org'' \<rparr>"
proof -
  have addr: "domain_of ''bob@a.org'' = Some ''a.org''" "trim ''bob@a.org'' = ''bob@a.org''"
    by (simp_all add: domain_of_def trim_def trim_end_while_def trim_end_matches_def trim_start_matches_def
        is_whitespace_def rsplit_once_def)
  have "ipv4_in_cidr 0x0A010203 0x0A000000 8"
    using ipv4_in_cidr_prefix [of 8 "0x0A010203" "0x0A000000"] by (simp add: word_le_nat_alt)
  then have "fst (check_host_at sample_resolver (V4 0x0A010203) 0 evaluator_new ''a.org'') = SpfPass"
    by (simp add: check_host_at.simps check_domain_def sample_normalize sample_lookup sample_is_spf1
        sample_record_parses eval_mechanism_def)
  then show ?thesis by (simp add: spf_evaluate_def addr check_host_def)
qed

theorem spf_pass_authorized_witness: "authorizes sample_resolver (V4 0x0A010203) ''a.org''"
  using spf_pass_authorized [of sample_resolver "V4 0x0A010203" "''bob@a.org''" None]
  by (simp add: sample_spf_evaluate)

end
