(* ===== verification/Gateway_Dmarc.thy ===== *)
theory Gateway_Dmarc
  imports Gateway_Spf
begin

text \<open>
  DMARC (\<open>crates/pier-gateway/src/dmarc.rs\<close>): records and their parser, discovery at the header
  domain and at its organizational domain, identifier alignment, the header \<open>From\<close>, and the
  verdict. The public suffix list (\<open>psl::domain_str\<close>) and the header and address parsers of
  \<open>kotva-mail\<close> are not under \<open>src\<close>: they are the function parameters \<open>psl\<close>, \<open>headers_only\<close>,
  \<open>parse_address_list\<close> and \<open>addr_host\<close>.
\<close>

section \<open>Records\<close>

datatype DmarcPolicy = PolNone | PolQuarantine | PolReject

datatype DmarcDisposition = DispNone | DispQuarantine | DispReject

fun to_disposition :: "DmarcPolicy \<Rightarrow> DmarcDisposition" where
  "to_disposition PolNone = DispNone"
| "to_disposition PolQuarantine = DispQuarantine"
| "to_disposition PolReject = DispReject"

record DmarcRecord =
  dr_policy :: DmarcPolicy
  dr_subdomain_policy :: "DmarcPolicy option"
  dr_dkim_strict :: bool
  dr_spf_strict :: bool
  dr_pct :: u8

datatype DmarcVerdict = DmarcPass | DmarcFail DmarcDisposition | NoPolicy | DmarcPermError

text \<open>\<open>DkimVerdict\<close> of \<open>dkim.rs\<close>, with the error of a failed signature left abstract.\<close>

datatype 'de DkimVerdict =
    DkimPass string string
  | DkimFail 'de
  | NoSignature
  | KeyUnavailable string string

definition is_dmarc1_record :: "string \<Rightarrow> bool" where
  "is_dmarc1_record t =
     (let t = trim t in t = ''v=DMARC1'' \<or> starts_with ''v=DMARC1;'' t \<or> starts_with ''v=DMARC1 '' t)"

definition parse_policy_value :: "string \<Rightarrow> unit + DmarcPolicy" where
  "parse_policy_value v =
     (if v = ''none'' then Inr PolNone
      else if v = ''quarantine'' then Inr PolQuarantine
      else if v = ''reject'' then Inr PolReject
      else Inl ())"

definition parse_mode :: "string \<Rightarrow> unit + bool" where
  "parse_mode v = (if v = ''s'' then Inr True else if v = ''r'' then Inr False else Inl ())"

text \<open>The mutable variables of the tag loop.\<close>

record DmarcTags =
  tg_policy :: "DmarcPolicy option"
  tg_sp :: "DmarcPolicy option"
  tg_adkim_strict :: bool
  tg_aspf_strict :: bool
  tg_pct :: u8
  tg_saw_version :: bool

definition parse_tag :: "DmarcTags \<Rightarrow> string \<Rightarrow> string \<Rightarrow> unit + DmarcTags" where
  "parse_tag g k v =
     (if k = ''v'' then (if v \<noteq> ''DMARC1'' then Inl () else Inr (g\<lparr>tg_saw_version := True\<rparr>))
      else if k = ''p'' then res_bind (parse_policy_value v) (\<lambda>p. Inr (g\<lparr>tg_policy := Some p\<rparr>))
      else if k = ''sp'' then res_bind (parse_policy_value v) (\<lambda>p. Inr (g\<lparr>tg_sp := Some p\<rparr>))
      else if k = ''adkim'' then res_bind (parse_mode v) (\<lambda>b. Inr (g\<lparr>tg_adkim_strict := b\<rparr>))
      else if k = ''aspf'' then res_bind (parse_mode v) (\<lambda>b. Inr (g\<lparr>tg_aspf_strict := b\<rparr>))
      else if k = ''pct'' then
        res_bind (parse_u8 v) (\<lambda>n. if n > 100 then Inl () else Inr (g\<lparr>tg_pct := n\<rparr>))
      else Inr g)"

fun parse_tags :: "DmarcTags \<Rightarrow> string list \<Rightarrow> unit + DmarcTags" where
  "parse_tags g [] = Inr g"
| "parse_tags g (raw # tags) =
     (let tag = trim raw in
      if tag = [] then parse_tags g tags
      else res_bind (ok_or () (split_once CHR ''='' tag)) (\<lambda>(k, v).
           res_bind (parse_tag g (trim k) (trim v)) (\<lambda>g. parse_tags g tags)))"

definition parse_dmarc_record :: "string \<Rightarrow> unit + DmarcRecord" where
  "parse_dmarc_record txt =
     res_bind (parse_tags \<lparr> tg_policy = None, tg_sp = None, tg_adkim_strict = False, tg_aspf_strict = False,
                            tg_pct = 100, tg_saw_version = False \<rparr> (split_on CHR '';'' txt)) (\<lambda>g.
     if \<not> tg_saw_version g then Inl ()
     else res_bind (ok_or () (tg_policy g)) (\<lambda>policy.
          Inr \<lparr> dr_policy = policy, dr_subdomain_policy = tg_sp g, dr_dkim_strict = tg_adkim_strict g,
                dr_spf_strict = tg_aspf_strict g, dr_pct = tg_pct g \<rparr>))"

section \<open>Discovery\<close>

type_synonym DmarcTxtResolver = "string \<Rightarrow> string list"

definition in_memory_dmarc :: "(string \<times> string list) list \<Rightarrow> DmarcTxtResolver" where
  "in_memory_dmarc records name = al_get_or [] records (to_ascii_lowercase name)"

definition organizational_domain :: "(string \<Rightarrow> string option) \<Rightarrow> string \<Rightarrow> string" where
  "organizational_domain psl domain =
     (let d = normalize domain in case psl d of Some registrable \<Rightarrow> registrable | None \<Rightarrow> d)"

definition domains_aligned :: "(string \<Rightarrow> string option) \<Rightarrow> string \<Rightarrow> string \<Rightarrow> bool \<Rightarrow> bool" where
  "domains_aligned psl auth_domain header_domain strict =
     (if strict then eq_ignore_ascii_case auth_domain header_domain
      else (case (psl (normalize auth_domain), psl (normalize header_domain)) of
              (Some org_auth, Some org_header) \<Rightarrow> eq_ignore_ascii_case org_auth org_header
            | _ \<Rightarrow> eq_ignore_ascii_case auth_domain header_domain))"

datatype LookupAt = LFound DmarcRecord | LNotFound | LPermError

datatype Discovery = DFound DmarcRecord bool | DNone | DPermError

definition lookup_at :: "DmarcTxtResolver \<Rightarrow> string \<Rightarrow> LookupAt" where
  "lookup_at resolver domain =
     (let name = ''_dmarc.'' @ to_ascii_lowercase (trim_end_matches CHR ''.'' (trim domain)) in
      case filter is_dmarc1_record (resolver name) of
        [] \<Rightarrow> LNotFound
      | [t] \<Rightarrow> (case parse_dmarc_record t of Inr r \<Rightarrow> LFound r | Inl _ \<Rightarrow> LPermError)
      | _ \<Rightarrow> LPermError)"

definition discover :: "(string \<Rightarrow> string option) \<Rightarrow> DmarcTxtResolver \<Rightarrow> string \<Rightarrow> Discovery" where
  "discover psl resolver header_domain =
     (case lookup_at resolver header_domain of
        LFound r \<Rightarrow> DFound r False
      | LPermError \<Rightarrow> DPermError
      | LNotFound \<Rightarrow>
          (let org = organizational_domain psl header_domain in
           if \<not> eq_ignore_ascii_case header_domain org
           then (case lookup_at resolver org of
                   LFound r \<Rightarrow> DFound r True
                 | LPermError \<Rightarrow> DPermError
                 | LNotFound \<Rightarrow> DNone)
           else DNone))"

section \<open>The header From\<close>

datatype HeaderFrom = Single string | Unusable | Ambiguous

definition header_from ::
  "(bytes \<Rightarrow> (string \<times> string) list) \<Rightarrow> (string \<Rightarrow> 'addr list) \<Rightarrow> ('addr \<Rightarrow> string option) \<Rightarrow> bytes \<Rightarrow> HeaderFrom" where
  "header_from headers_only parse_address_list addr_host data =
     (case map snd (filter (\<lambda>(n, _). eq_ignore_ascii_case (trim n) ''from'') (headers_only data)) of
        [] \<Rightarrow> Unusable
      | [only] \<Rightarrow>
          (case parse_address_list only of
             [] \<Rightarrow> Unusable
           | [addr] \<Rightarrow>
               (case addr_host addr of
                  Some h \<Rightarrow> if h \<noteq> [] then Single h else Unusable
                | None \<Rightarrow> Unusable)
           | _ \<Rightarrow> Ambiguous)
      | _ \<Rightarrow> Ambiguous)"

definition header_from_domain ::
  "(bytes \<Rightarrow> (string \<times> string) list) \<Rightarrow> (string \<Rightarrow> 'addr list) \<Rightarrow> ('addr \<Rightarrow> string option) \<Rightarrow> bytes \<Rightarrow> string option" where
  "header_from_domain headers_only parse_address_list addr_host data =
     (case header_from headers_only parse_address_list addr_host data of Single d \<Rightarrow> Some d | _ \<Rightarrow> None)"

section \<open>The verdict\<close>

definition dmarc_evaluate ::
  "(string \<Rightarrow> string option) \<Rightarrow> DmarcTxtResolver \<Rightarrow> string \<Rightarrow> string \<Rightarrow> SpfResult option \<Rightarrow> 'de DkimVerdict \<Rightarrow> DmarcVerdict" where
  "dmarc_evaluate psl resolver header_domain envelope_domain spf_result dkim_verdict =
     (case discover psl resolver header_domain of
        DNone \<Rightarrow> NoPolicy
      | DPermError \<Rightarrow> DmarcPermError
      | DFound r is_subdomain \<Rightarrow>
          (let spf_aligned = (spf_result = Some SpfPass \<and> envelope_domain \<noteq> []
                 \<and> domains_aligned psl envelope_domain header_domain (dr_spf_strict r));
               dkim_aligned = (case dkim_verdict of
                   DkimPass domain _ \<Rightarrow> domains_aligned psl domain header_domain (dr_dkim_strict r)
                 | _ \<Rightarrow> False)
           in if spf_aligned \<or> dkim_aligned then DmarcPass
              else (let effective_policy =
                     (if is_subdomain
                      then (case dr_subdomain_policy r of Some p \<Rightarrow> p | None \<Rightarrow> dr_policy r)
                      else dr_policy r)
                    in DmarcFail (to_disposition effective_policy))))"

section \<open>Lemmas\<close>

text \<open>Two domains of one organization, and the records a domain is judged by.\<close>

definition same_org :: "(string \<Rightarrow> string option) \<Rightarrow> string \<Rightarrow> string \<Rightarrow> bool" where
  "same_org psl a b \<longleftrightarrow>
     eq_ignore_ascii_case (organizational_domain psl a) (organizational_domain psl b)
   \<or> eq_ignore_ascii_case a b"

lemma eq_ignore_refl [simp]: "eq_ignore_ascii_case a a"
  by (simp add: eq_ignore_ascii_case_def)

lemma domains_aligned_same_org: "domains_aligned psl a b strict \<Longrightarrow> same_org psl a b"
  by (auto simp: domains_aligned_def same_org_def organizational_domain_def Let_def split: if_splits option.splits)

lemma domains_aligned_strict: "domains_aligned psl a b True \<longleftrightarrow> eq_ignore_ascii_case a b"
  by (simp add: domains_aligned_def)

lemma domains_aligned_refl: "domains_aligned psl a a strict"
  by (simp add: domains_aligned_def split: option.split)

lemma parse_tag_pct: "parse_tag g k v = Inr g' \<Longrightarrow> tg_pct g \<le> 100 \<Longrightarrow> tg_pct g' \<le> 100"
  by (auto simp: parse_tag_def res_bind_Inr_iff not_less split: if_splits)

lemma parse_tags_pct: "parse_tags g ts = Inr g' \<Longrightarrow> tg_pct g \<le> 100 \<Longrightarrow> tg_pct g' \<le> 100"
proof (induction ts arbitrary: g)
  case (Cons t ts)
  then show ?case
    by (auto simp: Let_def res_bind_Inr_iff split: if_splits dest: parse_tag_pct)
qed simp

lemma parse_dmarc_record_pct: "parse_dmarc_record txt = Inr r \<Longrightarrow> dr_pct r \<le> 100"
  by (auto simp: parse_dmarc_record_def res_bind_Inr_iff split: if_splits dest: parse_tags_pct)

lemma lookup_at_LFound: "lookup_at resolver d = LFound r \<Longrightarrow> dr_pct r \<le> 100"
  by (auto simp: lookup_at_def Let_def split: list.splits sum.splits dest: parse_dmarc_record_pct)

lemma discover_DFound: "discover psl resolver d = DFound r b \<Longrightarrow> dr_pct r \<le> 100"
  by (auto simp: discover_def Let_def split: LookupAt.splits if_splits dest: lookup_at_LFound)

section \<open>Properties\<close>

text \<open>
  DMARC passes only authenticated, aligned mail: a verdict of pass needs a published record
  and an identifier that was authenticated (the envelope domain by an SPF pass, or the domain of a
  verified DKIM signature) and belongs to the organization of the header domain, or equals it
  exactly where the record asks for strict alignment; every other message of a domain with a record
  gets the disposition of the published policy, the subdomain policy where the record was found at
  the organizational domain; and mail authenticated under the header domain itself always passes.
\<close>

lemma dmarc_verdict_exact:
  assumes found: "discover psl resolver hd_dom = DFound r sub"
  shows "(dmarc_evaluate psl resolver hd_dom env spf dkim = DmarcPass \<longrightarrow>
            (spf = Some SpfPass \<and> env \<noteq> [] \<and> same_org psl env hd_dom
               \<and> (dr_spf_strict r \<longrightarrow> eq_ignore_ascii_case env hd_dom))
          \<or> (\<exists>d s. dkim = DkimPass d s \<and> same_org psl d hd_dom
               \<and> (dr_dkim_strict r \<longrightarrow> eq_ignore_ascii_case d hd_dom)))
     \<and> (dmarc_evaluate psl resolver hd_dom env spf dkim \<noteq> DmarcPass \<longrightarrow>
          dmarc_evaluate psl resolver hd_dom env spf dkim =
            DmarcFail (to_disposition (if sub \<and> dr_subdomain_policy r \<noteq> None
                         then the (dr_subdomain_policy r) else dr_policy r)))
     \<and> (spf = Some SpfPass \<and> env = hd_dom \<and> env \<noteq> [] \<or> (\<exists>s. dkim = DkimPass hd_dom s) \<longrightarrow>
          dmarc_evaluate psl resolver hd_dom env spf dkim = DmarcPass)
     \<and> dr_pct r \<le> 100"
proof (intro conjI)
  have ev: "dmarc_evaluate psl resolver hd_dom env spf dkim = DmarcPass \<longleftrightarrow>
      spf = Some SpfPass \<and> env \<noteq> [] \<and> domains_aligned psl env hd_dom (dr_spf_strict r)
    \<or> (\<exists>d s. dkim = DkimPass d s \<and> domains_aligned psl d hd_dom (dr_dkim_strict r))"
    by (cases dkim) (auto simp: dmarc_evaluate_def found Let_def)
  show "dmarc_evaluate psl resolver hd_dom env spf dkim = DmarcPass \<longrightarrow>
            (spf = Some SpfPass \<and> env \<noteq> [] \<and> same_org psl env hd_dom
               \<and> (dr_spf_strict r \<longrightarrow> eq_ignore_ascii_case env hd_dom))
          \<or> (\<exists>d s. dkim = DkimPass d s \<and> same_org psl d hd_dom
               \<and> (dr_dkim_strict r \<longrightarrow> eq_ignore_ascii_case d hd_dom))"
    unfolding ev using domains_aligned_same_org [of psl] domains_aligned_strict [of psl] by (metis (full_types))
  show "spf = Some SpfPass \<and> env = hd_dom \<and> env \<noteq> [] \<or> (\<exists>s. dkim = DkimPass hd_dom s) \<longrightarrow>
          dmarc_evaluate psl resolver hd_dom env spf dkim = DmarcPass"
    unfolding ev using domains_aligned_refl by auto
  show "dmarc_evaluate psl resolver hd_dom env spf dkim \<noteq> DmarcPass \<longrightarrow>
          dmarc_evaluate psl resolver hd_dom env spf dkim =
            DmarcFail (to_disposition (if sub \<and> dr_subdomain_policy r \<noteq> None
                         then the (dr_subdomain_policy r) else dr_policy r))"
    by (auto simp: dmarc_evaluate_def found Let_def split: option.split)
  show "dr_pct r \<le> 100" by (rule discover_DFound [OF found])
qed

definition sample_dmarc :: DmarcTxtResolver where
  "sample_dmarc = in_memory_dmarc [(''_dmarc.a.org'', [''v=DMARC1; p=reject; aspf=s''])]"

lemma sample_discover:
  "discover (\<lambda>_. None) sample_dmarc ''a.org'' =
     DFound \<lparr> dr_policy = PolReject, dr_subdomain_policy = None, dr_dkim_strict = False, dr_spf_strict = True, dr_pct = 100 \<rparr> False"
proof -
  have "parse_dmarc_record ''v=DMARC1; p=reject; aspf=s'' =
     Inr \<lparr> dr_policy = PolReject, dr_subdomain_policy = None, dr_dkim_strict = False, dr_spf_strict = True, dr_pct = 100 \<rparr>"
    by (simp add: parse_dmarc_record_def trim_def trim_end_while_def is_whitespace_def Let_def parse_tag_def
        parse_policy_value_def parse_mode_def)
  moreover have "is_dmarc1_record ''v=DMARC1; p=reject; aspf=s''"
    by (simp add: is_dmarc1_record_def trim_def trim_end_while_def is_whitespace_def starts_with_def)
  ultimately show ?thesis
    by (simp add: discover_def lookup_at_def sample_dmarc_def in_memory_dmarc_def trim_def trim_end_while_def
        trim_end_matches_def is_whitespace_def to_ascii_lowercase_def to_lower_char_def is_ascii_uppercase_def
        al_get_or_def)
qed

lemma dmarc_verdict_exact_witness:
  "dmarc_evaluate (\<lambda>_. None) sample_dmarc ''a.org'' ''a.org'' (Some SpfPass) (NoSignature :: unit DkimVerdict) = DmarcPass"
  using dmarc_verdict_exact [OF sample_discover, of "''a.org''" "Some SpfPass" "NoSignature :: unit DkimVerdict"] by simp

end
