(* ===== verification/Gateway_MtaSts.thy ===== *)
theory Gateway_MtaSts
  imports Gateway_Mx Gateway_Dmarc
begin

text \<open>
  MTA-STS (\<open>crates/pier-gateway/src/mta_sts.rs\<close>): the policy parser, the matching of host names,
  the in-memory and DNS-backed sources, the handling of the HTTPS reply, and the policy that decides
  whether delivery to a domain must use TLS and to which hosts. The resolvers over DNS of
  \<open>spf.rs\<close> and \<open>dmarc.rs\<close> are here too. The HTTPS connection is the fetcher's parameter. Nothing is
  cached: each question put to the policy makes a TXT lookup and a fetch of its own.
\<close>

section \<open>Policies\<close>

datatype PolicyMode = Enforce | Testing | ModeNone

record StsPolicy =
  sp_mode :: PolicyMode
  sp_mx_patterns :: "string list"
  sp_max_age :: u64

datatype StsParseError =
    MalformedLine
  | MissingVersion
  | UnsupportedVersion string
  | MissingMode
  | UnknownMode string
  | NoMxPatterns

definition parse_mode_value :: "string \<Rightarrow> StsParseError + PolicyMode" where
  "parse_mode_value value =
     (if value = ''enforce'' then Inr Enforce
      else if value = ''testing'' then Inr Testing
      else if value = ''none'' then Inr ModeNone
      else Inl (UnknownMode value))"

record StsFields =
  sf_version :: "string option"
  sf_mode :: "PolicyMode option"
  sf_mx_patterns :: "string list"
  sf_max_age :: "u64 option"

definition sts_field :: "StsFields \<Rightarrow> string \<Rightarrow> string \<Rightarrow> StsParseError + StsFields" where
  "sts_field f key value =
     (if key = ''version'' then Inr (f\<lparr>sf_version := Some value\<rparr>)
      else if key = ''mode'' then res_bind (parse_mode_value value) (\<lambda>m. Inr (f\<lparr>sf_mode := Some m\<rparr>))
      else if key = ''mx'' then Inr (f\<lparr>sf_mx_patterns := sf_mx_patterns f @ [value]\<rparr>)
      else if key = ''max_age'' then Inr (f\<lparr>sf_max_age := map_option of_nat (parse_unsigned (2 ^ 64 - 1) value)\<rparr>)
      else Inr f)"

fun sts_lines :: "StsFields \<Rightarrow> string list \<Rightarrow> StsParseError + StsFields" where
  "sts_lines f [] = Inr f"
| "sts_lines f (line # ls) =
     (let line = trim line in
      if line = [] then sts_lines f ls
      else
        res_bind (ok_or MalformedLine (split_once CHR '':'' line)) (\<lambda>(key, value).
        res_bind (sts_field f (trim key) (trim value)) (\<lambda>f. sts_lines f ls)))"

definition parse_policy :: "string \<Rightarrow> StsParseError + StsPolicy" where
  "parse_policy body =
     res_bind (sts_lines \<lparr> sf_version = None, sf_mode = None, sf_mx_patterns = [], sf_max_age = None \<rparr> (lines body)) (\<lambda>f.
     res_bind (ok_or MissingVersion (sf_version f)) (\<lambda>version.
     if version \<noteq> ''STSv1'' then Inl (UnsupportedVersion version)
     else
       res_bind (ok_or MissingMode (sf_mode f)) (\<lambda>mode.
       if mode \<noteq> ModeNone \<and> sf_mx_patterns f = [] then Inl NoMxPatterns
       else Inr \<lparr> sp_mode = mode, sp_mx_patterns = sf_mx_patterns f,
                  sp_max_age = (case sf_max_age f of Some a \<Rightarrow> a | None \<Rightarrow> 86400) \<rparr>)))"

definition mx_pattern_matches :: "string \<Rightarrow> string \<Rightarrow> bool" where
  "mx_pattern_matches pattern host =
     (let pattern = trim_end_matches CHR ''.'' (trim pattern);
          host = trim_end_matches CHR ''.'' (trim host)
      in case strip_prefix ''*.'' pattern of
           Some suffix \<Rightarrow>
             (case strip_suffix (CHR ''.'' # to_ascii_lowercase suffix) (to_ascii_lowercase host) of
                Some prefix \<Rightarrow> prefix \<noteq> [] \<and> CHR ''.'' \<notin> set prefix
              | None \<Rightarrow> False)
         | None \<Rightarrow> eq_ignore_ascii_case pattern host)"

definition any_pattern_matches :: "string list \<Rightarrow> string \<Rightarrow> bool" where
  "any_pattern_matches patterns host = list_ex (\<lambda>p. mx_pattern_matches p host) patterns"

section \<open>Sources\<close>

type_synonym TxtResolver = "string \<Rightarrow> string list"
type_synonym PolicyFetcher = "string \<Rightarrow> string option"

definition in_memory_txt :: "(string \<times> string list) list \<Rightarrow> TxtResolver" where
  "in_memory_txt records name = al_get_or [] records (to_ascii_lowercase name)"

definition sts_with_txt :: "(string \<times> string list) list \<Rightarrow> string \<Rightarrow> string list \<Rightarrow> (string \<times> string list) list" where
  "sts_with_txt records name values = al_insert (to_ascii_lowercase name) values records"

definition in_memory_fetcher :: "(string \<times> string) list \<Rightarrow> PolicyFetcher" where
  "in_memory_fetcher bodies domain = map_of bodies (to_ascii_lowercase domain)"

definition with_policy :: "(string \<times> string) list \<Rightarrow> string \<Rightarrow> string \<Rightarrow> (string \<times> string) list" where
  "with_policy bodies domain body = al_insert (to_ascii_lowercase domain) body bodies"

definition txt_answers :: "DnsMessage \<Rightarrow> string list" where
  "txt_answers msg = map parse_txt_rdata (filter (\<lambda>rr. rr_rtype rr = TYPE_TXT) (dm_answers msg))"

definition dns_txt :: "'e UdpDnsClient \<Rightarrow> TxtResolver" where
  "dns_txt c name = (case query c name TYPE_TXT of Inr msg \<Rightarrow> txt_answers msg | Inl _ \<Rightarrow> [])"

definition dns_dmarc :: "'e UdpDnsClient \<Rightarrow> DmarcTxtResolver" where
  "dns_dmarc c name = (case query c name TYPE_TXT of Inr msg \<Rightarrow> txt_answers msg | Inl _ \<Rightarrow> [])"

definition dns_lookup_txt :: "'e UdpDnsClient \<Rightarrow> string \<Rightarrow> unit + string list" where
  "dns_lookup_txt c name =
     res_bind (map_err (\<lambda>_. ()) (query c name TYPE_TXT)) (\<lambda>msg. Inr (txt_answers msg))"

definition dns_lookup_a :: "'e UdpDnsClient \<Rightarrow> string \<Rightarrow> unit + Ipv4Addr list" where
  "dns_lookup_a c name =
     res_bind (map_err (\<lambda>_. ()) (query c name TYPE_A)) (\<lambda>msg.
       Inr (List.map_filter parse_a_rdata (filter (\<lambda>rr. rr_rtype rr = TYPE_A) (dm_answers msg))))"

definition dns_lookup_aaaa :: "'e UdpDnsClient \<Rightarrow> string \<Rightarrow> unit + Ipv6Addr list" where
  "dns_lookup_aaaa c name =
     res_bind (map_err (\<lambda>_. ()) (query c name TYPE_AAAA)) (\<lambda>msg.
       Inr (List.map_filter parse_aaaa_rdata (filter (\<lambda>rr. rr_rtype rr = TYPE_AAAA) (dm_answers msg))))"

definition dns_lookup_mx :: "'e UdpDnsClient \<Rightarrow> string \<Rightarrow> unit + string list" where
  "dns_lookup_mx c name =
     res_bind (map_err (\<lambda>_. ()) (query_raw c name TYPE_MX)) (\<lambda>(packet, msg).
       Inr (map mh_host (List.map_filter (mx_of_answer packet)
              (filter (\<lambda>rr. rr_rtype rr = TYPE_MX) (dm_answers msg)))))"

definition dns_spf :: "'e UdpDnsClient \<Rightarrow> SpfResolver" where
  "dns_spf c = \<lparr> lookup_txt = dns_lookup_txt c, lookup_a = dns_lookup_a c,
                 lookup_aaaa = dns_lookup_aaaa c, lookup_mx = dns_lookup_mx c \<rparr>"

section \<open>The TLS policy\<close>

datatype TlsRequirement = Required | Opportunistic

text \<open>
  A policy is asked more than once in the course of a delivery, and what it asks of the network may be
  answered differently each time. The moment of a question is the number of the call: \<open>txt i\<close> and
  \<open>fetcher i\<close> are the sources as the \<open>i\<close>-th question finds them, so that a lookup may fail or change
  between one call and the next.
\<close>

type_synonym Moment = nat

record TlsPolicy =
  requirement_for :: "Moment \<Rightarrow> string \<Rightarrow> TlsRequirement"
  allowed_mx_patterns :: "Moment \<Rightarrow> string \<Rightarrow> string list"

definition AlwaysRequireTls :: TlsPolicy where
  "AlwaysRequireTls = \<lparr> requirement_for = (\<lambda>_ _. Required), allowed_mx_patterns = (\<lambda>_ _. []) \<rparr>"

definition sts_resolve :: "TxtResolver \<Rightarrow> PolicyFetcher \<Rightarrow> string \<Rightarrow> StsPolicy option" where
  "sts_resolve txt fetcher domain =
     (let txt_name = ''_mta-sts.'' @ domain;
          signaled = list_ex (\<lambda>v. starts_with ''v=STSv1'' (trim_start v)) (txt txt_name)
      in if \<not> signaled then None
         else (case fetcher domain of
                 None \<Rightarrow> None
               | Some body \<Rightarrow> (case parse_policy body of Inr p \<Rightarrow> Some p | Inl _ \<Rightarrow> None)))"

definition MtaStsTlsPolicy :: "(Moment \<Rightarrow> TxtResolver) \<Rightarrow> (Moment \<Rightarrow> PolicyFetcher) \<Rightarrow> TlsPolicy" where
  "MtaStsTlsPolicy txt fetcher =
     \<lparr> requirement_for = (\<lambda>i dest.
         case sts_resolve (txt i) (fetcher i) dest of
           Some p \<Rightarrow> if sp_mode p = Enforce then Required else Opportunistic
         | None \<Rightarrow> Opportunistic),
       allowed_mx_patterns = (\<lambda>i dest.
         case sts_resolve (txt i) (fetcher i) dest of
           Some p \<Rightarrow> if sp_mode p = Enforce then sp_mx_patterns p else []
         | None \<Rightarrow> []) \<rparr>"

text \<open>The part of \<open>HttpsPolicyFetcher::fetch\<close> after the response is read.\<close>

fun split_once_str :: "string \<Rightarrow> string \<Rightarrow> (string \<times> string) option" where
  "split_once_str p [] = (if p = [] then Some ([], []) else None)"
| "split_once_str p (x # xs) =
     (if starts_with p (x # xs) then Some ([], drop (length p) (x # xs))
      else map_option (\<lambda>(a, b). (x # a, b)) (split_once_str p xs))"

datatype FetchError = NoHeaderBodySplit | Non2xx string

definition fetch_response :: "bytes \<Rightarrow> FetchError + string" where
  "fetch_response response =
     res_bind (ok_or NoHeaderBodySplit
       (split_once_str [CHR 0x0D, CHR 0x0A, CHR 0x0D, CHR 0x0A] (lossy response))) (\<lambda>(head', body).
       let status_line = (case lines head' of l # _ \<Rightarrow> l | [] \<Rightarrow> []);
           status_ok = (case get_at (split_whitespace status_line) 1 of
                          Some c \<Rightarrow> starts_with ''2'' c | None \<Rightarrow> False)
       in if \<not> status_ok then Inl (Non2xx status_line) else Inr body)"

section \<open>Enforced policies\<close>

text \<open>A policy in force names at least one host pattern, so it never lets every host pass.\<close>

lemma parse_policy_patterns: "parse_policy body = Inr p \<Longrightarrow> sp_mode p \<noteq> ModeNone \<Longrightarrow> sp_mx_patterns p \<noteq> []"
  by (auto simp: parse_policy_def res_bind_Inr_iff split: if_splits)

lemma sts_resolve_patterns: "sts_resolve txt fetcher d = Some p \<Longrightarrow> sp_mode p = Enforce \<Longrightarrow> sp_mx_patterns p \<noteq> []"
  by (auto simp: sts_resolve_def Let_def dest: parse_policy_patterns split: if_splits option.splits sum.splits)

end
