(* ===== verification/Gateway_Dkim.thy ===== *)
theory Gateway_Dkim
  imports Gateway_MtaSts Gateway_B64
begin

text \<open>
  DKIM (\<open>crates/pier-gateway/src/dkim.rs\<close>): splitting a message, the relaxed canonicalizations,
  the tag list, signing, verification with a given key, key resolution and the verdict on a message.
  SHA-256 and Ed25519 are external and are the fields of \<open>DkimCrypto\<close>.
\<close>

section \<open>Keys and errors\<close>

record 'sk DkimCrypto =
  sha256 :: "bytes \<Rightarrow> bytes"
  ed_public :: "'sk \<Rightarrow> bytes"
  ed_sign :: "'sk \<Rightarrow> bytes \<Rightarrow> bytes"
  ed_key_ok :: "bytes \<Rightarrow> bool"
  ed_verify :: "bytes \<Rightarrow> bytes \<Rightarrow> bytes \<Rightarrow> bool"

record 'sk DkimKey =
  dk_domain :: string
  dk_selector :: string
  dk_signing :: 'sk

datatype DkimError =
    DkimNoSignature
  | UnsupportedAlgorithm
  | UnsupportedCanonicalization
  | FromFieldNotSigned
  | MalformedSignature
  | BodyHashMismatch
  | BadPublicKey
  | SignatureInvalid

definition public_p_tag :: "'sk DkimCrypto \<Rightarrow> 'sk DkimKey \<Rightarrow> string" where
  "public_p_tag C k = b64_encode (ed_public C (dk_signing k))"

section \<open>Splitting a message\<close>

definition CRLF :: bytes where "CRLF = [13, 10]"

definition find_blank_line :: "bytes \<Rightarrow> nat option" where
  "find_blank_line message = find_sub [13, 10, 13, 10] message"

fun split_crlf :: "bytes \<Rightarrow> bytes list" where
  "split_crlf [] = [[]]"
| "split_crlf [b] = [[b]]"
| "split_crlf (a # b # bs) =
     (if a = 13 \<and> b = 10 then [] # split_crlf bs
      else (case split_crlf (b # bs) of [] \<Rightarrow> [[a]] | l # ls \<Rightarrow> (a # l) # ls))"

definition strip_final_crlf :: "bytes \<Rightarrow> bytes" where
  "strip_final_crlf b = (if take 2 (rev b) = [10, 13] then take (length b - 2) b else b)"

definition is_wsp :: "u8 \<Rightarrow> bool" where
  "is_wsp b = (b = 32 \<or> b = 9)"

definition fold_into :: "bytes \<Rightarrow> (string \<times> bytes) list \<Rightarrow> (string \<times> bytes) list" where
  "fold_into raw out = (if out = [] then [] else butlast out @ [(fst (last out), snd (last out) @ CRLF @ raw)])"

definition push_header :: "(string \<times> bytes) list \<Rightarrow> bytes \<Rightarrow> (string \<times> bytes) list" where
  "push_header out raw =
     (if raw = [] then out
      else if is_wsp (hd raw) then fold_into raw out
      else (case find_sub [58] raw of
              Some colon \<Rightarrow> out @ [(lossy (take colon raw), drop (colon + 1) raw)]
            | None \<Rightarrow> out))"

definition parse_headers :: "bytes \<Rightarrow> (string \<times> bytes) list" where
  "parse_headers head' = foldl push_header [] (split_crlf head')"

definition split_headers_body :: "bytes \<Rightarrow> (string \<times> bytes) list \<times> bytes" where
  "split_headers_body message =
     (case find_blank_line message of
        Some idx \<Rightarrow> (parse_headers (take idx message), drop (idx + 4) message)
      | None \<Rightarrow> (parse_headers message, []))"

definition name_is :: "string \<Rightarrow> string \<times> bytes \<Rightarrow> bool" where
  "name_is name h = eq_ignore_ascii_case (trim (fst h)) name"

definition find_header :: "(string \<times> bytes) list \<Rightarrow> string \<Rightarrow> (string \<times> bytes) option" where
  "find_header headers name = find (name_is name) (rev headers)"

section \<open>Canonicalization\<close>

fun relax :: "bool \<Rightarrow> bytes \<Rightarrow> bytes \<Rightarrow> bytes" where
  "relax in_wsp val [] = val"
| "relax in_wsp val (b # bs) =
     (if b = 13 \<and> bs \<noteq> [] \<and> hd bs = 10 then relax in_wsp val (tl bs)
      else if is_wsp b then relax True val bs
      else relax False ((if in_wsp \<and> val \<noteq> [] then val @ [32] else val) @ [b]) bs)"

definition canonicalize_header :: "string \<Rightarrow> bytes \<Rightarrow> bytes" where
  "canonicalize_header name value =
     str_bytes (to_ascii_lowercase (trim name)) @ [58] @ relax False [] value @ CRLF"

fun collapse_wsp :: "bool \<Rightarrow> bytes \<Rightarrow> bytes \<Rightarrow> bytes" where
  "collapse_wsp in_wsp acc [] = acc"
| "collapse_wsp in_wsp acc (b # bs) =
     (if is_wsp b then collapse_wsp True acc bs
      else collapse_wsp False ((if in_wsp then acc @ [32] else acc) @ [b]) bs)"

fun join_crlf :: "bytes list \<Rightarrow> bytes" where
  "join_crlf [] = []"
| "join_crlf [l] = l"
| "join_crlf (l # m # ls) = l @ CRLF @ join_crlf (m # ls)"

definition canonicalize_body :: "bytes \<Rightarrow> bytes" where
  "canonicalize_body body =
     (let ls = rev (dropWhile (\<lambda>l. l = []) (rev (map (collapse_wsp False []) (split_crlf body)))) in
      if ls = [] then [] else join_crlf ls @ CRLF)"

definition assemble_signed_headers :: "(string \<times> bytes) list \<Rightarrow> string list \<Rightarrow> bytes" where
  "assemble_signed_headers headers h_names =
     concat (map (\<lambda>k.
        let key = trim (h_names ! k);
            occurrence = length (filter (\<lambda>m. eq_ignore_ascii_case (trim m) key) (take k h_names))
        in case get_at (filter (name_is key) (rev headers)) occurrence of
             Some (n, v) \<Rightarrow> canonicalize_header n v
           | None \<Rightarrow> []) [0..<length h_names])"

section \<open>Tags\<close>

definition parse_tag_part :: "string \<Rightarrow> (string \<times> string) option" where
  "parse_tag_part part =
     (let part = trim part in
      if part = [] then None
      else (case split_once CHR ''='' part of
              None \<Rightarrow> None
            | Some (k, v) \<Rightarrow> Some (trim k, filter (\<lambda>c. \<not> is_whitespace c) v)))"

definition parse_dkim_tags :: "string \<Rightarrow> (string \<times> string) list" where
  "parse_dkim_tags value = List.map_filter parse_tag_part (split_on CHR '';'' value)"

text \<open>
  The scan of \<open>empty_b_value\<close>: the bytes before the position, reversed, say whether a tag may start
  here.
\<close>

definition at_boundary :: "bytes \<Rightarrow> bool" where
  "at_boundary before_rev =
     (before_rev = [] \<or> (case dropWhile is_wsp before_rev of b # _ \<Rightarrow> b = 59 | [] \<Rightarrow> False))"

function empty_b_loop :: "bytes \<Rightarrow> bytes \<Rightarrow> bytes" where
  "empty_b_loop before_rev [] = []"
| "empty_b_loop before_rev (b # bs) =
     (let rest = dropWhile is_wsp bs in
      if at_boundary before_rev \<and> b = 98 \<and> rest \<noteq> [] \<and> hd rest = 61
      then (let v = takeWhile (\<lambda>x. x \<noteq> 59) (tl rest);
                used = b # takeWhile is_wsp bs @ [61] @ v
            in [98, 61] @ empty_b_loop (rev used @ before_rev) (dropWhile (\<lambda>x. x \<noteq> 59) (tl rest)))
      else b # empty_b_loop (b # before_rev) bs)"
  by pat_completeness auto
termination
proof (relation "measure (\<lambda>(before_rev, bs). length bs)", goal_cases)
  case (2 before_rev b bs rest v used)
  have "length (dropWhile (\<lambda>x. x \<noteq> 59) (tl rest)) \<le> length (tl rest)" by (rule length_dropWhile_le)
  also have "\<dots> \<le> length rest" by simp
  also have "\<dots> \<le> length bs" unfolding 2(1) by (rule length_dropWhile_le)
  finally show ?case by simp
qed auto

declare empty_b_loop.simps(2) [simp del]

definition empty_b_value :: "bytes \<Rightarrow> bytes" where
  "empty_b_value value = empty_b_loop [] value"

section \<open>Signing and verifying\<close>

definition SIGNED_HEADERS :: "string list" where
  "SIGNED_HEADERS = [''from'', ''to'', ''subject'', ''date'', ''message-id'']"

definition signed_names :: "(string \<times> bytes) list \<Rightarrow> string list" where
  "signed_names headers = filter (\<lambda>h. find_header headers h \<noteq> None) SIGNED_HEADERS @ [''from'']"

definition dkim_header_base :: "'sk DkimCrypto \<Rightarrow> 'sk DkimKey \<Rightarrow> bytes \<Rightarrow> u64 \<Rightarrow> string" where
  "dkim_header_base C k message t =
     (let (headers, body) = split_headers_body message;
          bh = b64_encode (sha256 C (canonicalize_body body));
          h_tag = join '':'' (signed_names headers)
      in ''v=1; a=ed25519-sha256; c=relaxed/relaxed; d='' @ dk_domain k @ ''; s='' @ dk_selector k
         @ ''; t='' @ show_nat (unat t) @ ''; h='' @ h_tag @ ''; bh='' @ bh @ ''; b='')"

definition signing_input :: "(string \<times> bytes) list \<Rightarrow> string list \<Rightarrow> bytes \<Rightarrow> bytes" where
  "signing_input headers h_names dkim_value =
     assemble_signed_headers headers h_names
     @ strip_final_crlf (canonicalize_header ''DKIM-Signature'' dkim_value)"

definition dkim_sign :: "'sk DkimCrypto \<Rightarrow> 'sk DkimKey \<Rightarrow> bytes \<Rightarrow> u64 \<Rightarrow> string" where
  "dkim_sign C k message t =
     (let (headers, body) = split_headers_body message;
          base = dkim_header_base C k message t;
          digest = sha256 C (signing_input headers (signed_names headers) (str_bytes base));
          b = b64_encode (ed_sign C (dk_signing k) digest)
      in ''DKIM-Signature: '' @ base @ b @ [CHR 0x0D, CHR 0x0A])"

definition tag_get :: "(string \<times> string) list \<Rightarrow> string \<Rightarrow> string option" where
  "tag_get tags k = map_option snd (find (\<lambda>p. fst p = k) tags)"

definition dkim_verify :: "'sk DkimCrypto \<Rightarrow> bytes \<Rightarrow> bytes \<Rightarrow> DkimError + unit" where
  "dkim_verify C message public_key =
     (let (headers, body) = split_headers_body message in
      res_bind (ok_or DkimNoSignature (find_header headers ''dkim-signature'')) (\<lambda>(_, dkim_value).
      let tags = parse_dkim_tags (lossy dkim_value) in
      if tag_get tags ''a'' \<noteq> Some ''ed25519-sha256'' then Inl UnsupportedAlgorithm
      else if tag_get tags ''c'' \<noteq> Some ''relaxed/relaxed'' \<and> tag_get tags ''c'' \<noteq> None
      then Inl UnsupportedCanonicalization
      else
        res_bind (ok_or MalformedSignature (tag_get tags ''bh'')) (\<lambda>bh_expected.
        if bh_expected \<noteq> b64_encode (sha256 C (canonicalize_body body)) then Inl BodyHashMismatch
        else
          res_bind (ok_or MalformedSignature (tag_get tags ''h'')) (\<lambda>h_tag.
          res_bind (ok_or MalformedSignature (tag_get tags ''b'')) (\<lambda>b_tag.
          let h_names = filter (\<lambda>s. s \<noteq> []) (map trim (split_on CHR '':'' h_tag)) in
          if \<not> list_ex (\<lambda>n. eq_ignore_ascii_case n ''from'') h_names then Inl FromFieldNotSigned
          else
            (let si = signing_input headers h_names (empty_b_value dkim_value) in
             if length public_key \<noteq> 32 \<or> \<not> ed_key_ok C public_key then Inl BadPublicKey
             else
               res_bind (map_err (\<lambda>_. MalformedSignature) (b64_decode b_tag)) (\<lambda>sig_bytes.
               if length sig_bytes \<noteq> 64 then Inl MalformedSignature
               else if ed_verify C public_key (sha256 C si) sig_bytes then Inr ()
               else Inl SignatureInvalid)))))))"

section \<open>Key resolution and the verdict\<close>

type_synonym DkimKeyResolver = "string \<Rightarrow> string \<Rightarrow> bytes option"

definition publish_dkim :: "(string \<times> string \<times> bytes) list \<Rightarrow> string \<Rightarrow> string \<Rightarrow> bytes \<Rightarrow> (string \<times> string \<times> bytes) list" where
  "publish_dkim entries domain selector key = entries @ [(domain, selector, key)]"

definition static_dkim :: "(string \<times> string \<times> bytes) list \<Rightarrow> DkimKeyResolver" where
  "static_dkim entries domain selector =
     map_option (\<lambda>(_, _, k). k)
       (find (\<lambda>(d, s, _). eq_ignore_ascii_case d domain \<and> s = selector) entries)"

fun parse_key_parts :: "string list \<Rightarrow> bytes option" where
  "parse_key_parts [] = None"
| "parse_key_parts (part # ps) =
     (case strip_prefix ''p='' (trim part) of
        Some v \<Rightarrow>
          (let v = filter (\<lambda>c. \<not> is_whitespace c) v in
           if v = [] then None
           else (case b64_decode v of Inr k \<Rightarrow> Some k | Inl _ \<Rightarrow> None))
      | None \<Rightarrow> parse_key_parts ps)"

definition parse_public_key_txt :: "string \<Rightarrow> bytes option" where
  "parse_public_key_txt txt = parse_key_parts (split_on CHR '';'' txt)"

fun find_map :: "('a \<Rightarrow> 'b option) \<Rightarrow> 'a list \<Rightarrow> 'b option" where
  "find_map f [] = None"
| "find_map f (x # xs) = (case f x of Some y \<Rightarrow> Some y | None \<Rightarrow> find_map f xs)"

definition dns_dkim :: "'e UdpDnsClient \<Rightarrow> DkimKeyResolver" where
  "dns_dkim c domain selector =
     (case query c (selector @ ''._domainkey.'' @ domain) TYPE_TXT of
        Inl _ \<Rightarrow> None
      | Inr msg \<Rightarrow> find_map parse_public_key_txt (txt_answers msg))"

definition signing_domain_selector :: "bytes \<Rightarrow> (string \<times> string) option" where
  "signing_domain_selector message =
     (case find_header (fst (split_headers_body message)) ''dkim-signature'' of
        None \<Rightarrow> None
      | Some (_, value) \<Rightarrow>
          (let tags = parse_dkim_tags (lossy value) in
           case (tag_get tags ''d'', tag_get tags ''s'') of
             (Some d, Some s) \<Rightarrow> Some (d, s)
           | _ \<Rightarrow> None))"

definition verify_with_resolver :: "'sk DkimCrypto \<Rightarrow> bytes \<Rightarrow> DkimKeyResolver \<Rightarrow> DkimError DkimVerdict" where
  "verify_with_resolver C message resolver =
     (case signing_domain_selector message of
        None \<Rightarrow> NoSignature
      | Some (domain, selector) \<Rightarrow>
          (case resolver domain selector of
             Some key \<Rightarrow>
               (case dkim_verify C message key of
                  Inr _ \<Rightarrow> DkimPass domain selector
                | Inl e \<Rightarrow> DkimFail e)
           | None \<Rightarrow> KeyUnavailable domain selector))"

section \<open>Text of a signature\<close>

lemma split_on_nosep: "c \<notin> set a \<Longrightarrow> split_on c a = [a]"
  by (induction a) auto

lemma split_on_append: "c \<notin> set a \<Longrightarrow> split_on c (a @ c # r) = a # split_on c r"
  by (induction a) auto

lemma split_on_join: "ls \<noteq> [] \<Longrightarrow> list_all (\<lambda>l. c \<notin> set l) ls \<Longrightarrow> split_on c (join [c] ls) = ls"
proof (induction "[c]" ls rule: join.induct)
  case (2 x)
  then show ?case by (simp add: split_on_nosep)
next
  case (3 x y ys)
  then show ?case by (simp add: split_on_append)
qed simp

lemma trim_plain: "s \<noteq> [] \<Longrightarrow> \<not> is_whitespace (hd s) \<Longrightarrow> \<not> is_whitespace (last s) \<Longrightarrow> trim s = s"
proof -
  assume a: "s \<noteq> []" "\<not> is_whitespace (hd s)" "\<not> is_whitespace (last s)"
  then have "dropWhile is_whitespace s = s" "dropWhile is_whitespace (rev s) = rev s"
    by (simp_all only: dropWhile_eq_self_iff hd_rev) simp_all
  then show ?thesis by (simp add: trim_def trim_end_while_def)
qed

lemma trim_space: "trim (CHR '' '' # s) = trim s"
  by (simp add: trim_def is_whitespace_def)

lemma filter_nonspace: "list_all (\<lambda>c. \<not> is_whitespace c) v \<Longrightarrow> filter (\<lambda>c. \<not> is_whitespace c) v = v"
  by (simp add: filter_id_conv list_all_iff)

text \<open>The characters of a tag: no white space, no semicolon, ASCII; in a name no equals sign either.\<close>

definition tag_char :: "char \<Rightarrow> bool" where
  "tag_char c = (\<not> is_whitespace c \<and> c \<noteq> CHR '';'' \<and> (of_char c :: u8) < 0x80)"

definition good_tag :: "string \<times> string \<Rightarrow> bool" where
  "good_tag kv = (case kv of (k, v) \<Rightarrow>
     k \<noteq> [] \<and> list_all tag_char k \<and> CHR ''='' \<notin> set k \<and> list_all tag_char v)"

definition piece :: "string \<times> string \<Rightarrow> string" where
  "piece kv = CHR '' '' # fst kv @ CHR ''='' # snd kv"

lemma tag_char_nonspace: "tag_char c \<Longrightarrow> \<not> is_whitespace c"
  by (simp add: tag_char_def)

lemma split_once_first: "c \<notin> set a \<Longrightarrow> split_once c (a @ c # b) = Some (a, b)"
  by (induction a) auto

lemma parse_tag_piece:
  assumes "good_tag kv"
  shows "parse_tag_part (piece kv) = Some kv"
proof -
  obtain k v where kv: "kv = (k, v)" by (cases kv)
  have k: "k \<noteq> []" "list_all tag_char k" "CHR ''='' \<notin> set k" and v: "list_all tag_char v"
    using assms by (auto simp: good_tag_def kv)
  have kn: "\<not> is_whitespace (hd k)" "\<not> is_whitespace (last k)"
    using k hd_in_set [of k] last_in_set [of k] by (auto simp: list_all_iff tag_char_def)
  have e: "\<not> is_whitespace (CHR ''='')" by (simp add: is_whitespace_def)
  have "\<not> is_whitespace (last (k @ CHR ''='' # v))"
    using e v last_in_set [of v] by (cases "v = []") (auto simp: list_all_iff tag_char_def)
  then have "trim (k @ CHR ''='' # v) = k @ CHR ''='' # v" using k(1) kn(1) by (intro trim_plain) auto
  moreover have "trim k = k" using k(1) kn by (rule trim_plain)
  moreover have "filter (\<lambda>c. \<not> is_whitespace c) v = v"
    by (rule filter_nonspace) (use v in \<open>auto simp: list_all_iff tag_char_def\<close>)
  ultimately show ?thesis
    by (simp add: parse_tag_part_def piece_def kv trim_space split_once_first [OF k(3)])
qed

lemma semicolon_piece: "good_tag kv \<Longrightarrow> CHR '';'' \<notin> set (piece kv)"
  by (auto simp: good_tag_def piece_def list_all_iff tag_char_def split: prod.splits)

lemma parse_dkim_tags_pieces:
  assumes "tags \<noteq> []" "list_all good_tag tags"
  shows "parse_dkim_tags (join '';'' (map piece tags)) = tags"
proof -
  have "split_on CHR '';'' (join '';'' (map piece tags)) = map piece tags"
    using assms semicolon_piece by (intro split_on_join) (auto simp: list_all_iff)
  moreover have "List.map_filter parse_tag_part (map piece tags) = tags"
    by (rule map_filter_rel)
       (use assms parse_tag_piece in \<open>auto simp: list.rel_map list_all_iff intro!: list.rel_refl_strong\<close>)
  ultimately show ?thesis by (simp add: parse_dkim_tags_def)
qed

section \<open>Emptying the signature tag\<close>

lemma not_boundary_copy:
  assumes "\<not> at_boundary before" "59 \<notin> set p"
  shows "empty_b_loop before (p @ rest) = p @ empty_b_loop (rev p @ before) rest \<and> \<not> at_boundary (rev p @ before)"
  using assms
proof (induction p arbitrary: before)
  case Nil
  then show ?case by simp
next
  case (Cons x p)
  have "\<not> at_boundary (x # before)" using Cons.prems by (auto simp: at_boundary_def)
  with Cons.IH [of "x # before"] Cons.prems show ?case by (simp add: empty_b_loop.simps(2) Let_def)
qed

lemma tag_char_bytes:
  assumes "tag_char c"
  shows "(of_char c :: u8) \<noteq> 59" "\<not> is_wsp (of_char c)"
proof -
  have "(of_char c :: nat) \<noteq> of_char (CHR '';'')" by (metis assms of_char_eq_iff tag_char_def)
  then have "unat (of_char c :: u8) \<noteq> 59" by simp
  then show "(of_char c :: u8) \<noteq> 59" by (auto dest: arg_cong [where f = unat])
  have "unat (of_char c :: u8) \<noteq> 32" "unat (of_char c :: u8) \<noteq> 9"
    using assms by (auto simp: tag_char_def is_whitespace_def)
  then show "\<not> is_wsp (of_char c)" by (auto simp: is_wsp_def dest: arg_cong [where f = unat])
qed

lemma str_bytes_Cons [simp]: "str_bytes (c # s) = of_char c # str_bytes s" "str_bytes [] = []"
  by (simp_all add: str_bytes_def)

lemma tag_str_bytes: "list_all tag_char s \<Longrightarrow> 59 \<notin> set (str_bytes s)"
  by (auto simp: str_bytes_def list_all_iff dest: tag_char_bytes(1) [symmetric])

text \<open>A tag other than \<open>b\<close> is copied, and the scan stands inside it afterwards.\<close>

lemma copy_piece:
  assumes "good_tag (k, v)" "k \<noteq> ''b''"
  shows "empty_b_loop before (str_bytes (piece (k, v)) @ rest)
         = str_bytes (piece (k, v)) @ empty_b_loop (rev (str_bytes (piece (k, v))) @ before) rest"
proof -
  obtain c k' where k: "k = c # k'" using assms(1) by (cases k) (auto simp: good_tag_def)
  have c: "tag_char c" "c \<noteq> CHR ''=''" and k': "list_all tag_char k'" "CHR ''='' \<notin> set k'" and v: "list_all tag_char v"
    using assms(1) by (auto simp: good_tag_def k)
  let ?p = "str_bytes (k' @ CHR ''='' # v)"
  have sp: "empty_b_loop before (32 # of_char c # ?p @ rest) = 32 # empty_b_loop (32 # before) (of_char c # ?p @ rest)"
    by (simp add: empty_b_loop.simps(2) [of _ 32] Let_def)
  have "\<not> (of_char c = (98 :: u8) \<and> dropWhile is_wsp (?p @ rest) \<noteq> [] \<and> hd (dropWhile is_wsp (?p @ rest)) = 61)"
  proof (cases "k' = []")
    case True
    then have "(of_char c :: u8) \<noteq> of_char (CHR ''b'')" using assms(2) k by (simp only: of_char_word_inject) simp
    then show ?thesis by simp
  next
    case False
    then obtain d k'' where d: "k' = d # k''" by (cases k') auto
    then have "\<not> is_wsp (of_char d)" and "d \<noteq> CHR ''=''" using k' tag_char_bytes by auto
    moreover from this have "(of_char d :: u8) \<noteq> of_char (CHR ''='')" by (simp only: of_char_word_inject) simp
    ultimately show ?thesis by (simp add: d)
  qed
  then have first: "empty_b_loop (32 # before) (of_char c # ?p @ rest) = of_char c # empty_b_loop (of_char c # 32 # before) (?p @ rest)"
    by (subst empty_b_loop.simps(2)) (simp only: Let_def if_False simp_thms)
  have nb: "\<not> at_boundary (of_char c # 32 # before)" using tag_char_bytes [OF c(1)] by (simp add: at_boundary_def)
  have "59 \<notin> set ?p" using tag_str_bytes [OF k'(1)] tag_str_bytes [OF v] by simp
  from not_boundary_copy [OF nb this, of rest] sp first show ?thesis by (simp add: piece_def k)
qed

lemma empty_b_pieces:
  assumes "list_all (\<lambda>kv. good_tag kv \<and> fst kv \<noteq> ''b'') tags" "list_all tag_char b" "tags \<noteq> []"
  shows "empty_b_loop before (str_bytes (join '';'' (map piece (tags @ [(''b'', b)]))))
         = str_bytes (join '';'' (map piece (tags @ [(''b'', [])])))"
  using assms(1,3)
proof (induction tags arbitrary: before)
  case Nil
  then show ?case by simp
next
  case (Cons kv tags)
  obtain k v where kv: "kv = (k, v)" by (cases kv)
  have good: "good_tag (k, v)" "k \<noteq> ''b''" using Cons.prems by (auto simp: kv)
  let ?before = "59 # rev (str_bytes (piece kv)) @ before"
  have step: "empty_b_loop before (str_bytes (piece kv) @ 59 # rest) = str_bytes (piece kv) @ 59 # empty_b_loop ?before rest" for rest
    using copy_piece [OF good, of before "59 # rest"] by (simp add: kv empty_b_loop.simps(2) [of _ 59] Let_def)
  show ?case
  proof (cases tags)
    case Nil
    have d: "dropWhile (\<lambda>x. x \<noteq> 59) (str_bytes b) = []"
      using tag_str_bytes [OF assms(2)] by (auto simp: dropWhile_eq_Nil_conv)
    have "empty_b_loop ?before (str_bytes (piece (''b'', b))) = str_bytes (piece (''b'', []))"
      by (simp add: piece_def Let_def at_boundary_def is_wsp_def empty_b_loop.simps(2) [of _ 32] empty_b_loop.simps(2) [of _ 98] d)
    then show ?thesis using step by (simp add: Nil)
  next
    case (Cons t ts)
    with step Cons.IH [of ?before] Cons.prems show ?thesis by simp
  qed
qed

section \<open>The signed message taken apart\<close>

lemma find_blank_skip:
  "13 \<notin> set l \<Longrightarrow> find_sub [13, 10, 13, 10] (l @ r) = map_option (\<lambda>i. length l + i) (find_sub [13, 10, 13, 10] r)"
  for l r :: bytes
  by (induction l) (cases "find_sub [13, 10, 13, 10] r"; auto)+

lemma split_crlf_line: "13 \<notin> set l \<Longrightarrow> split_crlf (l @ 13 # 10 # r) = l # split_crlf r"
proof (induction l)
  case Nil
  then show ?case by simp
next
  case (Cons a l)
  then show ?case by (cases l) auto
qed

lemma push_header_prefix:
  "out \<noteq> [] \<Longrightarrow> push_header (h # out) raw = h # push_header out raw \<and> push_header out raw \<noteq> []"
  by (auto simp: push_header_def fold_into_def split: option.splits)

lemma foldl_push_prefix: "out \<noteq> [] \<Longrightarrow> foldl push_header (h # out) ls = h # foldl push_header out ls"
  by (induction ls arbitrary: out) (simp_all add: push_header_prefix)

text \<open>A header block whose first line is a field, as every rendered message has it.\<close>

definition first_is_field :: "bytes \<Rightarrow> bool" where
  "first_is_field head' =
     (case split_crlf head' of l # _ \<Rightarrow> l \<noteq> [] \<and> \<not> is_wsp (hd l) \<and> 58 \<in> set l | [] \<Rightarrow> False)"

lemma find_sub_single: "x \<in> set l \<Longrightarrow> \<exists>i. find_sub [x] l = Some i"
  by (induction l) auto

lemma parse_headers_cons:
  assumes "first_is_field head'" "13 \<notin> set line" "push_header [] line = [h]"
  shows "parse_headers (line @ 13 # 10 # head') = h # parse_headers head'"
proof -
  obtain l ls where l: "split_crlf head' = l # ls" "l \<noteq> []" "\<not> is_wsp (hd l)" "58 \<in> set l"
    using assms(1) by (auto simp: first_is_field_def split: list.splits)
  obtain i where i: "find_sub [58] l = Some i" using find_sub_single [OF l(4)] by blast
  then have x: "push_header out l = out @ [(lossy (take i l), drop (i + 1) l)]" for out
    using l by (simp add: push_header_def)
  show ?thesis
    using foldl_push_prefix [of "[(lossy (take i l), drop (i + 1) l)]" h ls]
    by (simp add: parse_headers_def split_crlf_line [OF assms(2)] assms(3) l(1) x)
qed

lemma no_leading_crlf:
  assumes "find_blank_line message = Some idx" "first_is_field (take idx message)"
  shows "find_blank_line (13 # 10 # message) = Some (idx + 2)"
proof -
  have "take 2 message \<noteq> [13, 10]"
  proof
    assume "take 2 message = [13, 10]"
    then obtain rest where m: "message = 13 # 10 # rest"
      by (cases message; cases "tl message") auto
    have "idx = 0 \<or> idx = Suc 0 \<or> (\<exists>j. idx = Suc (Suc j))" by presburger
    then show False using assms(2) by (auto simp: m first_is_field_def)
  qed
  then have "take 4 (13 # 10 # message) \<noteq> [13, 10, 13, 10]" by (simp add: take_Cons')
  then show ?thesis using assms(1) by (simp add: find_blank_line_def take_Cons' flip: numeral_2_eq_2)
qed

lemma split_signed:
  assumes "find_blank_line message = Some idx" "first_is_field (take idx message)"
    and "13 \<notin> set line" "push_header [] line = [h]"
  shows "split_headers_body (line @ 13 # 10 # message)
         = (h # fst (split_headers_body message), snd (split_headers_body message))"
proof -
  have "find_blank_line (line @ 13 # 10 # message) = Some (length line + (idx + 2))"
    using no_leading_crlf [OF assms(1,2)] find_blank_skip [OF assms(3), of "13 # 10 # message"]
    by (simp add: find_blank_line_def)
  then show ?thesis
    using parse_headers_cons [OF assms(2-4)] assms(1) by (simp add: split_headers_body_def drop_Cons' add.commute)
qed

lemma assemble_skip:
  assumes "list_all (\<lambda>n. \<not> name_is (trim n) h) names"
  shows "assemble_signed_headers (h # hs) names = assemble_signed_headers hs names"
proof -
  have "filter (name_is (trim (names ! k))) (rev (h # hs)) = filter (name_is (trim (names ! k))) (rev hs)"
    if "k < length names" for k using assms that by (auto simp: list_all_length)
  then show ?thesis
    unfolding assemble_signed_headers_def by (intro arg_cong [where f = concat] map_cong) (auto simp: Let_def)
qed

section \<open>What is signed verifies\<close>

text \<open>The promises of the signature library: sizes, valid keys, and that a signature verifies.\<close>

definition dkim_crypto_ok :: "'sk DkimCrypto \<Rightarrow> 'sk \<Rightarrow> bool" where
  "dkim_crypto_ok C sk =
     (length (ed_public C sk) = 32 \<and> ed_key_ok C (ed_public C sk)
      \<and> (\<forall>m. length (ed_sign C sk m) = 64 \<and> ed_verify C (ed_public C sk) m (ed_sign C sk m)))"

definition dkim_tags :: "'sk DkimCrypto \<Rightarrow> 'sk DkimKey \<Rightarrow> bytes \<Rightarrow> u64 \<Rightarrow> (string \<times> string) list" where
  "dkim_tags C k message t =
     [(''v'', ''1''), (''a'', ''ed25519-sha256''), (''c'', ''relaxed/relaxed''), (''d'', dk_domain k),
      (''s'', dk_selector k), (''t'', show_nat (unat t)),
      (''h'', join '':'' (signed_names (fst (split_headers_body message)))),
      (''bh'', b64_encode (sha256 C (canonicalize_body (snd (split_headers_body message)))))]"

lemma base_pieces:
  "CHR '' '' # dkim_header_base C k message t @ b = join '';'' (map piece (dkim_tags C k message t @ [(''b'', b)]))"
  by (simp add: dkim_header_base_def dkim_tags_def piece_def Let_def case_prod_beta)

lemma alphabet_tag_char: "list_all tag_char (CHR ''='' # ALPHABET)"
  by (simp add: ALPHABET_def tag_char_def is_whitespace_def)

lemma b64_char_tag: "tag_char (b64_char w)"
proof -
  have "b64_char w \<in> set ALPHABET"
    unfolding b64_char_def using unat_and_mask_lt(1) [of w] by (intro nth_mem) (simp add: ALPHABET_def)
  with alphabet_tag_char show ?thesis by (simp add: list_all_iff)
qed

lemma b64_encode_tag: "list_all tag_char (b64_encode x)"
proof -
  have "tag_char (CHR ''='')" using alphabet_tag_char by simp
  then have "list_all tag_char (encode_chunk c)" for c by (simp add: encode_chunk_def Let_def b64_char_tag)
  then show ?thesis by (auto simp: b64_encode_def list_all_iff)
qed

lemma b64_decode_encode: "b64_decode (b64_encode x) = Inr x"
  by (simp add: b64_decode_def b64_loop_encode)

lemma digit_tag_char: "is_ascii_digit c \<Longrightarrow> tag_char c"
  by (auto simp: tag_char_def is_ascii_digit_def is_whitespace_def word_less_nat_alt)

lemma signed_names_known:
  "n \<in> set (signed_names hs) \<Longrightarrow> n \<in> {''from'', ''to'', ''subject'', ''date'', ''message-id''}"
  using filter_is_subset [of "\<lambda>h. find_header hs h \<noteq> None" SIGNED_HEADERS]
  unfolding signed_names_def set_append by (auto simp only: SIGNED_HEADERS_def list.set)

lemma known_name_facts:
  assumes "n \<in> {''from'', ''to'', ''subject'', ''date'', ''message-id''}"
  shows "n \<noteq> []" "CHR '':'' \<notin> set n" "list_all tag_char n" "trim n = n" "\<not> name_is (trim n) (''DKIM-Signature'', v)"
proof -
  show "n \<noteq> []" "CHR '':'' \<notin> set n" using assms by auto
  show t: "list_all tag_char n" using assms by (auto simp: tag_char_def is_whitespace_def)
  then show "trim n = n" using assms by (intro trim_plain) (auto simp: is_whitespace_def)
  then show "\<not> name_is (trim n) (''DKIM-Signature'', v)"
    using assms by (auto simp: name_is_def eq_ignore_ascii_case_def to_ascii_lowercase_def trim_def
        trim_end_while_def is_whitespace_def to_lower_char_def is_ascii_uppercase_def)
qed

lemma list_all_join: "list_all P sep \<Longrightarrow> list_all (list_all P) ls \<Longrightarrow> list_all P (join sep ls)"
  by (induction sep ls rule: join.induct) auto

lemma dkim_tags_good:
  assumes "list_all tag_char (dk_domain k)" "list_all tag_char (dk_selector k)"
  shows "list_all (\<lambda>kv. good_tag kv \<and> fst kv \<noteq> ''b'') (dkim_tags C k message t)"
proof -
  have "list_all tag_char (show_nat n)" for n
    using show_nat_digits digit_tag_char by (auto simp: list_all_iff)
  moreover have "list_all tag_char (join '':'' (signed_names hs))" for hs
    using signed_names_known known_name_facts(3)
    by (intro list_all_join) (auto simp: tag_char_def is_whitespace_def list_all_iff)
  ultimately show ?thesis
    using assms b64_encode_tag
    by (simp add: dkim_tags_def good_tag_def) (simp add: tag_char_def is_whitespace_def)
qed

lemma h_names_roundtrip:
  "filter (\<lambda>s. s \<noteq> []) (map trim (split_on CHR '':'' (join '':'' (signed_names hs)))) = signed_names hs"
proof -
  have "split_on CHR '':'' (join '':'' (signed_names hs)) = signed_names hs"
  proof (rule split_on_join)
    show "signed_names hs \<noteq> []" by (simp add: signed_names_def)
    show "list_all (\<lambda>l. CHR '':'' \<notin> set l) (signed_names hs)"
      unfolding list_all_iff using signed_names_known known_name_facts(2) by blast
  qed
  moreover have "map trim (signed_names hs) = signed_names hs"
    by (rule map_idI) (use signed_names_known known_name_facts(4) in blast)
  moreover have "filter (\<lambda>s. s \<noteq> []) (signed_names hs) = signed_names hs"
    unfolding filter_id_conv using signed_names_known known_name_facts(1) by blast
  ultimately show ?thesis by simp
qed

lemma from_signed: "list_ex (\<lambda>n. eq_ignore_ascii_case n ''from'') (signed_names hs)"
  by (simp add: signed_names_def list_ex_iff eq_ignore_ascii_case_def)

lemma tag_char_ascii: "list_all tag_char s \<Longrightarrow> ascii_str s"
  by (auto simp: ascii_str_def list_all_iff tag_char_def)

lemma ascii_pieces:
  assumes "list_all good_tag tags"
  shows "ascii_str (join '';'' (map piece tags))"
proof -
  have "ascii_str (piece kv)" if "good_tag kv" for kv
    using that tag_char_ascii by (cases kv) (auto simp: good_tag_def piece_def ascii_str_def)
  then show ?thesis
    unfolding ascii_str_def using assms by (intro list_all_join) (auto simp: list_all_iff)
qed

lemma piece_no_cr: "good_tag kv \<Longrightarrow> list_all (\<lambda>c. c \<noteq> CHR 0x0D) (piece kv)"
proof -
  assume g: "good_tag kv"
  have "c \<noteq> CHR 0x0D" if "tag_char c" for c using that by (auto simp: tag_char_def is_whitespace_def)
  then show ?thesis using g by (cases kv) (auto simp: good_tag_def piece_def list_all_iff)
qed

lemma str_bytes_no_cr: "list_all (\<lambda>c. c \<noteq> CHR 0x0D) s \<Longrightarrow> 13 \<notin> set (str_bytes s)"
proof (induction s)
  case (Cons c s)
  have "(of_char c :: u8) \<noteq> of_char (CHR 0x0D)" using Cons.prems by (simp only: of_char_word_inject) simp
  with Cons show ?case by auto
qed simp

lemma find_append_None: "find P xs = None \<Longrightarrow> find P (xs @ ys) = find P ys"
  by (induction xs) (auto split: if_splits)

lemma relax_space: "relax False [] (32 # 118 # v) = relax False [] (118 # v)"
  by (simp add: is_wsp_def)

text \<open>
  The header the signer writes, and its reading: name, value, tags, and the value with the signature
  taken out.
\<close>

lemma dkim_value_facts:
  fixes C k message t b
  assumes "list_all tag_char (dk_domain k)" "list_all tag_char (dk_selector k)" "list_all tag_char b"
  defines "value \<equiv> str_bytes (CHR '' '' # dkim_header_base C k message t @ b)"
  shows "lossy value = CHR '' '' # dkim_header_base C k message t @ b"
    and "parse_dkim_tags (lossy value) = dkim_tags C k message t @ [(''b'', b)]"
    and "canonicalize_header n (empty_b_value value) = canonicalize_header n (str_bytes (dkim_header_base C k message t))"
    and "13 \<notin> set value"
proof -
  note good = dkim_tags_good [OF assms(1,2), where C = C and message = message and t = t]
  have goodb: "list_all good_tag (dkim_tags C k message t @ [(''b'', b)])"
    using good assms(3) by (auto simp: list_all_iff good_tag_def tag_char_def is_whitespace_def)
  have v: "value = str_bytes (join '';'' (map piece (dkim_tags C k message t @ [(''b'', b)])))"
    by (simp only: value_def base_pieces)
  show l: "lossy value = CHR '' '' # dkim_header_base C k message t @ b"
    unfolding value_def by (rule lossy_ascii) (simp only: base_pieces ascii_pieces [OF goodb])
  show "parse_dkim_tags (lossy value) = dkim_tags C k message t @ [(''b'', b)]"
    unfolding l base_pieces by (rule parse_dkim_tags_pieces [OF _ goodb]) simp
  have "empty_b_value value = str_bytes (CHR '' '' # dkim_header_base C k message t @ [])"
    unfolding v empty_b_value_def base_pieces
    by (rule empty_b_pieces [OF good assms(3)]) (simp add: dkim_tags_def)
  then show "canonicalize_header n (empty_b_value value) = canonicalize_header n (str_bytes (dkim_header_base C k message t))"
    by (simp add: canonicalize_header_def dkim_header_base_def Let_def case_prod_beta is_wsp_def)
  have "list_all (\<lambda>c. c \<noteq> CHR 0x0D) (join '';'' (map piece (dkim_tags C k message t @ [(''b'', b)])))"
  proof (rule list_all_join)
    show "list_all (list_all (\<lambda>c. c \<noteq> CHR 0x0D)) (map piece (dkim_tags C k message t @ [(''b'', b)]))"
      unfolding list.pred_map comp_def by (rule list.pred_mono_strong [OF goodb]) (rule piece_no_cr)
  qed simp
  then have "13 \<notin> set (str_bytes (join '';'' (map piece (dkim_tags C k message t @ [(''b'', b)]))))"
    by (rule str_bytes_no_cr)
  then show "13 \<notin> set value" by (simp only: v not_False_eq_True)
qed

text \<open>A message the signer is given: a header block that starts with a field, no signature yet.\<close>

definition signable :: "bytes \<Rightarrow> bool" where
  "signable message =
     (case find_blank_line message of
        Some idx \<Rightarrow> first_is_field (take idx message)
                   \<and> find_header (fst (split_headers_body message)) ''dkim-signature'' = None
      | None \<Rightarrow> False)"

lemma name_is_dkim: "name_is ''dkim-signature'' (''DKIM-Signature'', v)"
  by (simp add: name_is_def eq_ignore_ascii_case_def to_ascii_lowercase_def trim_def trim_end_while_def
      is_whitespace_def to_lower_char_def is_ascii_uppercase_def char_of_eq_iff)

lemma push_dkim_line:
  "push_header [] (str_bytes (''DKIM-Signature:'' @ v)) = [(''DKIM-Signature'', str_bytes v)]"
proof -
  have "lossy (str_bytes ''DKIM-Signature'') = ''DKIM-Signature''" by (rule lossy_ascii) (simp add: ascii_str_def)
  then show ?thesis by (simp add: push_header_def is_wsp_def)
qed

lemma dkim_split_signed:
  assumes "signable message" "list_all tag_char (dk_domain k)" "list_all tag_char (dk_selector k)" "list_all tag_char b"
  shows "split_headers_body (str_bytes (''DKIM-Signature: '' @ dkim_header_base C k message t @ b @ [CHR 0x0D, CHR 0x0A]) @ message)
         = ((''DKIM-Signature'', str_bytes (CHR '' '' # dkim_header_base C k message t @ b)) # fst (split_headers_body message),
            snd (split_headers_body message))"
proof -
  obtain idx where idx: "find_blank_line message = Some idx" "first_is_field (take idx message)"
    using assms(1) by (auto simp: signable_def split: option.splits)
  let ?v = "CHR '' '' # dkim_header_base C k message t @ b"
  have "13 \<notin> set (str_bytes (''DKIM-Signature:'' @ ?v))"
    using dkim_value_facts(4) [OF assms(2-4), of C message t] by simp
  from split_signed [OF idx this push_dkim_line] show ?thesis by simp
qed

text \<open>The signature is found again, its tags are read back, and the same bytes are hashed.\<close>

lemma dkim_signed_passes:
  assumes "signable message" "dkim_crypto_ok C (dk_signing k)"
    and "list_all tag_char (dk_domain k)" "list_all tag_char (dk_selector k)"
    and "resolver (dk_domain k) (dk_selector k) = Some (ed_public C (dk_signing k))"
  shows "verify_with_resolver C (str_bytes (dkim_sign C k message t) @ message) resolver
         = DkimPass (dk_domain k) (dk_selector k)"
proof -
  let ?hs = "fst (split_headers_body message)"
  let ?base = "dkim_header_base C k message t"
  let ?si = "signing_input ?hs (signed_names ?hs) (str_bytes ?base)"
  let ?b = "b64_encode (ed_sign C (dk_signing k) (sha256 C ?si))"
  let ?v = "str_bytes (CHR '' '' # ?base @ ?b)"
  let ?m = "str_bytes (dkim_sign C k message t) @ message"
  let ?tags = "dkim_tags C k message t @ [(''b'', ?b)]"
  note facts = dkim_value_facts [OF assms(3,4) b64_encode_tag]
  have split: "split_headers_body ?m = ((''DKIM-Signature'', ?v) # ?hs, snd (split_headers_body message))"
    using dkim_split_signed [OF assms(1,3,4) b64_encode_tag] by (simp add: dkim_sign_def Let_def case_prod_beta)
  have "find_header ?hs ''dkim-signature'' = None" using assms(1) by (simp add: signable_def split: option.splits)
  then have fh: "find_header ((''DKIM-Signature'', ?v) # ?hs) ''dkim-signature'' = Some (''DKIM-Signature'', ?v)"
    by (simp add: find_header_def find_append_None name_is_dkim)
  have "list_all (\<lambda>n. \<not> name_is (trim n) (''DKIM-Signature'', ?v)) (signed_names ?hs)"
    unfolding list_all_iff using signed_names_known known_name_facts(5) by blast
  then have si: "signing_input ((''DKIM-Signature'', ?v) # ?hs) (signed_names ?hs) (empty_b_value ?v) = ?si"
    by (simp only: signing_input_def assemble_skip facts(3))
  have tags: "tag_get ?tags ''a'' = Some ''ed25519-sha256''" "tag_get ?tags ''c'' = Some ''relaxed/relaxed''"
    "tag_get ?tags ''d'' = Some (dk_domain k)" "tag_get ?tags ''s'' = Some (dk_selector k)"
    "tag_get ?tags ''h'' = Some (join '':'' (signed_names ?hs))" "tag_get ?tags ''b'' = Some ?b"
    "tag_get ?tags ''bh'' = Some (b64_encode (sha256 C (canonicalize_body (snd (split_headers_body message)))))"
    by (simp_all add: dkim_tags_def tag_get_def)
  have "dkim_verify C ?m (ed_public C (dk_signing k)) = Inr ()"
    using assms(2)
    by (simp only: dkim_verify_def split prod.case fh ok_or_simps res_bind_simps facts(2) tags h_names_roundtrip si Let_def)
       (simp add: from_signed b64_decode_encode dkim_crypto_ok_def)
  moreover have "signing_domain_selector ?m = Some (dk_domain k, dk_selector k)"
    by (simp only: signing_domain_selector_def split fst_conv fh option.case prod.case facts(2) Let_def tags)
  ultimately show ?thesis by (simp add: verify_with_resolver_def assms(5))
qed

text \<open>
  A message signed by the gateway verifies under the published key: the header put before it is
  found again, its tags are read back, the same headers and body are hashed, and the verdict is a
  pass for the signing domain and selector.
\<close>

lemma dkim_sign_verifies:
  assumes "signable message" "dkim_crypto_ok C (dk_signing k)"
    and "list_all tag_char (dk_domain k)" "list_all tag_char (dk_selector k)"
    and "resolver (dk_domain k) (dk_selector k) = Some (ed_public C (dk_signing k))"
  shows "verify_with_resolver C (str_bytes (dkim_sign C k message t) @ message) resolver
         = DkimPass (dk_domain k) (dk_selector k)"
  using assms by (rule dkim_signed_passes)

definition sample_crypto :: "unit DkimCrypto" where
  "sample_crypto =
     \<lparr> sha256 = (\<lambda>m. take 32 (m @ replicate 32 0)), ed_public = (\<lambda>_. replicate 32 7),
       ed_sign = (\<lambda>_ m. take 64 (m @ replicate 64 0)), ed_key_ok = (\<lambda>k. k = replicate 32 7),
       ed_verify = (\<lambda>k m s. k = replicate 32 7 \<and> s = take 64 (m @ replicate 64 0)) \<rparr>"

definition sample_dkim_key :: "unit DkimKey" where
  "sample_dkim_key = \<lparr> dk_domain = ''b.org'', dk_selector = ''s1'', dk_signing = () \<rparr>"

definition sample_message :: bytes where
  "sample_message = str_bytes ''From: a@b.org'' @ [13, 10, 13, 10] @ str_bytes ''hi'' @ [13, 10]"

lemma sample_signable: "signable sample_message"
proof -
  have b: "find_blank_line sample_message = Some 13" by (simp add: sample_message_def find_blank_line_def)
  have h: "take 13 sample_message = str_bytes ''From: a@b.org''" by (simp add: sample_message_def)
  have "lossy (str_bytes ''From'') = ''From''" by (rule lossy_ascii) (simp add: ascii_str_def)
  then have "parse_headers (take 13 sample_message) = [(''From'', str_bytes '' a@b.org'')]"
    by (simp add: h parse_headers_def push_header_def is_wsp_def)
  then show ?thesis
    by (simp add: signable_def b split_headers_body_def find_header_def name_is_def eq_ignore_ascii_case_def
        to_ascii_lowercase_def trim_def trim_end_while_def is_whitespace_def to_lower_char_def is_ascii_uppercase_def)
       (simp add: h first_is_field_def is_wsp_def)
qed

lemma dkim_sign_verifies_witness:
  "verify_with_resolver sample_crypto (str_bytes (dkim_sign sample_crypto sample_dkim_key sample_message 5) @ sample_message)
     (static_dkim (publish_dkim [] ''b.org'' ''s1'' (replicate 32 7))) = DkimPass ''b.org'' ''s1''"
proof -
  let ?r = "static_dkim (publish_dkim [] ''b.org'' ''s1'' (replicate 32 7))"
  have "dkim_crypto_ok sample_crypto (dk_signing sample_dkim_key)"
    by (auto simp: dkim_crypto_ok_def sample_crypto_def min_def)
  moreover have "list_all tag_char (dk_domain sample_dkim_key)" "list_all tag_char (dk_selector sample_dkim_key)"
    by (simp_all add: sample_dkim_key_def tag_char_def is_whitespace_def)
  moreover have "?r (dk_domain sample_dkim_key) (dk_selector sample_dkim_key)
      = Some (ed_public sample_crypto (dk_signing sample_dkim_key))"
    by (simp add: sample_dkim_key_def sample_crypto_def static_dkim_def publish_dkim_def eq_ignore_ascii_case_def)
  ultimately have "verify_with_resolver sample_crypto
      (str_bytes (dkim_sign sample_crypto sample_dkim_key sample_message 5) @ sample_message) ?r
      = DkimPass (dk_domain sample_dkim_key) (dk_selector sample_dkim_key)"
    by (rule dkim_sign_verifies [OF sample_signable])
  then show ?thesis by (simp only: sample_dkim_key_def DkimKey.select_convs)
qed

text \<open>
  A signature header folded before its last tag keeps the signature: when the \<open>b\<close> tag follows a
  semicolon, a line break and a space, as senders commonly fold it, nothing is taken out of the value
  and the verifier hashes the signature itself.
\<close>

lemma dkim_folded_b_not_emptied:
  assumes "list_all (\<lambda>kv. good_tag kv \<and> fst kv \<noteq> ''b'') tags" "list_all tag_char b" "tags \<noteq> []"
  shows "empty_b_value (str_bytes (join '';'' (map piece tags)) @ [59, 13, 10, 32, 98, 61] @ str_bytes b)
         = str_bytes (join '';'' (map piece tags)) @ [59, 13, 10, 32, 98, 61] @ str_bytes b"
proof -
  have tail: "empty_b_loop before ([59, 13, 10, 32, 98, 61] @ str_bytes b) = [59, 13, 10, 32, 98, 61] @ str_bytes b" for before
  proof -
    have nb: "\<not> at_boundary (13 # 59 # before)" by (simp add: at_boundary_def is_wsp_def)
    have "59 \<notin> set ([10, 32, 98, 61] @ str_bytes b)" using tag_str_bytes [OF assms(2)] by simp
    from not_boundary_copy [OF nb this, of "[]"] show ?thesis
      by (simp add: empty_b_loop.simps(2) [of _ 59] empty_b_loop.simps(2) [of _ 13] Let_def)
  qed
  have "empty_b_loop before (str_bytes (join '';'' (map piece tags)) @ [59, 13, 10, 32, 98, 61] @ str_bytes b)
      = str_bytes (join '';'' (map piece tags)) @ [59, 13, 10, 32, 98, 61] @ str_bytes b" for before
    using assms(1,3)
  proof (induction tags arbitrary: before)
    case (Cons kv tags)
    obtain k v where kv: "kv = (k, v)" by (cases kv)
    have good: "good_tag (k, v)" "k \<noteq> ''b''" using Cons.prems by (auto simp: kv)
    show ?case
    proof (cases tags)
      case Nil
      then show ?thesis using copy_piece [OF good] tail by (simp add: kv)
    next
      case (Cons t ts)
      have "empty_b_loop before (str_bytes (piece kv) @ 59 # rest)
          = str_bytes (piece kv) @ 59 # empty_b_loop (59 # rev (str_bytes (piece kv)) @ before) rest" for rest
        using copy_piece [OF good, of before "59 # rest"] by (simp add: kv empty_b_loop.simps(2) [of _ 59] Let_def)
      with Cons Cons.IH Cons.prems show ?thesis by simp
    qed
  qed simp
  then show ?thesis by (simp add: empty_b_value_def)
qed

lemma dkim_folded_b_not_emptied_witness:
  "empty_b_value (str_bytes '' v=1'' @ [59, 13, 10, 32, 98, 61] @ str_bytes ''AA'')
   = str_bytes '' v=1'' @ [59, 13, 10, 32, 98, 61] @ str_bytes ''AA''"
  using dkim_folded_b_not_emptied [of "[(''v'', ''1'')]" "''AA''"]
  by (simp add: piece_def good_tag_def tag_char_def is_whitespace_def)

end
