(* ===== verification/Gateway_Inbound.thy ===== *)
theory Gateway_Inbound
  imports Gateway_ColdGate Gateway_Dkim Gateway_Provenance
begin

text \<open>
  The inbound gateway (\<open>crates/pier-gateway/src/inbound.rs\<close>): the configured gateway, the DKIM, SPF
  and DMARC gates, wrapping and attesting a message, the decision on a message, and the line-fed MX
  session. The mail and message libraries of the external crates are the fields of \<open>MailLib\<close>; the
  one-time key of a sealed message is drawn inside \<open>ml_build_mote\<close>. What the gateway's trait objects
  do is threaded as the world of a session: the state of the anti-abuse gate, and the deliveries
  attempted so far.
\<close>

section \<open>The gateway\<close>

record ('ik, 'draft, 'env, 'cid, 'addr) MailLib =
  ml_build_draft :: "bytes \<Rightarrow> u64 \<Rightarrow> 'draft"
  ml_build_mote :: "'ik \<Rightarrow> bytes \<Rightarrow> bytes \<Rightarrow> 'draft \<Rightarrow> unit + 'env"
  ml_env_id :: "'env \<Rightarrow> 'cid"
  ml_cid_bytes :: "'cid \<Rightarrow> bytes"
  ml_header_and_body :: "bytes \<Rightarrow> bytes \<times> bytes"
  ml_strip_headers :: "bytes \<Rightarrow> bytes"
  ml_headers_only :: "bytes \<Rightarrow> (string \<times> string) list"
  ml_parse_addresses :: "string \<Rightarrow> 'addr list"
  ml_addr_host :: "'addr \<Rightarrow> string option"
  ml_psl :: "string \<Rightarrow> string option"
  ml_digest :: "bytes \<Rightarrow> bytes"

record RecipientKey =
  rk_ik :: bytes
  rk_seal_pub :: bytes

type_synonym KeyDirectory = "string \<Rightarrow> RecipientKey option"

datatype DeliveryOutcome = Acked | NoAck

datatype DkimPolicy = DkimAnnotate | DkimEnforce
datatype SpfPolicy = SpfAnnotate | SpfEnforce
datatype DmarcHandling = DmarcAnnotate | DmarcEnforce

definition DEFAULT_MAX_MESSAGE_BYTES :: nat where
  "DEFAULT_MAX_MESSAGE_BYTES = 25 * 1024 * 1024"

record ('ik, 'ab, 'env, 'cid) InboundGateway =
  ig_ik :: 'ik
  ig_attest_keys :: "'ik AttestationKey list"
  ig_directory :: KeyDirectory
  ig_deliver :: "'env \<Rightarrow> 'cid Attestation \<Rightarrow> DeliveryOutcome"
  ig_abuse :: "'ab \<Rightarrow> string \<Rightarrow> string \<Rightarrow> AbuseDecision \<times> 'ab"
  ig_dkim_resolver :: "DkimKeyResolver option"
  ig_dkim_policy :: DkimPolicy
  ig_spf_resolver :: "SpfResolver option"
  ig_spf_policy :: SpfPolicy
  ig_dmarc_resolver :: "DmarcTxtResolver option"
  ig_dmarc_policy :: DmarcHandling
  ig_max_message_bytes :: nat

definition inbound_new ::
  "'ik \<Rightarrow> 'ik AttestationKey list \<Rightarrow> KeyDirectory \<Rightarrow> ('env \<Rightarrow> 'cid Attestation \<Rightarrow> DeliveryOutcome)
     \<Rightarrow> ('ab \<Rightarrow> string \<Rightarrow> string \<Rightarrow> AbuseDecision \<times> 'ab) \<Rightarrow> ('ik, 'ab, 'env, 'cid) InboundGateway" where
  "inbound_new ik attest_keys directory delivery abuse =
     \<lparr> ig_ik = ik, ig_attest_keys = attest_keys, ig_directory = directory, ig_deliver = delivery, ig_abuse = abuse,
       ig_dkim_resolver = None, ig_dkim_policy = DkimAnnotate, ig_spf_resolver = None, ig_spf_policy = SpfAnnotate,
       ig_dmarc_resolver = None, ig_dmarc_policy = DmarcAnnotate,
       ig_max_message_bytes = DEFAULT_MAX_MESSAGE_BYTES \<rparr>"

definition for_own_domains ::
  "'ik \<Rightarrow> (string \<times> string) list \<Rightarrow> KeyDirectory \<Rightarrow> ('env \<Rightarrow> 'cid Attestation \<Rightarrow> DeliveryOutcome)
     \<Rightarrow> ('ab \<Rightarrow> string \<Rightarrow> string \<Rightarrow> AbuseDecision \<times> 'ab) \<Rightarrow> ('ik, 'ab, 'env, 'cid) InboundGateway" where
  "for_own_domains ik domains directory delivery abuse =
     (let attest_keys = map (\<lambda>(domain, selector). attestation_key_new domain selector ik) domains
      in \<lparr> ig_ik = ik, ig_attest_keys = attest_keys, ig_directory = directory, ig_deliver = delivery, ig_abuse = abuse,
           ig_dkim_resolver = None, ig_dkim_policy = DkimAnnotate, ig_spf_resolver = None, ig_spf_policy = SpfAnnotate,
           ig_dmarc_resolver = None, ig_dmarc_policy = DmarcAnnotate,
           ig_max_message_bytes = DEFAULT_MAX_MESSAGE_BYTES \<rparr>)"

definition with_max_message_bytes ::
  "('ik, 'ab, 'env, 'cid) InboundGateway \<Rightarrow> nat \<Rightarrow> ('ik, 'ab, 'env, 'cid) InboundGateway" where
  "with_max_message_bytes g n = g\<lparr>ig_max_message_bytes := n\<rparr>"

definition with_dkim ::
  "('ik, 'ab, 'env, 'cid) InboundGateway \<Rightarrow> DkimKeyResolver \<Rightarrow> DkimPolicy \<Rightarrow> ('ik, 'ab, 'env, 'cid) InboundGateway" where
  "with_dkim g resolver policy = g\<lparr>ig_dkim_resolver := Some resolver, ig_dkim_policy := policy\<rparr>"

definition with_spf ::
  "('ik, 'ab, 'env, 'cid) InboundGateway \<Rightarrow> SpfResolver \<Rightarrow> SpfPolicy \<Rightarrow> ('ik, 'ab, 'env, 'cid) InboundGateway" where
  "with_spf g resolver policy = g\<lparr>ig_spf_resolver := Some resolver, ig_spf_policy := policy\<rparr>"

definition with_dmarc ::
  "('ik, 'ab, 'env, 'cid) InboundGateway \<Rightarrow> DmarcTxtResolver \<Rightarrow> DmarcHandling \<Rightarrow> ('ik, 'ab, 'env, 'cid) InboundGateway" where
  "with_dmarc g resolver policy = g\<lparr>ig_dmarc_resolver := Some resolver, ig_dmarc_policy := policy\<rparr>"

datatype InboundError = NoRecipient string | NoAttestationKey string | BadAddress string | SealFailed

record SmtpReply =
  sr_code :: u16
  sr_text :: string

definition reply :: "u16 \<Rightarrow> string \<Rightarrow> SmtpReply" where
  "reply code text = \<lparr> sr_code = code, sr_text = text \<rparr>"

definition reply_is_ok :: "SmtpReply \<Rightarrow> bool" where
  "reply_is_ok r = (200 \<le> sr_code r \<and> sr_code r < 300)"

definition reply_wire :: "SmtpReply \<Rightarrow> string" where
  "reply_wire r = show_nat (unat (sr_code r)) @ '' '' @ sr_text r @ [CHR 0x0D, CHR 0x0A]"

definition inbound_domain_of :: "string \<Rightarrow> string option" where
  "inbound_domain_of addr =
     (let a = trim_end_matches CHR ''>'' (trim_start_matches CHR ''<'' (trim addr)) in
      case rsplit_once CHR ''@'' a of
        Some (_, d) \<Rightarrow> if d \<noteq> [] then Some d else None
      | None \<Rightarrow> None)"

definition attest_key_for :: "('ik, 'ab, 'env, 'cid) InboundGateway \<Rightarrow> string \<Rightarrow> 'ik AttestationKey option" where
  "attest_key_for g domain = find (\<lambda>k. eq_ignore_ascii_case (ak_domain k) domain) (ig_attest_keys g)"

section \<open>Gates\<close>

definition verify_inbound_dkim ::
  "'sk DkimCrypto \<Rightarrow> ('ik, 'ab, 'env, 'cid) InboundGateway \<Rightarrow> bytes \<Rightarrow> DkimError DkimVerdict" where
  "verify_inbound_dkim C g message =
     (case ig_dkim_resolver g of Some resolver \<Rightarrow> verify_with_resolver C message resolver | None \<Rightarrow> NoSignature)"

definition dkim_gate :: "('ik, 'ab, 'env, 'cid) InboundGateway \<Rightarrow> DkimError DkimVerdict \<Rightarrow> SmtpReply + unit" where
  "dkim_gate g verdict =
     (if ig_dkim_policy g \<noteq> DkimEnforce then Inr ()
      else (case verdict of
              DkimFail _ \<Rightarrow> Inl (reply 550 ''5.7.20 DKIM signature present but does not verify'')
            | _ \<Rightarrow> Inr ()))"

text \<open>\<open>IpAddr::from_str\<close>: the whole text is an IPv4 address, or an IPv6 address.\<close>

definition parse_ip :: "string \<Rightarrow> IpAddr option" where
  "parse_ip s = (case parse_ipv4 s of Some a \<Rightarrow> Some (V4 a) | None \<Rightarrow> map_option V6 (parse_ipv6 s))"

definition evaluate_spf ::
  "('ik, 'ab, 'env, 'cid) InboundGateway \<Rightarrow> string \<Rightarrow> string \<Rightarrow> string option \<Rightarrow> SpfOutcome" where
  "evaluate_spf g peer_ip mail_from helo =
     (case ig_spf_resolver g of
        None \<Rightarrow> unevaluated
      | Some resolver \<Rightarrow>
          (case parse_ip (trim peer_ip) of
             None \<Rightarrow> unevaluated
           | Some ip \<Rightarrow> spf_evaluate resolver ip mail_from helo))"

definition spf_gate :: "('ik, 'ab, 'env, 'cid) InboundGateway \<Rightarrow> SpfOutcome \<Rightarrow> SmtpReply + unit" where
  "spf_gate g outcome =
     (if ig_spf_policy g \<noteq> SpfEnforce then Inr ()
      else (case so_result outcome of
              SpfFail \<Rightarrow> Inl (reply 550 ''5.7.23 SPF hard fail (RFC 7208): sender IP not authorized for this domain'')
            | SpfTempError \<Rightarrow> Inl (reply 451 ''4.4.3 SPF temporary DNS error evaluating sender policy, please retry'')
            | _ \<Rightarrow> Inr ()))"

definition dmarc_verdict_with_dkim ::
  "('ik, 'draft, 'env, 'cid, 'addr) MailLib \<Rightarrow> ('ik, 'ab, 'env, 'cid) InboundGateway \<Rightarrow> bytes \<Rightarrow> SpfOutcome option
     \<Rightarrow> DkimError DkimVerdict \<Rightarrow> string \<Rightarrow> DmarcVerdict" where
  "dmarc_verdict_with_dkim L g data spf dkim_verdict mail_from =
     (case ig_dmarc_resolver g of
        None \<Rightarrow> NoPolicy
      | Some resolver \<Rightarrow>
          (case header_from (ml_headers_only L) (ml_parse_addresses L) (ml_addr_host L) data of
             Unusable \<Rightarrow> DmarcPermError
           | Ambiguous \<Rightarrow> DmarcFail DispReject
           | Single header_domain \<Rightarrow>
               (let envelope_domain = (case inbound_domain_of mail_from of Some d \<Rightarrow> d | None \<Rightarrow> [])
                in dmarc_evaluate (ml_psl L) resolver header_domain envelope_domain
                     (map_option so_result spf) dkim_verdict)))"

definition evaluate_dmarc ::
  "'sk DkimCrypto \<Rightarrow> ('ik, 'draft, 'env, 'cid, 'addr) MailLib \<Rightarrow> ('ik, 'ab, 'env, 'cid) InboundGateway \<Rightarrow> bytes
     \<Rightarrow> SpfOutcome option \<Rightarrow> string \<Rightarrow> DmarcVerdict" where
  "evaluate_dmarc C L g data spf mail_from =
     dmarc_verdict_with_dkim L g data spf (verify_inbound_dkim C g data) mail_from"

definition dmarc_gate ::
  "('ik, 'draft, 'env, 'cid, 'addr) MailLib \<Rightarrow> ('ik, 'ab, 'env, 'cid) InboundGateway \<Rightarrow> bytes \<Rightarrow> SpfOutcome option
     \<Rightarrow> DkimError DkimVerdict \<Rightarrow> string \<Rightarrow> SmtpReply + unit" where
  "dmarc_gate L g data spf dkim_verdict mail_from =
     (if ig_dmarc_policy g \<noteq> DmarcEnforce then Inr ()
      else (case dmarc_verdict_with_dkim L g data spf dkim_verdict mail_from of
              DmarcFail DispReject \<Rightarrow>
                Inl (reply 550 ''5.7.1 message failed DMARC (RFC 7489): policy=reject and SPF/DKIM not aligned'')
            | _ \<Rightarrow> Inr ()))"

section \<open>Wrapping and attesting\<close>

definition strip_trust_boundary_headers :: "('ik, 'draft, 'env, 'cid, 'addr) MailLib \<Rightarrow> bytes \<Rightarrow> bytes" where
  "strip_trust_boundary_headers L rfc5322_bytes =
     (let (head', body) = ml_header_and_body L rfc5322_bytes in ml_strip_headers L head' @ body)"

definition wrap_and_attest ::
  "('cv, 'f, 'ce, 'ik, 'ie) kotva \<Rightarrow> ('ik, 'draft, 'env, 'cid, 'addr) MailLib \<Rightarrow> ('ik, 'ab, 'env, 'cid) InboundGateway
     \<Rightarrow> string \<Rightarrow> string \<Rightarrow> bytes \<Rightarrow> u64 \<Rightarrow> InboundError + 'env \<times> 'cid Attestation" where
  "wrap_and_attest K L g mail_from rcpt_to data now =
     res_bind (ok_or (BadAddress rcpt_to) (inbound_domain_of rcpt_to)) (\<lambda>domain.
     res_bind (ok_or (NoRecipient rcpt_to) (ig_directory g rcpt_to)) (\<lambda>recip.
     res_bind (ok_or (NoAttestationKey domain) (attest_key_for g domain)) (\<lambda>att_key.
       let hygienic = strip_trust_boundary_headers L data;
           draft = ml_build_draft L hygienic now
       in res_bind (map_err (\<lambda>_. SealFailed) (ml_build_mote L (ig_ik g) (rk_ik recip) (rk_seal_pub recip) draft)) (\<lambda>env.
          Inr (env, attest K (ml_cid_bytes L) att_key (ml_env_id L env) mail_from rcpt_to now)))))"

record ('env, 'cid) InboundBridged =
  ib_env :: 'env
  ib_attestation :: "'cid Attestation"
  ib_gateway_attestation :: GatewayAttestation
  ib_provenance :: ProvenanceRecord

definition wrap_attest_and_stamp ::
  "('cv, 'f, 'ce, 'ik, 'ie) kotva \<Rightarrow> ('ik, 'draft, 'env, 'cid, 'addr) MailLib \<Rightarrow> ('ik, 'ab, 'env, 'cid) InboundGateway
     \<Rightarrow> string \<Rightarrow> string \<Rightarrow> bytes \<Rightarrow> u64 \<Rightarrow> InboundError + ('env, 'cid) InboundBridged" where
  "wrap_attest_and_stamp K L g mail_from rcpt_to data now =
     res_bind (ok_or (BadAddress rcpt_to) (inbound_domain_of rcpt_to)) (\<lambda>domain.
     res_bind (ok_or (NoAttestationKey domain) (attest_key_for g domain)) (\<lambda>att_key.
     res_bind (wrap_and_attest K L g mail_from rcpt_to data now) (\<lambda>(env, attestation).
       let hygienic = strip_trust_boundary_headers L data;
           ga = ga_sign K (ml_digest L) att_key hygienic (Some mail_from) now 0;
           provenance = assemble TierFast NotApplicable None None [ga]
       in Inr \<lparr> ib_env = env, ib_attestation = attestation, ib_gateway_attestation = ga, ib_provenance = provenance \<rparr>)))"

record ('ab, 'env, 'cid) GatewayWorld =
  gw_abuse_state :: 'ab
  gw_deliveries :: "('env \<times> 'cid Attestation) list"

definition accept_message_with_spf ::
  "('cv, 'f, 'ce, 'ik, 'ie) kotva \<Rightarrow> 'sk DkimCrypto \<Rightarrow> ('ik, 'draft, 'env, 'cid, 'addr) MailLib
     \<Rightarrow> ('ik, 'ab, 'env, 'cid) InboundGateway \<Rightarrow> ('ab, 'env, 'cid) GatewayWorld \<Rightarrow> string \<Rightarrow> string \<Rightarrow> bytes \<Rightarrow> u64
     \<Rightarrow> SpfOutcome option \<Rightarrow> SmtpReply \<times> ('ab, 'env, 'cid) GatewayWorld" where
  "accept_message_with_spf K C L g w mail_from rcpt_to data now spf =
     (let dkim_verdict = verify_inbound_dkim C g data in
      case dkim_gate g dkim_verdict of
        Inl r \<Rightarrow> (r, w)
      | Inr _ \<Rightarrow>
          (case dmarc_gate L g data spf dkim_verdict mail_from of
             Inl r \<Rightarrow> (r, w)
           | Inr _ \<Rightarrow>
               (case wrap_and_attest K L g mail_from rcpt_to data now of
                  Inl (NoRecipient _) \<Rightarrow> (reply 550 ''5.1.1 no such user here'', w)
                | Inl (BadAddress _) \<Rightarrow> (reply 550 ''5.1.1 no such user here'', w)
                | Inl (NoAttestationKey _) \<Rightarrow> (reply 451 ''4.3.5 gateway not configured for this domain'', w)
                | Inl SealFailed \<Rightarrow> (reply 451 ''4.3.0 temporary failure wrapping message'', w)
                | Inr (env, attestation) \<Rightarrow>
                    (let w = w\<lparr>gw_deliveries := gw_deliveries w @ [(env, attestation)]\<rparr> in
                     case ig_deliver g env attestation of
                       Acked \<Rightarrow> (reply 250 ''2.6.0 message durably accepted'', w)
                     | NoAck \<Rightarrow>
                         (reply 451 ''4.4.1 recipient has not durably accepted yet, try again later'', w)))))"

definition accept_message ::
  "('cv, 'f, 'ce, 'ik, 'ie) kotva \<Rightarrow> 'sk DkimCrypto \<Rightarrow> ('ik, 'draft, 'env, 'cid, 'addr) MailLib
     \<Rightarrow> ('ik, 'ab, 'env, 'cid) InboundGateway \<Rightarrow> ('ab, 'env, 'cid) GatewayWorld \<Rightarrow> string \<Rightarrow> string \<Rightarrow> bytes \<Rightarrow> u64
     \<Rightarrow> SmtpReply \<times> ('ab, 'env, 'cid) GatewayWorld" where
  "accept_message K C L g w mail_from rcpt_to data now =
     accept_message_with_spf K C L g w mail_from rcpt_to data now None"

definition abuse_check ::
  "('ik, 'ab, 'env, 'cid) InboundGateway \<Rightarrow> ('ab, 'env, 'cid) GatewayWorld \<Rightarrow> string \<Rightarrow> string
     \<Rightarrow> AbuseDecision \<times> ('ab, 'env, 'cid) GatewayWorld" where
  "abuse_check g w peer_ip mail_from =
     (let (d, a) = ig_abuse g (gw_abuse_state w) peer_ip mail_from in (d, w\<lparr>gw_abuse_state := a\<rparr>))"

definition rcpt_acceptable :: "('ik, 'ab, 'env, 'cid) InboundGateway \<Rightarrow> string \<Rightarrow> SmtpReply + unit" where
  "rcpt_acceptable g rcpt =
     res_bind (ok_or (reply 501 ''5.1.3 bad recipient address'') (inbound_domain_of rcpt)) (\<lambda>domain.
     if ig_directory g rcpt = None then Inl (reply 550 ''5.1.1 no such user here'')
     else if attest_key_for g domain = None then Inl (reply 451 ''4.3.5 gateway not configured for this domain'')
     else Inr ())"

section \<open>The MX session\<close>

datatype Phase = Command | Data

record MxSession =
  ms_peer_ip :: string
  ms_now :: u64
  ms_phase :: Phase
  ms_helo :: "string option"
  ms_mail_from :: "string option"
  ms_rcpt_to :: "string option"
  ms_data :: bytes
  ms_size_exceeded :: bool
  ms_spf_outcome :: "SpfOutcome option"

definition session_new :: "string \<Rightarrow> u64 \<Rightarrow> MxSession" where
  "session_new peer_ip now =
     \<lparr> ms_peer_ip = peer_ip, ms_now = now, ms_phase = Command, ms_helo = None, ms_mail_from = None,
       ms_rcpt_to = None, ms_data = [], ms_size_exceeded = False, ms_spf_outcome = None \<rparr>"

definition greeting :: SmtpReply where
  "greeting = reply 220 ''pier-gateway DMTAP MX ready''"

definition reset_transaction :: "MxSession \<Rightarrow> MxSession" where
  "reset_transaction s =
     s\<lparr>ms_mail_from := None, ms_rcpt_to := None, ms_data := [], ms_size_exceeded := False, ms_spf_outcome := None\<rparr>"

definition cmd_mail ::
  "('ik, 'ab, 'env, 'cid) InboundGateway \<Rightarrow> ('ab, 'env, 'cid) GatewayWorld \<Rightarrow> MxSession \<Rightarrow> string
     \<Rightarrow> SmtpReply \<times> ('ab, 'env, 'cid) GatewayWorld \<times> MxSession" where
  "cmd_mail g w s rest =
     (case (case strip_prefix ''FROM:'' rest of Some a \<Rightarrow> Some a | None \<Rightarrow> strip_prefix ''from:'' rest) of
        None \<Rightarrow> (reply 501 ''5.5.4 syntax: MAIL FROM:<address>'', w, s)
      | Some a \<Rightarrow>
          (let addr = trim a; (decision, w) = abuse_check g w (ms_peer_ip s) addr in
           case decision of
             Reject code reason \<Rightarrow> (reply code reason, w, s)
           | Accept \<Rightarrow>
               (let spf_outcome = evaluate_spf g (ms_peer_ip s) addr (ms_helo s) in
                case spf_gate g spf_outcome of
                  Inl r \<Rightarrow> (r, w, s)
                | Inr _ \<Rightarrow>
                    (reply 250 ''2.1.0 sender ok'', w,
                     s\<lparr>ms_mail_from := Some addr, ms_spf_outcome := Some spf_outcome\<rparr>))))"

definition cmd_rcpt ::
  "('ik, 'ab, 'env, 'cid) InboundGateway \<Rightarrow> MxSession \<Rightarrow> string \<Rightarrow> SmtpReply \<times> MxSession" where
  "cmd_rcpt g s rest =
     (if ms_mail_from s = None then (reply 503 ''5.5.1 need MAIL before RCPT'', s)
      else (case (case strip_prefix ''TO:'' rest of Some a \<Rightarrow> Some a | None \<Rightarrow> strip_prefix ''to:'' rest) of
              None \<Rightarrow> (reply 501 ''5.5.4 syntax: RCPT TO:<address>'', s)
            | Some a \<Rightarrow>
                (let addr = trim_end_matches CHR ''>'' (trim_start_matches CHR ''<'' (trim a)) in
                 case rcpt_acceptable g addr of
                   Inl r \<Rightarrow> (r, s)
                 | Inr _ \<Rightarrow> (reply 250 ''2.1.5 recipient ok'', s\<lparr>ms_rcpt_to := Some addr\<rparr>))))"

definition cmd_data :: "MxSession \<Rightarrow> SmtpReply \<times> MxSession" where
  "cmd_data s =
     (if ms_mail_from s = None \<or> ms_rcpt_to s = None
      then (reply 503 ''5.5.1 need MAIL and RCPT before DATA'', s)
      else (reply 354 ''start mail input; end with <CRLF>.<CRLF>'', s\<lparr>ms_phase := Data\<rparr>))"

definition unstuff :: "bytes \<Rightarrow> bytes" where
  "unstuff line = (case line of b # bs \<Rightarrow> if b = 46 then bs else line | [] \<Rightarrow> [])"

definition feed_data ::
  "('cv, 'f, 'ce, 'ik, 'ie) kotva \<Rightarrow> 'sk DkimCrypto \<Rightarrow> ('ik, 'draft, 'env, 'cid, 'addr) MailLib
     \<Rightarrow> ('ik, 'ab, 'env, 'cid) InboundGateway \<Rightarrow> ('ab, 'env, 'cid) GatewayWorld \<Rightarrow> MxSession \<Rightarrow> bytes
     \<Rightarrow> SmtpReply \<times> ('ab, 'env, 'cid) GatewayWorld \<times> MxSession" where
  "feed_data K C L g w s line =
     (if line = [46] then
        (let s = s\<lparr>ms_phase := Command\<rparr> in
         if ms_size_exceeded s
         then (reply 552 ''5.3.4 message size exceeds fixed maximum message size'', w, reset_transaction s)
         else
           (let mail_from = (case ms_mail_from s of Some a \<Rightarrow> a | None \<Rightarrow> []);
                rcpt_to = (case ms_rcpt_to s of Some a \<Rightarrow> a | None \<Rightarrow> []);
                (r, w) = accept_message_with_spf K C L g w mail_from rcpt_to (ms_data s) (ms_now s) (ms_spf_outcome s)
            in (r, w, reset_transaction s)))
      else
        (let unstuffed = unstuff line;
             s = (if ms_size_exceeded s then s
                  else if length (ms_data s) + length unstuffed + 2 > ig_max_message_bytes g
                  then s\<lparr>ms_size_exceeded := True, ms_data := []\<rparr>
                  else s\<lparr>ms_data := ms_data s @ unstuffed @ CRLF\<rparr>)
         in (reply 0 [], w, s)))"

definition feed_line_bytes ::
  "('cv, 'f, 'ce, 'ik, 'ie) kotva \<Rightarrow> 'sk DkimCrypto \<Rightarrow> ('ik, 'draft, 'env, 'cid, 'addr) MailLib
     \<Rightarrow> ('ik, 'ab, 'env, 'cid) InboundGateway \<Rightarrow> ('ab, 'env, 'cid) GatewayWorld \<Rightarrow> MxSession \<Rightarrow> bytes
     \<Rightarrow> SmtpReply \<times> ('ab, 'env, 'cid) GatewayWorld \<times> MxSession" where
  "feed_line_bytes K C L g w s line =
     (if ms_phase s = Data then feed_data K C L g w s line
      else
        (let line = lossy line;
             (verb, rest) = (case split_once CHR '' '' line of
                 Some (v, r) \<Rightarrow> (to_ascii_uppercase v, trim r)
               | None \<Rightarrow> (to_ascii_uppercase (trim line), []))
         in if verb = ''HELO'' \<or> verb = ''EHLO'' then
              (let arg = trim rest in
               (reply 250 ''pier-gateway at your service'', w,
                s\<lparr>ms_helo := (if arg = [] then None else Some arg)\<rparr>))
            else if verb = ''MAIL'' then cmd_mail g w s rest
            else if verb = ''RCPT'' then (let (r, s) = cmd_rcpt g s rest in (r, w, s))
            else if verb = ''DATA'' then (let (r, s) = cmd_data s in (r, w, s))
            else if verb = ''RSET'' then (reply 250 ''2.0.0 flushed'', w, reset_transaction s)
            else if verb = ''NOOP'' then (reply 250 ''2.0.0 ok'', w, s)
            else if verb = ''QUIT'' then (reply 221 ''2.0.0 bye'', w, s)
            else (reply 502 ''5.5.1 command not implemented'', w, s)))"

definition feed_line ::
  "('cv, 'f, 'ce, 'ik, 'ie) kotva \<Rightarrow> 'sk DkimCrypto \<Rightarrow> ('ik, 'draft, 'env, 'cid, 'addr) MailLib
     \<Rightarrow> ('ik, 'ab, 'env, 'cid) InboundGateway \<Rightarrow> ('ab, 'env, 'cid) GatewayWorld \<Rightarrow> MxSession \<Rightarrow> string
     \<Rightarrow> SmtpReply \<times> ('ab, 'env, 'cid) GatewayWorld \<times> MxSession" where
  "feed_line K C L g w s line = feed_line_bytes K C L g w s (str_bytes line)"

section \<open>What is delivered passed every gate\<close>

definition mx_step ::
  "('cv, 'f, 'ce, 'ik, 'ie) kotva \<Rightarrow> 'sk DkimCrypto \<Rightarrow> ('ik, 'draft, 'env, 'cid, 'addr) MailLib
     \<Rightarrow> ('ik, 'ab, 'env, 'cid) InboundGateway \<Rightarrow> ('ab, 'env, 'cid) GatewayWorld \<times> MxSession \<Rightarrow> bytes
     \<Rightarrow> ('ab, 'env, 'cid) GatewayWorld \<times> MxSession" where
  "mx_step K C L g ws line = snd (feed_line_bytes K C L g (fst ws) (snd ws) line)"

text \<open>
  The reading of a delivery is over the history of the session: the lines \<open>ls\<close> fed to a fresh session
  that started in the world \<open>w\<close>. \<open>mx_run\<close> is the world and the session after a history; the verb and
  the argument of a line are the ones \<open>feed_line_bytes\<close> takes; \<open>mail_arg\<close> is the sender a MAIL line
  names, \<open>rcpt_arg\<close> the recipient a RCPT line names, and \<open>message_of\<close> the message the lines of a body
  make.
\<close>

definition mx_run ::
  "('cv, 'f, 'ce, 'ik, 'ie) kotva \<Rightarrow> 'sk DkimCrypto \<Rightarrow> ('ik, 'draft, 'env, 'cid, 'addr) MailLib
     \<Rightarrow> ('ik, 'ab, 'env, 'cid) InboundGateway \<Rightarrow> string \<Rightarrow> u64 \<Rightarrow> ('ab, 'env, 'cid) GatewayWorld \<Rightarrow> bytes list
     \<Rightarrow> ('ab, 'env, 'cid) GatewayWorld \<times> MxSession" where
  "mx_run K C L g peer now w ls = foldl (mx_step K C L g) (w, session_new peer now) ls"

definition command_of :: "bytes \<Rightarrow> string \<times> string" where
  "command_of line =
     (case split_once CHR '' '' (lossy line) of
        Some (v, r) \<Rightarrow> (to_ascii_uppercase v, trim r)
      | None \<Rightarrow> (to_ascii_uppercase (trim (lossy line)), []))"

definition mail_arg :: "bytes \<Rightarrow> string option" where
  "mail_arg line =
     (let (verb, rest) = command_of line in
      if verb = ''MAIL''
      then map_option trim (case strip_prefix ''FROM:'' rest of Some a \<Rightarrow> Some a | None \<Rightarrow> strip_prefix ''from:'' rest)
      else None)"

definition rcpt_arg :: "bytes \<Rightarrow> string option" where
  "rcpt_arg line =
     (let (verb, rest) = command_of line in
      if verb = ''RCPT''
      then map_option (\<lambda>a. trim_end_matches CHR ''>'' (trim_start_matches CHR ''<'' (trim a)))
             (case strip_prefix ''TO:'' rest of Some a \<Rightarrow> Some a | None \<Rightarrow> strip_prefix ''to:'' rest)
      else None)"

definition message_of :: "bytes list \<Rightarrow> bytes" where
  "message_of body = concat (map (\<lambda>l. unstuff l @ CRLF) body)"

text \<open>
  A value of the session is set by a line of the history when it holds right after that line and after
  every line since: nothing was reset or replaced in between.
\<close>

definition set_by :: "(bytes list \<Rightarrow> 'v) \<Rightarrow> 'v \<Rightarrow> bytes list \<Rightarrow> bytes list \<Rightarrow> bytes \<Rightarrow> bool" where
  "set_by val v ls before line \<longleftrightarrow>
     (\<exists>since. ls = before @ line # since \<and> (\<forall>k \<le> length since. val (before @ line # take k since) = v))"

text \<open>
  The sender of the transaction open at the end of a history, with its SPF outcome: the latest MAIL
  command that took effect named it, the anti-abuse gate accepted it in the state the gate was in at
  that command, and the outcome is the evaluation of SPF for the peer, that sender and the greeting
  known at that command, and passed the SPF gate.
\<close>

definition sender_cleared ::
  "('cv, 'f, 'ce, 'ik, 'ie) kotva \<Rightarrow> 'sk DkimCrypto \<Rightarrow> ('ik, 'draft, 'env, 'cid, 'addr) MailLib
     \<Rightarrow> ('ik, 'ab, 'env, 'cid) InboundGateway \<Rightarrow> string \<Rightarrow> u64 \<Rightarrow> ('ab, 'env, 'cid) GatewayWorld \<Rightarrow> bytes list
     \<Rightarrow> string \<Rightarrow> SpfOutcome \<Rightarrow> bool" where
  "sender_cleared K C L g peer now w ls mail_from spf \<longleftrightarrow>
     (\<exists>before line wm sm.
        set_by (\<lambda>h. (ms_mail_from (snd (mx_run K C L g peer now w h)), ms_spf_outcome (snd (mx_run K C L g peer now w h))))
          (Some mail_from, Some spf) ls before line
      \<and> mx_run K C L g peer now w before = (wm, sm) \<and> ms_phase sm = Command \<and> mail_arg line = Some mail_from
      \<and> fst (ig_abuse g (gw_abuse_state wm) peer mail_from) = Accept
      \<and> spf = evaluate_spf g peer mail_from (ms_helo sm)
      \<and> spf_gate g spf = Inr ())"

definition recipient_cleared ::
  "('cv, 'f, 'ce, 'ik, 'ie) kotva \<Rightarrow> 'sk DkimCrypto \<Rightarrow> ('ik, 'draft, 'env, 'cid, 'addr) MailLib
     \<Rightarrow> ('ik, 'ab, 'env, 'cid) InboundGateway \<Rightarrow> string \<Rightarrow> u64 \<Rightarrow> ('ab, 'env, 'cid) GatewayWorld \<Rightarrow> bytes list
     \<Rightarrow> string \<Rightarrow> bool" where
  "recipient_cleared K C L g peer now w ls rcpt_to \<longleftrightarrow>
     (\<exists>before line.
        set_by (\<lambda>h. ms_rcpt_to (snd (mx_run K C L g peer now w h))) (Some rcpt_to) ls before line
      \<and> ms_phase (snd (mx_run K C L g peer now w before)) = Command
      \<and> ms_mail_from (snd (mx_run K C L g peer now w before)) \<noteq> None
      \<and> rcpt_arg line = Some rcpt_to
      \<and> rcpt_acceptable g rcpt_to = Inr ())"

text \<open>The lines of the body: all those since the command that opened the data phase.\<close>

definition body_since_data ::
  "('cv, 'f, 'ce, 'ik, 'ie) kotva \<Rightarrow> 'sk DkimCrypto \<Rightarrow> ('ik, 'draft, 'env, 'cid, 'addr) MailLib
     \<Rightarrow> ('ik, 'ab, 'env, 'cid) InboundGateway \<Rightarrow> string \<Rightarrow> u64 \<Rightarrow> ('ab, 'env, 'cid) GatewayWorld \<Rightarrow> bytes list
     \<Rightarrow> bytes list \<Rightarrow> bool" where
  "body_since_data K C L g peer now w ls body \<longleftrightarrow>
     (\<exists>before line.
        ls = before @ line # body \<and> fst (command_of line) = ''DATA''
      \<and> ms_phase (snd (mx_run K C L g peer now w before)) = Command
      \<and> [46] \<notin> set body)"

text \<open>
  A delivery is justified by a history when one of its lines is the final dot at which it was made:
  there the sender and the recipient of the open transaction were cleared, the message is exactly what
  the lines since DATA say and is within the size limit, it passed the DKIM gate, and the DMARC gate
  with the SPF outcome of that sender, and the delivery is that message wrapped for that recipient and
  attested under the key of its domain.
\<close>

definition justified ::
  "('cv, 'f, 'ce, 'ik, 'ie) kotva \<Rightarrow> 'sk DkimCrypto \<Rightarrow> ('ik, 'draft, 'env, 'cid, 'addr) MailLib
     \<Rightarrow> ('ik, 'ab, 'env, 'cid) InboundGateway \<Rightarrow> string \<Rightarrow> u64 \<Rightarrow> ('ab, 'env, 'cid) GatewayWorld \<Rightarrow> bytes list
     \<Rightarrow> 'env \<times> 'cid Attestation \<Rightarrow> bool" where
  "justified K C L g peer now w ls d \<longleftrightarrow>
     (\<exists>pre post mail_from spf rcpt_to body.
        ls = pre @ [46] # post
      \<and> gw_deliveries (fst (mx_run K C L g peer now w (pre @ [[46]])))
          = gw_deliveries (fst (mx_run K C L g peer now w pre)) @ [d]
      \<and> sender_cleared K C L g peer now w pre mail_from spf
      \<and> recipient_cleared K C L g peer now w pre rcpt_to
      \<and> body_since_data K C L g peer now w pre body
      \<and> length (message_of body) \<le> ig_max_message_bytes g
      \<and> dkim_gate g (verify_inbound_dkim C g (message_of body)) = Inr ()
      \<and> dmarc_gate L g (message_of body) (Some spf) (verify_inbound_dkim C g (message_of body)) mail_from = Inr ()
      \<and> wrap_and_attest K L g mail_from rcpt_to (message_of body) now = Inr d)"

definition session_inv :: "('ik, 'ab, 'env, 'cid) InboundGateway \<Rightarrow> string \<Rightarrow> MxSession \<Rightarrow> bool" where
  "session_inv g peer s \<longleftrightarrow>
     ms_peer_ip s = peer
   \<and> length (ms_data s) \<le> ig_max_message_bytes g
   \<and> (ms_phase s = Data \<longrightarrow> ms_mail_from s \<noteq> None \<and> ms_rcpt_to s \<noteq> None)
   \<and> (ms_mail_from s \<noteq> None \<longrightarrow> (\<exists>spf. ms_spf_outcome s = Some spf \<and> spf_gate g spf = Inr ()))
   \<and> (\<forall>r. ms_rcpt_to s = Some r \<longrightarrow> rcpt_acceptable g r = Inr ())"

text \<open>The decision on a message, seen through its reply and the deliveries.\<close>

lemma accept_message_cases [consumes 1, case_names refused delivered]:
  assumes "accept_message_with_spf K C L g w mail_from rcpt_to data now spf = (r, w')"
  obtains (refused) "w' = w" "sr_code r \<noteq> 250"
  | (delivered) d where "w' = w\<lparr>gw_deliveries := gw_deliveries w @ [d]\<rparr>"
      "wrap_and_attest K L g mail_from rcpt_to data now = Inr d"
      "dkim_gate g (verify_inbound_dkim C g data) = Inr ()"
      "dmarc_gate L g data spf (verify_inbound_dkim C g data) mail_from = Inr ()"
      "sr_code r = 250 \<longleftrightarrow> ig_deliver g (fst d) (snd d) = Acked"
proof (cases "dkim_gate g (verify_inbound_dkim C g data)")
  case (Inl e)
  then have "w' = w" "sr_code r \<noteq> 250" using assms
    by (auto simp: accept_message_with_spf_def dkim_gate_def reply_def split: if_splits DkimVerdict.splits)
  then show ?thesis by (rule refused)
next
  case (Inr u)
  note dkim = this
  show ?thesis
  proof (cases "dmarc_gate L g data spf (verify_inbound_dkim C g data) mail_from")
    case (Inl e)
    then have "w' = w" "sr_code r \<noteq> 250" using assms dkim
      by (auto simp: accept_message_with_spf_def dmarc_gate_def reply_def
          split: if_splits DmarcVerdict.splits DmarcDisposition.splits)
    then show ?thesis by (rule refused)
  next
    case (Inr u')
    show ?thesis
    proof (cases "wrap_and_attest K L g mail_from rcpt_to data now")
      case (Inl e)
      then have "w' = w" "sr_code r \<noteq> 250" using assms dkim Inr
        by (auto simp: accept_message_with_spf_def reply_def split: InboundError.splits)
      then show ?thesis by (rule refused)
    next
      case wrapped: (Inr d)
      then show ?thesis using assms dkim Inr
        by (intro delivered [of d])
           (auto simp: accept_message_with_spf_def reply_def Let_def split: prod.splits DeliveryOutcome.splits)
    qed
  qed
qed

lemma session_inv_reset: "session_inv g peer s \<Longrightarrow> session_inv g peer (reset_transaction (s\<lparr>ms_phase := Command\<rparr>))"
  by (simp add: session_inv_def reset_transaction_def)

lemma feed_data_inv: "session_inv g peer s \<Longrightarrow> session_inv g peer (snd (snd (feed_data K C L g w s line)))"
  by (auto simp: feed_data_def session_inv_def reset_transaction_def Let_def CRLF_def split: prod.splits)

lemma cmd_mail_inv: "session_inv g peer s \<Longrightarrow> session_inv g peer (snd (snd (cmd_mail g w s rest)))"
  by (auto simp: cmd_mail_def session_inv_def abuse_check_def Let_def
      split: option.splits prod.splits AbuseDecision.splits sum.splits)

lemma cmd_rcpt_inv: "session_inv g peer s \<Longrightarrow> session_inv g peer (snd (cmd_rcpt g s rest))"
  by (auto simp: cmd_rcpt_def session_inv_def Let_def split: option.splits sum.splits)

lemma cmd_data_inv: "session_inv g peer s \<Longrightarrow> session_inv g peer (snd (cmd_data s))"
  by (auto simp: cmd_data_def session_inv_def)

text \<open>What a line does, by the phase and by the verb.\<close>

lemma feed_line_by_phase:
  "ms_phase s = Data \<Longrightarrow> feed_line_bytes K C L g w s line = feed_data K C L g w s line"
  "ms_phase s = Command \<Longrightarrow> feed_line_bytes K C L g w s line =
     (let (verb, rest) = command_of line in
      if verb = ''HELO'' \<or> verb = ''EHLO'' then
        (reply 250 ''pier-gateway at your service'', w, s\<lparr>ms_helo := (if trim rest = [] then None else Some (trim rest))\<rparr>)
      else if verb = ''MAIL'' then cmd_mail g w s rest
      else if verb = ''RCPT'' then (let (r, s) = cmd_rcpt g s rest in (r, w, s))
      else if verb = ''DATA'' then (let (r, s) = cmd_data s in (r, w, s))
      else if verb = ''RSET'' then (reply 250 ''2.0.0 flushed'', w, reset_transaction s)
      else if verb = ''NOOP'' then (reply 250 ''2.0.0 ok'', w, s)
      else if verb = ''QUIT'' then (reply 221 ''2.0.0 bye'', w, s)
      else (reply 502 ''5.5.1 command not implemented'', w, s))"
proof -
  show "ms_phase s = Data \<Longrightarrow> feed_line_bytes K C L g w s line = feed_data K C L g w s line"
    by (simp add: feed_line_bytes_def)
qed (simp only: feed_line_bytes_def command_of_def Let_def Phase.distinct if_False)

lemma mx_step_inv:
  assumes "session_inv g peer (snd ws)"
  shows "session_inv g peer (snd (mx_step K C L g ws line))"
proof (cases "ms_phase (snd ws)")
  case Data
  then show ?thesis using feed_data_inv assms by (simp add: mx_step_def feed_line_by_phase)
next
  case Command
  obtain verb rest where vr: "command_of line = (verb, rest)" by (cases "command_of line")
  have "session_inv g peer (reset_transaction (snd ws))" "session_inv g peer ((snd ws)\<lparr>ms_helo := x\<rparr>)" for x
    using assms Command by (auto simp: session_inv_def reset_transaction_def)
  then show ?thesis
    unfolding mx_step_def feed_line_by_phase(2) [OF Command] vr
    by (simp add: assms cmd_mail_inv cmd_rcpt_inv cmd_data_inv case_prod_beta Let_def)
qed

interpretation mx_machine: invariant_machine "mx_step K C L g" "\<lambda>ws. session_inv g peer (snd ws)" for K C L g peer
  by unfold_locales (rule mx_step_inv)

lemma session_new_inv: "session_inv g peer (session_new peer now)"
  by (simp add: session_inv_def session_new_def)

section \<open>The history of a session\<close>

lemma mx_run_Nil [simp]: "mx_run K C L g peer now w [] = (w, session_new peer now)"
  and mx_run_snoc: "mx_run K C L g peer now w (ls @ [l]) = mx_step K C L g (mx_run K C L g peer now w ls) l"
  by (simp_all add: mx_run_def)

lemma mx_run_inv: "session_inv g peer (snd (mx_run K C L g peer now w ls))"
  unfolding mx_run_def by (rule mx_machine.run_inv) (simp add: session_new_inv)

lemma set_by_here: "val (ls @ [l]) = v \<Longrightarrow> set_by val v (ls @ [l]) ls l"
  by (auto simp: set_by_def)

lemma set_by_snoc:
  assumes "set_by val v ls before line" "val (ls @ [l]) = v"
  shows "set_by val v (ls @ [l]) before line"
proof -
  obtain since where s: "ls = before @ line # since" "\<And>k. k \<le> length since \<Longrightarrow> val (before @ line # take k since) = v"
    using assms(1) by (auto simp: set_by_def)
  have "val (before @ line # take k (since @ [l])) = v" if "k \<le> length (since @ [l])" for k
    using that s(2) [of k] assms(2) s(1) by (cases "k \<le> length since") auto
  then show ?thesis unfolding set_by_def using s(1) by (intro exI [of _ "since @ [l]"]) simp
qed

text \<open>How one line can change the sender, the recipient, the phase and the buffer.\<close>

lemma step_sender:
  assumes "mx_step K C L g (w, s) line = (w', s')" "ms_mail_from s' = Some a" "ms_peer_ip s = peer"
  obtains (kept) "ms_mail_from s = Some a" "ms_spf_outcome s' = ms_spf_outcome s"
  | (named) spf where "ms_phase s = Command" "mail_arg line = Some a" "ms_spf_outcome s' = Some spf"
      "fst (ig_abuse g (gw_abuse_state w) peer a) = Accept" "spf = evaluate_spf g peer a (ms_helo s)" "spf_gate g spf = Inr ()"
proof (cases "ms_phase s")
  case Data
  then show ?thesis using assms kept
    by (auto simp: mx_step_def feed_line_by_phase feed_data_def reset_transaction_def Let_def split: if_splits prod.splits)
next
  case Command
  obtain verb rest where vr: "command_of line = (verb, rest)" by (cases "command_of line")
  show ?thesis
  proof (cases "verb = ''MAIL''")
    case True
    then have c: "snd (cmd_mail g w s rest) = (w', s')"
      using assms(1) Command vr by (simp add: mx_step_def feed_line_by_phase)
    show ?thesis
      using c assms(2,3) kept named True Command vr
      by (auto simp: cmd_mail_def mail_arg_def abuse_check_def Let_def
          split: option.splits prod.splits AbuseDecision.splits sum.splits)
  next
    case False
    then have "ms_mail_from s = Some a \<and> ms_spf_outcome s' = ms_spf_outcome s"
      using assms(1,2) Command vr
      by (auto simp: mx_step_def feed_line_by_phase Let_def cmd_rcpt_def cmd_data_def reset_transaction_def
          split: if_splits prod.splits option.splits sum.splits)
    then show ?thesis using kept by blast
  qed
qed

lemma step_recipient:
  assumes "mx_step K C L g (w, s) line = (w', s')" "ms_rcpt_to s' = Some a"
  obtains (kept) "ms_rcpt_to s = Some a"
  | (named) "ms_phase s = Command" "ms_mail_from s \<noteq> None" "rcpt_arg line = Some a" "rcpt_acceptable g a = Inr ()"
proof (cases "ms_phase s")
  case Data
  then show ?thesis using assms kept
    by (auto simp: mx_step_def feed_line_by_phase feed_data_def reset_transaction_def Let_def split: if_splits prod.splits)
next
  case Command
  obtain verb rest where vr: "command_of line = (verb, rest)" by (cases "command_of line")
  show ?thesis
  proof (cases "verb = ''RCPT''")
    case True
    then have "snd (cmd_rcpt g s rest) = s'"
      using assms(1) Command vr by (auto simp: mx_step_def feed_line_by_phase Let_def split: prod.splits)
    then show ?thesis
      using assms(2) kept named True Command vr
      by (auto simp: cmd_rcpt_def rcpt_arg_def Let_def split: if_splits option.splits sum.splits)
  next
    case False
    then have "ms_rcpt_to s = Some a"
      using assms(1,2) Command vr
      by (auto simp: mx_step_def feed_line_by_phase Let_def cmd_mail_def cmd_data_def reset_transaction_def
          split: if_splits prod.splits option.splits sum.splits AbuseDecision.splits)
    then show ?thesis using kept by blast
  qed
qed

lemma step_phase:
  assumes "mx_step K C L g (w, s) line = (w', s')"
  shows "ms_now s' = ms_now s"
    and "ms_phase s = Command \<Longrightarrow> gw_deliveries w' = gw_deliveries w \<and> (ms_phase s' = Data \<longrightarrow> fst (command_of line) = ''DATA'')
       \<and> (ms_data s = [] \<and> \<not> ms_size_exceeded s \<longrightarrow> ms_data s' = [] \<and> \<not> ms_size_exceeded s')"
    and "ms_phase s = Data \<Longrightarrow> line \<noteq> [46] \<Longrightarrow> gw_deliveries w' = gw_deliveries w \<and> ms_phase s' = Data
       \<and> (\<not> ms_size_exceeded s' \<longrightarrow> \<not> ms_size_exceeded s \<and> ms_data s' = ms_data s @ unstuff line @ CRLF)"
    and "ms_phase s = Data \<Longrightarrow> line = [46] \<Longrightarrow> ms_phase s' = Command \<and> ms_data s' = [] \<and> \<not> ms_size_exceeded s'"
proof -
  obtain verb rest where vr: "command_of line = (verb, rest)" by (cases "command_of line")
  have cmd: "ms_now s' = ms_now s \<and> gw_deliveries w' = gw_deliveries w \<and> (ms_phase s' = Data \<longrightarrow> verb = ''DATA'')
       \<and> (ms_data s = [] \<and> \<not> ms_size_exceeded s \<longrightarrow> ms_data s' = [] \<and> \<not> ms_size_exceeded s')" if "ms_phase s = Command"
    using assms that
    by (auto simp: mx_step_def feed_line_by_phase vr Let_def cmd_mail_def cmd_rcpt_def cmd_data_def abuse_check_def
        reset_transaction_def split: if_splits prod.splits option.splits sum.splits AbuseDecision.splits)
  have dat: "ms_now s' = ms_now s" if "ms_phase s = Data"
    using assms that
    by (auto simp: mx_step_def feed_line_by_phase feed_data_def reset_transaction_def Let_def split: if_splits prod.splits)
  show "ms_now s' = ms_now s" using cmd dat by (cases "ms_phase s") auto
  show "ms_phase s = Command \<Longrightarrow> gw_deliveries w' = gw_deliveries w \<and> (ms_phase s' = Data \<longrightarrow> fst (command_of line) = ''DATA'')
       \<and> (ms_data s = [] \<and> \<not> ms_size_exceeded s \<longrightarrow> ms_data s' = [] \<and> \<not> ms_size_exceeded s')" using cmd by (simp add: vr)
  show "ms_phase s = Data \<Longrightarrow> line \<noteq> [46] \<Longrightarrow> gw_deliveries w' = gw_deliveries w \<and> ms_phase s' = Data
       \<and> (\<not> ms_size_exceeded s' \<longrightarrow> \<not> ms_size_exceeded s \<and> ms_data s' = ms_data s @ unstuff line @ CRLF)"
    using assms by (auto simp: mx_step_def feed_line_by_phase feed_data_def Let_def split: if_splits)
  show "ms_phase s = Data \<Longrightarrow> line = [46] \<Longrightarrow> ms_phase s' = Command \<and> ms_data s' = [] \<and> \<not> ms_size_exceeded s'"
    using assms
    by (auto simp: mx_step_def feed_line_by_phase feed_data_def reset_transaction_def Let_def split: if_splits prod.splits)
qed

text \<open>The transaction open at the end of a history, and what was delivered in the course of it.\<close>

definition history_inv ::
  "('cv, 'f, 'ce, 'ik, 'ie) kotva \<Rightarrow> 'sk DkimCrypto \<Rightarrow> ('ik, 'draft, 'env, 'cid, 'addr) MailLib
     \<Rightarrow> ('ik, 'ab, 'env, 'cid) InboundGateway \<Rightarrow> string \<Rightarrow> u64 \<Rightarrow> ('ab, 'env, 'cid) GatewayWorld \<Rightarrow> bytes list \<Rightarrow> bool" where
  "history_inv K C L g peer now w ls \<longleftrightarrow>
     (let (w', s) = mx_run K C L g peer now w ls in
        ms_now s = now
      \<and> (\<forall>a. ms_mail_from s = Some a \<longrightarrow> (\<exists>spf. ms_spf_outcome s = Some spf \<and> sender_cleared K C L g peer now w ls a spf))
      \<and> (\<forall>a. ms_rcpt_to s = Some a \<longrightarrow> recipient_cleared K C L g peer now w ls a)
      \<and> (ms_phase s = Command \<longrightarrow> ms_data s = [] \<and> \<not> ms_size_exceeded s)
      \<and> (ms_phase s = Data \<longrightarrow> (\<exists>body. body_since_data K C L g peer now w ls body
                                       \<and> (\<not> ms_size_exceeded s \<longrightarrow> ms_data s = message_of body))))"

lemma sender_cleared_snoc:
  assumes "mx_step K C L g (mx_run K C L g peer now w ls) l = (w', s')" "ms_mail_from s' = Some a"
    and "history_inv K C L g peer now w ls"
  shows "\<exists>spf. ms_spf_outcome s' = Some spf \<and> sender_cleared K C L g peer now w (ls @ [l]) a spf"
proof -
  let ?val = "\<lambda>h. (ms_mail_from (snd (mx_run K C L g peer now w h)), ms_spf_outcome (snd (mx_run K C L g peer now w h)))"
  obtain w1 s1 where r: "mx_run K C L g peer now w ls = (w1, s1)" by (cases "mx_run K C L g peer now w ls")
  have p: "ms_peer_ip s1 = peer" using mx_run_inv [of g peer K C L now w ls] by (simp add: r session_inv_def)
  have v: "?val (ls @ [l]) = (Some a, ms_spf_outcome s')" using assms(1,2) by (simp add: mx_run_snoc)
  from assms(1) [unfolded r] assms(2) p show ?thesis
  proof (cases rule: step_sender)
    case kept
    then obtain spf where s: "ms_spf_outcome s1 = Some spf" "sender_cleared K C L g peer now w ls a spf"
      using assms(3) by (auto simp: history_inv_def r)
    then obtain before line wm sm where b: "set_by ?val (Some a, Some spf) ls before line"
      and rest: "mx_run K C L g peer now w before = (wm, sm)" "ms_phase sm = Command" "mail_arg line = Some a"
        "fst (ig_abuse g (gw_abuse_state wm) peer a) = Accept" "spf = evaluate_spf g peer a (ms_helo sm)" "spf_gate g spf = Inr ()"
      unfolding sender_cleared_def by blast
    have "set_by ?val (Some a, Some spf) (ls @ [l]) before line"
      by (rule set_by_snoc [OF b]) (simp only: v kept(2) s(1))
    with rest have "sender_cleared K C L g peer now w (ls @ [l]) a spf" unfolding sender_cleared_def by blast
    then show ?thesis using kept(2) s(1) by auto
  next
    case (named spf)
    have "set_by ?val (Some a, Some spf) (ls @ [l]) ls l"
      by (rule set_by_here) (simp only: v named(3))
    then have "sender_cleared K C L g peer now w (ls @ [l]) a spf"
      unfolding sender_cleared_def using r named by blast
    then show ?thesis using named(3) by auto
  qed
qed

lemma recipient_cleared_snoc:
  assumes "mx_step K C L g (mx_run K C L g peer now w ls) l = (w', s')" "ms_rcpt_to s' = Some a"
    and "history_inv K C L g peer now w ls"
  shows "recipient_cleared K C L g peer now w (ls @ [l]) a"
proof -
  let ?val = "\<lambda>h. ms_rcpt_to (snd (mx_run K C L g peer now w h))"
  obtain w1 s1 where r: "mx_run K C L g peer now w ls = (w1, s1)" by (cases "mx_run K C L g peer now w ls")
  have v: "?val (ls @ [l]) = Some a" using assms(1,2) by (simp add: mx_run_snoc)
  from assms(1) [unfolded r] assms(2) show ?thesis
  proof (cases rule: step_recipient)
    case kept
    then have "recipient_cleared K C L g peer now w ls a" using assms(3) by (simp add: history_inv_def r)
    then show ?thesis unfolding recipient_cleared_def using set_by_snoc [where val = ?val, OF _ v] by blast
  next
    case named
    have "set_by ?val (Some a) (ls @ [l]) ls l" using v by (rule set_by_here)
    with named show ?thesis unfolding recipient_cleared_def by (intro exI [of _ ls] exI [of _ l]) (simp add: r)
  qed
qed

lemma message_of_snoc: "message_of (body @ [l]) = message_of body @ unstuff l @ CRLF"
  by (simp add: message_of_def)

lemma body_since_data_snoc:
  assumes "mx_step K C L g (mx_run K C L g peer now w ls) l = (w', s')" "ms_phase s' = Data"
    and "history_inv K C L g peer now w ls"
  shows "\<exists>body. body_since_data K C L g peer now w (ls @ [l]) body \<and> (\<not> ms_size_exceeded s' \<longrightarrow> ms_data s' = message_of body)"
proof -
  obtain w1 s1 where r: "mx_run K C L g peer now w ls = (w1, s1)" by (cases "mx_run K C L g peer now w ls")
  note st = step_phase [OF assms(1) [unfolded r]]
  show ?thesis
  proof (cases "ms_phase s1")
    case Command
    then have "body_since_data K C L g peer now w (ls @ [l]) []" "ms_data s' = message_of []"
      using st(2) assms(2,3) r by (auto simp: body_since_data_def history_inv_def message_of_def)
    then show ?thesis by blast
  next
    case Data
    then have nd: "l \<noteq> [46]" using st(4) assms(2) by auto
    obtain body where b: "body_since_data K C L g peer now w ls body" "\<not> ms_size_exceeded s1 \<longrightarrow> ms_data s1 = message_of body"
      using assms(3) Data r by (auto simp: history_inv_def)
    from b(1) nd have "body_since_data K C L g peer now w (ls @ [l]) (body @ [l])"
      by (fastforce simp: body_since_data_def)
    moreover have "\<not> ms_size_exceeded s' \<longrightarrow> ms_data s' = message_of (body @ [l])"
      using st(3) [OF Data nd] b(2) by (auto simp: message_of_snoc)
    ultimately show ?thesis by blast
  qed
qed

lemma history_inv_run: "history_inv K C L g peer now w ls"
proof (induction ls rule: rev_induct)
  case Nil
  then show ?case by (simp add: history_inv_def session_new_def)
next
  case (snoc l ls)
  obtain w1 s1 where r: "mx_run K C L g peer now w ls = (w1, s1)" by (cases "mx_run K C L g peer now w ls")
  obtain w' s' where s: "mx_step K C L g (mx_run K C L g peer now w ls) l = (w', s')"
    by (cases "mx_step K C L g (mx_run K C L g peer now w ls) l")
  note st = step_phase [OF s [unfolded r]]
  have "ms_now s' = now" using st(1) snoc.IH by (simp add: history_inv_def r)
  moreover have "ms_data s' = [] \<and> \<not> ms_size_exceeded s'" if "ms_phase s' = Command"
  proof (cases "ms_phase s1")
    case Command
    then show ?thesis using st(2) snoc.IH by (simp add: history_inv_def r)
  next
    case Data
    then have "l = [46]" using st(3) that by auto
    with Data show ?thesis using st(4) by simp
  qed
  ultimately show ?case
    using sender_cleared_snoc [OF s _ snoc.IH] recipient_cleared_snoc [OF s _ snoc.IH] body_since_data_snoc [OF s _ snoc.IH]
    by (simp add: history_inv_def mx_run_snoc s)
qed

lemma justified_mono: "justified K C L g peer now w ls d \<Longrightarrow> justified K C L g peer now w (ls @ more') d"
  unfolding justified_def by (metis append.assoc append_Cons)

text \<open>One line makes at most one delivery, and the history up to it justifies it.\<close>

lemma step_delivery:
  assumes "mx_step K C L g (mx_run K C L g peer now w ls) l = (w', s')"
  shows "gw_deliveries w' = gw_deliveries (fst (mx_run K C L g peer now w ls))
    \<or> (\<exists>d. gw_deliveries w' = gw_deliveries (fst (mx_run K C L g peer now w ls)) @ [d]
           \<and> justified K C L g peer now w (ls @ [l]) d)"
proof -
  obtain w1 s1 where r: "mx_run K C L g peer now w ls = (w1, s1)" by (cases "mx_run K C L g peer now w ls")
  note st = step_phase [OF assms [unfolded r]]
  note inv = history_inv_run [of K C L g peer now w ls] mx_run_inv [of g peer K C L now w ls]
  show ?thesis
  proof (cases "ms_phase s1 = Data \<and> l = [46] \<and> \<not> ms_size_exceeded s1")
    case False
    then have "gw_deliveries w' = gw_deliveries w1"
    proof (cases "ms_phase s1")
      case Command
      then show ?thesis using st(2) by simp
    next
      case Data
      show ?thesis
      proof (cases "l = [46]")
        case True
        then show ?thesis using False Data assms by (simp add: r mx_step_def feed_line_by_phase feed_data_def)
      next
        case False
        then show ?thesis using st(3) [OF Data] by simp
      qed
    qed
    then show ?thesis by (simp add: r)
  next
    case dot: True
    obtain a where a: "ms_mail_from s1 = Some a" using inv(2) dot by (auto simp: r session_inv_def)
    obtain b where b: "ms_rcpt_to s1 = Some b" using inv(2) dot by (auto simp: r session_inv_def)
    obtain spf where spf: "ms_spf_outcome s1 = Some spf" "sender_cleared K C L g peer now w ls a spf"
      using inv(1) a by (auto simp: history_inv_def r)
    obtain body where body: "body_since_data K C L g peer now w ls body" "ms_data s1 = message_of body"
      using inv(1) dot by (auto simp: history_inv_def r)
    have rc: "recipient_cleared K C L g peer now w ls b" and now: "ms_now s1 = now"
      and len: "length (message_of body) \<le> ig_max_message_bytes g"
      using inv b body(2) by (auto simp: history_inv_def session_inv_def r)
    obtain rep w2 where acc: "accept_message_with_spf K C L g w1 a b (message_of body) now (Some spf) = (rep, w2)"
      by (cases "accept_message_with_spf K C L g w1 a b (message_of body) now (Some spf)")
    have w': "w' = w2"
      using assms dot by (simp add: r mx_step_def feed_line_by_phase feed_data_def a b spf body now acc Let_def)
    from acc show ?thesis
    proof (cases rule: accept_message_cases)
      case refused
      then show ?thesis by (simp add: w' r)
    next
      case (delivered d)
      have eq: "gw_deliveries w' = gw_deliveries w1 @ [d]" using delivered(1) by (simp add: w')
      have "justified K C L g peer now w (ls @ [l]) d"
        unfolding justified_def
        by (rule exI [of _ ls], rule exI [of _ "[]"], rule exI [of _ a], rule exI [of _ spf], rule exI [of _ b], rule exI [of _ body])
           (use dot eq assms spf rc body len delivered in \<open>simp add: mx_run_snoc r\<close>)
      then show ?thesis using eq by (auto simp: r)
    qed
  qed
qed

lemma run_deliveries:
  "\<exists>ds. gw_deliveries (fst (mx_run K C L g peer now w ls)) = gw_deliveries w @ ds \<and> list_all (justified K C L g peer now w ls) ds"
proof (induction ls rule: rev_induct)
  case Nil
  then show ?case by simp
next
  case (snoc l ls)
  then obtain ds where ds: "gw_deliveries (fst (mx_run K C L g peer now w ls)) = gw_deliveries w @ ds"
    "list_all (justified K C L g peer now w ls) ds" by blast
  then have mono: "list_all (justified K C L g peer now w (ls @ [l])) ds"
    by (auto simp: list_all_iff intro: justified_mono)
  obtain w' s' where s: "mx_step K C L g (mx_run K C L g peer now w ls) l = (w', s')"
    by (cases "mx_step K C L g (mx_run K C L g peer now w ls) l")
  from step_delivery [OF s] show ?case
  proof
    assume "gw_deliveries w' = gw_deliveries (fst (mx_run K C L g peer now w ls))"
    then show ?thesis using ds(1) mono by (intro exI [of _ ds]) (simp add: mx_run_snoc s)
  next
    assume "\<exists>d. gw_deliveries w' = gw_deliveries (fst (mx_run K C L g peer now w ls)) @ [d]
      \<and> justified K C L g peer now w (ls @ [l]) d"
    then obtain d where "gw_deliveries w' = gw_deliveries w @ ds @ [d]" "justified K C L g peer now w (ls @ [l]) d"
      using ds(1) by auto
    then show ?thesis using mono by (intro exI [of _ "ds @ [d]"]) (simp add: mx_run_snoc s)
  qed
qed

text \<open>
  (C2) Whatever lines a peer sends to a fresh session, each message the session hands to the mesh was
  handed over at a final dot, and the lines before that dot account for it: the MAIL command of the
  open transaction named its sender, the anti-abuse gate accepted that sender in the state it was then
  in, and the SPF evaluation of peer, sender and greeting made then passed the SPF gate; a RCPT
  command of that transaction named its recipient, who resolves; the message is exactly the unstuffed
  lines since DATA, within the size limit, and passed the DKIM gate, and the DMARC gate with that very
  SPF outcome; and what is delivered is this message wrapped for this recipient and attested under the
  key of the recipient's domain. The session never holds more than the configured maximum of bytes.
\<close>

theorem mx_deliveries_justified:
  assumes "foldl (mx_step K C L g) (w, session_new peer now) ls = (w', s')"
  shows "\<exists>ds. gw_deliveries w' = gw_deliveries w @ ds \<and> list_all (justified K C L g peer now w ls) ds
    \<and> length (ms_data s') \<le> ig_max_message_bytes g"
proof -
  have "mx_run K C L g peer now w ls = (w', s')" using assms by (simp add: mx_run_def)
  with run_deliveries [of K C L g peer now w ls] mx_run_inv [of g peer K C L now w ls]
  show ?thesis by (auto simp: session_inv_def)
qed

text \<open>
  (C35) Every session a peer can reach is well formed: it keeps the peer's address; the data phase is only
  entered with a sender and a recipient; a sender is only kept with an SPF outcome the policy lets
  pass; a recipient is only kept when it can be delivered to; and the buffer respects the size limit.
\<close>

theorem mx_session_wellformed:
  assumes "foldl (mx_step K C L g) (w, session_new peer now) ls = (w', s)" "gw_deliveries w = []"
  shows "ms_peer_ip s = peer \<and> length (ms_data s) \<le> ig_max_message_bytes g
    \<and> (ms_phase s = Data \<longrightarrow> ms_mail_from s \<noteq> None \<and> ms_rcpt_to s \<noteq> None)
    \<and> (ms_mail_from s \<noteq> None \<longrightarrow> (\<exists>spf. ms_spf_outcome s = Some spf \<and> spf_gate g spf = Inr ()))
    \<and> (\<forall>r. ms_rcpt_to s = Some r \<longrightarrow> rcpt_acceptable g r = Inr ())"
proof -
  have "session_inv g peer s"
    using mx_run_inv [of g peer K C L now w ls] assms(1) by (simp add: mx_run_def)
  then show ?thesis by (auto simp: session_inv_def)
qed

text \<open>
  (C11) The reply to the final dot: a positive reply is given exactly when the message was handed to the
  mesh and the mesh acknowledged it durably; the transaction is over in every case.
\<close>

theorem mx_250_iff_acked:
  assumes "ms_phase s = Data" "feed_line_bytes K C L g w s [46] = (r, w', s')"
  shows "(sr_code r = 250 \<longleftrightarrow>
            (\<exists>env att. gw_deliveries w' = gw_deliveries w @ [(env, att)] \<and> ig_deliver g env att = Acked))
    \<and> ms_phase s' = Command \<and> ms_mail_from s' = None \<and> ms_rcpt_to s' = None \<and> ms_data s' = []"
proof (cases "ms_size_exceeded s")
  case True
  then show ?thesis using assms
    by (auto simp: feed_line_bytes_def feed_data_def reply_def reset_transaction_def)
next
  case False
  let ?f = "case ms_mail_from s of Some a \<Rightarrow> a | None \<Rightarrow> []"
  let ?r = "case ms_rcpt_to s of Some a \<Rightarrow> a | None \<Rightarrow> []"
  have a: "accept_message_with_spf K C L g w ?f ?r (ms_data s) (ms_now s) (ms_spf_outcome s) = (r, w')"
    and s': "s' = reset_transaction (s\<lparr>ms_phase := Command\<rparr>)"
    using assms False by (auto simp: feed_line_bytes_def feed_data_def split: prod.splits)
  from a show ?thesis
    by (cases rule: accept_message_cases) (auto simp: s' reset_transaction_def)
qed

text \<open>
  A second recipient replaces the first: both commands are answered 250, and afterwards the session
  knows only the second, so the message will be delivered to that one alone.
\<close>

lemma second_rcpt_replaces_first:
  assumes "ms_mail_from s \<noteq> None"
    and "rcpt_acceptable g (trim_end_matches CHR ''>'' (trim_start_matches CHR ''<'' (trim a))) = Inr ()"
    and "rcpt_acceptable g (trim_end_matches CHR ''>'' (trim_start_matches CHR ''<'' (trim b))) = Inr ()"
  shows "sr_code (fst (cmd_rcpt g s (''TO:'' @ a))) = 250
    \<and> sr_code (fst (cmd_rcpt g (snd (cmd_rcpt g s (''TO:'' @ a))) (''TO:'' @ b))) = 250
    \<and> ms_rcpt_to (snd (cmd_rcpt g (snd (cmd_rcpt g s (''TO:'' @ a))) (''TO:'' @ b)))
      = Some (trim_end_matches CHR ''>'' (trim_start_matches CHR ''<'' (trim b)))"
  using assms by (simp add: cmd_rcpt_def strip_prefix_def starts_with_def reply_def Let_def)

section \<open>A concrete gateway\<close>

definition sample_lib :: "(bytes, bytes, bytes, bytes, string) MailLib" where
  "sample_lib =
     \<lparr> ml_build_draft = (\<lambda>d _. d), ml_build_mote = (\<lambda>_ _ _ d. Inr d), ml_env_id = (\<lambda>e. e), ml_cid_bytes = (\<lambda>c. c),
       ml_header_and_body = (\<lambda>b. ([], b)), ml_strip_headers = (\<lambda>h. h), ml_headers_only = (\<lambda>_. []),
       ml_parse_addresses = (\<lambda>_. []), ml_addr_host = (\<lambda>_. None), ml_psl = (\<lambda>_. None), ml_digest = (\<lambda>b. b) \<rparr>"

definition sample_gateway :: "(bytes, unit, bytes, bytes) InboundGateway" where
  "sample_gateway =
     inbound_new [7] [attestation_key_new ''b.org'' ''s'' [7]]
       (\<lambda>r. if r = ''u@b.org'' \<or> r = ''v@b.org'' then Some \<lparr> rk_ik = [1], rk_seal_pub = [2] \<rparr> else None)
       (\<lambda>_ _. Acked) (\<lambda>st _ _. (Accept, st))"

definition sample_world :: "(unit, bytes, bytes) GatewayWorld" where
  "sample_world = \<lparr> gw_abuse_state = (), gw_deliveries = [] \<rparr>"

lemma sample_domain: "inbound_domain_of ''u@b.org'' = Some ''b.org''" "inbound_domain_of ''v@b.org'' = Some ''b.org''"
  by (simp_all add: inbound_domain_of_def trim_def trim_end_while_def trim_end_matches_def trim_start_matches_def
      is_whitespace_def rsplit_once_def)

lemma sample_rcpt: "rcpt_acceptable sample_gateway ''u@b.org'' = Inr ()" "rcpt_acceptable sample_gateway ''v@b.org'' = Inr ()"
  by (simp_all add: rcpt_acceptable_def sample_domain sample_gateway_def inbound_new_def attest_key_for_def
      attestation_key_new_def eq_ignore_ascii_case_def)

definition sample_session :: MxSession where
  "sample_session = (session_new ''9.9.9.9'' 5)\<lparr>ms_phase := Data, ms_mail_from := Some ''a@c'', ms_rcpt_to := Some ''u@b.org'',
     ms_data := [104, 105, 13, 10], ms_spf_outcome := Some unevaluated\<rparr>"

lemma sample_gateway_facts:
  "dkim_gate sample_gateway v = Inr ()" "dmarc_gate L sample_gateway d spf v f = Inr ()"
  "attest_key_for sample_gateway ''b.org'' = Some (attestation_key_new ''b.org'' ''s'' [7])"
  "ig_deliver sample_gateway e att = Acked"
  "ig_directory sample_gateway ''u@b.org'' = Some \<lparr> rk_ik = [1], rk_seal_pub = [2] \<rparr>"
  by (simp_all add: sample_gateway_def inbound_new_def dkim_gate_def dmarc_gate_def attest_key_for_def
      attestation_key_new_def eq_ignore_ascii_case_def)

lemma sample_wrap:
  "\<exists>att. wrap_and_attest (ref_kotva (RU64 0)) sample_lib sample_gateway ''a@c'' ''u@b.org'' d 5 = Inr (d, att)"
  by (simp add: wrap_and_attest_def sample_domain sample_gateway_facts)
     (simp add: sample_lib_def strip_trust_boundary_headers_def)

lemma sample_dot:
  "\<exists>att s'. feed_line_bytes (ref_kotva (RU64 0)) sample_crypto sample_lib sample_gateway sample_world sample_session [46]
     = (reply 250 ''2.6.0 message durably accepted'',
        sample_world\<lparr>gw_deliveries := [([104, 105, 13, 10], att)]\<rparr>, s')"
proof -
  obtain att where "wrap_and_attest (ref_kotva (RU64 0)) sample_lib sample_gateway ''a@c'' ''u@b.org'' [104, 105, 13, 10] 5
      = Inr ([104, 105, 13, 10], att)" using sample_wrap by blast
  then show ?thesis
    by (simp add: feed_line_bytes_def feed_data_def sample_session_def session_new_def accept_message_with_spf_def
        sample_gateway_facts sample_world_def Let_def)
qed

theorem mx_250_iff_acked_witness:
  "\<exists>r w' s'. feed_line_bytes (ref_kotva (RU64 0)) sample_crypto sample_lib sample_gateway sample_world sample_session [46]
     = (r, w', s') \<and> sr_code r = 250
     \<and> (\<exists>env att. gw_deliveries w' = gw_deliveries sample_world @ [(env, att)] \<and> ig_deliver sample_gateway env att = Acked)"
proof -
  obtain att s' where e: "feed_line_bytes (ref_kotva (RU64 0)) sample_crypto sample_lib sample_gateway sample_world sample_session [46]
     = (reply 250 ''2.6.0 message durably accepted'', sample_world\<lparr>gw_deliveries := [([104, 105, 13, 10], att)]\<rparr>, s')"
    using sample_dot by blast
  have "ms_phase sample_session = Data" by (simp add: sample_session_def)
  from mx_250_iff_acked [OF this e] e show ?thesis by (auto simp: reply_def)
qed

lemma sample_commands:
  "command_of (str_bytes ''MAIL FROM:<a@c>'') = (''MAIL'', ''FROM:<a@c>'')"
  "command_of (str_bytes ''RCPT TO:<u@b.org>'') = (''RCPT'', ''TO:<u@b.org>'')"
  "command_of (str_bytes ''DATA'') = (''DATA'', [])"
proof -
  have l: "lossy (str_bytes ''MAIL FROM:<a@c>'') = ''MAIL FROM:<a@c>''"
    "lossy (str_bytes ''RCPT TO:<u@b.org>'') = ''RCPT TO:<u@b.org>''" "lossy (str_bytes ''DATA'') = ''DATA''"
    by (rule lossy_ascii, simp add: ascii_str_def)+
  show "command_of (str_bytes ''MAIL FROM:<a@c>'') = (''MAIL'', ''FROM:<a@c>'')"
    "command_of (str_bytes ''RCPT TO:<u@b.org>'') = (''RCPT'', ''TO:<u@b.org>'')"
    "command_of (str_bytes ''DATA'') = (''DATA'', [])"
    unfolding command_of_def l
    by (simp_all add: trim_def trim_end_while_def is_whitespace_def to_ascii_uppercase_def to_upper_char_def is_ascii_lowercase_def)
qed

text \<open>A session in which a message is delivered, line by line.\<close>

abbreviation sample_feed :: "(unit, bytes, bytes) GatewayWorld \<Rightarrow> MxSession \<Rightarrow> bytes \<Rightarrow> SmtpReply \<times> (unit, bytes, bytes) GatewayWorld \<times> MxSession" where
  "sample_feed \<equiv> feed_line_bytes (ref_kotva (RU64 0)) sample_crypto sample_lib sample_gateway"

definition sample_new :: MxSession where
  "sample_new = session_new ''9.9.9.9'' 5"

definition sample_mailed :: MxSession where
  "sample_mailed = sample_new\<lparr>ms_mail_from := Some ''<a@c>'', ms_spf_outcome := Some unevaluated\<rparr>"

definition sample_addressed :: MxSession where
  "sample_addressed = sample_mailed\<lparr>ms_rcpt_to := Some ''u@b.org''\<rparr>"

lemma sample_phases: "ms_phase sample_new = Command" "ms_phase sample_mailed = Command" "ms_phase sample_addressed = Command"
  by (simp_all add: sample_new_def sample_mailed_def sample_addressed_def session_new_def)

lemma sample_feed_mail:
  "sample_feed sample_world sample_new (str_bytes ''MAIL FROM:<a@c>'') = (reply 250 ''2.1.0 sender ok'', sample_world, sample_mailed)"
  unfolding feed_line_by_phase(2) [OF sample_phases(1)] sample_commands
  by (simp add: cmd_mail_def strip_prefix_def starts_with_def abuse_check_def evaluate_spf_def spf_gate_def sample_gateway_def
      inbound_new_def sample_world_def sample_mailed_def sample_new_def session_new_def trim_def trim_end_while_def is_whitespace_def)

lemma sample_feed_rcpt:
  "sample_feed sample_world sample_mailed (str_bytes ''RCPT TO:<u@b.org>'')
     = (reply 250 ''2.1.5 recipient ok'', sample_world, sample_addressed)"
proof -
  have a: "trim_end_matches CHR ''>'' (trim_start_matches CHR ''<'' (trim ''<u@b.org>'')) = ''u@b.org''"
    by (simp add: trim_def trim_end_while_def trim_end_matches_def trim_start_matches_def is_whitespace_def)
  show ?thesis
    unfolding feed_line_by_phase(2) [OF sample_phases(2)] sample_commands
    by (simp add: cmd_rcpt_def strip_prefix_def starts_with_def a sample_rcpt sample_addressed_def) (simp add: sample_mailed_def)
qed

lemma sample_feed_data:
  "sample_feed sample_world sample_addressed (str_bytes ''DATA'')
     = (reply 354 ''start mail input; end with <CRLF>.<CRLF>'', sample_world, sample_addressed\<lparr>ms_phase := Data\<rparr>)"
  unfolding feed_line_by_phase(2) [OF sample_phases(3)] sample_commands
  by (simp add: cmd_data_def sample_addressed_def sample_mailed_def)

lemma sample_feed_body:
  "sample_feed sample_world (sample_addressed\<lparr>ms_phase := Data\<rparr>) [104, 105]
     = (reply 0 [], sample_world, sample_addressed\<lparr>ms_phase := Data, ms_data := [104, 105, 13, 10]\<rparr>)"
proof -
  have "ig_max_message_bytes sample_gateway = 26214400"
    by (simp add: sample_gateway_def inbound_new_def DEFAULT_MAX_MESSAGE_BYTES_def)
  then show ?thesis
    by (simp add: feed_line_by_phase feed_data_def unstuff_def CRLF_def sample_addressed_def sample_mailed_def sample_new_def session_new_def)
qed

lemma sample_feed_dot:
  "\<exists>att. sample_feed sample_world (sample_addressed\<lparr>ms_phase := Data, ms_data := [104, 105, 13, 10]\<rparr>) [46]
     = (reply 250 ''2.6.0 message durably accepted'', sample_world\<lparr>gw_deliveries := [([104, 105, 13, 10], att)]\<rparr>, sample_new)"
proof -
  obtain att where "wrap_and_attest (ref_kotva (RU64 0)) sample_lib sample_gateway ''<a@c>'' ''u@b.org'' [104, 105, 13, 10] 5
      = Inr ([104, 105, 13, 10], att)"
    by (simp add: wrap_and_attest_def sample_domain sample_gateway_facts) (simp add: sample_lib_def strip_trust_boundary_headers_def)
  then show ?thesis
    by (simp add: feed_line_by_phase feed_data_def session_new_def accept_message_with_spf_def sample_addressed_def sample_mailed_def
        sample_new_def sample_gateway_facts sample_world_def reset_transaction_def Let_def)
qed

lemma sample_run:
  "\<exists>att. foldl (mx_step (ref_kotva (RU64 0)) sample_crypto sample_lib sample_gateway)
        (sample_world, session_new ''9.9.9.9'' 5) [str_bytes ''MAIL FROM:<a@c>'', str_bytes ''RCPT TO:<u@b.org>'',
          str_bytes ''DATA'', [104, 105], [46]]
     = (sample_world\<lparr>gw_deliveries := [([104, 105, 13, 10], att)]\<rparr>, session_new ''9.9.9.9'' 5)"
proof -
  obtain att where "sample_feed sample_world (sample_addressed\<lparr>ms_phase := Data, ms_data := [104, 105, 13, 10]\<rparr>) [46]
     = (reply 250 ''2.6.0 message durably accepted'', sample_world\<lparr>gw_deliveries := [([104, 105, 13, 10], att)]\<rparr>, sample_new)"
    using sample_feed_dot by blast
  then show ?thesis
    unfolding sample_new_def [symmetric]
    by (simp only: foldl_Cons foldl_Nil mx_step_def fst_conv snd_conv sample_feed_mail sample_feed_rcpt sample_feed_data sample_feed_body)
       blast
qed

theorem mx_deliveries_justified_witness:
  "\<exists>d. gw_deliveries (fst (foldl (mx_step (ref_kotva (RU64 0)) sample_crypto sample_lib sample_gateway)
        (sample_world, session_new ''9.9.9.9'' 5) [str_bytes ''MAIL FROM:<a@c>'', str_bytes ''RCPT TO:<u@b.org>'',
          str_bytes ''DATA'', [104, 105], [46]])) = [d]
     \<and> fst d = [104, 105, 13, 10]
     \<and> justified (ref_kotva (RU64 0)) sample_crypto sample_lib sample_gateway ''9.9.9.9'' 5 sample_world
         [str_bytes ''MAIL FROM:<a@c>'', str_bytes ''RCPT TO:<u@b.org>'', str_bytes ''DATA'', [104, 105], [46]] d"
proof -
  obtain att where e: "foldl (mx_step (ref_kotva (RU64 0)) sample_crypto sample_lib sample_gateway)
        (sample_world, session_new ''9.9.9.9'' 5) [str_bytes ''MAIL FROM:<a@c>'', str_bytes ''RCPT TO:<u@b.org>'',
          str_bytes ''DATA'', [104, 105], [46]]
     = (sample_world\<lparr>gw_deliveries := [([104, 105, 13, 10], att)]\<rparr>, session_new ''9.9.9.9'' 5)" using sample_run by blast
  from mx_deliveries_justified [OF e] show ?thesis unfolding e by (auto simp: sample_world_def)
qed

lemma second_rcpt_replaces_first_witness:
  "ms_rcpt_to (snd (cmd_rcpt sample_gateway (snd (cmd_rcpt sample_gateway sample_session (''TO:'' @ ''<u@b.org>''))) (''TO:'' @ ''<v@b.org>'')))
   = Some ''v@b.org''"
  using second_rcpt_replaces_first [of sample_session sample_gateway "''<u@b.org>''" "''<v@b.org>''"] sample_rcpt
  by (simp add: sample_session_def trim_def trim_end_while_def trim_end_matches_def trim_start_matches_def is_whitespace_def)

theorem mx_session_wellformed_witness:
  "\<exists>w' s. foldl (mx_step (ref_kotva (RU64 0)) sample_crypto sample_lib sample_gateway)
        (sample_world, session_new ''9.9.9.9'' 5) [str_bytes ''MAIL FROM:<a@c>'', str_bytes ''RSET''] = (w', s)
     \<and> ms_peer_ip s = ''9.9.9.9'' \<and> length (ms_data s) \<le> 26214400"
proof -
  obtain w' s where e: "foldl (mx_step (ref_kotva (RU64 0)) sample_crypto sample_lib sample_gateway)
        (sample_world, session_new ''9.9.9.9'' 5) [str_bytes ''MAIL FROM:<a@c>'', str_bytes ''RSET''] = (w', s)"
    by (rule prod.exhaust)
  from mx_session_wellformed [OF e] show ?thesis
    using e by (simp add: sample_world_def sample_gateway_def inbound_new_def DEFAULT_MAX_MESSAGE_BYTES_def)
qed

end
