(* ===== verification/Gateway_OutboundGuard.thy ===== *)
theory Gateway_OutboundGuard
  imports Prelude
begin

text \<open>
  The outbound sender guard (\<open>crates/pier-gateway/src/outbound_guard.rs\<close>): per-account sliding
  windows for the send rate and the volume, and the exponential backoff after failed deliveries.
  The clock is a trait object of the code: each call takes the time it reads. Counters and times
  keep their widths; \<open>oldest + rate_window_ms\<close> is a plain addition, which wraps here as in a
  release build.
\<close>

section \<open>Definitions\<close>

datatype SenderVerdict = Allow | Throttle u64 string | Refuse string

definition is_allow :: "SenderVerdict \<Rightarrow> bool" where
  "is_allow v = (v = Allow)"

record SenderState =
  ss_rate_hits :: "u64 list"
  ss_volume_hits :: "u64 list"
  ss_strikes :: u32
  ss_backoff_until :: u64

definition sender_default :: SenderState where
  "sender_default = \<lparr> ss_rate_hits = [], ss_volume_hits = [], ss_strikes = 0, ss_backoff_until = 0 \<rparr>"

record OutboundSenderGuard =
  og_rate_limit :: u32
  og_rate_window_ms :: u64
  og_volume_cap :: u32
  og_volume_window_ms :: u64
  og_backoff_base_ms :: u64
  og_backoff_max_shift :: u32
  og_registered :: "string list option"
  og_state :: "(string \<times> SenderState) list"

definition guard_with_clock :: OutboundSenderGuard where
  "guard_with_clock =
     \<lparr> og_rate_limit = 20, og_rate_window_ms = 60000, og_volume_cap = 500, og_volume_window_ms = 24 * 3600000,
       og_backoff_base_ms = 300000, og_backoff_max_shift = 3, og_registered = None, og_state = [] \<rparr>"

definition with_rate_limit :: "OutboundSenderGuard \<Rightarrow> u32 \<Rightarrow> u64 \<Rightarrow> OutboundSenderGuard" where
  "with_rate_limit g mx window_ms = g\<lparr>og_rate_limit := mx, og_rate_window_ms := window_ms\<rparr>"

definition with_volume_cap :: "OutboundSenderGuard \<Rightarrow> u32 \<Rightarrow> u64 \<Rightarrow> OutboundSenderGuard" where
  "with_volume_cap g mx window_ms = g\<lparr>og_volume_cap := mx, og_volume_window_ms := window_ms\<rparr>"

definition with_backoff :: "OutboundSenderGuard \<Rightarrow> u64 \<Rightarrow> u32 \<Rightarrow> OutboundSenderGuard" where
  "with_backoff g base_ms max_shift = g\<lparr>og_backoff_base_ms := base_ms, og_backoff_max_shift := max_shift\<rparr>"

definition require_registered :: "OutboundSenderGuard \<Rightarrow> string list \<Rightarrow> OutboundSenderGuard" where
  "require_registered g accounts = g\<lparr>og_registered := Some accounts\<rparr>"

definition is_authenticated :: "OutboundSenderGuard \<Rightarrow> string \<Rightarrow> bool" where
  "is_authenticated g account =
     (if trim account = [] then False
      else (case og_registered g of Some accounts \<Rightarrow> account \<in> set accounts | None \<Rightarrow> False))"

definition sender_state :: "OutboundSenderGuard \<Rightarrow> string \<Rightarrow> SenderState" where
  "sender_state g account = al_get_or sender_default (og_state g) account"

definition put_state :: "OutboundSenderGuard \<Rightarrow> string \<Rightarrow> SenderState \<Rightarrow> OutboundSenderGuard" where
  "put_state g account st = g\<lparr>og_state := al_insert account st (og_state g)\<rparr>"

definition authorize_send :: "OutboundSenderGuard \<Rightarrow> string \<Rightarrow> u64 \<Rightarrow> SenderVerdict \<times> OutboundSenderGuard" where
  "authorize_send g account now =
     (if \<not> is_authenticated g account
      then (Refuse ''5.7.1 outbound relay denied: sender is not an authenticated account'', g)
      else
        (let st = sender_state g account in
         if now < ss_backoff_until st
         then (Throttle (ss_backoff_until st - now) ''4.7.1 sender in reputation backoff after prior delivery failures'',
               put_state g account st)
         else
           (let vstart = saturating_sub now (og_volume_window_ms g);
                st = st\<lparr>ss_volume_hits := filter (\<lambda>t. t \<ge> vstart) (ss_volume_hits st)\<rparr> in
            if (of_nat (length (ss_volume_hits st)) :: u32) \<ge> og_volume_cap g
            then (Refuse ''5.7.1 outbound volume cap reached for this sender; relay refused'', put_state g account st)
            else
              (let rstart = saturating_sub now (og_rate_window_ms g);
                   st = st\<lparr>ss_rate_hits := filter (\<lambda>t. t \<ge> rstart) (ss_rate_hits st)\<rparr> in
               if (of_nat (length (ss_rate_hits st)) :: u32) \<ge> og_rate_limit g
               then
                 (let retry_after = (case ss_rate_hits st of
                        oldest # _ \<Rightarrow> saturating_sub (oldest + og_rate_window_ms g) now
                      | [] \<Rightarrow> og_rate_window_ms g)
                  in (Throttle (max retry_after 1) ''4.7.1 per-sender outbound rate limit exceeded; slow down'',
                      put_state g account st))
               else
                 (let st = st\<lparr>ss_rate_hits := ss_rate_hits st @ [now], ss_volume_hits := ss_volume_hits st @ [now]\<rparr>
                  in (Allow, put_state g account st))))))"

text \<open>\<open>1u64.checked_shl(shift).unwrap_or(u64::MAX)\<close>.\<close>

definition shl_factor :: "u32 \<Rightarrow> u64" where
  "shl_factor shift = (if unat shift < 64 then push_bit (unat shift) 1 else - 1)"

definition report_outcome :: "OutboundSenderGuard \<Rightarrow> string \<Rightarrow> bool \<Rightarrow> u64 \<Rightarrow> OutboundSenderGuard" where
  "report_outcome g account delivered now =
     (let st = sender_state g account in
      if delivered then put_state g account (st\<lparr>ss_strikes := saturating_sub (ss_strikes st) 1\<rparr>)
      else
        (let strikes = saturating_add (ss_strikes st) 1;
             shift = min (strikes - 1) (og_backoff_max_shift g);
             factor = shl_factor shift;
             backoff = saturating_mul (og_backoff_base_ms g) factor
         in put_state g account
              (st\<lparr>ss_strikes := strikes, ss_backoff_until := saturating_add now backoff\<rparr>)))"

definition strikes :: "OutboundSenderGuard \<Rightarrow> string \<Rightarrow> u32" where
  "strikes g account = (case map_of (og_state g) account of Some s \<Rightarrow> ss_strikes s | None \<Rightarrow> 0)"

section \<open>Runs\<close>

text \<open>
  A run of the guard keeps the log of the sends it allowed: account and time, in order.
\<close>

datatype guard_cmd = Send string u64 | ReportOutcome string bool u64

fun cmd_time :: "guard_cmd \<Rightarrow> u64" where
  "cmd_time (Send _ t) = t"
| "cmd_time (ReportOutcome _ _ t) = t"

type_synonym guard_run = "OutboundSenderGuard \<times> (string \<times> u64) list"

fun guard_step :: "guard_run \<Rightarrow> guard_cmd \<Rightarrow> guard_run" where
  "guard_step (g, log) (Send a now) =
     (let (v, g') = authorize_send g a now in (g', if is_allow v then log @ [(a, now)] else log))"
| "guard_step (g, log) (ReportOutcome a ok now) = (report_outcome g a ok now, log)"

definition sent :: "string \<Rightarrow> (string \<times> u64) list \<Rightarrow> u64 list" where
  "sent a log = map snd (filter (\<lambda>(b, _). b = a) log)"

definition in_window :: "u64 \<Rightarrow> u64 \<Rightarrow> u64 list \<Rightarrow> nat" where
  "in_window window now ts = length (filter (\<lambda>t. t \<ge> saturating_sub now window) ts)"

text \<open>
  The invariant of a run whose times have reached \<open>T\<close>: the hits a state keeps are the logged sends
  from some cut-off on, and the cut-off is before every window that can still be asked about.
\<close>

definition tracks :: "u64 \<Rightarrow> u64 \<Rightarrow> u64 list \<Rightarrow> u64 list \<Rightarrow> bool" where
  "tracks T window hits ts \<longleftrightarrow> (\<exists>c. c \<le> saturating_sub T window \<and> hits = filter (\<lambda>t. t \<ge> c) ts)"

definition guard_inv :: "u64 \<Rightarrow> guard_run \<Rightarrow> bool" where
  "guard_inv T r \<longleftrightarrow>
     (let (g, log) = r in
      \<forall>a. tracks T (og_rate_window_ms g) (ss_rate_hits (sender_state g a)) (sent a log)
        \<and> tracks T (og_volume_window_ms g) (ss_volume_hits (sender_state g a)) (sent a log))"

lemma saturating_sub_mono: "a \<le> b \<Longrightarrow> saturating_sub a w \<le> saturating_sub b w" for a b w :: u64
  by (simp add: word_le_nat_alt unat_saturating_sub)

lemma tracks_mono: "tracks T w hits ts \<Longrightarrow> T \<le> T' \<Longrightarrow> tracks T' w hits ts"
  unfolding tracks_def using saturating_sub_mono [of T T' w] order_trans by blast

lemma tracks_filter:
  assumes "tracks T w hits ts" and "T \<le> now"
  shows "filter (\<lambda>t. t \<ge> saturating_sub now w) hits = filter (\<lambda>t. t \<ge> saturating_sub now w) ts"
    and "tracks now w (filter (\<lambda>t. t \<ge> saturating_sub now w) hits) ts"
    and "tracks now w (filter (\<lambda>t. t \<ge> saturating_sub now w) hits @ [now]) (ts @ [now])"
proof -
  obtain c where c: "c \<le> saturating_sub T w" "hits = filter (\<lambda>t. t \<ge> c) ts"
    using assms(1) by (auto simp: tracks_def)
  have le: "c \<le> saturating_sub now w" using c(1) saturating_sub_mono [OF assms(2)] order_trans by blast
  show eq: "filter (\<lambda>t. t \<ge> saturating_sub now w) hits = filter (\<lambda>t. t \<ge> saturating_sub now w) ts"
    using le unfolding c(2) by (auto intro!: filter_cong dest: order_trans)
  have "saturating_sub now w \<le> now" by (simp add: word_le_nat_alt unat_saturating_sub)
  then show "tracks now w (filter (\<lambda>t. t \<ge> saturating_sub now w) hits) ts"
    "tracks now w (filter (\<lambda>t. t \<ge> saturating_sub now w) hits @ [now]) (ts @ [now])"
    unfolding tracks_def by (intro exI [of _ "saturating_sub now w"]; simp add: eq)+
qed

lemma sender_state_put [simp]:
  "sender_state (put_state g a st) b = (if b = a then st else sender_state g b)"
  by (simp add: sender_state_def put_state_def)

lemma put_state_sel [simp]:
  "og_rate_window_ms (put_state g a st) = og_rate_window_ms g"
  "og_volume_window_ms (put_state g a st) = og_volume_window_ms g"
  "og_rate_limit (put_state g a st) = og_rate_limit g"
  "og_volume_cap (put_state g a st) = og_volume_cap g"
  "og_registered (put_state g a st) = og_registered g"
  by (simp_all add: put_state_def)

lemma sent_append [simp]: "sent a (log @ [(b, t)]) = (if b = a then sent a log @ [t] else sent a log)"
  by (simp add: sent_def)

text \<open>A send either leaves the log alone, or is allowed and leaves room in both windows.\<close>

lemma authorize_send_Allow:
  assumes "authorize_send g a now = (Allow, g')"
  shows "is_authenticated g a" and "ss_backoff_until (sender_state g a) \<le> now"
    and "(of_nat (in_window (og_volume_window_ms g) now (ss_volume_hits (sender_state g a))) :: u32) < og_volume_cap g"
    and "(of_nat (in_window (og_rate_window_ms g) now (ss_rate_hits (sender_state g a))) :: u32) < og_rate_limit g"
  using assms
  by (auto simp: authorize_send_def Let_def in_window_def not_le not_less split: if_splits)

lemma guard_inv_step:
  assumes inv: "guard_inv T (g, log)" and "T \<le> cmd_time c"
  shows "guard_inv (cmd_time c) (guard_step (g, log) c)"
proof (cases c)
  case (ReportOutcome a ok now)
  with assms show ?thesis
    by (auto simp: guard_inv_def report_outcome_def Let_def intro: tracks_mono)
next
  case (Send a now)
  have T: "T \<le> now" using assms(2) Send by simp
  have all: "tracks now (og_rate_window_ms g) (ss_rate_hits (sender_state g b)) (sent b log)"
    "tracks now (og_volume_window_ms g) (ss_volume_hits (sender_state g b)) (sent b log)" for b
    using inv T by (auto simp: guard_inv_def intro: tracks_mono)
  note filt = tracks_filter(2,3) [OF all(1) order_refl] tracks_filter(2,3) [OF all(2) order_refl]
  show ?thesis
    unfolding Send guard_step.simps authorize_send_def Let_def
    using all filt by (simp add: guard_inv_def is_allow_def)
qed

lemma guard_step_config:
  "fst (guard_step (g, log) c) = g' \<Longrightarrow> og_rate_window_ms g' = og_rate_window_ms g
     \<and> og_volume_window_ms g' = og_volume_window_ms g \<and> og_rate_limit g' = og_rate_limit g
     \<and> og_volume_cap g' = og_volume_cap g \<and> og_registered g' = og_registered g"
  by (cases c) (auto simp: authorize_send_def report_outcome_def Let_def case_prod_beta split: if_splits)

section \<open>The windows are bounded\<close>

definition guard_bounded :: "OutboundSenderGuard \<Rightarrow> bool" where
  "guard_bounded g \<longleftrightarrow>
     (\<forall>a. length (ss_rate_hits (sender_state g a)) \<le> unat (og_rate_limit g)
        \<and> length (ss_volume_hits (sender_state g a)) \<le> unat (og_volume_cap g))"

lemma of_nat_less_limit:
  fixes limit :: u32
  assumes "(of_nat n :: u32) < limit" and "n \<le> unat limit"
  shows "n < unat limit"
proof -
  have "n < 2 ^ 32" using assms(2) unat_lt_pow [of limit] by simp
  then have "unat (of_nat n :: u32) = n" by (simp add: unsigned_of_nat take_bit_nat_eq_self)
  with assms(1) show ?thesis by (simp add: word_less_nat_alt)
qed

lemma in_window_le_length: "in_window w now ts \<le> length ts"
  by (simp add: in_window_def)

lemma authorize_send_bounded:
  assumes b: "guard_bounded g" and s: "authorize_send g a now = (Allow, g')"
  shows "in_window (og_rate_window_ms g) now (ss_rate_hits (sender_state g a)) < unat (og_rate_limit g)"
    and "in_window (og_volume_window_ms g) now (ss_volume_hits (sender_state g a)) < unat (og_volume_cap g)"
  using of_nat_less_limit [OF authorize_send_Allow(4) [OF s]] of_nat_less_limit [OF authorize_send_Allow(3) [OF s]]
    in_window_le_length order_trans b unfolding guard_bounded_def by blast+

lemma guard_bounded_step: "guard_bounded g \<Longrightarrow> guard_bounded (fst (guard_step (g, log) c))"
proof (cases c)
  case (Send a now)
  assume b: "guard_bounded g"
  have shrink: "length (filter P (ss_rate_hits (sender_state g x))) \<le> unat (og_rate_limit g)"
    "length (filter P (ss_volume_hits (sender_state g x))) \<le> unat (og_volume_cap g)" for P x
    using b length_filter_le order_trans unfolding guard_bounded_def by blast+
  show ?thesis
  proof (cases "fst (authorize_send g a now) = Allow")
    case True
    then obtain g' where s: "authorize_send g a now = (Allow, g')" by (metis prod.collapse)
    have "og_rate_limit g' = og_rate_limit g" "og_volume_cap g' = og_volume_cap g"
      using guard_step_config [of g log c] Send s by simp_all
    with b s authorize_send_bounded [OF b s] show ?thesis
      unfolding Send guard_bounded_def
      by (auto simp: authorize_send_def Let_def in_window_def split: if_splits)
  next
    case False
    then show ?thesis using b shrink unfolding Send guard_bounded_def
      by (auto simp: authorize_send_def Let_def case_prod_beta split: if_splits)
  qed
next
  case (ReportOutcome a ok now)
  assume "guard_bounded g"
  then show ?thesis unfolding ReportOutcome guard_bounded_def
    by (auto simp: report_outcome_def Let_def)
qed

lemma guard_run_inv:
  assumes "guard_inv T (g, log)" "guard_bounded g" "sorted (map cmd_time cs)" "\<forall>c \<in> set cs. T \<le> cmd_time c"
    "\<forall>c \<in> set cs. cmd_time c \<le> T'" "T \<le> T'"
    "foldl guard_step (g, log) cs = (g', log')"
  shows "guard_inv T' (g', log') \<and> guard_bounded g' \<and> og_rate_window_ms g' = og_rate_window_ms g
     \<and> og_volume_window_ms g' = og_volume_window_ms g \<and> og_rate_limit g' = og_rate_limit g
     \<and> og_volume_cap g' = og_volume_cap g \<and> og_registered g' = og_registered g"
  using assms
proof (induction cs arbitrary: T g log)
  case Nil
  then show ?case by (auto simp: guard_inv_def intro: tracks_mono)
next
  case (Cons c cs)
  obtain g1 log1 where s: "guard_step (g, log) c = (g1, log1)" by fastforce
  have "guard_inv (cmd_time c) (g1, log1)" using guard_inv_step [of T g log c] Cons.prems s by simp
  moreover have "guard_bounded g1" using guard_bounded_step [OF Cons.prems(2), of log c] s by simp
  moreover note guard_step_config [of g log c g1]
  ultimately show ?case using Cons.IH [of "cmd_time c" g1 log1] Cons.prems s by simp
qed

section \<open>Properties\<close>

text \<open>
  The guard bounds what an account can send: from a guard that has seen no traffic, over any
  sequence of sends and delivery reports with a clock that does not go back, a send is allowed only
  to a registered account, and together with the sends of that account already allowed in the rate
  window before it there are at most \<open>rate_limit\<close> of them, and at most \<open>volume_cap\<close> in the volume
  window.
\<close>

lemma outbound_windows_bounded:
  assumes "og_state g = []" and "sorted (map cmd_time (cs @ [Send a now]))"
    and "foldl guard_step (g, []) cs = (g1, log)" and "authorize_send g1 a now = (Allow, g2)"
  shows "is_authenticated g a
     \<and> in_window (og_rate_window_ms g) now (sent a log @ [now]) \<le> unat (og_rate_limit g)
     \<and> in_window (og_volume_window_ms g) now (sent a log @ [now]) \<le> unat (og_volume_cap g)"
proof -
  have z: "sender_state g b = sender_default" for b using assms(1) by (simp add: sender_state_def)
  have "guard_inv 0 (g, [])" "guard_bounded g"
    by (auto simp: guard_inv_def guard_bounded_def z sender_default_def sent_def tracks_def)
  then have inv: "guard_inv now (g1, log)" "guard_bounded g1" "og_rate_window_ms g1 = og_rate_window_ms g"
    "og_volume_window_ms g1 = og_volume_window_ms g" "og_rate_limit g1 = og_rate_limit g"
    "og_volume_cap g1 = og_volume_cap g" "og_registered g1 = og_registered g"
    using guard_run_inv [of 0 g "[]" cs now g1 log] assms(2,3) by (auto simp: sorted_append)
  have tr: "tracks now (og_rate_window_ms g) (ss_rate_hits (sender_state g1 a)) (sent a log)"
    "tracks now (og_volume_window_ms g) (ss_volume_hits (sender_state g1 a)) (sent a log)"
    using inv(1,3,4) by (auto simp: guard_inv_def)
  have "saturating_sub now w \<le> now" for w by (simp add: word_le_nat_alt unat_saturating_sub)
  then show ?thesis
    using authorize_send_Allow(1) [OF assms(4)] authorize_send_bounded [OF inv(2) assms(4)] inv
      tracks_filter(1) [OF tr(1) order_refl] tracks_filter(1) [OF tr(2) order_refl]
    by (auto simp: in_window_def is_authenticated_def)
qed

definition sample_guard :: OutboundSenderGuard where
  "sample_guard = with_rate_limit (require_registered guard_with_clock [''alice'']) 2 1000"

lemma outbound_windows_bounded_witness:
  "in_window 1000 500 (sent ''alice'' (snd (foldl guard_step (sample_guard, []) [Send ''alice'' 100])) @ [500]) \<le> 2"
proof -
  let ?r = "foldl guard_step (sample_guard, []) [Send ''alice'' 100]"
  have "og_state sample_guard = []"
    by (simp add: sample_guard_def with_rate_limit_def require_registered_def guard_with_clock_def)
  moreover have "sorted (map cmd_time ([Send ''alice'' 100] @ [Send ''alice'' 500]))" by simp
  moreover have "?r = (fst ?r, snd ?r)" by simp
  moreover have "authorize_send (fst ?r) ''alice'' 500 = (Allow, snd (authorize_send (fst ?r) ''alice'' 500))"
    by (simp add: sample_guard_def with_rate_limit_def require_registered_def guard_with_clock_def authorize_send_def
        is_authenticated_def trim_def trim_end_while_def is_whitespace_def sender_state_def put_state_def
        al_get_or_def sender_default_def saturating_sub_def Let_def word_le_nat_alt)
  ultimately have "in_window (og_rate_window_ms sample_guard) 500 (sent ''alice'' (snd ?r) @ [500])
      \<le> unat (og_rate_limit sample_guard)"
    using outbound_windows_bounded by blast
  then show ?thesis by (simp add: sample_guard_def with_rate_limit_def)
qed

lemma unat_shl_factor: "unat (shl_factor s) = min (2 ^ unat s) (2 ^ 64 - 1)"
proof (cases "unat s < 64")
  case True
  then have "(2 :: nat) ^ unat s < 2 ^ 64" by (intro power_strict_increasing) simp_all
  moreover have "unat (push_bit (unat s) 1 :: u64) = 2 ^ unat s"
    using calculation True by (simp only: unsigned_push_bit_eq) (simp add: push_bit_eq_mult take_bit_nat_eq_self)
  ultimately show ?thesis using True by (simp add: shl_factor_def)
next
  case False
  then have "(2 :: nat) ^ 64 \<le> 2 ^ unat s" by (intro power_increasing) simp_all
  with False show ?thesis by (simp add: shl_factor_def unat_max)
qed

lemma sat_mul_sat: "min (b * min f m) m = min (b * f) m" for b f m :: nat
proof (cases "f \<le> m \<or> b = 0")
  case False
  then have "m \<le> b * m" "m \<le> b * f" using mult_le_mono [of 1 b m m] mult_le_mono [of 1 b m f] by auto
  with False show ?thesis by (simp add: min_absorb2)
qed auto

text \<open>
  Backoff grows exponentially, is capped and never overflows: a failed delivery adds a strike
  and blocks the account until the report time plus the base backoff doubled once per earlier
  strike, up to the configured number of doublings, with the arithmetic saturating at the 64-bit
  maximum; until then every send of the account is throttled with the time that is left.
\<close>

lemma backoff_exact:
  assumes "g' = report_outcome g a False now" and "is_authenticated g a"
  shows "unat (strikes g' a) = min (unat (strikes g a) + 1) (2 ^ 32 - 1)
     \<and> unat (ss_backoff_until (sender_state g' a)) =
         min (unat now + unat (og_backoff_base_ms g)
              * 2 ^ min (unat (strikes g' a) - 1) (unat (og_backoff_max_shift g))) (2 ^ 64 - 1)
     \<and> (\<forall>later. later < ss_backoff_until (sender_state g' a) \<longrightarrow>
          (\<exists>reason g2. authorize_send g' a later
             = (Throttle (ss_backoff_until (sender_state g' a) - later) reason, g2)))"
proof (intro conjI allI impI)
  let ?st = "sender_state g a"
  let ?n = "saturating_add (ss_strikes ?st) 1 :: u32"
  have str: "strikes h a = ss_strikes (sender_state h a)" for h
    by (cases "map_of (og_state h) a") (simp_all add: strikes_def sender_state_def al_get_or_def sender_default_def)
  have st: "ss_strikes (sender_state g' a) = ?n"
    "ss_backoff_until (sender_state g' a) = saturating_add now
       (saturating_mul (og_backoff_base_ms g) (shl_factor (min (?n - 1) (og_backoff_max_shift g))))"
    using assms(1) by (simp_all add: report_outcome_def Let_def)
  show n: "unat (strikes g' a) = min (unat (strikes g a) + 1) (2 ^ 32 - 1)"
    by (simp add: str st unat_saturating_add)
  have "?n \<noteq> 0"
  proof
    assume "?n = 0"
    then have "unat ?n = 0" by simp
    then show False by (simp add: unat_saturating_add)
  qed
  then have one: "unat (?n - 1) = unat ?n - 1" by (simp add: unat_minus_one)
  have shift: "unat (min (?n - 1) (og_backoff_max_shift g)) = min (unat ?n - 1) (unat (og_backoff_max_shift g))"
    by (simp add: min_def word_le_nat_alt one)
  have "min (x + min y m) m = min (x + y) m" for x y m :: nat by linarith
  then show "unat (ss_backoff_until (sender_state g' a)) =
         min (unat now + unat (og_backoff_base_ms g)
              * 2 ^ min (unat (strikes g' a) - 1) (unat (og_backoff_max_shift g))) (2 ^ 64 - 1)"
    by (simp add: st str unat_saturating_add unat_saturating_mul unat_shl_factor shift sat_mul_sat)
  fix later assume "later < ss_backoff_until (sender_state g' a)"
  moreover have "is_authenticated g' a"
    using assms by (auto simp: is_authenticated_def report_outcome_def Let_def split: if_splits)
  ultimately show "\<exists>reason g2. authorize_send g' a later
             = (Throttle (ss_backoff_until (sender_state g' a) - later) reason, g2)"
    by (simp add: authorize_send_def Let_def)
qed

lemma backoff_exact_witness:
  "unat (strikes (report_outcome sample_guard ''alice'' False 100) ''alice'') = 1"
proof -
  have "is_authenticated sample_guard ''alice''"
    by (simp add: sample_guard_def with_rate_limit_def require_registered_def is_authenticated_def trim_def
        trim_end_while_def is_whitespace_def)
  from backoff_exact [OF refl this, of 100] show ?thesis
    by (simp add: strikes_def sample_guard_def with_rate_limit_def require_registered_def guard_with_clock_def)
qed

end
