(* ===== verification/Gateway_Outbound.thy ===== *)
theory Gateway_Outbound
  imports Gateway_Inbound Gateway_Mx Gateway_OutboundGuard
begin

text \<open>
  The outbound pipeline (\<open>crates/pier-gateway/src/outbound.rs\<close>): rendering a payload as a message,
  signing it, choosing the host to dial under the TLS policy of the destination, and the governed
  entry point with its two authorizations. Encoders of header values and dates are functions of
  \<open>kotva-mail\<close>, the digest and the payload are of \<open>kotva-core\<close>, and the IDNA conversion is of the
  \<open>idna\<close> crate: they are the fields of \<open>MailText\<close>. The transport acts on a world \<open>'w\<close> it is given
  and returns. Where the code stores the text of an IDN error, the model stores the error.
\<close>

section \<open>Definitions\<close>

record Payload =
  pl_from :: bytes
  pl_subject :: "string option"
  pl_mime :: "string option"
  pl_body :: bytes

record MailText =
  mt_encode_display_name :: "string \<Rightarrow> string"
  mt_encode_header_value :: "string \<Rightarrow> string"
  mt_format_rfc5322_date :: "u64 \<Rightarrow> string"
  mt_digest :: "bytes \<Rightarrow> bytes"
  mt_idna :: "string \<Rightarrow> string + string"

type_synonym AddressClaimAuthz = "bytes \<Rightarrow> string \<Rightarrow> bool"

definition directory_may_claim :: "KeyDirectory \<Rightarrow> AddressClaimAuthz" where
  "directory_may_claim directory submitter_ik from_addr =
     (case directory from_addr of Some recipient \<Rightarrow> rk_ik recipient = submitter_ik | None \<Rightarrow> False)"

datatype TransportResult =
    TransportDelivered u16
  | TransportTransient u16 string
  | TransportPermanent u16 string
  | TlsUnavailable

type_synonym 'w OutboundTransport = "'w \<Rightarrow> string \<Rightarrow> bytes \<Rightarrow> bool \<Rightarrow> TransportResult \<times> 'w"

datatype OutboundError =
    NotDelegated string
  | BadFromAddress string
  | BadDestAddress string
  | TlsEnforcementFailed string
  | NoMxMatchesPolicy string "string list" "string list"
  | DestinationRejected u16 string
  | NoMxHost string
  | HeaderInjection string
  | IdnNotConvertible string IdnError

datatype OutboundReport = OutDelivered | OutDeferred u16 string | OutFailed OutboundError

datatype GovernedSend = OutSent OutboundReport | OutBlocked SenderVerdict

record ('sk, 'w) OutboundGateway =
  ob_dkim_keys :: "'sk DkimKey list"
  ob_tls_policy :: TlsPolicy
  ob_transport :: "'w OutboundTransport"
  ob_mx_resolver :: MxResolver
  ob_sender_guard :: "OutboundSenderGuard option"
  ob_address_authz :: "AddressClaimAuthz option"

definition outbound_new :: "'sk DkimKey list \<Rightarrow> TlsPolicy \<Rightarrow> 'w OutboundTransport \<Rightarrow> ('sk, 'w) OutboundGateway" where
  "outbound_new dkim_keys tls_policy transport =
     \<lparr> ob_dkim_keys = dkim_keys, ob_tls_policy = tls_policy, ob_transport = transport,
       ob_mx_resolver = in_memory_resolve_mx mx_new, ob_sender_guard = None, ob_address_authz = None \<rparr>"

definition with_sender_guard ::
  "('sk, 'w) OutboundGateway \<Rightarrow> OutboundSenderGuard \<Rightarrow> ('sk, 'w) OutboundGateway" where
  "with_sender_guard g guard' = g\<lparr>ob_sender_guard := Some guard'\<rparr>"

definition with_address_claim_authz ::
  "('sk, 'w) OutboundGateway \<Rightarrow> AddressClaimAuthz \<Rightarrow> ('sk, 'w) OutboundGateway" where
  "with_address_claim_authz g authz = g\<lparr>ob_address_authz := Some authz\<rparr>"

definition with_mx_resolver ::
  "('sk, 'w) OutboundGateway \<Rightarrow> MxResolver \<Rightarrow> ('sk, 'w) OutboundGateway" where
  "with_mx_resolver g r = g\<lparr>ob_mx_resolver := r\<rparr>"

definition dkim_key_for :: "('sk, 'w) OutboundGateway \<Rightarrow> string \<Rightarrow> 'sk DkimKey option" where
  "dkim_key_for g domain = find (\<lambda>k. eq_ignore_ascii_case (dk_domain k) domain) (ob_dkim_keys g)"

text \<open>Addresses: the bare address inside a header value, with its domain in A-labels.\<close>

definition addr_domain_of :: "string \<Rightarrow> string option" where
  "addr_domain_of addr =
     (let a = trim_end_matches CHR ''>'' (trim_start_matches CHR ''<'' (trim addr)) in
      case rsplit_once CHR ''@'' a of Some (_, d) \<Rightarrow> if d \<noteq> [] then Some d else None | None \<Rightarrow> None)"

definition wire_address :: "MailText \<Rightarrow> string \<Rightarrow> OutboundError + string option \<times> string" where
  "wire_address M addr =
     (let raw = trim addr;
          (name, spec) =
            (case (find_char CHR ''<'' raw, rfind_char CHR ''>'' raw) of
               (Some l, Some r) \<Rightarrow>
                 if l < r
                 then (let name = trim (trim_matches (\<lambda>c. c = CHR 0x22) (trim (take l raw)))
                       in (if name = [] then None else Some name, trim (take (r - (l + 1)) (drop (l + 1) raw))))
                 else (None, raw)
             | _ \<Rightarrow> (None, raw))
      in case rsplit_once CHR ''@'' spec of
           Some (local, domain) \<Rightarrow>
             if domain \<noteq> []
             then res_bind (map_err (IdnNotConvertible domain) (domain_to_ascii (mt_idna M) domain))
                    (\<lambda>asc. Inr (name, local @ ''@'' @ asc))
             else Inr (name, spec)
         | None \<Rightarrow> Inr (name, spec))"

definition wire_address_field :: "MailText \<Rightarrow> string \<Rightarrow> OutboundError + string" where
  "wire_address_field M addr =
     res_bind (wire_address M addr) (\<lambda>(name, spec).
       Inr (case name of Some n \<Rightarrow> mt_encode_display_name M n @ '' <'' @ spec @ ''>'' | None \<Rightarrow> spec))"

definition b64_id :: "MailText \<Rightarrow> bytes \<Rightarrow> string" where
  "b64_id M body =
     map (\<lambda>c. if c = CHR ''+'' \<or> c = CHR ''/'' \<or> c = CHR ''='' then CHR ''0'' else c) (b64_encode (take 12 (mt_digest M body)))"

definition no_inject :: "string \<Rightarrow> string \<Rightarrow> OutboundError + unit" where
  "no_inject field name =
     (if list_ex (\<lambda>b. b = 13 \<or> b = 10 \<or> b = 0) (str_bytes field) then Inl (HeaderInjection name) else Inr ())"

definition header_line :: "string \<Rightarrow> string \<Rightarrow> bytes" where
  "header_line name value = str_bytes (name @ '': '' @ value) @ CRLF"

definition render_rfc5322 ::
  "MailText \<Rightarrow> Payload \<Rightarrow> string \<Rightarrow> string \<Rightarrow> u64 \<Rightarrow> OutboundError + bytes" where
  "render_rfc5322 M payload from_addr to_addr ts =
     res_bind (no_inject from_addr ''From'') (\<lambda>_.
     res_bind (no_inject to_addr ''To'') (\<lambda>_.
     let subject = (case pl_subject payload of Some s \<Rightarrow> s | None \<Rightarrow> []) in
     res_bind (no_inject subject ''Subject'') (\<lambda>_.
     let mime = (case pl_mime payload of Some m \<Rightarrow> m | None \<Rightarrow> ''text/plain; charset=utf-8'') in
     res_bind (no_inject mime ''Content-Type'') (\<lambda>_.
     res_bind (wire_address_field M from_addr) (\<lambda>from_field.
     res_bind (wire_address_field M to_addr) (\<lambda>to_field.
     let subject = mt_encode_header_value M subject;
         date = mt_format_rfc5322_date M ts in
     res_bind (wire_address M from_addr) (\<lambda>(_, from_spec).
     let mid = ''<'' @ b64_id M (pl_body payload) @ ''@''
               @ (case addr_domain_of from_spec of Some d \<Rightarrow> d | None \<Rightarrow> ''dmtap.local'') @ ''>''
     in Inr (header_line ''From'' from_field @ header_line ''To'' to_field @ header_line ''Date'' date
             @ header_line ''Subject'' subject @ header_line ''Message-ID'' mid @ header_line ''MIME-Version'' ''1.0''
             @ header_line ''Content-Type'' mime @ header_line ''Content-Transfer-Encoding'' ''8bit'' @ CRLF
             @ pl_body payload @ (if pl_body payload \<noteq> [] \<and> last (pl_body payload) = 10 then [] else CRLF)))))))))"

definition translate_and_sign ::
  "'sk DkimCrypto \<Rightarrow> MailText \<Rightarrow> ('sk, 'w) OutboundGateway \<Rightarrow> Payload \<Rightarrow> string \<Rightarrow> string \<Rightarrow> u64
     \<Rightarrow> OutboundError + bytes" where
  "translate_and_sign C M g payload from_addr to_addr now =
     res_bind (wire_address M from_addr) (\<lambda>(_, from_spec).
     res_bind (ok_or (BadFromAddress from_addr) (addr_domain_of from_spec)) (\<lambda>from_domain.
     res_bind (ok_or (NotDelegated from_domain) (dkim_key_for g from_domain)) (\<lambda>key.
     res_bind (render_rfc5322 M payload from_addr to_addr now) (\<lambda>message.
       Inr (str_bytes (dkim_sign C key message (now div 1000)) @ message)))))"

definition transport_report :: "string \<Rightarrow> TransportResult \<Rightarrow> OutboundReport" where
  "transport_report dest_domain r =
     (case r of
        TransportDelivered _ \<Rightarrow> OutDelivered
      | TransportTransient code text \<Rightarrow> OutDeferred code text
      | TransportPermanent code text \<Rightarrow> OutFailed (DestinationRejected code text)
      | TlsUnavailable \<Rightarrow> OutFailed (TlsEnforcementFailed dest_domain))"

text \<open>
  The policy is asked twice in a send, first whether TLS is required and then which hosts are allowed:
  these are its moments 0 and 1. The MX records are resolved once.
\<close>

definition eligible_hosts :: "('sk, 'w) OutboundGateway \<Rightarrow> string \<Rightarrow> MxHost list" where
  "eligible_hosts g dest_domain =
     (let allowed_patterns = allowed_mx_patterns (ob_tls_policy g) 1 dest_domain;
          candidates = ob_mx_resolver g dest_domain
      in if allowed_patterns = [] then candidates
         else filter (\<lambda>h. any_pattern_matches allowed_patterns (mh_host h)) candidates)"

definition outbound_send ::
  "'sk DkimCrypto \<Rightarrow> MailText \<Rightarrow> ('sk, 'w) OutboundGateway \<Rightarrow> 'w \<Rightarrow> Payload \<Rightarrow> string \<Rightarrow> string \<Rightarrow> u64
     \<Rightarrow> OutboundReport \<times> 'w" where
  "outbound_send C M g w payload from_addr to_addr now =
     (case translate_and_sign C M g payload from_addr to_addr now of
        Inl e \<Rightarrow> (OutFailed e, w)
      | Inr message \<Rightarrow>
          (case addr_domain_of to_addr of
             None \<Rightarrow> (OutFailed (BadDestAddress to_addr), w)
           | Some dest \<Rightarrow>
               (case domain_to_ascii (mt_idna M) dest of
                  Inl e \<Rightarrow> (OutFailed (IdnNotConvertible dest e), w)
                | Inr dest_domain \<Rightarrow>
                    (let require_tls = (requirement_for (ob_tls_policy g) 0 dest_domain = Required);
                         allowed_patterns = allowed_mx_patterns (ob_tls_policy g) 1 dest_domain
                     in case eligible_hosts g dest_domain of
                          h # _ \<Rightarrow>
                            (let (r, w) = ob_transport g w (mh_host h) message require_tls
                             in (transport_report dest_domain r, w))
                        | [] \<Rightarrow>
                            if allowed_patterns \<noteq> []
                            then (OutFailed (NoMxMatchesPolicy dest_domain allowed_patterns
                                    (map mh_host (ob_mx_resolver g dest_domain))), w)
                            else (OutFailed (NoMxHost dest_domain), w)))))"

text \<open>
  The governed entry point. The guard is behind a lock and is updated in place; it reads its own
  clock, at \<open>t1\<close> for the authorization and at \<open>t2\<close> for the report.
\<close>

definition unauthorized_text :: "string \<Rightarrow> string" where
  "unauthorized_text from_addr =
     ''5.7.1 outbound relay denied: sender is not authorized to claim the address '' @ from_addr
     @ '' (ERR_GATEWAY_SENDER_ADDRESS_UNAUTHORIZED, '' @ [CHR 0xC2, CHR 0xA7] @ ''7.11.2 step 2)''"

definition send_authenticated ::
  "'sk DkimCrypto \<Rightarrow> MailText \<Rightarrow> ('sk, 'w) OutboundGateway \<Rightarrow> 'w \<Rightarrow> Payload \<Rightarrow> string \<Rightarrow> string \<Rightarrow> string \<Rightarrow> u64
     \<Rightarrow> u64 \<Rightarrow> u64 \<Rightarrow> GovernedSend \<times> ('sk, 'w) OutboundGateway \<times> 'w" where
  "send_authenticated C M g w payload from_addr to_addr account now t1 t2 =
     (case ob_sender_guard g of
        None \<Rightarrow> (OutBlocked (Refuse ''5.7.1 outbound relay denied: no sender guard configured (fail-closed)''), g, w)
      | Some guard' \<Rightarrow>
          (let (verdict, guard') = authorize_send guard' account t1;
               g = g\<lparr>ob_sender_guard := Some guard'\<rparr> in
           if verdict \<noteq> Allow then (OutBlocked verdict, g, w)
           else
             (case ob_address_authz g of
                None \<Rightarrow>
                  (OutBlocked (Refuse (''5.7.1 outbound relay denied: no address-claim authorizer configured (fail-closed, ''
                     @ [CHR 0xC2, CHR 0xA7] @ ''7.11.2 step 2)'')), g, w)
              | Some may_claim \<Rightarrow>
                  if \<not> may_claim (pl_from payload) from_addr
                  then (OutBlocked (Refuse (unauthorized_text from_addr)), g, w)
                  else
                    (let (report, w) = outbound_send C M g w payload from_addr to_addr now;
                         delivered = (report = OutDelivered);
                         bad = (case report of OutFailed _ \<Rightarrow> True | _ \<Rightarrow> False);
                         g = (if bad \<or> delivered
                              then g\<lparr>ob_sender_guard := Some (report_outcome guard' account delivered t2)\<rparr>
                              else g)
                     in (OutSent report, g, w)))))"

section \<open>What is dialed\<close>

lemma outbound_send_cases [consumes 1, case_names kept dialed]:
  assumes "outbound_send C M g w payload from_addr to_addr now = (report, w')"
  obtains (kept) e where "w' = w" "report = OutFailed e"
  | (dialed) message dest dest_domain h hs r where
      "translate_and_sign C M g payload from_addr to_addr now = Inr message"
      "addr_domain_of to_addr = Some dest" "domain_to_ascii (mt_idna M) dest = Inr dest_domain"
      "eligible_hosts g dest_domain = h # hs"
      "ob_transport g w (mh_host h) message (requirement_for (ob_tls_policy g) 0 dest_domain = Required) = (r, w')"
      "report = transport_report dest_domain r"
proof (cases "translate_and_sign C M g payload from_addr to_addr now")
  case (Inl e)
  then show ?thesis using assms kept by (auto simp: outbound_send_def)
next
  case (Inr message)
  note m = this
  show ?thesis
  proof (cases "addr_domain_of to_addr")
    case None
    then show ?thesis using assms kept m by (auto simp: outbound_send_def)
  next
    case (Some dest)
    note d = this
    show ?thesis
    proof (cases "domain_to_ascii (mt_idna M) dest")
      case (Inl e)
      then show ?thesis using assms kept m d by (auto simp: outbound_send_def)
    next
      case (Inr dest_domain)
      note a = this
      show ?thesis
      proof (cases "eligible_hosts g dest_domain")
        case Nil
        then show ?thesis using assms kept m d a by (auto simp: outbound_send_def Let_def split: if_splits)
      next
        case (Cons h hs)
        then show ?thesis using assms m d a by (auto simp: outbound_send_def Let_def split: prod.splits intro!: dialed)
      qed
    qed
  qed
qed

text \<open>
  What a lookup found: an enforced policy, or none that constrains the delivery. A host is allowed by
  what was found when no enforced policy was, or one of the patterns of the enforced policy matches.
\<close>

definition sts_enforced :: "StsPolicy option \<Rightarrow> bool" where
  "sts_enforced p \<longleftrightarrow> (case p of Some p \<Rightarrow> sp_mode p = Enforce | None \<Rightarrow> False)"

definition sts_allows_host :: "StsPolicy option \<Rightarrow> string \<Rightarrow> bool" where
  "sts_allows_host p host \<longleftrightarrow>
     (case p of Some p \<Rightarrow> sp_mode p = Enforce \<longrightarrow> any_pattern_matches (sp_mx_patterns p) host | None \<Rightarrow> True)"

lemma sts_policy_answers:
  "requirement_for (MtaStsTlsPolicy txt fetcher) i d = Required \<longleftrightarrow> sts_enforced (sts_resolve (txt i) (fetcher i) d)"
  "(allowed_mx_patterns (MtaStsTlsPolicy txt fetcher) i d \<noteq> [] \<longrightarrow>
      any_pattern_matches (allowed_mx_patterns (MtaStsTlsPolicy txt fetcher) i d) host)
   \<longleftrightarrow> sts_allows_host (sts_resolve (txt i) (fetcher i) d) host"
  by (auto simp: MtaStsTlsPolicy_def sts_enforced_def sts_allows_host_def dest: sts_resolve_patterns split: option.splits)

lemma eligible_dns_mx:
  assumes "ob_mx_resolver g = dns_resolve_mx c" "eligible_hosts g d = h # hs"
  shows "h \<in> set (dns_resolve_mx c d)
    \<and> (allowed_mx_patterns (ob_tls_policy g) 1 d \<noteq> [] \<longrightarrow> any_pattern_matches (allowed_mx_patterns (ob_tls_policy g) 1 d) (mh_host h))
    \<and> (\<forall>h' \<in> set (eligible_hosts g d). mh_preference h \<le> mh_preference h')"
proof (cases "allowed_mx_patterns (ob_tls_policy g) 1 d = []")
  case True
  then have e: "eligible_hosts g d = filter (\<lambda>_. True) (dns_resolve_mx c d)"
    using assms(1) by (simp add: eligible_hosts_def Let_def)
  from dns_mx.first_eligible_is_best [OF e [symmetric, unfolded assms(2)]] True show ?thesis
    by (simp add: e)
next
  case False
  let ?P = "\<lambda>h. any_pattern_matches (allowed_mx_patterns (ob_tls_policy g) 1 d) (mh_host h)"
  from False have e: "eligible_hosts g d = filter ?P (dns_resolve_mx c d)"
    using assms(1) by (simp add: eligible_hosts_def Let_def)
  from dns_mx.first_eligible_is_best [OF e [symmetric, unfolded assms(2)]] False show ?thesis
    by (simp add: e)
qed

text \<open>
  (C14) A gateway that resolves hosts by DNS and policies by MTA-STS: when a send does anything at all, it
  hands one signed message to the transport, for a host the destination's MX records name, and no
  eligible host had a lower preference value. The policy is looked up twice, and the two lookups may
  find different things: TLS is required exactly when the first lookup found an enforced policy, and
  the host is one allowed by what the second lookup found. So when both lookups find the same enforced
  policy, the message goes only to a host that policy names, and only over TLS.
\<close>

theorem send_respects_mta_sts:
  assumes "ob_mx_resolver g = dns_resolve_mx c" "ob_tls_policy g = MtaStsTlsPolicy txt fetcher"
    and "outbound_send C M g w payload from_addr to_addr now = (report, w')"
  shows "(w' = w \<and> (\<exists>e. report = OutFailed e))
    \<or> (\<exists>message dest dest_domain h r.
         translate_and_sign C M g payload from_addr to_addr now = Inr message
       \<and> addr_domain_of to_addr = Some dest \<and> domain_to_ascii (mt_idna M) dest = Inr dest_domain
       \<and> h \<in> set (dns_resolve_mx c dest_domain)
       \<and> sts_allows_host (sts_resolve (txt 1) (fetcher 1) dest_domain) (mh_host h)
       \<and> (\<forall>h' \<in> set (dns_resolve_mx c dest_domain).
            sts_allows_host (sts_resolve (txt 1) (fetcher 1) dest_domain) (mh_host h') \<longrightarrow> mh_preference h \<le> mh_preference h')
       \<and> ob_transport g w (mh_host h) message (sts_enforced (sts_resolve (txt 0) (fetcher 0) dest_domain)) = (r, w')
       \<and> report = transport_report dest_domain r)"
  using assms(3)
proof (cases rule: outbound_send_cases)
  case (kept e)
  then show ?thesis by blast
next
  case (dialed message dest dest_domain h hs r)
  note best = eligible_dns_mx [OF assms(1) dialed(4)]
  have allows: "sts_allows_host (sts_resolve (txt 1) (fetcher 1) dest_domain) (mh_host h)"
    using best sts_policy_answers(2) [of "txt" fetcher "1" dest_domain "mh_host h"] by (simp add: assms(2) del: One_nat_def)
  have "h' \<in> set (eligible_hosts g dest_domain)"
    if "h' \<in> set (dns_resolve_mx c dest_domain)" "sts_allows_host (sts_resolve (txt 1) (fetcher 1) dest_domain) (mh_host h')" for h'
    using that sts_policy_answers(2) [of "txt" fetcher "1" dest_domain "mh_host h'"]
    by (auto simp: eligible_hosts_def assms(1,2) Let_def simp del: One_nat_def)
  with best have lowest: "\<forall>h' \<in> set (dns_resolve_mx c dest_domain).
      sts_allows_host (sts_resolve (txt 1) (fetcher 1) dest_domain) (mh_host h') \<longrightarrow> mh_preference h \<le> mh_preference h'"
    by blast
  have "(requirement_for (ob_tls_policy g) 0 dest_domain = Required) = sts_enforced (sts_resolve (txt 0) (fetcher 0) dest_domain)"
    by (simp only: assms(2) sts_policy_answers(1))
  note tr = dialed(5) [unfolded this]
  show ?thesis
    by (rule disjI2, rule exI [of _ message], rule exI [of _ dest], rule exI [of _ dest_domain], rule exI [of _ h], rule exI [of _ r])
       (intro conjI dialed(1-3,6) tr allows lowest, simp add: best)
qed

text \<open>
  One lookup that fails is enough to lose the protection of an enforced policy. When the second lookup
  finds nothing, the first of the MX hosts is dialed whatever the policy says of it; when the first
  finds nothing, the message may go in the clear.
\<close>

lemma failed_lookup_drops_policy:
  assumes "ob_tls_policy g = MtaStsTlsPolicy txt fetcher" "translate_and_sign C M g payload from_addr to_addr now = Inr message"
    and "addr_domain_of to_addr = Some dest" "domain_to_ascii (mt_idna M) dest = Inr dest_domain"
    and "ob_mx_resolver g dest_domain = h # hs"
  shows "sts_resolve (txt 1) (fetcher 1) dest_domain = None \<Longrightarrow>
      snd (outbound_send C M g w payload from_addr to_addr now)
      = snd (ob_transport g w (mh_host h) message (sts_enforced (sts_resolve (txt 0) (fetcher 0) dest_domain)))"
    and "sts_resolve (txt 0) (fetcher 0) dest_domain = None \<Longrightarrow> sts_resolve (txt 1) (fetcher 1) dest_domain = Some p \<Longrightarrow>
      any_pattern_matches (sp_mx_patterns p) (mh_host h) \<Longrightarrow>
      snd (outbound_send C M g w payload from_addr to_addr now) = snd (ob_transport g w (mh_host h) message False)"
proof -
  have req: "(requirement_for (ob_tls_policy g) 0 dest_domain = Required) = sts_enforced (sts_resolve (txt 0) (fetcher 0) dest_domain)"
    by (simp only: assms(1) sts_policy_answers(1))
  have pat: "allowed_mx_patterns (ob_tls_policy g) 1 dest_domain
      = (case sts_resolve (txt 1) (fetcher 1) dest_domain of Some p \<Rightarrow> if sp_mode p = Enforce then sp_mx_patterns p else [] | None \<Rightarrow> [])"
    by (simp add: assms(1) MtaStsTlsPolicy_def)
  have send: "snd (outbound_send C M g w payload from_addr to_addr now)
      = snd (ob_transport g w (mh_host h) message (sts_enforced (sts_resolve (txt 0) (fetcher 0) dest_domain)))"
    if "eligible_hosts g dest_domain = h # hs'" for hs'
    using that assms(2-4) by (simp add: outbound_send_def req Let_def split: prod.split)
  show "snd (outbound_send C M g w payload from_addr to_addr now)
      = snd (ob_transport g w (mh_host h) message (sts_enforced (sts_resolve (txt 0) (fetcher 0) dest_domain)))"
    if "sts_resolve (txt 1) (fetcher 1) dest_domain = None"
    by (rule send [of hs]) (simp only: eligible_hosts_def pat that assms(5) Let_def option.case if_True refl)
  show "snd (outbound_send C M g w payload from_addr to_addr now) = snd (ob_transport g w (mh_host h) message False)"
    if "sts_resolve (txt 0) (fetcher 0) dest_domain = None" "sts_resolve (txt 1) (fetcher 1) dest_domain = Some p"
      "any_pattern_matches (sp_mx_patterns p) (mh_host h)"
  proof -
    have "eligible_hosts g dest_domain
        = h # (if sp_mode p = Enforce \<and> sp_mx_patterns p \<noteq> [] then filter (\<lambda>h. any_pattern_matches (sp_mx_patterns p) (mh_host h)) hs else hs)"
      unfolding eligible_hosts_def pat that(2) assms(5) by (simp add: that(3))
    from send [OF this] show ?thesis by (simp add: that(1) sts_enforced_def)
  qed
qed

section \<open>Who may send\<close>

text \<open>
  (C23) The governed entry point fails closed: without a guard, without an authorizer, without the guard's
  permission or without the right to the address nothing is rendered or dialed, the world is
  untouched and the refusal is reported; with all of them the message is sent, and the guard learns
  of a delivery or a failure but not of a deferral.
\<close>

theorem send_authenticated_fail_closed:
  assumes "send_authenticated C M g w payload from_addr to_addr account now t1 t2 = (res, g', w')"
  shows "(\<exists>guard' guard'' may_claim report. ob_sender_guard g = Some guard'
            \<and> authorize_send guard' account t1 = (Allow, guard'')
            \<and> ob_address_authz g = Some may_claim \<and> may_claim (pl_from payload) from_addr
            \<and> res = OutSent report
            \<and> outbound_send C M (g\<lparr>ob_sender_guard := Some guard''\<rparr>) w payload from_addr to_addr now = (report, w')
            \<and> ob_sender_guard g' = Some (case report of
                  OutDelivered \<Rightarrow> report_outcome guard'' account True t2
                | OutFailed _ \<Rightarrow> report_outcome guard'' account False t2
                | OutDeferred _ _ \<Rightarrow> guard''))
    \<or> (w' = w \<and> (\<exists>v. v \<noteq> Allow \<and> res = OutBlocked v)
        \<and> (ob_sender_guard g = None \<or> ob_address_authz g = None
           \<or> (\<exists>guard'. ob_sender_guard g = Some guard' \<and> fst (authorize_send guard' account t1) \<noteq> Allow)
           \<or> (\<exists>may_claim. ob_address_authz g = Some may_claim \<and> \<not> may_claim (pl_from payload) from_addr)))"
proof (cases "ob_sender_guard g")
  case None
  then show ?thesis using assms by (auto simp: send_authenticated_def)
next
  case (Some guard')
  obtain v guard'' where v: "authorize_send guard' account t1 = (v, guard'')" by (cases "authorize_send guard' account t1")
  show ?thesis
  proof (cases "v = Allow \<and> (\<exists>may_claim. ob_address_authz g = Some may_claim \<and> may_claim (pl_from payload) from_addr)")
    case True
    then obtain may_claim where mc: "v = Allow" "ob_address_authz g = Some may_claim" "may_claim (pl_from payload) from_addr"
      by blast
    obtain report w1 where s: "outbound_send C M (g\<lparr>ob_sender_guard := Some guard''\<rparr>) w payload from_addr to_addr now
        = (report, w1)" by (rule prod.exhaust)
    have "res = OutSent report" "w' = w1" "ob_sender_guard g' = Some (case report of
        OutDelivered \<Rightarrow> report_outcome guard'' account True t2 | OutFailed _ \<Rightarrow> report_outcome guard'' account False t2
      | OutDeferred _ _ \<Rightarrow> guard'')"
      using assms Some v mc s by (auto simp: send_authenticated_def Let_def split: OutboundReport.splits)
    with Some v mc s show ?thesis by blast
  next
    case False
    then show ?thesis using assms Some v
      by (auto simp: send_authenticated_def Let_def split: if_splits option.splits prod.splits)
  qed
qed

section \<open>A concrete gateway\<close>

definition sample_text :: MailText where
  "sample_text = \<lparr> mt_encode_display_name = (\<lambda>s. s), mt_encode_header_value = (\<lambda>s. s), mt_format_rfc5322_date = (\<lambda>_. ''today''),
     mt_digest = (\<lambda>b. replicate 32 0), mt_idna = (\<lambda>d. if CHR 0x0D \<in> set d then Inl ''bad'' else Inr d) \<rparr>"

definition sample_payload :: Payload where
  "sample_payload = \<lparr> pl_from = [1], pl_subject = Some ''hello'', pl_mime = None, pl_body = [104, 105] \<rparr>"

definition sample_outbound :: "(unit, (string \<times> bytes \<times> bool) list) OutboundGateway" where
  "sample_outbound = outbound_new [sample_dkim_key] AlwaysRequireTls (\<lambda>w h m t. (TransportDelivered 250, w @ [(h, m, t)]))"

lemma sample_domain_ascii:
  "domain_to_ascii (mt_idna sample_text) ''b.org'' = Inr ''b.org''" "domain_to_ascii (mt_idna sample_text) ''c.net'' = Inr ''c.net''"
  by (simp_all add: domain_to_ascii_def sample_text_def strip_suffix_def strip_prefix_def starts_with_def)

lemma sample_wire:
  "wire_address sample_text ''a@b.org'' = Inr (None, ''a@b.org'')"
  "wire_address sample_text ''Zed <z@c.net>'' = Inr (Some ''Zed'', ''z@c.net'')"
  by (simp_all add: wire_address_def sample_domain_ascii trim_def trim_end_while_def is_whitespace_def rsplit_once_def
      rfind_char_def trim_matches_def)

lemma sample_addr_domain: "addr_domain_of ''a@b.org'' = Some ''b.org''" "addr_domain_of ''Zed <z@c.net>'' = Some ''c.net''"
  by (simp_all add: addr_domain_of_def trim_def trim_end_while_def is_whitespace_def rsplit_once_def
      trim_end_matches_def trim_start_matches_def)

lemma sample_renders: "\<exists>m. render_rfc5322 sample_text sample_payload ''a@b.org'' ''Zed <z@c.net>'' ts = Inr m"
  by (simp add: render_rfc5322_def no_inject_def sample_payload_def wire_address_field_def sample_wire)

lemma sample_translates: "\<exists>m. translate_and_sign sample_crypto sample_text sample_outbound sample_payload ''a@b.org'' ''Zed <z@c.net>'' ts = Inr m"
proof -
  have "dkim_key_for sample_outbound ''b.org'' = Some sample_dkim_key"
    by (simp add: dkim_key_for_def sample_outbound_def outbound_new_def sample_dkim_key_def eq_ignore_ascii_case_def)
  with sample_renders [of ts] show ?thesis by (auto simp: translate_and_sign_def sample_wire sample_addr_domain)
qed

definition sample_policy :: string where
  "sample_policy = ''version: STSv1'' @ [CHR 0x0A] @ ''mode: enforce'' @ [CHR 0x0A] @ ''mx: c.net'' @ [CHR 0x0A]"

definition sample_fetcher :: PolicyFetcher where
  "sample_fetcher = in_memory_fetcher (with_policy [] ''c.net'' sample_policy)"

definition sample_txt :: TxtResolver where
  "sample_txt = in_memory_txt (sts_with_txt [] ''_mta-sts.c.net'' [''v=STSv1; id=1''])"

definition sample_sts_gateway :: "(unit, (string \<times> bytes \<times> bool) list) OutboundGateway" where
  "sample_sts_gateway = with_mx_resolver
     (outbound_new [sample_dkim_key] (MtaStsTlsPolicy (\<lambda>_. sample_txt) (\<lambda>_. sample_fetcher)) (\<lambda>w h m t. (TransportDelivered 250, w @ [(h, m, t)])))
     (dns_resolve_mx \<lparr> uc_idna = Inr, uc_random_txn_id = Inr 1, uc_exchange = (\<lambda>_. Inl ()) \<rparr>)"

lemma sample_policy_parses:
  "parse_policy sample_policy = Inr \<lparr> sp_mode = Enforce, sp_mx_patterns = [''c.net''], sp_max_age = 86400 \<rparr>"
  by (simp add: parse_policy_def sample_policy_def starts_with_def trim_def trim_end_while_def is_whitespace_def sts_field_def
      parse_mode_value_def Let_def)

lemma sample_sts_resolves:
  "sts_resolve sample_txt sample_fetcher ''c.net'' = Some \<lparr> sp_mode = Enforce, sp_mx_patterns = [''c.net''], sp_max_age = 86400 \<rparr>"
  by (simp add: sts_resolve_def sample_txt_def sample_fetcher_def in_memory_txt_def sts_with_txt_def in_memory_fetcher_def
      with_policy_def sample_policy_parses al_get_or_def starts_with_def trim_start_def is_whitespace_def)

lemma sample_sts_sends:
  assumes "translate_and_sign sample_crypto sample_text sample_sts_gateway sample_payload ''a@b.org'' ''Zed <z@c.net>'' 5 = Inr m"
  shows "outbound_send sample_crypto sample_text sample_sts_gateway [] sample_payload ''a@b.org'' ''Zed <z@c.net>'' 5
    = (OutDelivered, [(''c.net'', m, True)])"
proof -
  have "dns_resolve_mx \<lparr> uc_idna = Inr, uc_random_txn_id = Inr 1, uc_exchange = (\<lambda>_. Inl ()) \<rparr> ''c.net''
      = [\<lparr> mh_host = ''c.net'', mh_preference = 0 \<rparr>]"
    using sample_domain_ascii(2)
    by (simp add: dns_resolve_mx_def query_raw_def domain_to_ascii_def strip_suffix_def strip_prefix_def starts_with_def)
  then have "eligible_hosts sample_sts_gateway ''c.net'' = [\<lparr> mh_host = ''c.net'', mh_preference = 0 \<rparr>]"
    by (simp add: eligible_hosts_def sample_sts_gateway_def with_mx_resolver_def outbound_new_def MtaStsTlsPolicy_def
        sample_sts_resolves any_pattern_matches_def mx_pattern_matches_def strip_prefix_def starts_with_def trim_def
        trim_end_while_def trim_end_matches_def is_whitespace_def eq_ignore_ascii_case_def)
  then show ?thesis
    by (simp add: outbound_send_def assms sample_addr_domain sample_domain_ascii)
       (simp add: sample_sts_gateway_def with_mx_resolver_def outbound_new_def MtaStsTlsPolicy_def sample_sts_resolves
         transport_report_def)
qed

theorem send_respects_mta_sts_witness:
  "\<exists>message h. h \<in> set (ob_mx_resolver sample_sts_gateway ''c.net'')
     \<and> sts_enforced (sts_resolve sample_txt sample_fetcher ''c.net'')
     \<and> sts_allows_host (sts_resolve sample_txt sample_fetcher ''c.net'') (mh_host h)
     \<and> snd (outbound_send sample_crypto sample_text sample_sts_gateway [] sample_payload ''a@b.org'' ''Zed <z@c.net>'' 5)
       = [(mh_host h, message, True)]"
proof -
  have "translate_and_sign sample_crypto sample_text sample_sts_gateway sample_payload ''a@b.org'' ''Zed <z@c.net>'' 5
      = translate_and_sign sample_crypto sample_text sample_outbound sample_payload ''a@b.org'' ''Zed <z@c.net>'' 5"
    by (simp add: translate_and_sign_def dkim_key_for_def sample_sts_gateway_def sample_outbound_def with_mx_resolver_def outbound_new_def)
  then obtain m where m: "translate_and_sign sample_crypto sample_text sample_sts_gateway sample_payload ''a@b.org'' ''Zed <z@c.net>'' 5 = Inr m"
    using sample_translates by metis
  note s = sample_sts_sends [OF m]
  have g: "ob_mx_resolver sample_sts_gateway = dns_resolve_mx \<lparr> uc_idna = Inr, uc_random_txn_id = Inr 1, uc_exchange = (\<lambda>_. Inl ()) \<rparr>"
    "ob_tls_policy sample_sts_gateway = MtaStsTlsPolicy (\<lambda>_. sample_txt) (\<lambda>_. sample_fetcher)"
    "ob_transport sample_sts_gateway w h b t = (TransportDelivered 250, w @ [(h, b, t)])" for w h b t
    by (simp_all add: sample_sts_gateway_def with_mx_resolver_def outbound_new_def)
  have en: "sts_enforced (sts_resolve sample_txt sample_fetcher ''c.net'')" by (simp add: sample_sts_resolves sts_enforced_def)
  from send_respects_mta_sts [OF g(1,2) s] en show ?thesis
    by (auto simp: s g sample_addr_domain sample_domain_ascii)
qed

theorem send_authenticated_fail_closed_witness:
  "\<exists>g'. send_authenticated sample_crypto sample_text sample_outbound [] sample_payload ''a@b.org'' ''Zed <z@c.net>'' ''alice'' 5 6 7
     = (OutBlocked (Refuse ''5.7.1 outbound relay denied: no sender guard configured (fail-closed)''), g', [])"
proof -
  obtain res g' w' where e: "send_authenticated sample_crypto sample_text sample_outbound [] sample_payload ''a@b.org''
      ''Zed <z@c.net>'' ''alice'' 5 6 7 = (res, g', w')" by (metis prod.exhaust)
  have "ob_sender_guard sample_outbound = None" by (simp add: sample_outbound_def outbound_new_def)
  with send_authenticated_fail_closed [OF e] e show ?thesis by (auto simp: send_authenticated_def)
qed

end
