(* ===== verification/Gateway_Net.thy ===== *)
theory Gateway_Net
  imports Rust_Text
begin

text \<open>
  Socket helpers of the gateway (\<open>crates/pier-gateway/src/net.rs\<close>): reading a line one byte at a
  time, reading an SMTP reply, writing, and the limiter of concurrent connections. A reader is the
  list of what its calls of \<open>read\<close> still return; the end of the list is the end of the stream.
  Slicing a string inside a character panics in Rust and is the error \<open>SlicePanic\<close> here. The
  limiter's compare-and-swap loop is a step relation in which the threads interleave.
\<close>

section \<open>Lines\<close>

datatype 'e ReadEvent = Byte u8 | Interrupted | ReadFailed 'e

datatype 'e IoError =
    PeerClosedMidLine
  | LineTooLong
  | NoReply
  | ShortReply
  | BadCode
  | TimedOut
  | AlreadyTls
  | SlicePanic
  | IoFailed 'e

definition MAX_SMTP_LINE :: nat where
  "MAX_SMTP_LINE = 64 * 1024"

definition pop_cr :: "bytes \<Rightarrow> bytes" where
  "pop_cr buf = (if buf \<noteq> [] \<and> last buf = 13 then butlast buf else buf)"

fun read_line_loop :: "bytes \<Rightarrow> 'e ReadEvent list \<Rightarrow> ('e IoError + bytes option) \<times> 'e ReadEvent list" where
  "read_line_loop buf [] = ((if buf = [] then Inr None else Inl PeerClosedMidLine), [])"
| "read_line_loop buf (Byte b # r) =
     (if b = 10 then (Inr (Some (pop_cr buf)), r)
      else let buf = buf @ [b] in
           if MAX_SMTP_LINE < length buf then (Inl LineTooLong, r) else read_line_loop buf r)"
| "read_line_loop buf (Interrupted # r) = read_line_loop buf r"
| "read_line_loop buf (ReadFailed e # r) = (Inl (IoFailed e), r)"

definition read_line :: "'e ReadEvent list \<Rightarrow> ('e IoError + bytes option) \<times> 'e ReadEvent list" where
  "read_line r = read_line_loop [] r"

definition read_line_str :: "'e ReadEvent list \<Rightarrow> ('e IoError + string option) \<times> 'e ReadEvent list" where
  "read_line_str r = (let (l, r) = read_line r in (res_bind l (\<lambda>b. Inr (map_option lossy b)), r))"

lemma read_line_loop_shorter:
  "read_line_loop buf r = (Inr (Some l), r') \<Longrightarrow> length r' < length r"
  by (induction buf r rule: read_line_loop.induct) (auto simp: Let_def split: if_splits)

lemma read_line_str_shorter: "read_line_str r = (Inr (Some l), r') \<Longrightarrow> length r' < length r"
  by (cases "read_line_loop [] r", cases "fst (read_line_loop [] r)")
     (auto simp: read_line_str_def read_line_def dest: read_line_loop_shorter)

section \<open>Replies\<close>

text \<open>\<open>&line[..3]\<close> panics unless the index is the end or the start of a character.\<close>

definition is_char_boundary :: "string \<Rightarrow> nat \<Rightarrow> bool" where
  "is_char_boundary s i = (i = 0 \<or> i = length s \<or> (i < length s \<and> \<not> is_cont (of_char (s ! i))))"

definition reply_code :: "string \<Rightarrow> 'e IoError + u16" where
  "reply_code line =
     (if length line < 3 then Inl ShortReply
      else if \<not> is_char_boundary line 3 then Inl SlicePanic
      else ok_or BadCode (map_option of_nat (parse_unsigned 65535 (take 3 line))))"

definition reply_more :: "string \<Rightarrow> bool" where
  "reply_more line = (get_at line 3 = Some CHR ''-'')"

definition reply_text :: "string \<Rightarrow> string" where
  "reply_text line = (if 4 \<le> length line \<and> is_char_boundary line 4 then trim (drop 4 line) else [])"

function read_reply_loop :: "string \<Rightarrow> 'e ReadEvent list \<Rightarrow> ('e IoError + u16 \<times> string) \<times> 'e ReadEvent list" where
  "read_reply_loop text r =
     (case read_line_str r of
        (Inl e, r') \<Rightarrow> (Inl e, r')
      | (Inr None, r') \<Rightarrow> (Inl NoReply, r')
      | (Inr (Some line), r') \<Rightarrow>
          (case reply_code line of
             Inl e \<Rightarrow> (Inl e, r')
           | Inr code \<Rightarrow>
               (let text = (if text \<noteq> [] then text @ '' '' else text) @ reply_text line in
                if reply_more line then read_reply_loop text r' else (Inr (code, text), r'))))"
  by pat_completeness auto
termination
  by (relation "measure (\<lambda>(text, r). length r)") (auto dest: read_line_str_shorter [OF sym])

definition read_reply :: "'e ReadEvent list \<Rightarrow> ('e IoError + u16 \<times> string) \<times> 'e ReadEvent list" where
  "read_reply r = read_reply_loop [] r"

declare read_reply_loop.simps [simp del]

section \<open>Lines and replies read\<close>

lemma read_line_loop_bytes:
  assumes "10 \<notin> set l" "length buf + length l \<le> MAX_SMTP_LINE"
  shows "read_line_loop buf (map Byte l @ Byte 10 # r) = (Inr (Some (pop_cr (buf @ l))), r)"
  using assms by (induction l arbitrary: buf) (auto simp: Let_def)

text \<open>A line that ends with CRLF and fits the limit is read whole, and nothing after it.\<close>

lemma read_line_crlf:
  assumes "10 \<notin> set l" "length l < MAX_SMTP_LINE"
  shows "read_line (map Byte (l @ [13, 10]) @ r) = (Inr (Some l), r)"
  using read_line_loop_bytes [of "l @ [13]" "[]" r] assms by (simp add: read_line_def pop_cr_def)

lemma read_line_str_crlf:
  assumes "10 \<notin> set l" "length l < MAX_SMTP_LINE"
  shows "read_line_str (map Byte (l @ [13, 10]) @ r) = (Inr (Some (lossy l)), r)"
  by (simp only: read_line_str_def read_line_crlf [OF assms] prod.case res_bind_simps option.map Let_def)

text \<open>
  A server's reply line whose third octet starts a two-octet character makes the client panic: the
  code is taken as the first three octets of the text without checking that the text can be cut there.
\<close>

lemma reply_split_character_panics:
  assumes "a < 0x80" "b < 0x80" "a \<noteq> 10" "b \<noteq> 10"
  shows "read_reply (map Byte [a, b, 0xC3, 0xA9, 13, 10] @ r) = (Inl SlicePanic, r)"
proof -
  have "read_line_str (map Byte ([a, b, 0xC3, 0xA9] @ [13, 10]) @ r) = (Inr (Some (lossy [a, b, 0xC3, 0xA9])), r)"
    using assms by (intro read_line_str_crlf) (auto simp: MAX_SMTP_LINE_def)
  moreover have "from_utf8_lossy [a, b, 0xC3, 0xA9] = [a, b, 0xC3, 0xA9]"
    using assms by (simp add: utf8_step_def conts_def is_cont_def word_le_nat_alt)
  then have "lossy [a, b, 0xC3, 0xA9] = map (\<lambda>x. char_of (unat x)) [a, b, 0xC3, 0xA9]"
    by (simp add: lossy_def bytes_str_def)
  ultimately show ?thesis
    by (simp add: read_reply_def read_reply_loop.simps reply_code_def is_char_boundary_def is_cont_def word_le_nat_alt)
qed

lemma reply_split_character_panics_witness:
  "read_reply (map Byte [50, 50, 0xC3, 0xA9, 13, 10] @ ([] :: unit ReadEvent list)) = (Inl SlicePanic, [])"
  by (rule reply_split_character_panics) simp_all

section \<open>The connection limiter\<close>

record ConnLimiter =
  cl_active :: nat
  cl_max :: nat

definition limiter_new :: "nat \<Rightarrow> ConnLimiter" where
  "limiter_new mx = \<lparr> cl_active = 0, cl_max = mx \<rparr>"

text \<open>
  A thread is idle, has loaded the counter in \<open>try_acquire\<close>, or holds a guard. One step of one
  thread is one atomic access: the load (which also returns \<open>None\<close> at the limit), a
  compare-exchange that succeeds or fails, the decrement when the guard is dropped.
\<close>

datatype thread = Idle | Loaded nat | Holding

inductive limiter_step :: "ConnLimiter \<times> thread list \<Rightarrow> ConnLimiter \<times> thread list \<Rightarrow> bool" where
  load: "i < length ts \<Longrightarrow> ts ! i = Idle \<Longrightarrow> cl_active l < cl_max l \<Longrightarrow>
    limiter_step (l, ts) (l, ts[i := Loaded (cl_active l)])"
| full: "i < length ts \<Longrightarrow> ts ! i = Idle \<Longrightarrow> cl_max l \<le> cl_active l \<Longrightarrow> limiter_step (l, ts) (l, ts)"
| cas_ok: "i < length ts \<Longrightarrow> ts ! i = Loaded cur \<Longrightarrow> cl_active l = cur \<Longrightarrow>
    limiter_step (l, ts) (l\<lparr>cl_active := cur + 1\<rparr>, ts[i := Holding])"
| cas_retry: "i < length ts \<Longrightarrow> ts ! i = Loaded cur \<Longrightarrow> cl_active l \<noteq> cur \<Longrightarrow>
    limiter_step (l, ts) (l, ts[i := Idle])"
| drop_guard: "i < length ts \<Longrightarrow> ts ! i = Holding \<Longrightarrow>
    limiter_step (l, ts) (l\<lparr>cl_active := cl_active l - 1\<rparr>, ts[i := Idle])"

inductive_cases limiter_stepE: "limiter_step (l, ts) s'"

text \<open>One attempt without interference, as \<open>try_acquire\<close> runs alone.\<close>

definition try_acquire :: "ConnLimiter \<Rightarrow> bool \<times> ConnLimiter" where
  "try_acquire l =
     (if cl_max l \<le> cl_active l then (False, l) else (True, l\<lparr>cl_active := cl_active l + 1\<rparr>))"

definition release :: "ConnLimiter \<Rightarrow> ConnLimiter" where
  "release l = l\<lparr>cl_active := cl_active l - 1\<rparr>"

definition holding :: "thread list \<Rightarrow> nat" where
  "holding ts = length (filter (\<lambda>t. t = Holding) ts)"

text \<open>The counter counts the guards, and every loaded value was below the limit.\<close>

definition limiter_inv :: "ConnLimiter \<times> thread list \<Rightarrow> bool" where
  "limiter_inv s = (case s of (l, ts) \<Rightarrow>
     cl_active l = holding ts \<and> cl_active l \<le> cl_max l
     \<and> (\<forall>i < length ts. \<forall>c. ts ! i = Loaded c \<longrightarrow> c < cl_max l))"

lemma holding_update:
  "i < length ts \<Longrightarrow>
   holding (ts[i := t]) + (if ts ! i = Holding then 1 else 0) = holding ts + (if t = Holding then 1 else 0)"
proof (induction ts arbitrary: i)
  case Nil
  then show ?case by simp
next
  case (Cons x ts)
  show ?case
  proof (cases i)
    case 0
    then show ?thesis by (simp add: holding_def)
  next
    case (Suc j)
    with Cons.prems Cons.IH [of j] show ?thesis by (auto simp: holding_def)
  qed
qed

lemma limiter_step_inv: "limiter_step s s' \<Longrightarrow> limiter_inv s \<Longrightarrow> limiter_inv s'"
proof (induction rule: limiter_step.induct)
  case (load i ts l)
  then show ?case using holding_update [of i ts "Loaded (cl_active l)"]
    by (auto simp: limiter_inv_def nth_list_update)
next
  case (cas_ok i ts cur l)
  then show ?case using holding_update [of i ts Holding]
    by (auto simp: limiter_inv_def nth_list_update Suc_le_eq)
next
  case (cas_retry i ts cur l)
  then show ?case using holding_update [of i ts Idle] by (auto simp: limiter_inv_def nth_list_update)
next
  case (drop_guard i ts l)
  then show ?case using holding_update [of i ts Idle] by (auto simp: limiter_inv_def nth_list_update)
qed simp

text \<open>
  (C34) However the threads interleave their loads, compare-exchanges and drops, at most the
  configured number of connections hold a guard at a time, and the counter is exactly that number.
\<close>

theorem limiter_bounds_connections:
  assumes "rtranclp limiter_step (limiter_new mx, replicate n Idle) (l, ts)"
  shows "holding ts \<le> mx \<and> cl_active l = holding ts"
proof -
  have "limiter_inv (l, ts) \<and> cl_max l = mx"
    using assms
  proof (induction "(l, ts)" arbitrary: l ts rule: rtranclp_induct)
    case base
    then show ?case by (auto simp: limiter_inv_def limiter_new_def holding_def)
  next
    case (step y)
    obtain l0 ts0 where y: "y = (l0, ts0)" by (cases y)
    have "limiter_inv y" "cl_max l0 = mx" using step(3) [OF y] y by auto
    moreover have "cl_max l = cl_max l0" using step(2) unfolding y by (auto elim!: limiter_stepE)
    ultimately show ?case using limiter_step_inv [OF step(2)] by simp
  qed
  then show ?thesis by (auto simp: limiter_inv_def)
qed

theorem limiter_bounds_connections_witness:
  "holding [Holding, Idle] \<le> 1 \<and> cl_active \<lparr> cl_active = 1, cl_max = 1 \<rparr> = holding [Holding, Idle]"
proof (rule limiter_bounds_connections)
  have "limiter_step (limiter_new 1, replicate 2 Idle) (limiter_new 1, [Loaded 0, Idle])"
    using limiter_step.load [of 0 "[Idle, Idle]" "limiter_new 1"] by (simp add: limiter_new_def numeral_2_eq_2)
  moreover have "limiter_step (limiter_new 1, [Loaded 0, Idle]) (\<lparr> cl_active = 1, cl_max = 1 \<rparr>, [Holding, Idle])"
    using limiter_step.cas_ok [of 0 "[Loaded 0, Idle]" 0 "limiter_new 1"] by (simp add: limiter_new_def)
  ultimately show "rtranclp limiter_step (limiter_new 1, replicate 2 Idle) (\<lparr> cl_active = 1, cl_max = 1 \<rparr>, [Holding, Idle])"
    by (metis r_into_rtranclp rtranclp_trans)
qed

end
