(* ===== verification/Gateway_InboundTcp.thy ===== *)
theory Gateway_InboundTcp
  imports Gateway_Inbound Gateway_Net
begin

text \<open>
  The connection driver of the inbound MX (\<open>handle_connection\<close> of
  \<open>crates/pier-gateway/src/inbound_tcp.rs\<close>): it reads lines from the socket, answers the commands
  of the transport itself, and feeds the rest to the session. The TLS handshake is a parameter that
  turns what is left to read into what is read over TLS; the deadline is a predicate on the number of
  lines read. What is written is kept as the list of replies.
\<close>

section \<open>Definitions\<close>

record ('ab, 'env, 'cid) TcpState =
  tc_world :: "('ab, 'env, 'cid) GatewayWorld"
  tc_session :: MxSession
  tc_in_data :: bool
  tc_secured :: bool
  tc_out :: "string list"

datatype TcpNext = Continue | Upgrade | Quit

definition emit :: "('ab, 'env, 'cid) TcpState \<Rightarrow> string list \<Rightarrow> ('ab, 'env, 'cid) TcpState" where
  "emit st ls = st\<lparr>tc_out := tc_out st @ ls\<rparr>"

definition tcp_verb :: "string \<Rightarrow> string" where
  "tcp_verb line = to_ascii_uppercase (hd (split_on CHR '' '' line))"

definition session_reply ::
  "('ab, 'env, 'cid) TcpState \<Rightarrow> SmtpReply \<times> ('ab, 'env, 'cid) GatewayWorld \<times> MxSession
     \<Rightarrow> SmtpReply \<times> ('ab, 'env, 'cid) TcpState" where
  "session_reply st rws = (case rws of (r, w, s) \<Rightarrow> (r, st\<lparr>tc_world := w, tc_session := s\<rparr>))"

definition tcp_line ::
  "('cv, 'f, 'ce, 'ik, 'ie) kotva \<Rightarrow> 'sk DkimCrypto \<Rightarrow> ('ik, 'draft, 'env, 'cid, 'addr) MailLib
     \<Rightarrow> ('ik, 'ab, 'env, 'cid) InboundGateway \<Rightarrow> bool \<Rightarrow> string \<Rightarrow> u64 \<Rightarrow> ('ab, 'env, 'cid) TcpState \<Rightarrow> bytes
     \<Rightarrow> TcpNext \<times> ('ab, 'env, 'cid) TcpState" where
  "tcp_line K C L g tls peer_ip now st raw =
     (if tc_in_data st then
        (let (r, st) = session_reply st (feed_line_bytes K C L g (tc_world st) (tc_session st) raw) in
         if sr_code r \<noteq> 0 then (Continue, (emit st [reply_wire r])\<lparr>tc_in_data := False\<rparr>) else (Continue, st))
      else
        (let line = lossy raw; verb = tcp_verb line in
         if verb = ''EHLO'' \<or> verb = ''HELO'' then
           (if tls \<and> \<not> tc_secured st
            then (Continue, emit st [''250-pier-gateway at your service'' @ [CHR 0x0D, CHR 0x0A],
                                     ''250 STARTTLS'' @ [CHR 0x0D, CHR 0x0A]])
            else (Continue, emit st [''250 pier-gateway at your service'' @ [CHR 0x0D, CHR 0x0A]]))
         else if verb = ''STARTTLS'' then
           (if tls \<and> \<not> tc_secured st
            then (Upgrade, (emit st [reply_wire (reply 220 ''2.0.0 ready to start TLS'')])
                             \<lparr>tc_secured := True, tc_session := session_new peer_ip now\<rparr>)
            else if tls then (Continue, emit st [reply_wire (reply 503 ''5.5.1 already secured'')])
            else (Continue, emit st [reply_wire (reply 502 ''5.5.1 STARTTLS not available'')]))
         else if verb = ''QUIT'' then
           (let (r, st) = session_reply st (feed_line K C L g (tc_world st) (tc_session st) ''QUIT'')
            in (Quit, emit st [reply_wire r]))
         else if verb = ''DATA'' then
           (let (r, st) = session_reply st (feed_line K C L g (tc_world st) (tc_session st) ''DATA'');
                st = emit st [reply_wire r]
            in (Continue, if sr_code r = 354 then st\<lparr>tc_in_data := True\<rparr> else st))
         else
           (let (r, st) = session_reply st (feed_line K C L g (tc_world st) (tc_session st) line)
            in (Continue, emit st [reply_wire r]))))"

text \<open>
  The loop of the connection. Each line uses up what is left to read, and the stream is replaced only
  by the one upgrade.
\<close>

lemma tcp_line_secured:
  "tcp_line K C L g tls peer now st raw = (Upgrade, st') \<Longrightarrow> \<not> tc_secured st \<and> tc_secured st'"
  "tcp_line K C L g tls peer now st raw = (Continue, st') \<Longrightarrow> tc_secured st' = tc_secured st"
  by (auto simp: tcp_line_def session_reply_def emit_def Let_def split: if_splits prod.splits)

lemma read_line_shorter: "read_line r = (Inr (Some l), r') \<Longrightarrow> length r' < length r"
  unfolding read_line_def by (rule read_line_loop_shorter)

function handle_loop ::
  "('cv, 'f, 'ce, 'ik, 'ie) kotva \<Rightarrow> 'sk DkimCrypto \<Rightarrow> ('ik, 'draft, 'env, 'cid, 'addr) MailLib
     \<Rightarrow> ('ik, 'ab, 'env, 'cid) InboundGateway \<Rightarrow> bool \<Rightarrow> string \<Rightarrow> u64
     \<Rightarrow> ('e ReadEvent list \<Rightarrow> 'e IoError + 'e ReadEvent list) \<Rightarrow> (nat \<Rightarrow> bool)
     \<Rightarrow> nat \<Rightarrow> ('ab, 'env, 'cid) TcpState \<Rightarrow> 'e ReadEvent list
     \<Rightarrow> ('e IoError + unit) \<times> ('ab, 'env, 'cid) TcpState" where
  "handle_loop K C L g tls peer now handshake late n st evs =
     (case read_line evs of
        (Inl e, _) \<Rightarrow> (Inl e, st)
      | (Inr None, _) \<Rightarrow> (Inr (), st)
      | (Inr (Some line), rest) \<Rightarrow>
          if late n
          then (Inl TimedOut, emit st [reply_wire (reply 421 ''4.4.2 transaction timed out, closing connection'')])
          else
            (case tcp_line K C L g tls peer now st line of
               (Quit, st') \<Rightarrow> (Inr (), st')
             | (Continue, st') \<Rightarrow> handle_loop K C L g tls peer now handshake late (n + 1) st' rest
             | (Upgrade, st') \<Rightarrow>
                 (case handshake rest of
                    Inl e \<Rightarrow> (Inl e, st')
                  | Inr evs' \<Rightarrow> handle_loop K C L g tls peer now handshake late (n + 1) st' evs')))"
  by pat_completeness auto
termination
proof (relation "measures [\<lambda>(K, C, L, g, tls, peer, now, handshake, late, n, st, evs). if tc_secured st then 0 else 1,
                           \<lambda>(K, C, L, g, tls, peer, now, handshake, late, n, st, evs). length evs]", goal_cases)
qed (auto dest: read_line_shorter [OF sym] tcp_line_secured [OF sym])

declare handle_loop.simps [simp del]

definition handle_connection ::
  "('cv, 'f, 'ce, 'ik, 'ie) kotva \<Rightarrow> 'sk DkimCrypto \<Rightarrow> ('ik, 'draft, 'env, 'cid, 'addr) MailLib
     \<Rightarrow> ('ik, 'ab, 'env, 'cid) InboundGateway \<Rightarrow> bool \<Rightarrow> string \<Rightarrow> u64
     \<Rightarrow> ('e ReadEvent list \<Rightarrow> 'e IoError + 'e ReadEvent list) \<Rightarrow> (nat \<Rightarrow> bool)
     \<Rightarrow> ('ab, 'env, 'cid) GatewayWorld \<Rightarrow> 'e ReadEvent list
     \<Rightarrow> ('e IoError + unit) \<times> ('ab, 'env, 'cid) TcpState" where
  "handle_connection K C L g tls peer_ip now handshake late w evs =
     handle_loop K C L g tls peer_ip now handshake late 0
       \<lparr> tc_world = w, tc_session = session_new peer_ip now, tc_in_data = False, tc_secured = False,
         tc_out = [reply_wire greeting] \<rparr> evs"

section \<open>Invariants of connections\<close>

text \<open>What every line and every reply keeps, a whole connection keeps.\<close>

lemma handle_loop_inv:
  "(\<And>st raw. P st \<Longrightarrow> P (snd (tcp_line K C L g tls peer now st raw))) \<Longrightarrow>
   (\<And>st ls. P st \<Longrightarrow> P (emit st ls)) \<Longrightarrow> P st \<Longrightarrow>
   P (snd (handle_loop K C L g tls peer now handshake late n st evs))"
proof (induction K C L g tls peer now handshake late n st evs rule: handle_loop.induct)
  case (1 K C L g tls peer now handshake late n st evs)
  obtain res rest where r: "read_line evs = (res, rest)" by (cases "read_line evs")
  show ?case
  proof (cases "\<exists>line. res = Inr (Some line) \<and> \<not> late n")
    case False
    then show ?thesis using r "1.prems"
      by (subst handle_loop.simps) (auto split: sum.splits option.splits)
  next
    case True
    then obtain line where line: "res = Inr (Some line)" "\<not> late n" by blast
    obtain nxt st' where t: "tcp_line K C L g tls peer now st line = (nxt, st')"
      by (cases "tcp_line K C L g tls peer now st line")
    have P': "P st'" using "1.prems"(1) [OF "1.prems"(3), of line] t by simp
    note IH = "1.IH" [OF r [symmetric] line(1) refl line(2) t [symmetric]]
    show ?thesis
    proof (cases nxt)
      case Continue
      with IH(1) [OF Continue "1.prems"(1,2) P'] show ?thesis
        by (subst handle_loop.simps) (simp add: r line t)
    next
      case Quit
      with P' show ?thesis by (subst handle_loop.simps) (simp add: r line t)
    next
      case Upgrade
      show ?thesis
      proof (cases "handshake rest")
        case (Inl e)
        with P' Upgrade show ?thesis by (subst handle_loop.simps) (simp add: r line t)
      next
        case (Inr evs')
        with IH(2) [OF Upgrade Inr "1.prems"(1,2) P'] Upgrade show ?thesis
          by (subst handle_loop.simps) (simp add: r line t)
      qed
    qed
  qed
qed

section \<open>A connection is a run of the session, or of two\<close>

text \<open>
  \<open>reads evs cs rest\<close>: reading the lines \<open>cs\<close> one after the other from the events \<open>evs\<close> leaves \<open>rest\<close>.
  \<open>fed cs fs\<close>: the driver that read the lines \<open>cs\<close> hands \<open>fs\<close> to the session. Only EHLO, HELO and
  STARTTLS stay with the driver; a line of a message goes through as it was read, any other line as
  its text, and DATA and QUIT as the bare word.
\<close>

inductive reads :: "'e ReadEvent list \<Rightarrow> bytes list \<Rightarrow> 'e ReadEvent list \<Rightarrow> bool" where
  reads_none: "reads evs [] evs"
| reads_line: "read_line evs = (Inr (Some l), evs') \<Longrightarrow> reads evs' cs rest \<Longrightarrow> reads evs (l # cs) rest"

definition kept_by_driver :: "bytes \<Rightarrow> bool" where
  "kept_by_driver raw \<longleftrightarrow> tcp_verb (lossy raw) \<in> {''EHLO'', ''HELO'', ''STARTTLS''}"

definition fed_as :: "bytes \<Rightarrow> bytes \<Rightarrow> bool" where
  "fed_as raw f \<longleftrightarrow>
     f = raw \<or> (tcp_verb (lossy raw) \<in> {''DATA'', ''QUIT''} \<and> f = str_bytes (tcp_verb (lossy raw)))
   \<or> (\<not> kept_by_driver raw \<and> f = str_bytes (lossy raw))"

inductive fed :: "bytes list \<Rightarrow> bytes list \<Rightarrow> bool" where
  fed_none: "fed [] []"
| fed_kept: "kept_by_driver raw \<Longrightarrow> fed cs fs \<Longrightarrow> fed (raw # cs) fs"
| fed_line: "fed_as raw f \<Longrightarrow> fed cs fs \<Longrightarrow> fed (raw # cs) (f # fs)"

text \<open>
  The lines of a connection: \<open>ps\<close> those fed to the session in the clear, \<open>ss\<close> those fed after an upgrade.
  An upgrade needs a STARTTLS line and a handshake over what is left to read after it; \<open>ss\<close> comes
  only from what the handshake turned that into, and a failed handshake leaves nothing.
\<close>

definition tcp_history ::
  "bool \<Rightarrow> ('e ReadEvent list \<Rightarrow> 'e IoError + 'e ReadEvent list) \<Rightarrow> 'e ReadEvent list \<Rightarrow> bool \<Rightarrow> bytes list \<Rightarrow> bytes list \<Rightarrow> bool" where
  "tcp_history tls handshake evs secured ps ss \<longleftrightarrow>
     (\<exists>cs rest. fed cs ps
      \<and> (if \<not> secured then reads evs cs rest \<and> ss = []
         else tls \<and> (\<exists>stl. reads evs (cs @ [stl]) rest \<and> tcp_verb (lossy stl) = ''STARTTLS''
                \<and> (case handshake rest of
                     Inl _ \<Rightarrow> ss = []
                   | Inr evs' \<Rightarrow> (\<exists>cs' rest'. reads evs' cs' rest' \<and> fed cs' ss)))))"

lemma feed_line_step: "snd (feed_line K C L g w s l) = mx_step K C L g (w, s) (str_bytes l)"
  by (simp add: mx_step_def feed_line_def)

lemma tcp_line_run:
  assumes "tcp_line K C L g tls peer now st raw = (nxt, st')" "nxt \<noteq> Upgrade"
  obtains (kept) "kept_by_driver raw" "tc_world st' = tc_world st" "tc_session st' = tc_session st" "tc_secured st' = tc_secured st"
  | (fed) f where "fed_as raw f" "(tc_world st', tc_session st') = mx_step K C L g (tc_world st, tc_session st) f"
      "tc_secured st' = tc_secured st"
proof -
  have step: "(w, s) = mx_step K C L g (tc_world st, tc_session st) (str_bytes l)"
    if "feed_line K C L g (tc_world st) (tc_session st) l = (r, w, s)" for l r w s
    using feed_line_step [of K C L g "tc_world st" "tc_session st" l] that by simp
  have raw: "(w, s) = mx_step K C L g (tc_world st, tc_session st) raw"
    if "feed_line_bytes K C L g (tc_world st) (tc_session st) raw = (r, w, s)" for r w s
    using that by (simp add: mx_step_def)
  show ?thesis
  proof (cases "tc_in_data st")
    case True
    obtain r w s where f: "feed_line_bytes K C L g (tc_world st) (tc_session st) raw = (r, w, s)"
      by (cases "feed_line_bytes K C L g (tc_world st) (tc_session st) raw") auto
    then have "tc_world st' = w \<and> tc_session st' = s \<and> tc_secured st' = tc_secured st"
      using assms(1) True by (auto simp: tcp_line_def session_reply_def emit_def split: if_splits)
    then show ?thesis using raw [OF f] fed [of raw] by (simp add: fed_as_def)
  next
    case False
    show ?thesis
    proof (cases "kept_by_driver raw")
      case True
      then show ?thesis using assms False kept
        by (auto simp: tcp_line_def kept_by_driver_def emit_def Let_def split: if_splits)
    next
      case own: False
      define l where "l = (if tcp_verb (lossy raw) \<in> {''DATA'', ''QUIT''} then tcp_verb (lossy raw) else lossy raw)"
      obtain r w s where f: "feed_line K C L g (tc_world st) (tc_session st) l = (r, w, s)"
        by (cases "feed_line K C L g (tc_world st) (tc_session st) l") auto
      have "tc_world st' = w \<and> tc_session st' = s \<and> tc_secured st' = tc_secured st"
        using assms(1) False own f
        by (auto simp: tcp_line_def kept_by_driver_def session_reply_def emit_def l_def Let_def split: if_splits)
      moreover have "fed_as raw (str_bytes l)" using own by (auto simp: fed_as_def l_def)
      ultimately show ?thesis using step [OF f] fed by simp
    qed
  qed
qed

lemma tcp_line_upgrade:
  assumes "tcp_line K C L g tls peer now st raw = (Upgrade, st')"
  shows "tls" "tcp_verb (lossy raw) = ''STARTTLS''" "tc_world st' = tc_world st" "tc_session st' = session_new peer now"
    "tc_secured st'" "\<not> tc_secured st"
  using assms by (auto simp: tcp_line_def session_reply_def emit_def Let_def split: if_splits prod.splits)

text \<open>A line that is not an upgrade puts one more line, or none, in front of the history.\<close>

lemma fed_tcp_line:
  assumes "tcp_line K C L g tls peer now st raw = (nxt, st')" "nxt \<noteq> Upgrade" "fed cs fs"
  shows "\<exists>fs'. fed (raw # cs) fs'
    \<and> foldl (mx_step K C L g) (tc_world st, tc_session st) fs' = foldl (mx_step K C L g) (tc_world st', tc_session st') fs
    \<and> tc_secured st' = tc_secured st"
  using assms(1,2)
proof (cases rule: tcp_line_run)
  case kept
  then show ?thesis using fed_kept [OF kept(1) assms(3)] by (intro exI [of _ fs]) simp
next
  case (fed f)
  then show ?thesis using fed_line [OF fed(1) assms(3)] by (intro exI [of _ "f # fs"]) simp
qed

text \<open>What a connection, from some state on, made of the lines it read.\<close>

definition loop_history ::
  "('cv, 'f, 'ce, 'ik, 'ie) kotva \<Rightarrow> 'sk DkimCrypto \<Rightarrow> ('ik, 'draft, 'env, 'cid, 'addr) MailLib
     \<Rightarrow> ('ik, 'ab, 'env, 'cid) InboundGateway \<Rightarrow> bool \<Rightarrow> string \<Rightarrow> u64
     \<Rightarrow> ('e ReadEvent list \<Rightarrow> 'e IoError + 'e ReadEvent list) \<Rightarrow> ('ab, 'env, 'cid) TcpState \<Rightarrow> 'e ReadEvent list
     \<Rightarrow> ('ab, 'env, 'cid) TcpState \<Rightarrow> bool" where
  "loop_history K C L g tls peer now handshake st evs st' \<longleftrightarrow>
     (if tc_secured st' = tc_secured st
      then \<exists>cs rest fs. reads evs cs rest \<and> fed cs fs
           \<and> foldl (mx_step K C L g) (tc_world st, tc_session st) fs = (tc_world st', tc_session st')
      else tc_secured st' \<and> (\<exists>ps ss wp sp. tcp_history tls handshake evs True ps ss
           \<and> foldl (mx_step K C L g) (tc_world st, tc_session st) ps = (wp, sp)
           \<and> foldl (mx_step K C L g) (wp, session_new peer now) ss = (tc_world st', tc_session st')))"

lemma loop_history_done:
  assumes "tc_world st' = tc_world st" "tc_session st' = tc_session st" "tc_secured st' = tc_secured st"
  shows "loop_history K C L g tls peer now handshake st evs st'"
proof -
  have "reads evs [] evs \<and> fed [] [] \<and> foldl (mx_step K C L g) (tc_world st, tc_session st) [] = (tc_world st', tc_session st')"
    using assms by (simp add: reads_none fed_none)
  then show ?thesis unfolding loop_history_def if_P [OF assms(3)] by (intro exI)
qed

lemma loop_history_line:
  assumes "read_line evs = (Inr (Some raw), rest)" "tcp_line K C L g tls peer now st raw = (nxt, st1)" "nxt \<noteq> Upgrade"
    and "loop_history K C L g tls peer now handshake st1 rest st'"
  shows "loop_history K C L g tls peer now handshake st evs st'"
proof -
  note cons = fed_tcp_line [OF assms(2,3)] and sec = fed_tcp_line [OF assms(2,3) fed_none]
  show ?thesis
  proof (cases "tc_secured st' = tc_secured st")
    case True
    then obtain cs r fs where c: "reads rest cs r" "fed cs fs"
      "foldl (mx_step K C L g) (tc_world st1, tc_session st1) fs = (tc_world st', tc_session st')"
      using assms(4) sec by (auto simp: loop_history_def)
    obtain fs' where "fed (raw # cs) fs'"
      "foldl (mx_step K C L g) (tc_world st, tc_session st) fs' = (tc_world st', tc_session st')"
      using cons [OF c(2)] c(3) by auto
    with reads_line [OF assms(1) c(1)] True show ?thesis by (auto simp: loop_history_def)
  next
    case False
    then obtain ps ss wp sp where s': "tc_secured st'" and h: "tcp_history tls handshake rest True ps ss"
      and p: "foldl (mx_step K C L g) (tc_world st1, tc_session st1) ps = (wp, sp)"
        "foldl (mx_step K C L g) (wp, session_new peer now) ss = (tc_world st', tc_session st')"
      using assms(4) sec by (auto simp: loop_history_def)
    from h obtain cs r stl where c: "fed cs ps" "tls" "reads rest (cs @ [stl]) r" "tcp_verb (lossy stl) = ''STARTTLS''"
      "case handshake r of Inl _ \<Rightarrow> ss = [] | Inr evs' \<Rightarrow> (\<exists>cs' rest'. reads evs' cs' rest' \<and> fed cs' ss)"
      by (auto simp: tcp_history_def)
    obtain ps' where ps': "fed (raw # cs) ps'" "foldl (mx_step K C L g) (tc_world st, tc_session st) ps' = (wp, sp)"
      using cons [OF c(1)] p(1) by auto
    have "reads evs ((raw # cs) @ [stl]) r" using reads_line [OF assms(1) c(3)] by simp
    then have "tcp_history tls handshake evs True ps' ss"
      unfolding tcp_history_def using ps'(1) c(2,4,5) by (intro exI [of _ "raw # cs"] exI [of _ r]) auto
    with False s' ps'(2) p(2) show ?thesis by (auto simp: loop_history_def)
  qed
qed

lemma loop_history_upgrade:
  assumes "read_line evs = (Inr (Some raw), rest)" "tcp_line K C L g tls peer now st raw = (Upgrade, st1)"
    and "case handshake rest of Inl e \<Rightarrow> st' = st1 | Inr evs' \<Rightarrow> loop_history K C L g tls peer now handshake st1 evs' st'"
  shows "loop_history K C L g tls peer now handshake st evs st'"
proof -
  note up = tcp_line_upgrade [OF assms(2)]
  have r: "reads evs ([] @ [raw]) rest" using reads_line [OF assms(1) reads_none] by simp
  obtain ss where ss: "case handshake rest of Inl _ \<Rightarrow> ss = [] | Inr evs' \<Rightarrow> (\<exists>cs' rest'. reads evs' cs' rest' \<and> fed cs' ss)"
    "foldl (mx_step K C L g) (tc_world st1, session_new peer now) ss = (tc_world st', tc_session st')" "tc_secured st'"
  proof (cases "handshake rest")
    case (Inl e)
    then show ?thesis using that [of "[]"] assms(3) up by simp
  next
    case (Inr evs')
    then show ?thesis using that assms(3) up by (auto simp: loop_history_def split: if_splits)
  qed
  have "tcp_history tls handshake evs True [] ss"
    unfolding tcp_history_def using r up(1,2) ss(1) fed_none by (intro exI [of _ "[]"] exI [of _ rest]) auto
  then show ?thesis using ss(2,3) up
    by (simp add: loop_history_def, intro exI [of _ "[]"] exI [of _ ss] exI [of _ "tc_world st"] exI [of _ "tc_session st"]) simp
qed

lemma handle_loop_history:
  "handle_loop K C L g tls peer now handshake late n st evs = (res, st') \<Longrightarrow>
   loop_history K C L g tls peer now handshake st evs st'"
proof (induction K C L g tls peer now handshake late n st evs rule: handle_loop.induct)
  case (1 K C L g tls peer now handshake late n st evs)
  note unf = "1.prems" [unfolded handle_loop.simps [of K C L g tls peer now handshake late n st evs]]
  obtain rl rest where r: "read_line evs = (rl, rest)" by (cases "read_line evs")
  show ?case
  proof (cases "\<exists>line. rl = Inr (Some line) \<and> \<not> late n")
    case False
    then show ?thesis using unf r by (auto simp: emit_def intro!: loop_history_done split: sum.splits option.splits if_splits)
  next
    case True
    then obtain line where line: "rl = Inr (Some line)" "\<not> late n" by blast
    obtain nxt st1 where t: "tcp_line K C L g tls peer now st line = (nxt, st1)"
      by (cases "tcp_line K C L g tls peer now st line")
    note IH = "1.IH" [OF r [symmetric] line(1) refl line(2) t [symmetric]]
    note rl = r [unfolded line(1)]
    show ?thesis
    proof (cases nxt)
      case Continue
      then have "loop_history K C L g tls peer now handshake st1 rest st'" using IH(1) unf line t rl by simp
      then show ?thesis using loop_history_line [OF rl t] Continue by blast
    next
      case Quit
      then have "loop_history K C L g tls peer now handshake st1 rest st'"
        using unf line t rl by (auto intro!: loop_history_done)
      then show ?thesis using loop_history_line [OF rl t] Quit by blast
    next
      case Upgrade
      have "case handshake rest of Inl e \<Rightarrow> st' = st1 | Inr evs' \<Rightarrow> loop_history K C L g tls peer now handshake st1 evs' st'"
        using IH(2) [OF Upgrade] unf line t rl Upgrade by (auto split: sum.splits)
      then show ?thesis using loop_history_upgrade [OF rl] t Upgrade by blast
    qed
  qed
qed

text \<open>
  (C24) Over the wire: a connection is one run of a fresh session, or two with a fresh session for the
  second when the peer upgraded to TLS. The lines fed in the first run are those read in the clear,
  all of them but EHLO, HELO and STARTTLS; those of the second come only from what the handshake made
  of the bytes after STARTTLS. Every message handed to the mesh is accounted for by the lines of one of
  the two runs alone: no sender, recipient or body crosses the upgrade.
\<close>

theorem tcp_deliveries_justified:
  assumes "handle_connection K C L g tls peer now handshake late w evs = (res, st)"
  shows "\<exists>ps ss wp sp ds1 ds2. tcp_history tls handshake evs (tc_secured st) ps ss
    \<and> mx_run K C L g peer now w ps = (wp, sp)
    \<and> (if tc_secured st then mx_run K C L g peer now wp ss else (wp, sp)) = (tc_world st, tc_session st)
    \<and> gw_deliveries (tc_world st) = gw_deliveries w @ ds1 @ ds2
    \<and> list_all (justified K C L g peer now w ps) ds1
    \<and> list_all (justified K C L g peer now wp ss) ds2"
proof -
  let ?st0 = "\<lparr> tc_world = w, tc_session = session_new peer now, tc_in_data = False, tc_secured = False,
    tc_out = [reply_wire greeting] \<rparr>"
  have h: "loop_history K C L g tls peer now handshake ?st0 evs st"
    using handle_loop_history assms by (simp add: handle_connection_def)
  show ?thesis
  proof (cases "tc_secured st")
    case False
    then obtain cs rest ps where c: "reads evs cs rest" "fed cs ps" "mx_run K C L g peer now w ps = (tc_world st, tc_session st)"
      using h by (auto simp: loop_history_def mx_run_def)
    have "tcp_history tls handshake evs False ps []" using c(1,2) by (auto simp: tcp_history_def)
    moreover obtain ds where "gw_deliveries (tc_world st) = gw_deliveries w @ ds" "list_all (justified K C L g peer now w ps) ds"
      using run_deliveries [of K C L g peer now w ps] c(3) by auto
    ultimately show ?thesis using c(3) False
      by (intro exI [of _ ps] exI [of _ "[]"] exI [of _ "tc_world st"] exI [of _ "tc_session st"] exI [of _ ds]) simp
  next
    case True
    then obtain ps ss wp sp where c: "tcp_history tls handshake evs True ps ss" "mx_run K C L g peer now w ps = (wp, sp)"
      "mx_run K C L g peer now wp ss = (tc_world st, tc_session st)"
      using h by (auto simp: loop_history_def mx_run_def)
    obtain ds1 where d1: "gw_deliveries wp = gw_deliveries w @ ds1" "list_all (justified K C L g peer now w ps) ds1"
      using run_deliveries [of K C L g peer now w ps] c(2) by auto
    obtain ds2 where d2: "gw_deliveries (tc_world st) = gw_deliveries wp @ ds2" "list_all (justified K C L g peer now wp ss) ds2"
      using run_deliveries [of K C L g peer now wp ss] c(3) by auto
    show ?thesis using c d1 d2 True
      by (intro exI [of _ ps] exI [of _ ss] exI [of _ wp] exI [of _ sp] exI [of _ ds1] exI [of _ ds2]) simp
  qed
qed

text \<open>A connection that upgrades and then has its message delivered.\<close>

lemma handle_loop_line:
  assumes "10 \<notin> set l" "length l < MAX_SMTP_LINE" "\<not> late n" "tcp_line K C L g tls peer now st l = (Continue, st')"
  shows "handle_loop K C L g tls peer now handshake late n st (map Byte (l @ [13, 10]) @ r)
       = handle_loop K C L g tls peer now handshake late (n + 1) st' r"
  by (simp only: handle_loop.simps [of K C L g tls peer now handshake late n st "map Byte (l @ [13, 10]) @ r"]
      read_line_crlf [OF assms(1,2)] assms(3,4) prod.case sum.case option.case TcpNext.case if_False)

definition sample_lines :: "bytes list" where
  "sample_lines = [str_bytes ''STARTTLS'', str_bytes ''MAIL FROM:<a@c>'', str_bytes ''RCPT TO:<u@b.org>'', str_bytes ''DATA'', [104, 105], [46]]"

lemma sample_line_texts:
  "lossy (str_bytes ''STARTTLS'') = ''STARTTLS''" "lossy (str_bytes ''MAIL FROM:<a@c>'') = ''MAIL FROM:<a@c>''"
  "lossy (str_bytes ''RCPT TO:<u@b.org>'') = ''RCPT TO:<u@b.org>''" "lossy (str_bytes ''DATA'') = ''DATA''"
  by (rule lossy_ascii, simp add: ascii_str_def)+

lemma sample_verbs:
  "tcp_verb ''STARTTLS'' = ''STARTTLS''" "tcp_verb ''MAIL FROM:<a@c>'' = ''MAIL''" "tcp_verb ''RCPT TO:<u@b.org>'' = ''RCPT''"
  "tcp_verb ''DATA'' = ''DATA''"
  by (simp_all add: tcp_verb_def to_ascii_uppercase_def to_upper_char_def is_ascii_lowercase_def)

abbreviation sample_line :: "(unit, bytes, bytes) TcpState \<Rightarrow> bytes \<Rightarrow> TcpNext \<times> (unit, bytes, bytes) TcpState" where
  "sample_line \<equiv> tcp_line (ref_kotva (RU64 0)) sample_crypto sample_lib sample_gateway True ''9.9.9.9'' 5"

definition at_session :: "string list \<Rightarrow> bool \<Rightarrow> (unit, bytes, bytes) GatewayWorld \<Rightarrow> MxSession \<Rightarrow> (unit, bytes, bytes) TcpState" where
  "at_session out in_data w s = \<lparr> tc_world = w, tc_session = s, tc_in_data = in_data, tc_secured = True, tc_out = out \<rparr>"

lemma sample_tcp_lines:
  "\<exists>out'. sample_line (at_session out False sample_world sample_new) (str_bytes ''MAIL FROM:<a@c>'')
     = (Continue, at_session out' False sample_world sample_mailed)"
  "\<exists>out'. sample_line (at_session out False sample_world sample_mailed) (str_bytes ''RCPT TO:<u@b.org>'')
     = (Continue, at_session out' False sample_world sample_addressed)"
  "\<exists>out'. sample_line (at_session out False sample_world sample_addressed) (str_bytes ''DATA'')
     = (Continue, at_session out' True sample_world (sample_addressed\<lparr>ms_phase := Data\<rparr>))"
  "\<exists>out'. sample_line (at_session out True sample_world (sample_addressed\<lparr>ms_phase := Data\<rparr>)) [104, 105]
     = (Continue, at_session out' True sample_world (sample_addressed\<lparr>ms_phase := Data, ms_data := [104, 105, 13, 10]\<rparr>))"
  "\<exists>out' att. sample_line (at_session out True sample_world (sample_addressed\<lparr>ms_phase := Data, ms_data := [104, 105, 13, 10]\<rparr>)) [46]
     = (Continue, at_session out' False (sample_world\<lparr>gw_deliveries := [([104, 105, 13, 10], att)]\<rparr>) sample_new)"
proof -
  obtain att where dot: "sample_feed sample_world (sample_addressed\<lparr>ms_phase := Data, ms_data := [104, 105, 13, 10]\<rparr>) [46]
     = (reply 250 ''2.6.0 message durably accepted'', sample_world\<lparr>gw_deliveries := [([104, 105, 13, 10], att)]\<rparr>, sample_new)"
    using sample_feed_dot by blast
  show "\<exists>out' att. sample_line (at_session out True sample_world (sample_addressed\<lparr>ms_phase := Data, ms_data := [104, 105, 13, 10]\<rparr>)) [46]
     = (Continue, at_session out' False (sample_world\<lparr>gw_deliveries := [([104, 105, 13, 10], att)]\<rparr>) sample_new)"
    by (simp add: tcp_line_def at_session_def session_reply_def emit_def dot) (auto simp: reply_def)
qed (simp_all only: tcp_line_def sample_line_texts Let_def sample_verbs feed_line_def at_session_def TcpState.simps if_True if_False
      sample_feed_mail sample_feed_rcpt sample_feed_data sample_feed_body session_reply_def prod.case,
     simp_all add: emit_def reply_def)

lemma sample_connection:
  "\<exists>out att. handle_connection (ref_kotva (RU64 0)) sample_crypto sample_lib sample_gateway True ''9.9.9.9'' 5
        (\<lambda>r. Inr r) (\<lambda>_. False) sample_world (concat (map (\<lambda>l. map Byte (l @ [13, 10])) sample_lines) :: unit ReadEvent list)
     = (Inr (), at_session out False (sample_world\<lparr>gw_deliveries := [([104, 105, 13, 10], att)]\<rparr>) sample_new)"
proof -
  let ?loop = "handle_loop (ref_kotva (RU64 0)) sample_crypto sample_lib sample_gateway True ''9.9.9.9'' 5 (\<lambda>r. Inr r) (\<lambda>_. False)"
  let ?ev = "\<lambda>l. map Byte (l @ [13, 10]) :: unit ReadEvent list"
  let ?st0 = "\<lparr> tc_world = sample_world, tc_session = sample_new, tc_in_data = False, tc_secured = False,
    tc_out = [reply_wire greeting] \<rparr>"
  have fits: "10 \<notin> set l \<and> length l < MAX_SMTP_LINE" if "l \<in> set sample_lines" for l
    using that by (auto simp: sample_lines_def MAX_SMTP_LINE_def str_bytes_def)
  have step: "?loop n st (?ev l @ r) = ?loop (n + 1) st' r"
    if "sample_line st l = (Continue, st')" "l \<in> set sample_lines" for n st l st' r
    using fits [OF that(2)] by (intro handle_loop_line [OF _ _ _ that(1)]) simp_all
  obtain o1 where o1: "sample_line ?st0 (str_bytes ''STARTTLS'') = (Upgrade, at_session o1 False sample_world sample_new)"
    unfolding tcp_line_def sample_line_texts Let_def sample_verbs by (simp add: emit_def at_session_def sample_new_def)
  have up: "?loop 0 ?st0 (?ev (str_bytes ''STARTTLS'') @ r) = ?loop 1 (at_session o1 False sample_world sample_new) r" for r
  proof -
    have "read_line (?ev (str_bytes ''STARTTLS'') @ r) = (Inr (Some (str_bytes ''STARTTLS'')), r)"
      using fits [of "str_bytes ''STARTTLS''"] by (intro read_line_crlf) (auto simp: sample_lines_def)
    then show ?thesis
      by (simp only: handle_loop.simps [of _ _ _ _ _ _ _ _ _ 0] o1 prod.case sum.case option.case TcpNext.case if_False add_0)
  qed
  obtain o2 where o2: "sample_line (at_session o1 False sample_world sample_new) (str_bytes ''MAIL FROM:<a@c>'')
     = (Continue, at_session o2 False sample_world sample_mailed)" using sample_tcp_lines(1) by blast
  obtain o3 where o3: "sample_line (at_session o2 False sample_world sample_mailed) (str_bytes ''RCPT TO:<u@b.org>'')
     = (Continue, at_session o3 False sample_world sample_addressed)" using sample_tcp_lines(2) by blast
  obtain o4 where o4: "sample_line (at_session o3 False sample_world sample_addressed) (str_bytes ''DATA'')
     = (Continue, at_session o4 True sample_world (sample_addressed\<lparr>ms_phase := Data\<rparr>))" using sample_tcp_lines(3) by blast
  obtain o5 where o5: "sample_line (at_session o4 True sample_world (sample_addressed\<lparr>ms_phase := Data\<rparr>)) [104, 105]
     = (Continue, at_session o5 True sample_world (sample_addressed\<lparr>ms_phase := Data, ms_data := [104, 105, 13, 10]\<rparr>))"
    using sample_tcp_lines(4) by blast
  obtain o6 att where o6: "sample_line (at_session o5 True sample_world (sample_addressed\<lparr>ms_phase := Data, ms_data := [104, 105, 13, 10]\<rparr>)) [46]
     = (Continue, at_session o6 False (sample_world\<lparr>gw_deliveries := [([104, 105, 13, 10], att)]\<rparr>) sample_new)"
    using sample_tcp_lines(5) by blast
  let ?last = "at_session o6 False (sample_world\<lparr>gw_deliveries := [([104, 105, 13, 10], att)]\<rparr>) sample_new"
  have mem: "str_bytes ''MAIL FROM:<a@c>'' \<in> set sample_lines" "str_bytes ''RCPT TO:<u@b.org>'' \<in> set sample_lines"
    "str_bytes ''DATA'' \<in> set sample_lines" "[104, 105] \<in> set sample_lines" "[46] \<in> set sample_lines"
    by (simp_all add: sample_lines_def)
  note steps = step [OF o2 mem(1)] step [OF o3 mem(2)] step [OF o4 mem(3)] step [OF o5 mem(4)] step [OF o6 mem(5)]
  have fin: "?loop n ?last [] = (Inr (), ?last)" for n
    by (simp add: handle_loop.simps [of _ _ _ _ _ _ _ _ _ n] read_line_def)
  have "concat (map ?ev sample_lines) = ?ev (str_bytes ''STARTTLS'') @ ?ev (str_bytes ''MAIL FROM:<a@c>'')
      @ ?ev (str_bytes ''RCPT TO:<u@b.org>'') @ ?ev (str_bytes ''DATA'') @ ?ev [104, 105] @ ?ev [46] @ []"
    by (simp add: sample_lines_def)
  then have "?loop 0 ?st0 (concat (map ?ev sample_lines)) = (Inr (), ?last)"
    by (simp only: up steps fin)
  then show ?thesis by (auto simp: handle_connection_def sample_new_def)
qed

theorem tcp_deliveries_justified_witness:
  "\<exists>st d ps ss wp sp. handle_connection (ref_kotva (RU64 0)) sample_crypto sample_lib sample_gateway True ''9.9.9.9'' 5
        (\<lambda>r. Inr r) (\<lambda>_. False) sample_world (concat (map (\<lambda>l. map Byte (l @ [13, 10])) sample_lines) :: unit ReadEvent list)
      = (Inr (), st)
     \<and> tc_secured st \<and> gw_deliveries (tc_world st) = [d] \<and> fst d = [104, 105, 13, 10]
     \<and> tcp_history True (\<lambda>r. Inr r) (concat (map (\<lambda>l. map Byte (l @ [13, 10])) sample_lines) :: unit ReadEvent list) True ps ss
     \<and> mx_run (ref_kotva (RU64 0)) sample_crypto sample_lib sample_gateway ''9.9.9.9'' 5 sample_world ps = (wp, sp)
     \<and> (justified (ref_kotva (RU64 0)) sample_crypto sample_lib sample_gateway ''9.9.9.9'' 5 wp ss d
        \<or> justified (ref_kotva (RU64 0)) sample_crypto sample_lib sample_gateway ''9.9.9.9'' 5 sample_world ps d)"
proof -
  let ?J = "justified (ref_kotva (RU64 0)) sample_crypto sample_lib sample_gateway ''9.9.9.9'' 5"
  let ?evs = "concat (map (\<lambda>l. map Byte (l @ [13, 10])) sample_lines) :: unit ReadEvent list"
  obtain out att where e: "handle_connection (ref_kotva (RU64 0)) sample_crypto sample_lib sample_gateway True ''9.9.9.9'' 5
        (\<lambda>r. Inr r) (\<lambda>_. False) sample_world ?evs
     = (Inr (), at_session out False (sample_world\<lparr>gw_deliveries := [([104, 105, 13, 10], att)]\<rparr>) sample_new)"
    using sample_connection by blast
  let ?st = "at_session out False (sample_world\<lparr>gw_deliveries := [([104, 105, 13, 10], att)]\<rparr>) sample_new"
  have s: "tc_secured ?st = True" "gw_deliveries (tc_world ?st) = [([104, 105, 13, 10], att)]" "gw_deliveries sample_world = []"
    by (simp_all add: at_session_def sample_world_def)
  from tcp_deliveries_justified [OF e, unfolded s append_Nil] obtain ps ss wp sp ds1 ds2 where
    h: "tcp_history True (\<lambda>r. Inr r) ?evs True ps ss"
      "mx_run (ref_kotva (RU64 0)) sample_crypto sample_lib sample_gateway ''9.9.9.9'' 5 sample_world ps = (wp, sp)"
    and d: "[([104, 105, 13, 10], att)] = ds1 @ ds2" "list_all (?J sample_world ps) ds1" "list_all (?J wp ss) ds2"
    by blast
  have "?J wp ss ([104, 105, 13, 10], att) \<or> ?J sample_world ps ([104, 105, 13, 10], att)"
    using d by (cases ds1) auto
  with e s h show ?thesis
    by (intro exI [of _ ?st] exI [of _ "([104, 105, 13, 10], att)"] exI [of _ ps] exI [of _ ss] exI [of _ wp] exI [of _ sp])
       (simp only: fst_conv simp_thms)
qed

section \<open>The greeting of the peer\<close>

text \<open>The verb the session takes from a line with a space is the one the driver looked at.\<close>

lemma hd_split_on: "split_once c s = Some (v, r) \<Longrightarrow> hd (split_on c s) = v"
  by (induction s arbitrary: v) (auto split: if_splits list.splits)

lemma dkim_gate_code: "dkim_gate g v = Inl r \<Longrightarrow> sr_code r = 550"
  by (auto simp: dkim_gate_def reply_def split: if_splits DkimVerdict.splits)

lemma dmarc_gate_code: "dmarc_gate L g d spf v a = Inl r \<Longrightarrow> sr_code r = 550"
  by (auto simp: dmarc_gate_def reply_def split: if_splits DmarcVerdict.splits DmarcDisposition.splits)

lemma accept_message_code: "sr_code (fst (accept_message_with_spf K C L g w a b d now spf)) \<noteq> 0"
proof (cases "wrap_and_attest K L g a b d now")
  case (Inl e)
  then show ?thesis
    by (cases e) (auto simp: accept_message_with_spf_def Let_def reply_def dest: dkim_gate_code dmarc_gate_code split: sum.splits)
next
  case (Inr ea)
  then show ?thesis
    by (cases ea; cases "ig_deliver g (fst ea) (snd ea)")
      (auto simp: accept_message_with_spf_def Let_def reply_def dest: dkim_gate_code dmarc_gate_code split: sum.splits)
qed

lemma feed_data_helo:
  assumes "feed_data K C L g w s line = (r, w', s')"
  shows "ms_helo s' = ms_helo s" "sr_code r = 0 \<Longrightarrow> ms_phase s' = ms_phase s"
proof -
  show "ms_helo s' = ms_helo s" using assms
    by (auto simp: feed_data_def reset_transaction_def Let_def split: if_splits prod.splits)
  have "sr_code r \<noteq> 0" if "line = [46]"
    using assms that accept_message_code [of K C L g w "case ms_mail_from s of Some a \<Rightarrow> a | None \<Rightarrow> []"
        "case ms_rcpt_to s of Some a \<Rightarrow> a | None \<Rightarrow> []" "ms_data s" "ms_now s" "ms_spf_outcome s"]
    by (auto simp: feed_data_def reply_def Let_def split: if_splits prod.splits)
  then show "ms_phase s' = ms_phase s" if "sr_code r = 0"
    using assms that by (auto simp: feed_data_def Let_def split: if_splits)
qed

lemma cmd_helo:
  "cmd_mail g w s rest = (r, w', s') \<Longrightarrow> ms_helo s' = ms_helo s"
  "cmd_rcpt g s rest = (r, s') \<Longrightarrow> ms_helo s' = ms_helo s"
  "cmd_data s = (r, s') \<Longrightarrow> ms_helo s' = ms_helo s"
  by (auto simp: cmd_mail_def cmd_rcpt_def cmd_data_def Let_def
      split: option.splits if_splits sum.splits prod.splits AbuseDecision.splits)

lemma feed_line_helo:
  assumes "feed_line_bytes K C L g w s line = (r, w', s')" "ms_helo s = None"
    and "ms_phase s = Data \<or> tcp_verb (lossy line) \<notin> {''EHLO'', ''HELO''}"
  shows "ms_helo s' = None"
proof (cases "ms_phase s = Data")
  case True
  then show ?thesis using feed_data_helo(1) [of K C L g w s line r w' s'] assms(1,2) by (simp add: feed_line_bytes_def)
next
  case False
  then have v: "tcp_verb (lossy line) \<notin> {''EHLO'', ''HELO''}" using assms(3) by simp
  show ?thesis
  proof (cases "split_once CHR '' '' (lossy line)")
    case None
    then show ?thesis using assms(1,2) False
      by (auto simp: feed_line_bytes_def Let_def reset_transaction_def trim_def trim_end_while_def dest: cmd_helo
          split: if_splits prod.splits)
  next
    case (Some vr)
    obtain v' rest where vr: "vr = (v', rest)" by (cases vr)
    have "to_ascii_uppercase v' \<noteq> ''EHLO''" "to_ascii_uppercase v' \<noteq> ''HELO''"
      using v hd_split_on [OF Some [unfolded vr]] by (auto simp: tcp_verb_def)
    then show ?thesis using assms(1,2) False Some vr
      by (auto simp: feed_line_bytes_def Let_def reset_transaction_def dest: cmd_helo split: if_splits prod.splits)
  qed
qed

text \<open>What the driver keeps of the greeting and of the two places that know about the data phase.\<close>

definition helo_inv :: "('ab, 'env, 'cid) TcpState \<Rightarrow> bool" where
  "helo_inv st \<longleftrightarrow> ms_helo (tc_session st) = None \<and> (tc_in_data st \<longrightarrow> ms_phase (tc_session st) = Data)"

lemma feed_line_DATA:
  "feed_line K C L g w s ''DATA'' =
     (if ms_phase s = Data then feed_data K C L g w s (str_bytes ''DATA'')
      else (let (r, s) = cmd_data s in (r, w, s)))"
proof -
  have l: "lossy (str_bytes ''DATA'') = ''DATA''" by (rule lossy_ascii) (simp add: ascii_str_def)
  show ?thesis unfolding feed_line_def feed_line_bytes_def l
    by (simp add: trim_def trim_end_while_def is_whitespace_def to_ascii_uppercase_def to_upper_char_def is_ascii_lowercase_def)
qed

lemma tcp_line_helo:
  assumes "helo_inv st"
  shows "helo_inv (snd (tcp_line K C L g tls peer now st raw))"
proof (cases "tc_in_data st")
  case True
  obtain r w s where f: "feed_line_bytes K C L g (tc_world st) (tc_session st) raw = (r, w, s)"
    by (cases "feed_line_bytes K C L g (tc_world st) (tc_session st) raw") auto
  have "feed_data K C L g (tc_world st) (tc_session st) raw = (r, w, s)"
    using f True assms by (simp add: feed_line_bytes_def helo_inv_def)
  from feed_data_helo [OF this] True assms f show ?thesis
    by (auto simp: tcp_line_def session_reply_def emit_def helo_inv_def)
next
  case False
  let ?v = "tcp_verb (lossy raw)"
  have none: "ms_helo (tc_session st) = None" using assms by (simp add: helo_inv_def)
  consider (own) "?v = ''EHLO'' \<or> ?v = ''HELO'' \<or> ?v = ''STARTTLS''" | (quit) "?v = ''QUIT''" | (data) "?v = ''DATA''"
    | (other) "?v \<notin> {''EHLO'', ''HELO'', ''STARTTLS'', ''QUIT'', ''DATA''}" by blast
  then show ?thesis
  proof cases
    case own
    then show ?thesis using assms False
      by (auto simp: tcp_line_def emit_def helo_inv_def session_new_def Let_def)
  next
    case quit
    obtain r w s where f: "feed_line K C L g (tc_world st) (tc_session st) ''QUIT'' = (r, w, s)"
      by (cases "feed_line K C L g (tc_world st) (tc_session st) ''QUIT''") auto
    have "lossy (str_bytes ''QUIT'') = ''QUIT''" by (rule lossy_ascii) (simp add: ascii_str_def)
    then have "tcp_verb (lossy (str_bytes ''QUIT'')) = ''QUIT''"
      by (simp only:) (simp add: tcp_verb_def to_ascii_uppercase_def to_upper_char_def is_ascii_lowercase_def)
    then have "ms_helo s = None" using feed_line_helo [OF f [unfolded feed_line_def] none] by simp
    then show ?thesis using False quit f by (simp add: tcp_line_def session_reply_def emit_def helo_inv_def)
  next
    case data
    obtain r w s where f: "feed_line K C L g (tc_world st) (tc_session st) ''DATA'' = (r, w, s)"
      by (cases "feed_line K C L g (tc_world st) (tc_session st) ''DATA''") auto
    have "ms_helo s = None \<and> (sr_code r = 354 \<longrightarrow> ms_phase s = Data)"
    proof (cases "ms_phase (tc_session st) = Data")
      case True
      with f have d: "feed_data K C L g (tc_world st) (tc_session st) (str_bytes ''DATA'') = (r, w, s)"
        by (simp add: feed_line_DATA)
      then have "sr_code r = 0" by (auto simp: feed_data_def reply_def str_bytes_def Let_def split: if_splits)
      with feed_data_helo(1) [OF d] none show ?thesis by simp
    next
      case False
      with f have c: "cmd_data (tc_session st) = (r, s)" by (auto simp: feed_line_DATA split: prod.splits)
      then have "sr_code r = 354 \<longrightarrow> ms_phase s = Data" by (auto simp: cmd_data_def reply_def split: if_splits)
      with cmd_helo(3) [OF c] none show ?thesis by simp
    qed
    then show ?thesis using False data f by (simp add: tcp_line_def session_reply_def emit_def helo_inv_def Let_def)
  next
    case other
    obtain r w s where f: "feed_line K C L g (tc_world st) (tc_session st) (lossy raw) = (r, w, s)"
      by (cases "feed_line K C L g (tc_world st) (tc_session st) (lossy raw)") auto
    have "ms_helo s = None" using feed_line_helo [OF f [unfolded feed_line_def] none] other by simp
    then show ?thesis using False other f by (simp add: tcp_line_def session_reply_def emit_def helo_inv_def)
  qed
qed

text \<open>
  The driver answers the greeting of the peer itself, so the session never learns it: at the end of
  every connection, whatever was sent, the session has no HELO name, and every SPF check of the
  connection was made without one.
\<close>

lemma tcp_helo_never_recorded:
  "ms_helo (tc_session (snd (handle_connection K C L g tls peer now handshake late w evs))) = None"
proof -
  have "helo_inv (snd (handle_connection K C L g tls peer now handshake late w evs))"
    unfolding handle_connection_def
  proof (rule handle_loop_inv [where P = helo_inv])
    show "helo_inv (emit st ls)" if "helo_inv st" for st ls using that by (simp add: emit_def helo_inv_def)
    show "helo_inv (snd (tcp_line K C L g tls peer now st raw))" if "helo_inv st" for st raw
      using that by (rule tcp_line_helo)
  qed (simp add: helo_inv_def session_new_def)
  then show ?thesis by (simp add: helo_inv_def)
qed

text \<open>
  The two notions of the data phase can come apart: the command DATA followed by a tab is, to the
  session, DATA, and to the driver, not. The session then takes what follows as the message, while the
  driver still reads commands: a line of the message that says QUIT ends the connection.
\<close>

lemma data_tab_splits_phases:
  assumes "ms_phase (tc_session st) = Command" "ms_mail_from (tc_session st) \<noteq> None"
    "ms_rcpt_to (tc_session st) \<noteq> None" "\<not> tc_in_data st"
    and "tcp_line K C L g tls peer now st (str_bytes (''DATA'' @ [CHR 0x09])) = (nxt, st')"
  shows "nxt = Continue \<and> ms_phase (tc_session st') = Data \<and> \<not> tc_in_data st'
    \<and> tc_out st' = tc_out st @ [''354 start mail input; end with <CRLF>.<CRLF>'' @ [CHR 0x0D, CHR 0x0A]]
    \<and> fst (tcp_line K C L g tls peer now st' (str_bytes ''QUIT'')) = Quit"
proof -
  have l: "lossy (str_bytes (''DATA'' @ [CHR 0x09])) = ''DATA'' @ [CHR 0x09]" "lossy (str_bytes ''QUIT'') = ''QUIT''"
    by (rule lossy_ascii, simp add: ascii_str_def)+
  have v: "tcp_verb (''DATA'' @ [CHR 0x09]) = ''DATA'' @ [CHR 0x09]" "tcp_verb ''QUIT'' = ''QUIT''"
    by (simp_all add: tcp_verb_def to_ascii_uppercase_def to_upper_char_def is_ascii_lowercase_def)
  have f: "feed_line K C L g (tc_world st) (tc_session st) (''DATA'' @ [CHR 0x09]) =
      (let (r, s) = cmd_data (tc_session st) in (r, tc_world st, s))"
    unfolding feed_line_def feed_line_bytes_def l using assms(1)
    by (simp add: trim_def trim_end_while_def is_whitespace_def to_ascii_uppercase_def to_upper_char_def is_ascii_lowercase_def)
  have st': "nxt = Continue" "tc_session st' = (tc_session st)\<lparr>ms_phase := Data\<rparr>" "\<not> tc_in_data st'"
    "tc_out st' = tc_out st @ [reply_wire (reply 354 ''start mail input; end with <CRLF>.<CRLF>'')]"
    using assms unfolding tcp_line_def l Let_def v f by (auto simp: session_reply_def emit_def cmd_data_def)
  have "fst (tcp_line K C L g tls peer now st' (str_bytes ''QUIT'')) = Quit"
    unfolding tcp_line_def l Let_def v using st'(3) by (auto split: prod.splits)
  with st' show ?thesis by (simp add: reply_wire_def reply_def show_nat.simps char_of_eq_iff)
qed

definition sample_tcp :: "(unit, bytes, bytes) TcpState" where
  "sample_tcp = \<lparr> tc_world = sample_world, tc_session = sample_session\<lparr>ms_phase := Command, ms_data := []\<rparr>, tc_in_data = False,
     tc_secured = False, tc_out = [] \<rparr>"

lemma data_tab_splits_phases_witness:
  "\<exists>nxt st'. tcp_line (ref_kotva (RU64 0)) sample_crypto sample_lib sample_gateway False ''9.9.9.9'' 5 sample_tcp
        (str_bytes (''DATA'' @ [CHR 0x09])) = (nxt, st')
     \<and> ms_phase (tc_session st') = Data \<and> \<not> tc_in_data st'
     \<and> fst (tcp_line (ref_kotva (RU64 0)) sample_crypto sample_lib sample_gateway False ''9.9.9.9'' 5 st' (str_bytes ''QUIT'')) = Quit"
proof -
  obtain nxt st' where e: "tcp_line (ref_kotva (RU64 0)) sample_crypto sample_lib sample_gateway False ''9.9.9.9'' 5 sample_tcp
        (str_bytes (''DATA'' @ [CHR 0x09])) = (nxt, st')" by (rule prod.exhaust)
  have "ms_phase (tc_session sample_tcp) = Command" "ms_mail_from (tc_session sample_tcp) \<noteq> None"
    "ms_rcpt_to (tc_session sample_tcp) \<noteq> None" "\<not> tc_in_data sample_tcp"
    by (simp_all add: sample_tcp_def sample_session_def)
  from data_tab_splits_phases [OF this e] e show ?thesis by blast
qed

end
