(* ===== verification/Gateway_DialAddr.thy ===== *)
theory Gateway_DialAddr
  imports Gateway_SpfRecord
begin

text \<open>
  The destination addresses that the SMTP client refuses (\<open>is_forbidden_dest_ip\<close> of
  \<open>crates/pier-gateway/src/outbound_tcp.rs\<close>), and the ranges they are: what the documentation lists
  is what the bit tests of the code select.
\<close>

unbundle bit_operations_syntax

section \<open>Addresses that are never dialed\<close>

definition v4_octet :: "Ipv4Addr \<Rightarrow> nat \<Rightarrow> u8" where
  "v4_octet a i = ucast (drop_bit (8 * (3 - i)) a)"

definition is_forbidden_v4 :: "Ipv4Addr \<Rightarrow> bool" where
  "is_forbidden_v4 v4 =
     (v4_octet v4 0 = 127
      \<or> (v4_octet v4 0 = 10 \<or> (v4_octet v4 0 = 172 \<and> 16 \<le> v4_octet v4 1 \<and> v4_octet v4 1 \<le> 31)
         \<or> (v4_octet v4 0 = 192 \<and> v4_octet v4 1 = 168))
      \<or> (v4_octet v4 0 = 169 \<and> v4_octet v4 1 = 254)
      \<or> v4 = 0
      \<or> v4 = 0xFFFFFFFF
      \<or> v4_octet v4 0 = 0)"

definition v6_segment0 :: "Ipv6Addr \<Rightarrow> u16" where
  "v6_segment0 v6 = ucast (drop_bit 112 v6)"

definition is_forbidden_v6 :: "Ipv6Addr \<Rightarrow> bool" where
  "is_forbidden_v6 v6 =
     (v6 = 1 \<or> v6 = 0 \<or> (v6_segment0 v6 AND 0xFFC0) = 0xFE80 \<or> (v6_segment0 v6 AND 0xFE00) = 0xFC00)"

text \<open>\<open>Ipv6Addr::to_ipv4_mapped\<close>.\<close>

definition to_ipv4_mapped :: "Ipv6Addr \<Rightarrow> Ipv4Addr option" where
  "to_ipv4_mapped v6 = (if drop_bit 32 v6 = 0xFFFF then Some (ucast v6) else None)"

fun is_forbidden_dest_ip :: "IpAddr \<Rightarrow> bool" where
  "is_forbidden_dest_ip (V4 v4) = is_forbidden_v4 v4"
| "is_forbidden_dest_ip (V6 v6) =
     (case to_ipv4_mapped v6 of Some mapped \<Rightarrow> is_forbidden_v4 mapped | None \<Rightarrow> is_forbidden_v6 v6)"

section \<open>What is dialed\<close>

text \<open>The ranges of the documentation, as intervals of addresses.\<close>

definition private_v4 :: "(nat \<times> nat) list" where
  "private_v4 =
     [(0x00000000, 0x00FFFFFF), (0x0A000000, 0x0AFFFFFF), (0x7F000000, 0x7FFFFFFF), (0xA9FE0000, 0xA9FEFFFF),
      (0xAC100000, 0xAC1FFFFF), (0xC0A80000, 0xC0A8FFFF), (0xFFFFFFFF, 0xFFFFFFFF)]"

text \<open>
  An address inside: an IPv4 address in one of these ranges, an IPv6 address that maps one, or the
  IPv6 unspecified, loopback, link-local (\<open>fe80::/10\<close>) and unique-local (\<open>fc00::/7\<close>) addresses.
\<close>

definition inside_v4 :: "nat \<Rightarrow> bool" where
  "inside_v4 n = list_ex (\<lambda>(lo, hi). lo \<le> n \<and> n \<le> hi) private_v4"

definition inside_address :: "IpAddr \<Rightarrow> bool" where
  "inside_address ip =
     (case ip of
        V4 a \<Rightarrow> inside_v4 (unat a)
      | V6 a \<Rightarrow>
          if 0xFFFF * 2 ^ 32 \<le> unat a \<and> unat a < 0x10000 * 2 ^ 32
          then inside_v4 (unat a mod 2 ^ 32)
          else unat a \<le> 1 \<or> (0xFE80 * 2 ^ 112 \<le> unat a \<and> unat a < 0xFEC0 * 2 ^ 112)
               \<or> (0xFC00 * 2 ^ 112 \<le> unat a \<and> unat a < 0xFE00 * 2 ^ 112))"

lemma unat_v4_octet:
  "unat (v4_octet a 0) = unat a div 65536 div 256" "unat (v4_octet a 1) = unat a div 65536 mod 256"
proof -
  have d: "unat (drop_bit n a) = unat a div 2 ^ n" for n
  proof -
    have "unat (drop_bit n a) = drop_bit n (unat a)" by (rule unat_drop_bit_eq)
    then show ?thesis by (simp only: drop_bit_eq_div)
  qed
  have "unat a < 2 ^ 32" using unat_lt_pow [of a] by simp
  then have "unat a div 65536 div 256 < 256" by (simp add: div_mult2_eq [symmetric] less_mult_imp_div_less)
  then show "unat (v4_octet a 0) = unat a div 65536 div 256"
    by (simp add: v4_octet_def unsigned_ucast_eq take_bit_eq_mod d div_mult2_eq [symmetric])
  show "unat (v4_octet a 1) = unat a div 65536 mod 256"
    by (simp add: v4_octet_def unsigned_ucast_eq take_bit_eq_mod d)
qed

lemma div_eq_interval: "0 < m \<Longrightarrow> n div m = k \<longleftrightarrow> k * m \<le> n \<and> n \<le> k * m + (m - 1)" for n m k :: nat
proof
  assume m: "0 < m" "n div m = k"
  have "n = k * m + n mod m" "n mod m < m" using m div_mult_mod_eq [of n m] by simp_all
  then show "k * m \<le> n \<and> n \<le> k * m + (m - 1)" by linarith
next
  assume m: "0 < m" "k * m \<le> n \<and> n \<le> k * m + (m - 1)"
  show "n div m = k" using m by (intro div_nat_eqI) (simp_all add: mult.commute, linarith)
qed

lemma two_octets:
  "n div 256 = 192 \<and> n mod 256 = 168 \<longleftrightarrow> n = 49320" "n div 256 = 169 \<and> n mod 256 = 254 \<longleftrightarrow> n = 43518"
  "n div 256 = 172 \<and> 16 \<le> n mod 256 \<and> n mod 256 \<le> 31 \<longleftrightarrow> 44048 \<le> n \<and> n \<le> 44063" for n :: nat
proof -
  have n: "n = n div 256 * 256 + n mod 256" by simp
  show "n div 256 = 192 \<and> n mod 256 = 168 \<longleftrightarrow> n = 49320"
  proof
    assume "n div 256 = 192 \<and> n mod 256 = 168"
    with n show "n = 49320" by linarith
  qed simp
  show "n div 256 = 169 \<and> n mod 256 = 254 \<longleftrightarrow> n = 43518"
  proof
    assume "n div 256 = 169 \<and> n mod 256 = 254"
    with n show "n = 43518" by linarith
  qed simp
  show "n div 256 = 172 \<and> 16 \<le> n mod 256 \<and> n mod 256 \<le> 31 \<longleftrightarrow> 44048 \<le> n \<and> n \<le> 44063"
  proof
    assume "n div 256 = 172 \<and> 16 \<le> n mod 256 \<and> n mod 256 \<le> 31"
    with n show "44048 \<le> n \<and> n \<le> 44063" by linarith
  next
    assume i: "44048 \<le> n \<and> n \<le> 44063"
    have "n div 256 = 172" by (rule div_nat_eqI) (use i in simp_all)
    with n i show "n div 256 = 172 \<and> 16 \<le> n mod 256 \<and> n mod 256 \<le> 31" by linarith
  qed
qed

lemma is_forbidden_v4_iff: "is_forbidden_v4 a \<longleftrightarrow> list_ex (\<lambda>(lo, hi). lo \<le> unat a \<and> unat a \<le> hi) private_v4"
proof -
  have l: "unat a \<le> 4294967295" using unat_lt_pow [of a] by simp
  have w: "v4_octet a i = k \<longleftrightarrow> unat (v4_octet a i) = unat k" "v4_octet a i \<le> k \<longleftrightarrow> unat (v4_octet a i) \<le> unat k"
    "k \<le> v4_octet a i \<longleftrightarrow> unat k \<le> unat (v4_octet a i)" for i k
    by (simp_all add: word_unat_eq_iff word_le_nat_alt)
  have z: "a = 0 \<longleftrightarrow> unat a = 0" "a = 0xFFFFFFFF \<longleftrightarrow> unat a = 4294967295" by (simp_all add: word_unat_eq_iff)
  let ?n = "unat a div 65536"
  have o: "?n div 256 = k \<longleftrightarrow> k * 16777216 \<le> unat a \<and> unat a \<le> k * 16777216 + 16777215" for k
    using div_eq_interval [of 16777216 "unat a" k] by (simp add: div_mult2_eq [symmetric])
  have i: "?n = k \<longleftrightarrow> k * 65536 \<le> unat a \<and> unat a \<le> k * 65536 + 65535" for k
    using div_eq_interval [of 65536 "unat a" k] by simp
  have r: "44048 \<le> ?n \<and> ?n \<le> 44063 \<longleftrightarrow> 2886729728 \<le> unat a \<and> unat a \<le> 2887778303"
  proof -
    have "44048 \<le> ?n \<longleftrightarrow> 44048 * 65536 \<le> unat a" by (rule less_eq_div_iff_mult_less_eq) simp
    moreover have "44064 \<le> ?n \<longleftrightarrow> 44064 * 65536 \<le> unat a" by (rule less_eq_div_iff_mult_less_eq) simp
    ultimately show ?thesis by linarith
  qed
  have "is_forbidden_v4 a \<longleftrightarrow> ?n div 256 = 127 \<or> ?n div 256 = 10 \<or> (?n div 256 = 172 \<and> 16 \<le> ?n mod 256 \<and> ?n mod 256 \<le> 31)
      \<or> (?n div 256 = 192 \<and> ?n mod 256 = 168) \<or> (?n div 256 = 169 \<and> ?n mod 256 = 254) \<or> unat a = 0 \<or> unat a = 4294967295 \<or> ?n div 256 = 0"
    unfolding is_forbidden_v4_def w z unat_v4_octet by simp
  then have f: "is_forbidden_v4 a \<longleftrightarrow> ?n div 256 = 127 \<or> ?n div 256 = 10 \<or> (44048 \<le> ?n \<and> ?n \<le> 44063) \<or> ?n = 49320 \<or> ?n = 43518
      \<or> unat a = 0 \<or> unat a = 4294967295 \<or> ?n div 256 = 0" unfolding two_octets .
  show ?thesis unfolding f o i r private_v4_def using l by auto
qed

text \<open>The IPv6 tests mask the first sixteen bits, which keeps their leading bits.\<close>

lemma masked_prefix:
  fixes s :: u16
  shows "s AND 0xFFC0 = 0xFE80 \<longleftrightarrow> 0xFE80 \<le> unat s \<and> unat s < 0xFEC0"
    and "s AND 0xFE00 = 0xFC00 \<longleftrightarrow> 0xFC00 \<le> unat s \<and> unat s < 0xFE00"
proof -
  have m: "NOT (drop_bit 10 (- 1)) = (0xFFC0 :: u16)" "NOT (drop_bit 7 (- 1)) = (0xFE00 :: u16)" by code_simp+
  have d: "drop_bit n s = w \<longleftrightarrow> unat s div 2 ^ n = unat w" for n w
    unfolding word_unat_eq_iff unat_drop_bit_eq by (simp only: drop_bit_eq_div)
  have "s AND 0xFFC0 = 0xFE80 AND 0xFFC0 \<longleftrightarrow> drop_bit 6 s = drop_bit 6 0xFE80"
    using prefix_mask_iff [of 10 s "0xFE80"] by (simp only: m) simp
  then have "s AND 0xFFC0 = 0xFE80 \<longleftrightarrow> unat s div 64 = 1018" by (simp add: d)
  then show "s AND 0xFFC0 = 0xFE80 \<longleftrightarrow> 0xFE80 \<le> unat s \<and> unat s < 0xFEC0"
    using div_eq_interval [of 64 "unat s" 1018] by auto
  have "s AND 0xFE00 = 0xFC00 AND 0xFE00 \<longleftrightarrow> drop_bit 9 s = drop_bit 9 0xFC00"
    using prefix_mask_iff [of 7 s "0xFC00"] by (simp only: m) simp
  then have "s AND 0xFE00 = 0xFC00 \<longleftrightarrow> unat s div 512 = 126" by (simp add: d)
  then show "s AND 0xFE00 = 0xFC00 \<longleftrightarrow> 0xFC00 \<le> unat s \<and> unat s < 0xFE00"
    using div_eq_interval [of 512 "unat s" 126] by auto
qed

lemma is_forbidden_v6_iff:
  "is_forbidden_v6 a \<longleftrightarrow> unat a \<le> 1 \<or> (0xFE80 * 2 ^ 112 \<le> unat a \<and> unat a < 0xFEC0 * 2 ^ 112)
     \<or> (0xFC00 * 2 ^ 112 \<le> unat a \<and> unat a < 0xFE00 * 2 ^ 112)"
proof -
  have "unat a < 2 ^ 128" using unat_lt_pow [of a] by simp
  then have "unat a div 2 ^ 112 < 2 ^ 16" by (simp add: less_mult_imp_div_less)
  moreover have "unat (drop_bit 112 a) = unat a div 2 ^ 112" unfolding unat_drop_bit_eq by (simp only: drop_bit_eq_div)
  ultimately have g: "unat (v6_segment0 a) = unat a div 2 ^ 112"
    by (simp add: v6_segment0_def unsigned_ucast_eq take_bit_eq_mod)
  have z: "a = 0 \<or> a = 1 \<longleftrightarrow> unat a \<le> 1" by (auto simp: word_unat_eq_iff)
  have le: "k \<le> unat a div 2 ^ 112 \<longleftrightarrow> k * 2 ^ 112 \<le> unat a" for k by (rule less_eq_div_iff_mult_less_eq) simp
  have lt: "unat a div 2 ^ 112 < k \<longleftrightarrow> unat a < k * 2 ^ 112" for k using le [of k] by (simp only: not_le [symmetric])
  show ?thesis unfolding is_forbidden_v6_def masked_prefix g le lt using z by blast
qed

text \<open>
  The client never dials inside: an address is refused exactly when it, or the IPv4 address it maps,
  lies in the loopback, private, link-local, this-network and broadcast ranges, or is an IPv6
  loopback, unspecified, link-local or unique-local address.
\<close>

lemma forbidden_ranges_exact:
  "is_forbidden_dest_ip ip \<longleftrightarrow> inside_address ip"
proof (cases ip)
  case (V4 a)
  then show ?thesis by (simp add: is_forbidden_v4_iff inside_address_def inside_v4_def)
next
  case (V6 a)
  have d: "unat (drop_bit n a) = unat a div 2 ^ n" for n
  proof -
    have "unat (drop_bit n a) = drop_bit n (unat a)" by (rule unat_drop_bit_eq)
    then show ?thesis by (simp only: drop_bit_eq_div)
  qed
  have m: "to_ipv4_mapped a = (if 0xFFFF * 2 ^ 32 \<le> unat a \<and> unat a < 0x10000 * 2 ^ 32 then Some (ucast a) else None)"
  proof -
    have "drop_bit 32 a = 0xFFFF \<longleftrightarrow> unat a div 2 ^ 32 = 0xFFFF" unfolding word_unat_eq_iff d by simp
    also have "\<dots> \<longleftrightarrow> 0xFFFF * 2 ^ 32 \<le> unat a \<and> unat a < 0x10000 * 2 ^ 32"
      using div_eq_interval [of "2 ^ 32" "unat a" "0xFFFF"] by auto
    finally show ?thesis by (simp add: to_ipv4_mapped_def)
  qed
  have u: "unat (ucast a :: 32 word) = unat a mod 2 ^ 32" by (simp add: unsigned_ucast_eq take_bit_eq_mod)
  have s: "is_forbidden_v6 a \<longleftrightarrow> unat a \<le> 1 \<or> (0xFE80 * 2 ^ 112 \<le> unat a \<and> unat a < 0xFEC0 * 2 ^ 112)
               \<or> (0xFC00 * 2 ^ 112 \<le> unat a \<and> unat a < 0xFE00 * 2 ^ 112)"
    by (rule is_forbidden_v6_iff)
  show ?thesis by (simp add: V6 m u s is_forbidden_v4_iff inside_address_def inside_v4_def)
qed

end
