(* ===== verification/Gateway_OutboundTcp.thy ===== *)
theory Gateway_OutboundTcp
  imports Gateway_Outbound Gateway_InboundTcp Gateway_DialAddr
begin

text \<open>
  The SMTP client (\<open>crates/pier-gateway/src/outbound_tcp.rs\<close>): the choice of the address
  to dial, the conversation with its STARTTLS rules, and the framing of the message. A connection is
  the list of what its reads still return, the log of what was written in the clear and over TLS, and
  a predicate that says which write fails. Name resolution, connecting and the TLS handshake are
  fields of the transport. A write is logged whole or not at all; the deadlines of the socket are
  failing reads and writes. A panic of the code is \<open>AbortPanic\<close>.
\<close>

section \<open>The connection\<close>

type_synonym SocketAddr = "IpAddr \<times> u16"

datatype 'e ClientIo =
    NetIo "'e IoError"
  | Resolving 'e
  | Connecting 'e
  | Writing 'e
  | DialForbidden string
  | NoAddress
  | NoEhloReply
  | ShortEhlo
  | BadEhloCode
  | NoToHeader
  | TemporaryReply u16 string

datatype 'e TransportAbort = AbortIo "'e ClientIo" | AbortTls | AbortPermanent u16 string | AbortPanic

record 'e Client =
  cs_tls :: bool
  cs_in :: "'e ReadEvent list"
  cs_out :: "(bool \<times> bytes) list"
  cs_wfail :: "nat \<Rightarrow> 'e option"

record 'e SmtpTcpTransport =
  st_ehlo_name :: string
  st_port :: u16
  st_fixed_addr :: "SocketAddr option"
  st_idna :: "string \<Rightarrow> string + string"
  st_resolve :: "string \<Rightarrow> u16 \<Rightarrow> 'e + SocketAddr list"
  st_connect :: "SocketAddr \<Rightarrow> 'e + 'e ReadEvent list \<times> (nat \<Rightarrow> 'e option)"
  st_handshake :: "string \<Rightarrow> 'e ReadEvent list \<Rightarrow> 'e + 'e ReadEvent list"

text \<open>\<open>with_roots\<close> and the setters, for given resolver, connector and handshake.\<close>

definition transport_new ::
  "string \<Rightarrow> (string \<Rightarrow> string + string) \<Rightarrow> (string \<Rightarrow> u16 \<Rightarrow> 'e + SocketAddr list)
     \<Rightarrow> (SocketAddr \<Rightarrow> 'e + 'e ReadEvent list \<times> (nat \<Rightarrow> 'e option))
     \<Rightarrow> (string \<Rightarrow> 'e ReadEvent list \<Rightarrow> 'e + 'e ReadEvent list) \<Rightarrow> 'e SmtpTcpTransport" where
  "transport_new ehlo_name idna resolve connect handshake =
     \<lparr> st_ehlo_name = ehlo_name, st_port = 25, st_fixed_addr = None, st_idna = idna, st_resolve = resolve,
       st_connect = connect, st_handshake = handshake \<rparr>"

definition with_port :: "'e SmtpTcpTransport \<Rightarrow> u16 \<Rightarrow> 'e SmtpTcpTransport" where
  "with_port T port = T\<lparr>st_port := port\<rparr>"

definition with_fixed_addr :: "'e SmtpTcpTransport \<Rightarrow> SocketAddr \<Rightarrow> 'e SmtpTcpTransport" where
  "with_fixed_addr T a = T\<lparr>st_fixed_addr := Some a\<rparr>"

definition dial_addr :: "'e SmtpTcpTransport \<Rightarrow> string \<Rightarrow> 'e ClientIo + SocketAddr" where
  "dial_addr T dest_domain =
     (case st_fixed_addr T of
        Some a \<Rightarrow> Inr a
      | None \<Rightarrow>
          res_bind (map_err Resolving (st_resolve T dest_domain (st_port T))) (\<lambda>addrs.
            case find (\<lambda>a. \<not> is_forbidden_dest_ip (fst a)) addrs of
              Some a \<Rightarrow> Inr a
            | None \<Rightarrow> if addrs \<noteq> [] then Inl (DialForbidden dest_domain) else Inl NoAddress))"

text \<open>Actions on the connection, and the question-mark operator on them.\<close>

type_synonym ('e, 'a) action = "'e Client \<Rightarrow> ('e TransportAbort + 'a) \<times> 'e Client"

definition act_bind :: "('e, 'a) action \<Rightarrow> ('a \<Rightarrow> ('e, 'b) action) \<Rightarrow> ('e, 'b) action" where
  "act_bind m f s = (case m s of (Inl e, s') \<Rightarrow> (Inl e, s') | (Inr x, s') \<Rightarrow> f x s')"

definition act_return :: "'e TransportAbort + 'a \<Rightarrow> ('e, 'a) action" where
  "act_return r s = (r, s)"

definition abort_of :: "'e IoError \<Rightarrow> 'e TransportAbort" where
  "abort_of e = (case e of SlicePanic \<Rightarrow> AbortPanic | _ \<Rightarrow> AbortIo (NetIo e))"

definition client_write :: "bytes \<Rightarrow> ('e, unit) action" where
  "client_write b s =
     (case cs_wfail s (length (cs_out s)) of
        Some e \<Rightarrow> (Inl (AbortIo (Writing e)), s)
      | None \<Rightarrow> (Inr (), s\<lparr>cs_out := cs_out s @ [(cs_tls s, b)]\<rparr>))"

definition client_read_reply :: "('e, u16 \<times> string) action" where
  "client_read_reply s =
     (let (r, rest) = read_reply (cs_in s) in (map_err abort_of r, s\<lparr>cs_in := rest\<rparr>))"

definition expect_2xx :: "u16 \<times> string \<Rightarrow> 'e TransportAbort + unit" where
  "expect_2xx ct =
     (let (code, text) = ct in
      if 200 \<le> code \<and> code < 300 then Inr ()
      else if 400 \<le> code \<and> code < 500 then Inl (AbortIo (TemporaryReply code text))
      else Inl (AbortPermanent code text))"

definition classify :: "u16 \<Rightarrow> string \<Rightarrow> TransportResult" where
  "classify code text =
     (if 200 \<le> code \<and> code \<le> 299 then TransportDelivered code
      else if 400 \<le> code \<and> code \<le> 499 then TransportTransient code text
      else TransportPermanent code text)"

definition smtp_line :: "string \<Rightarrow> bytes" where
  "smtp_line s = str_bytes s @ CRLF"

text \<open>The lines of an EHLO reply: the first word after each code is a capability.\<close>

definition ehlo_code :: "string \<Rightarrow> 'e TransportAbort + u16" where
  "ehlo_code line =
     (if length line < 3 then Inl (AbortIo ShortEhlo)
      else if \<not> is_char_boundary line 3 then Inl AbortPanic
      else ok_or (AbortIo BadEhloCode) (map_option of_nat (parse_unsigned 65535 (take 3 line))))"

definition ehlo_cap :: "string \<Rightarrow> string list" where
  "ehlo_cap line =
     (if 4 \<le> length line \<and> is_char_boundary line 4
      then (case split_whitespace (drop 4 line) of tok # _ \<Rightarrow> [tok] | [] \<Rightarrow> [])
      else [])"

function ehlo_lines :: "string list \<Rightarrow> 'e ReadEvent list \<Rightarrow> ('e TransportAbort + string list) \<times> 'e ReadEvent list" where
  "ehlo_lines caps r =
     (case read_line_str r of
        (Inl e, r') \<Rightarrow> (Inl (abort_of e), r')
      | (Inr None, r') \<Rightarrow> (Inl (AbortIo NoEhloReply), r')
      | (Inr (Some line), r') \<Rightarrow>
          (case ehlo_code line of
             Inl e \<Rightarrow> (Inl e, r')
           | Inr code \<Rightarrow>
               if \<not> (200 \<le> code \<and> code < 300) then (Inl (AbortPermanent code line), r')
               else (let caps = caps @ ehlo_cap line in
                     if reply_more line then ehlo_lines caps r' else (Inr caps, r'))))"
  by pat_completeness auto
termination
  by (relation "measure (\<lambda>(caps, r). length r)") (auto dest: read_line_str_shorter [OF sym])

declare ehlo_lines.simps [simp del]

definition ehlo :: "'e SmtpTcpTransport \<Rightarrow> ('e, string list) action" where
  "ehlo T =
     act_bind (client_write (smtp_line (''EHLO '' @ st_ehlo_name T))) (\<lambda>_ s.
       let (r, rest) = ehlo_lines [] (cs_in s) in (r, s\<lparr>cs_in := rest\<rparr>))"

definition client_upgrade :: "'e SmtpTcpTransport \<Rightarrow> string \<Rightarrow> ('e, unit) action" where
  "client_upgrade T dest s =
     (if cs_tls s then (Inl AbortTls, s)
      else (case st_handshake T dest (cs_in s) of
              Inl _ \<Rightarrow> (Inl AbortTls, s)
            | Inr evs \<Rightarrow> (Inr (), s\<lparr>cs_tls := True, cs_in := evs\<rparr>)))"

section \<open>Envelope and framing\<close>

definition header_value_addr :: "string \<Rightarrow> string option" where
  "header_value_addr v =
     (let v = trim v;
          bracketed = (case (find_char CHR ''<'' v, rfind_char CHR ''>'' v) of
              (Some l, Some r) \<Rightarrow> if l < r then Some (trim (take (r - (l + 1)) (drop (l + 1) v))) else None
            | _ \<Rightarrow> None)
      in case bracketed of
           Some a \<Rightarrow> Some a
         | None \<Rightarrow> map_option (trim_matches (\<lambda>c. c = CHR ''<'' \<or> c = CHR ''>''))
                     (find (\<lambda>t. CHR ''@'' \<in> set t) (split_whitespace v)))"

definition header_line_addr :: "string \<Rightarrow> string \<Rightarrow> string option" where
  "header_line_addr name line =
     (case split_once CHR '':'' line of
        Some (h, v) \<Rightarrow> if eq_ignore_ascii_case (trim h) name then header_value_addr v else None
      | None \<Rightarrow> None)"

definition header_addr :: "bytes \<Rightarrow> string \<Rightarrow> string option" where
  "header_addr message name =
     (let head_end = (case find_sub [13, 10, 13, 10] message of Some i \<Rightarrow> i | None \<Rightarrow> length message)
      in find_map (\<lambda>l. header_line_addr name (bytes_str l)) (split_crlf (from_utf8_lossy (take head_end message))))"

fun dot_stuff :: "bool \<Rightarrow> bytes \<Rightarrow> bytes" where
  "dot_stuff at_line_start [] = []"
| "dot_stuff at_line_start (b # bs) =
     (if at_line_start \<and> b = 46 then [46] else []) @ b # dot_stuff (b = 10) bs"

section \<open>The conversation\<close>

definition has_cap :: "string list \<Rightarrow> string \<Rightarrow> bool" where
  "has_cap caps cap = list_ex (\<lambda>c. eq_ignore_ascii_case c cap) caps"

definition secure_hello :: "'e SmtpTcpTransport \<Rightarrow> string \<Rightarrow> bool \<Rightarrow> ('e, string list) action" where
  "secure_hello T dest require_tls =
     act_bind (ehlo T) (\<lambda>caps.
       let starttls_offered = has_cap caps ''STARTTLS'' in
       if require_tls \<and> \<not> starttls_offered then act_return (Inl AbortTls)
       else if starttls_offered then
         act_bind (client_write (smtp_line ''STARTTLS'')) (\<lambda>_.
         act_bind client_read_reply (\<lambda>(code, _).
           if \<not> (200 \<le> code \<and> code < 300) then act_return (Inl AbortTls)
           else act_bind (client_upgrade T dest) (\<lambda>_. ehlo T)))
       else act_return (Inr caps))"

definition SMTPUTF8_TEXT :: "string \<Rightarrow> string" where
  "SMTPUTF8_TEXT dest =
     ''5.6.7 envelope address requires SMTPUTF8 (RFC 6531) but '' @ dest
     @ '' does not advertise it; cannot deliver without corrupting the address''"

definition BITMIME_TEXT :: "string \<Rightarrow> string" where
  "BITMIME_TEXT dest =
     ''5.6.3 message body is 8-bit but '' @ dest
     @ '' does not advertise 8BITMIME (RFC 6152); refusing to send bytes the peer has not agreed to carry''"

definition mail_params :: "bool \<Rightarrow> bool \<Rightarrow> string" where
  "mail_params needs_8bitmime needs_smtputf8 =
     (if needs_8bitmime then '' BODY=8BITMIME'' else []) @ (if needs_smtputf8 then '' SMTPUTF8'' else [])"

definition send_data :: "bytes \<Rightarrow> ('e, TransportResult) action" where
  "send_data message =
     act_bind (client_write (dot_stuff True message)) (\<lambda>_.
     act_bind (if take 2 (rev message) = [10, 13] then act_return (Inr ()) else client_write CRLF) (\<lambda>_.
     act_bind (client_write (smtp_line ''.'')) (\<lambda>_.
     act_bind client_read_reply (\<lambda>(final_code, final_text) s.
       (Inr (classify final_code final_text), snd (client_write (smtp_line ''QUIT'') s))))))"

definition send_mail :: "string \<Rightarrow> bytes \<Rightarrow> string list \<Rightarrow> ('e, TransportResult) action" where
  "send_mail dest message caps =
     (let mail_from = (case header_addr message ''from'' of Some a \<Rightarrow> a | None \<Rightarrow> ''<>'') in
      case header_addr message ''to'' of
        None \<Rightarrow> act_return (Inl (AbortIo NoToHeader))
      | Some rcpt_to \<Rightarrow>
          (let needs_smtputf8 = (\<not> ascii_str mail_from \<or> \<not> ascii_str rcpt_to);
               needs_8bitmime = list_ex (\<lambda>b. b \<ge> 0x80) message
           in if needs_smtputf8 \<and> \<not> has_cap caps ''SMTPUTF8''
              then act_return (Inl (AbortPermanent 553 (SMTPUTF8_TEXT dest)))
              else if needs_8bitmime \<and> \<not> has_cap caps ''8BITMIME''
              then act_return (Inl (AbortPermanent 554 (BITMIME_TEXT dest)))
              else
                act_bind (client_write (smtp_line (''MAIL FROM:<'' @ mail_from @ ''>'' @ mail_params needs_8bitmime needs_smtputf8))) (\<lambda>_.
                act_bind client_read_reply (\<lambda>r.
                act_bind (act_return (expect_2xx r)) (\<lambda>_.
                act_bind (client_write (smtp_line (''RCPT TO:<'' @ rcpt_to @ ''>''))) (\<lambda>_.
                act_bind client_read_reply (\<lambda>r.
                act_bind (act_return (expect_2xx r)) (\<lambda>_.
                act_bind (client_write (smtp_line ''DATA'')) (\<lambda>_.
                act_bind client_read_reply (\<lambda>(code, text).
                  if code \<noteq> 354 then act_return (Inr (classify code text)) else send_data message))))))))))"

definition conversation :: "'e SmtpTcpTransport \<Rightarrow> string \<Rightarrow> bytes \<Rightarrow> bool \<Rightarrow> ('e, TransportResult) action" where
  "conversation T dest message require_tls =
     act_bind client_read_reply (\<lambda>r.
     act_bind (act_return (expect_2xx r)) (\<lambda>_.
     act_bind (secure_hello T dest require_tls) (\<lambda>caps. send_mail dest message caps)))"

text \<open>A run: what came of it, and the connection that was made, if one was.\<close>

definition try_run ::
  "'e SmtpTcpTransport \<Rightarrow> (IdnError \<Rightarrow> string) \<Rightarrow> string \<Rightarrow> bytes \<Rightarrow> bool
     \<Rightarrow> ('e TransportAbort + TransportResult) \<times> (SocketAddr \<times> 'e Client) option" where
  "try_run T idn_text dest_domain message require_tls =
     (case domain_to_ascii (st_idna T) dest_domain of
        Inl e \<Rightarrow> (Inl (AbortPermanent 553 (''5.1.2 '' @ idn_text e)), None)
      | Inr dest \<Rightarrow>
          (case dial_addr T dest of
             Inl e \<Rightarrow> (Inl (AbortIo e), None)
           | Inr addr \<Rightarrow>
               (case st_connect T addr of
                  Inl e \<Rightarrow> (Inl (AbortIo (Connecting e)), None)
                | Inr (evs, wfail) \<Rightarrow>
                    (let (r, c) = conversation T dest message require_tls
                           \<lparr> cs_tls = False, cs_in = evs, cs_out = [], cs_wfail = wfail \<rparr>
                     in (r, Some (addr, c))))))"

text \<open>\<open>run\<close>: \<open>None\<close> is a panic; \<open>io_text\<close> is the text of an error of the standard library.\<close>

definition run ::
  "'e SmtpTcpTransport \<Rightarrow> (IdnError \<Rightarrow> string) \<Rightarrow> ('e ClientIo \<Rightarrow> string) \<Rightarrow> string \<Rightarrow> bytes \<Rightarrow> bool
     \<Rightarrow> TransportResult option" where
  "run T idn_text io_text dest_domain message require_tls =
     (case fst (try_run T idn_text dest_domain message require_tls) of
        Inr result \<Rightarrow> Some result
      | Inl AbortTls \<Rightarrow> Some TlsUnavailable
      | Inl (AbortPermanent code text) \<Rightarrow> Some (TransportPermanent code text)
      | Inl (AbortIo e) \<Rightarrow> Some (TransportTransient 421 (''4.4.0 '' @ io_text e))
      | Inl AbortPanic \<Rightarrow> None)"

section \<open>Reasoning about actions\<close>

text \<open>
  From a state with \<open>P\<close> an action ends in a state with \<open>Q\<close> for the value it returns; when it
  aborts, \<open>ok\<close> still holds.
\<close>

definition act_spec ::
  "('e Client \<Rightarrow> bool) \<Rightarrow> ('e Client \<Rightarrow> bool) \<Rightarrow> ('e, 'a) action \<Rightarrow> ('a \<Rightarrow> 'e Client \<Rightarrow> bool) \<Rightarrow> bool" where
  "act_spec ok P m Q \<longleftrightarrow> (\<forall>s. P s \<longrightarrow> (case m s of (Inl _, s') \<Rightarrow> ok s' | (Inr x, s') \<Rightarrow> Q x s'))"

named_theorems act_rules

lemma spec_bind:
  assumes "act_spec ok P m Q" "\<And>x. act_spec ok (Q x) (f x) R"
  shows "act_spec ok P (act_bind m f) R"
  unfolding act_spec_def
proof (intro allI impI)
  fix s assume "P s"
  obtain r s' where m: "m s = (r, s')" by (cases "m s")
  show "case act_bind m f s of (Inl _, s') \<Rightarrow> ok s' | (Inr x, s') \<Rightarrow> R x s'"
    using assms(1) assms(2) \<open>P s\<close> m by (cases r) (fastforce simp: act_spec_def act_bind_def)+
qed

lemma spec_return [act_rules]:
  "(\<And>s. P s \<Longrightarrow> ok s) \<Longrightarrow> (\<And>x s. r = Inr x \<Longrightarrow> P s \<Longrightarrow> Q x s) \<Longrightarrow> act_spec ok P (act_return r) Q"
  by (cases r) (auto simp: act_spec_def act_return_def)

lemma spec_write:
  assumes "\<And>s. P s \<Longrightarrow> ok s" "\<And>s. P s \<Longrightarrow> Q () (s\<lparr>cs_out := cs_out s @ [(cs_tls s, b)]\<rparr>)"
  shows "act_spec ok P (client_write b) Q"
  using assms by (auto simp: act_spec_def client_write_def split: option.splits)

lemma spec_read:
  assumes "\<And>s. P s \<Longrightarrow> ok s" "\<And>s x. P s \<Longrightarrow> P (s\<lparr>cs_in := x\<rparr>)"
  shows "act_spec ok P client_read_reply (\<lambda>_. P)"
  using assms by (auto simp: act_spec_def client_read_reply_def Let_def map_err_def split: sum.splits prod.splits)

lemma spec_ehlo:
  assumes "\<And>s. P s \<Longrightarrow> ok s" "\<And>s x. P s \<Longrightarrow> P (s\<lparr>cs_in := x\<rparr>)"
    and "\<And>s. P s \<Longrightarrow> P (s\<lparr>cs_out := cs_out s @ [(cs_tls s, smtp_line (''EHLO '' @ st_ehlo_name T))]\<rparr>)"
  shows "act_spec ok P (ehlo T) (\<lambda>_. P)"
proof -
  have "act_spec ok P (client_write (smtp_line (''EHLO '' @ st_ehlo_name T))) (\<lambda>_. P)"
    by (rule spec_write) (use assms in auto)
  moreover have "act_spec ok P (\<lambda>s. let (r, rest) = ehlo_lines [] (cs_in s) in (r, s\<lparr>cs_in := rest\<rparr>)) (\<lambda>_. P)"
    using assms(1,2) by (auto simp: act_spec_def Let_def split: sum.splits prod.splits)
  ultimately show ?thesis unfolding ehlo_def by (rule spec_bind)
qed

lemma spec_false: "act_spec ok (\<lambda>_. False) m Q"
  by (simp add: act_spec_def)

section \<open>Nothing but the greeting in the clear\<close>

definition clear_ok :: "'e SmtpTcpTransport \<Rightarrow> 'e Client \<Rightarrow> bool" where
  "clear_ok T s = list_all (\<lambda>(tls, b). tls \<or> b = smtp_line (''EHLO '' @ st_ehlo_name T) \<or> b = smtp_line ''STARTTLS'') (cs_out s)"

lemma secure_hello_spec:
  fixes T :: "'e SmtpTcpTransport"
  shows "act_spec (clear_ok T) (clear_ok T) (secure_hello T dest True) (\<lambda>_ s. clear_ok T s \<and> cs_tls s)"
proof -
  let ?P = "clear_ok T" and ?S = "\<lambda>s. clear_ok T s \<and> cs_tls s"
  have e: "act_spec ?P ?P (ehlo T) (\<lambda>_. ?P)" "act_spec ?P ?S (ehlo T) (\<lambda>_. ?S)"
    by (rule spec_ehlo; simp add: clear_ok_def)+
  have w: "act_spec ?P ?P (client_write (smtp_line ''STARTTLS'')) (\<lambda>_. ?P)"
    by (rule spec_write) (simp_all add: clear_ok_def)
  have r: "act_spec ?P ?P client_read_reply (\<lambda>_. ?P)" by (rule spec_read) (simp_all add: clear_ok_def)
  have u: "act_spec ?P ?P (client_upgrade T dest) (\<lambda>_. ?S)"
    by (auto simp: act_spec_def client_upgrade_def clear_ok_def split: sum.splits)
  have f: "act_spec ?P ?P (act_return (Inl AbortTls) :: ('e, string list) action) (\<lambda>_. ?S)" by (rule spec_return) simp_all
  have "act_spec ?P ?P (case ct of (code, x) \<Rightarrow> if \<not> (200 \<le> code \<and> code < 300) then act_return (Inl AbortTls)
      else act_bind (client_upgrade T dest) (\<lambda>_. ehlo T)) (\<lambda>_. ?S)" for ct
    using f spec_bind [OF u e(2)] by (cases ct) auto
  then have "act_spec ?P ?P (act_bind (client_write (smtp_line ''STARTTLS'')) (\<lambda>_. act_bind client_read_reply
      (\<lambda>(code, _). if \<not> (200 \<le> code \<and> code < 300) then act_return (Inl AbortTls)
         else act_bind (client_upgrade T dest) (\<lambda>_. ehlo T)))) (\<lambda>_. ?S)"
    by (intro spec_bind [OF w] spec_bind [OF r])
  then show ?thesis unfolding secure_hello_def using f by (intro spec_bind [OF e(1)]) (simp add: Let_def)
qed

lemma secured_keeps:
  assumes "\<And>s. P s \<Longrightarrow> cs_tls s \<and> ok s" "\<And>s x. P s \<Longrightarrow> P (s\<lparr>cs_in := x\<rparr>)"
    and "\<And>s b. P s \<Longrightarrow> P (s\<lparr>cs_out := cs_out s @ [(True, b)]\<rparr>)"
  shows "act_spec ok P (client_write b) (\<lambda>_. P)" "act_spec ok P client_read_reply (\<lambda>_. P)"
    "act_spec ok P (act_return r) (\<lambda>_. P)" "P s \<Longrightarrow> P (snd (client_write b s))"
proof -
  have e: "s\<lparr>cs_out := cs_out s @ [(cs_tls s, b)]\<rparr> = s\<lparr>cs_out := cs_out s @ [(True, b)]\<rparr>" if "P s" for s b
    using assms(1) [OF that] by simp
  show "act_spec ok P (client_write b) (\<lambda>_. P)" using assms(1,3) e by (intro spec_write) (simp_all add: e)
  show "act_spec ok P client_read_reply (\<lambda>_. P)" using assms(1,2) by (intro spec_read) auto
  show "act_spec ok P (act_return r) (\<lambda>_. P)" using assms(1) by (intro spec_return) auto
  show "P s \<Longrightarrow> P (snd (client_write b s))" using assms(3) e by (simp add: client_write_def split: option.splits)
qed

lemma send_data_keeps:
  assumes "\<And>s. P s \<Longrightarrow> cs_tls s \<and> ok s" "\<And>s x. P s \<Longrightarrow> P (s\<lparr>cs_in := x\<rparr>)"
    and "\<And>s b. P s \<Longrightarrow> P (s\<lparr>cs_out := cs_out s @ [(True, b)]\<rparr>)"
  shows "act_spec ok P (send_data message) (\<lambda>_. P)"
proof -
  note k = secured_keeps [of P ok, OF assms]
  have q: "act_spec ok P (case ct of (final_code, final_text) \<Rightarrow> \<lambda>s. (Inr (classify final_code final_text),
      snd (client_write (smtp_line ''QUIT'') s))) (\<lambda>_. P)" for ct
    using k(4) by (cases ct) (auto simp: act_spec_def)
  have n: "act_spec ok P (if take 2 (rev message) = [10, 13] then act_return (Inr ()) else client_write CRLF) (\<lambda>_. P)"
    using k(1) [of CRLF] k(3) [of "Inr ()"] by (cases "take 2 (rev message) = [10, 13]") simp_all
  show ?thesis unfolding send_data_def
    by (intro spec_bind [OF k(1)] spec_bind [OF n spec_bind [OF k(1) spec_bind [OF k(2) q]]])
qed

lemma send_mail_keeps:
  assumes "\<And>s. P s \<Longrightarrow> cs_tls s \<and> ok s" "\<And>s x. P s \<Longrightarrow> P (s\<lparr>cs_in := x\<rparr>)"
    and "\<And>s b. P s \<Longrightarrow> P (s\<lparr>cs_out := cs_out s @ [(True, b)]\<rparr>)"
  shows "act_spec ok P (send_mail dest message caps) (\<lambda>_. P)"
proof -
  note k = secured_keeps [of P ok, OF assms]
  show ?thesis
    unfolding send_mail_def Let_def
    by (cases "header_addr message ''to''")
       (auto intro!: k(3) spec_bind [OF k(1)] spec_bind [OF k(2)] spec_bind [OF k(3)] send_data_keeps [of P ok message, OF assms])
qed

text \<open>
  (C15) When TLS is required, the client writes nothing in the clear but its greeting and STARTTLS: the
  addresses, the message and everything else go out only after a completed handshake, whatever the
  server answers and wherever the conversation breaks off.
\<close>

theorem required_tls_never_clear:
  assumes "try_run T idn_text dest_domain message True = (r, Some (addr, c))"
  shows "list_all (\<lambda>(tls, b). tls \<or> b = smtp_line (''EHLO '' @ st_ehlo_name T) \<or> b = smtp_line ''STARTTLS'') (cs_out c)"
proof -
  let ?S = "\<lambda>s. clear_ok T s \<and> cs_tls s"
  have "act_spec (clear_ok T) (clear_ok T) client_read_reply (\<lambda>_. clear_ok T)"
    by (rule spec_read) (simp_all add: clear_ok_def)
  moreover have "act_spec (clear_ok T) (clear_ok T) (act_return (expect_2xx x)) (\<lambda>_. clear_ok T)" for x
    by (rule spec_return) simp_all
  moreover have "act_spec (clear_ok T) ?S (send_mail dest message caps) (\<lambda>_. ?S)" for dest caps
    by (rule send_mail_keeps) (simp_all add: clear_ok_def)
  ultimately have c: "act_spec (clear_ok T) (clear_ok T) (conversation T dest message True) (\<lambda>_. ?S)" for dest
    unfolding conversation_def by (intro spec_bind [OF _ spec_bind [OF _ spec_bind [OF secure_hello_spec]]])
  obtain dest evs wfail where r: "conversation T dest message True
      \<lparr> cs_tls = False, cs_in = evs, cs_out = [], cs_wfail = wfail \<rparr> = (r, c)"
    using assms by (auto simp: try_run_def Let_def split: sum.splits prod.splits)
  have "clear_ok T \<lparr> cs_tls = False, cs_in = evs, cs_out = [], cs_wfail = wfail \<rparr>" by (simp add: clear_ok_def)
  then have "clear_ok T c"
    using c [of dest, unfolded act_spec_def, rule_format, of "\<lparr> cs_tls = False, cs_in = evs, cs_out = [], cs_wfail = wfail \<rparr>"] r
    by (cases r) simp_all
  then show ?thesis by (simp add: clear_ok_def)
qed

text \<open>
  (C30) Without a pinned address the client connects only to an address that the destination's name
  resolves to and that lies outside: not in the IPv4 ranges 0/8, 10/8, 127/8, 169.254/16, 172.16/12 and
  192.168/16, not the broadcast address, not an IPv6 address that maps one of these, and not the IPv6
  unspecified, loopback, link-local or unique-local addresses. It is the first such address of the
  answer; a name that resolves only to addresses inside is not dialed at all.
\<close>

theorem never_dials_inside:
  assumes "st_fixed_addr T = None" "try_run T idn_text dest_domain message require_tls = (r, conn)"
  shows "(\<exists>dest addr before after c. domain_to_ascii (st_idna T) dest_domain = Inr dest
            \<and> st_resolve T dest (st_port T) = Inr (before @ addr # after)
            \<and> list_all (\<lambda>a. inside_address (fst a)) before \<and> \<not> inside_address (fst addr) \<and> conn = Some (addr, c))
    \<or> (conn = None \<and> (\<exists>e. r = Inl e))"
proof -
  have d: "\<exists>before after. st_resolve T dest (st_port T) = Inr (before @ a # after)
      \<and> list_all (\<lambda>a. inside_address (fst a)) before \<and> \<not> inside_address (fst a)"
    if "dial_addr T dest = Inr a" for dest a
  proof (cases "st_resolve T dest (st_port T)")
    case (Inl e)
    with that assms(1) show ?thesis by (simp add: dial_addr_def)
  next
    case (Inr addrs)
    with that assms(1) have "find (\<lambda>a. \<not> is_forbidden_dest_ip (fst a)) addrs = Some a"
      by (auto simp: dial_addr_def split: option.splits if_splits)
    then obtain i where i: "i < length addrs" "\<not> inside_address (fst (addrs ! i))" "a = addrs ! i"
      "\<And>j. j < i \<Longrightarrow> inside_address (fst (addrs ! j))"
      by (auto simp: find_Some_iff forbidden_ranges_exact)
    then have "addrs = take i addrs @ a # drop (Suc i) addrs" by (simp add: id_take_nth_drop)
    moreover have "list_all (\<lambda>a. inside_address (fst a)) (take i addrs)"
      using i(1,4) by (auto simp: list_all_length)
    ultimately show ?thesis using Inr i(2,3) by metis
  qed
  show ?thesis
    using assms(2) d by (fastforce simp: try_run_def Let_def split: sum.splits prod.splits)
qed

section \<open>A message is called delivered without being sent\<close>

lemma read_reply_250:
  fixes r :: "'e ReadEvent list"
  shows "read_reply (map Byte (smtp_line ''250 ok'') @ r) = (Inr (250, ''ok''), r)"
proof -
  have a: "lossy (str_bytes ''250 ok'') = ''250 ok''" by (rule lossy_ascii) (simp add: ascii_str_def)
  have n: "10 \<notin> set (str_bytes ''250 ok'')" "length (str_bytes ''250 ok'') < MAX_SMTP_LINE"
    by (simp_all add: str_bytes_def MAX_SMTP_LINE_def)
  have "read_line_str (map Byte (smtp_line ''250 ok'') @ r) = (Inr (Some ''250 ok''), r)"
    unfolding smtp_line_def CRLF_def read_line_str_crlf [OF n] a ..
  moreover have "(reply_code ''250 ok'' :: 'e IoError + u16) = Inr 250"
    by (simp add: reply_code_def is_char_boundary_def is_cont_def parse_unsigned_def digit_val_def is_ascii_digit_def)
  moreover have "reply_text ''250 ok'' = ''ok''" "\<not> reply_more ''250 ok''"
    by (simp_all add: reply_text_def reply_more_def get_at_def is_char_boundary_def is_cont_def trim_def trim_end_while_def
        is_whitespace_def)
  ultimately show ?thesis by (simp add: read_reply_def read_reply_loop.simps)
qed

text \<open>
  A server that answers DATA with a completion code gets no message, and the client reports the
  message delivered: with the replies 250 to MAIL, RCPT and DATA the result is a delivery, and what
  was written is those three commands alone.
\<close>

lemma data_completion_reported_delivered:
  assumes "header_addr message ''from'' = Some a" "header_addr message ''to'' = Some b" "ascii_str a" "ascii_str b"
    and "list_all (\<lambda>x. x < 0x80) message" "cs_wfail s = (\<lambda>_. None)"
    and "cs_in s = concat (replicate 3 (map Byte (smtp_line ''250 ok''))) @ rest"
  shows "send_mail dest message caps s
    = (Inr (TransportDelivered 250),
       s\<lparr>cs_in := rest, cs_out := cs_out s @ [(cs_tls s, smtp_line (''MAIL FROM:<'' @ a @ ''>'')),
            (cs_tls s, smtp_line (''RCPT TO:<'' @ b @ ''>'')), (cs_tls s, smtp_line ''DATA'')]\<rparr>)"
proof -
  have w: "client_write x s' = (Inr (), s'\<lparr>cs_out := cs_out s' @ [(cs_tls s', x)]\<rparr>)" if "cs_wfail s' = (\<lambda>_. None)" for x s'
    using that by (simp add: client_write_def)
  let ?ok = "map Byte (smtp_line ''250 ok'')"
  have rd: "client_read_reply s' = (Inr (250, ''ok''), s'\<lparr>cs_in := tail\<rparr>)" if "cs_in s' = ?ok @ tail" for s' tail
    using that by (simp add: client_read_reply_def read_reply_250)
  have i: "cs_in s = map Byte (smtp_line ''250 ok'') @ map Byte (smtp_line ''250 ok'') @ map Byte (smtp_line ''250 ok'') @ rest"
    using assms(7) by (simp add: numeral_3_eq_3)
  have e: "\<not> list_ex (\<lambda>b. b \<ge> 0x80) message" using assms(5) by (auto simp: list_ex_iff list_all_iff not_le)
  show ?thesis
    by (simp add: send_mail_def assms(1-4) e act_bind_def w assms(6) rd [of _ "?ok @ ?ok @ rest"] rd [of _ "?ok @ rest"] rd [of _ rest] i
        mail_params_def act_return_def expect_2xx_def classify_def)
qed

section \<open>From the client to the session\<close>

definition smtp_frame :: "bytes list \<Rightarrow> bytes" where
  "smtp_frame ls = concat (map (\<lambda>l. l @ CRLF) ls)"

definition stuff_line :: "bytes \<Rightarrow> bytes" where
  "stuff_line l = (if l \<noteq> [] \<and> hd l = 46 then 46 # l else l)"

lemma dot_stuff_inside: "10 \<notin> set l \<Longrightarrow> dot_stuff False (l @ 13 # 10 # r) = l @ 13 # 10 # dot_stuff True r"
  by (induction l) auto

lemma dot_stuff_line: "10 \<notin> set l \<Longrightarrow> dot_stuff True (l @ 13 # 10 # r) = stuff_line l @ 13 # 10 # dot_stuff True r"
  by (cases l) (auto simp: stuff_line_def dot_stuff_inside)

lemma dot_stuff_frame: "list_all (\<lambda>l. 10 \<notin> set l) ls \<Longrightarrow> dot_stuff True (smtp_frame ls) = smtp_frame (map stuff_line ls)"
  by (induction ls) (simp_all add: smtp_frame_def CRLF_def dot_stuff_line)

lemma stuff_line_facts:
  "stuff_line l \<noteq> [46]" "unstuff (stuff_line l) = l" "length (stuff_line l) \<le> Suc (length l)"
  "10 \<notin> set l \<Longrightarrow> 10 \<notin> set (stuff_line l)"
  by (cases l; auto simp: stuff_line_def unstuff_def)+

lemma tcp_line_content:
  assumes "tc_in_data st" "ms_phase (tc_session st) = Data" "\<not> ms_size_exceeded (tc_session st)"
    and "length (ms_data (tc_session st)) + length l + 2 \<le> ig_max_message_bytes g"
  shows "tcp_line K C L g tls peer now st (stuff_line l)
    = (Continue, st\<lparr>tc_session := (tc_session st)\<lparr>ms_data := ms_data (tc_session st) @ l @ CRLF\<rparr>\<rparr>)"
  using assms stuff_line_facts(1) [of l]
  by (simp add: tcp_line_def feed_line_bytes_def feed_data_def session_reply_def reply_def stuff_line_facts(2) Let_def)

lemma handle_loop_content:
  assumes "list_all (\<lambda>l. 10 \<notin> set l \<and> length l + 1 < MAX_SMTP_LINE) ls" "\<And>n. \<not> late n"
    and "tc_in_data st" "ms_phase (tc_session st) = Data" "\<not> ms_size_exceeded (tc_session st)"
    and "length (ms_data (tc_session st)) + length (smtp_frame ls) \<le> ig_max_message_bytes g"
  shows "handle_loop K C L g tls peer now handshake late n st (map Byte (smtp_frame (map stuff_line ls)) @ rest)
    = handle_loop K C L g tls peer now handshake late (n + length ls)
        (st\<lparr>tc_session := (tc_session st)\<lparr>ms_data := ms_data (tc_session st) @ smtp_frame ls\<rparr>\<rparr>) rest"
  using assms
proof (induction ls arbitrary: n st)
  case Nil
  then show ?case by (simp add: smtp_frame_def)
next
  case (Cons l ls)
  let ?st = "st\<lparr>tc_session := (tc_session st)\<lparr>ms_data := ms_data (tc_session st) @ l @ CRLF\<rparr>\<rparr>"
  let ?tail = "map Byte (smtp_frame (map stuff_line ls)) @ rest"
  have f: "smtp_frame (x # xs) = x @ CRLF @ smtp_frame xs" for x xs by (simp add: smtp_frame_def)
  have "10 \<notin> set (stuff_line l)" "length (stuff_line l) < MAX_SMTP_LINE"
    using Cons.prems(1) stuff_line_facts(3,4) [of l] by auto
  from read_line_crlf [OF this, of ?tail]
  have rd: "read_line (map Byte (smtp_frame (stuff_line l # map stuff_line ls)) @ rest) = (Inr (Some (stuff_line l)), ?tail)"
    by (simp add: f CRLF_def)
  have "tcp_line K C L g tls peer now st (stuff_line l) = (Continue, ?st)"
    using Cons.prems by (intro tcp_line_content) (simp_all add: f CRLF_def)
  then have "handle_loop K C L g tls peer now handshake late n st (map Byte (smtp_frame (map stuff_line (l # ls))) @ rest)
      = handle_loop K C L g tls peer now handshake late (n + 1) ?st ?tail"
    using Cons.prems(2) by (subst handle_loop.simps) (simp add: rd)
  also have "\<dots> = handle_loop K C L g tls peer now handshake late (n + 1 + length ls)
      (?st\<lparr>tc_session := (tc_session ?st)\<lparr>ms_data := ms_data (tc_session ?st) @ smtp_frame ls\<rparr>\<rparr>) rest"
    by (rule Cons.IH) (use Cons.prems in \<open>simp_all add: f CRLF_def\<close>)
  finally show ?case by (simp add: f)
qed

text \<open>
  The lines a message arrives as: those it has, and what is left after its last line break, which the
  client terminates; an empty message arrives as one empty line.
\<close>

definition arriving_lines :: "bytes list \<Rightarrow> bytes \<Rightarrow> bytes list" where
  "arriving_lines ls partial = (if partial = [] \<and> ls \<noteq> [] then ls else ls @ [partial])"

lemma dot_stuff_last: "10 \<notin> set l \<Longrightarrow> dot_stuff False l = l" "10 \<notin> set l \<Longrightarrow> dot_stuff True l = stuff_line l"
proof -
  show f: "dot_stuff False l = l" if "10 \<notin> set l" for l using that by (induction l) auto
  show "dot_stuff True l = stuff_line l" if "10 \<notin> set l" using that by (cases l) (auto simp: stuff_line_def f)
qed

lemma dot_stuff_message:
  "list_all (\<lambda>l. 10 \<notin> set l) ls \<Longrightarrow> 10 \<notin> set partial \<Longrightarrow>
   dot_stuff True (smtp_frame ls @ partial) = smtp_frame (map stuff_line ls) @ stuff_line partial"
  by (induction ls) (simp_all add: smtp_frame_def CRLF_def dot_stuff_line dot_stuff_last)

text \<open>What the client writes for a message, when every write goes through and the final reply is read.\<close>

lemma send_data_writes:
  assumes "list_all (\<lambda>l. 10 \<notin> set l) ls" "10 \<notin> set partial" "cs_wfail s = (\<lambda>_. None)"
    and "send_data (smtp_frame ls @ partial) s = (Inr res, s')" "cs_out s' = cs_out s @ ws"
  shows "concat (map snd ws) = smtp_frame (map stuff_line (arriving_lines ls partial)) @ smtp_line ''.'' @ smtp_line ''QUIT''"
proof -
  let ?m = "smtp_frame ls @ partial"
  have w: "client_write x s' = (Inr (), s'\<lparr>cs_out := cs_out s' @ [(cs_tls s', x)]\<rparr>)" if "cs_wfail s' = (\<lambda>_. None)" for x s'
    using that by (simp add: client_write_def)
  have ends: "take 2 (rev ?m) = [10, 13] \<longleftrightarrow> partial = [] \<and> ls \<noteq> []"
  proof (cases partial rule: rev_cases)
    case Nil
    then show ?thesis by (cases ls rule: rev_cases) (simp_all add: smtp_frame_def CRLF_def)
  next
    case (snoc xs x)
    then show ?thesis using assms(2) by auto
  qed
  let ?data = "if partial = [] \<and> ls \<noteq> [] then [dot_stuff True ?m] else [dot_stuff True ?m, CRLF]"
  let ?s1 = "s\<lparr>cs_out := cs_out s @ map (Pair (cs_tls s)) (?data @ [smtp_line ''.''])\<rparr>"
  have sd: "send_data ?m s = act_bind client_read_reply (\<lambda>(final_code, final_text) s.
       (Inr (classify final_code final_text), snd (client_write (smtp_line ''QUIT'') s))) ?s1"
    unfolding send_data_def ends by (simp add: act_bind_def act_return_def w assms(3))
  obtain rr rest where rr: "client_read_reply ?s1 = (rr, ?s1\<lparr>cs_in := rest\<rparr>)"
    by (cases "read_reply (cs_in ?s1)") (simp add: client_read_reply_def)
  obtain code text' where ok: "rr = Inr (code, text')"
    using assms(4) unfolding sd act_bind_def rr by (cases rr) (auto split: prod.splits)
  have "s' = ?s1\<lparr>cs_in := rest, cs_out := cs_out ?s1 @ [(cs_tls s, smtp_line ''QUIT'')]\<rparr>"
    using assms(4) unfolding sd act_bind_def rr ok by (simp add: w assms(3))
  then have "ws = map (Pair (cs_tls s)) (?data @ [smtp_line ''.'', smtp_line ''QUIT''])"
    using assms(5) by simp
  then show ?thesis
    using dot_stuff_message [OF assms(1,2)] by (auto simp: arriving_lines_def smtp_frame_def stuff_line_def)
qed

lemma handle_loop_quit:
  assumes "\<not> late n" "\<not> tc_in_data st" "ms_phase (tc_session st) = Command"
  shows "handle_loop K C L g tls peer now handshake late n st (map Byte (smtp_line ''QUIT'') @ rest)
    = (Inr (), emit st [reply_wire (reply 221 ''2.0.0 bye'')])"
proof -
  have l: "lossy (str_bytes ''QUIT'') = ''QUIT''" by (rule lossy_ascii) (simp add: ascii_str_def)
  have v: "tcp_verb ''QUIT'' = ''QUIT''"
    by (simp add: tcp_verb_def to_ascii_uppercase_def to_upper_char_def is_ascii_lowercase_def)
  have c: "command_of (str_bytes ''QUIT'') = (''QUIT'', [])"
    unfolding command_of_def l
    by (simp add: trim_def trim_end_while_def is_whitespace_def to_ascii_uppercase_def to_upper_char_def is_ascii_lowercase_def)
  have f: "feed_line K C L g (tc_world st) (tc_session st) ''QUIT'' = (reply 221 ''2.0.0 bye'', tc_world st, tc_session st)"
    unfolding feed_line_def feed_line_by_phase(2) [OF assms(3)] c by simp
  have t: "tcp_line K C L g tls peer now st (str_bytes ''QUIT'') = (Quit, emit st [reply_wire (reply 221 ''2.0.0 bye'')])"
    unfolding tcp_line_def l Let_def v f using assms(2) by (simp add: session_reply_def)
  have "read_line (map Byte (str_bytes ''QUIT'' @ [13, 10]) @ rest) = (Inr (Some (str_bytes ''QUIT'')), rest)"
    by (rule read_line_crlf) (simp_all add: str_bytes_def MAX_SMTP_LINE_def)
  then show ?thesis
    unfolding handle_loop.simps [of K C L g tls peer now handshake late n st] smtp_line_def CRLF_def
    by (simp only: t prod.case sum.case option.case TcpNext.case assms(1) if_False)
qed

lemma handle_loop_message:
  assumes "list_all (\<lambda>l. 10 \<notin> set l \<and> length l + 1 < MAX_SMTP_LINE) ls" "\<And>n. \<not> late n"
    and "tc_in_data st" "ms_phase (tc_session st) = Data" "\<not> ms_size_exceeded (tc_session st)"
    and "ms_data (tc_session st) = []" "length (smtp_frame ls) \<le> ig_max_message_bytes g"
    and "ms_mail_from (tc_session st) = Some a" "ms_rcpt_to (tc_session st) = Some b"
    and "accept_message_with_spf K C L g (tc_world st) a b (smtp_frame ls) (ms_now (tc_session st)) (ms_spf_outcome (tc_session st)) = (r, w')"
  shows "handle_loop K C L g tls peer now handshake late n st (map Byte (smtp_frame (map stuff_line ls) @ smtp_line ''.'') @ rest)
    = handle_loop K C L g tls peer now handshake late (n + length ls + 1)
        (st\<lparr>tc_world := w', tc_session := reset_transaction ((tc_session st)\<lparr>ms_phase := Command\<rparr>),
            tc_out := tc_out st @ [reply_wire r], tc_in_data := False\<rparr>) rest"
proof -
  let ?st = "st\<lparr>tc_session := (tc_session st)\<lparr>ms_data := ms_data (tc_session st) @ smtp_frame ls\<rparr>\<rparr>"
  have d: "map Byte (smtp_frame (map stuff_line ls) @ smtp_line ''.'') @ rest
      = map Byte (smtp_frame (map stuff_line ls)) @ map Byte ([46] @ [13, 10]) @ rest"
    by (simp add: smtp_line_def CRLF_def)
  have "handle_loop K C L g tls peer now handshake late n st (map Byte (smtp_frame (map stuff_line ls) @ smtp_line ''.'') @ rest)
      = handle_loop K C L g tls peer now handshake late (n + length ls) ?st (map Byte ([46] @ [13, 10]) @ rest)"
    unfolding d by (rule handle_loop_content) (use assms in simp_all)
  also have "\<dots> = handle_loop K C L g tls peer now handshake late (n + length ls + 1)
        (st\<lparr>tc_world := w', tc_session := reset_transaction ((tc_session st)\<lparr>ms_phase := Command\<rparr>),
            tc_out := tc_out st @ [reply_wire r], tc_in_data := False\<rparr>) rest"
  proof -
    have "sr_code r \<noteq> 0" using accept_message_code [of K C L g "tc_world st" a b "smtp_frame ls"] assms(10) by (metis fst_conv)
    then have "tcp_line K C L g tls peer now ?st [46] = (Continue,
        st\<lparr>tc_world := w', tc_session := reset_transaction ((tc_session st)\<lparr>ms_phase := Command\<rparr>),
            tc_out := tc_out st @ [reply_wire r], tc_in_data := False\<rparr>)"
      using assms by (simp add: tcp_line_def feed_line_bytes_def feed_data_def session_reply_def emit_def reset_transaction_def Let_def)
    moreover have "read_line (map Byte ([46] @ [13, 10]) @ rest) = (Inr (Some [46]), rest)"
      by (rule read_line_crlf) (simp_all add: MAX_SMTP_LINE_def)
    ultimately show ?thesis using assms(2) by (subst handle_loop.simps) simp
  qed
  finally show ?thesis .
qed

text \<open>
  (C16) What one gateway sends another receives. Let the client have come to the point where it sends the
  message, every write go through and the final reply be read, and let the server be in the data phase
  with nothing buffered and its deadline not past. For a message in which every line feed follows a
  carriage return, whose lines are shorter than the line limit and which fits the size limit, what the
  client writes, whatever dots are in it, makes the connection loop of the inbound MX decide on exactly
  that message, its last line terminated, answer once with that decision, take the QUIT and end.
\<close>

theorem framing_reaches_session:
  assumes "list_all (\<lambda>l. 10 \<notin> set l \<and> length l + 1 < MAX_SMTP_LINE) (arriving_lines ls partial)" "\<And>n. \<not> late n"
    and "cs_wfail s = (\<lambda>_. None)" "send_data (smtp_frame ls @ partial) s = (Inr res, s')" "cs_out s' = cs_out s @ ws"
    and "tc_in_data st" "ms_phase (tc_session st) = Data" "\<not> ms_size_exceeded (tc_session st)"
    and "ms_data (tc_session st) = []" "length (smtp_frame (arriving_lines ls partial)) \<le> ig_max_message_bytes g"
    and "ms_mail_from (tc_session st) = Some a" "ms_rcpt_to (tc_session st) = Some b"
    and "accept_message_with_spf K C L g (tc_world st) a b (smtp_frame (arriving_lines ls partial)) (ms_now (tc_session st))
           (ms_spf_outcome (tc_session st)) = (r, w')"
  shows "handle_loop K C L g tls peer now handshake late n st (map Byte (concat (map snd ws)) @ rest)
    = (Inr (), st\<lparr>tc_world := w', tc_session := reset_transaction ((tc_session st)\<lparr>ms_phase := Command\<rparr>),
            tc_out := tc_out st @ [reply_wire r, reply_wire (reply 221 ''2.0.0 bye'')], tc_in_data := False\<rparr>)"
proof -
  have "list_all (\<lambda>l. 10 \<notin> set l) ls" "10 \<notin> set partial"
    using assms(1) by (auto simp: arriving_lines_def list_all_iff split: if_splits)
  note b = send_data_writes [OF this assms(3-5)]
  let ?st = "st\<lparr>tc_world := w', tc_session := reset_transaction ((tc_session st)\<lparr>ms_phase := Command\<rparr>),
            tc_out := tc_out st @ [reply_wire r], tc_in_data := False\<rparr>"
  have bytes: "map Byte (concat (map snd ws)) @ rest
      = map Byte (smtp_frame (map stuff_line (arriving_lines ls partial)) @ smtp_line ''.'') @ map Byte (smtp_line ''QUIT'') @ rest"
    by (simp add: b)
  have "handle_loop K C L g tls peer now handshake late n st (map Byte (concat (map snd ws)) @ rest)
      = handle_loop K C L g tls peer now handshake late (n + length (arriving_lines ls partial) + 1) ?st (map Byte (smtp_line ''QUIT'') @ rest)"
    unfolding bytes using assms(1,2,6-13) by (rule handle_loop_message)
  also have "\<dots> = (Inr (), emit ?st [reply_wire (reply 221 ''2.0.0 bye'')])"
    using assms(2) by (rule handle_loop_quit) (simp_all add: reset_transaction_def)
  finally show ?thesis by (simp add: emit_def)
qed

section \<open>A concrete transport\<close>

definition sample_transport :: "unit SmtpTcpTransport" where
  "sample_transport = transport_new ''gw.b.org'' Inr (\<lambda>_ _. Inr [(V4 0x7F000001, 25), (V4 0x08080808, 25)])
     (\<lambda>_. Inr (map Byte (smtp_line ''220 hi'' @ smtp_line ''250 c.net''), \<lambda>_. None)) (\<lambda>_ _. Inl ())"

lemma sample_transport_facts:
  "domain_to_ascii (st_idna sample_transport) ''c.net'' = Inr ''c.net''"
  "dial_addr sample_transport ''c.net'' = Inr (V4 0x08080808, 25)"
  by (simp_all add: sample_transport_def transport_new_def domain_to_ascii_def strip_suffix_def strip_prefix_def starts_with_def
      dial_addr_def is_forbidden_v4_def v4_octet_def)

lemma sample_connects: "\<exists>r c. try_run sample_transport (\<lambda>_. []) ''c.net'' m tls = (r, Some ((V4 0x08080808, 25), c))"
  by (cases "conversation sample_transport ''c.net'' m tls \<lparr> cs_tls = False,
        cs_in = map Byte (smtp_line ''220 hi'' @ smtp_line ''250 c.net''), cs_out = [], cs_wfail = \<lambda>_. None \<rparr>")
     (simp add: try_run_def sample_transport_facts, simp add: sample_transport_def transport_new_def)

theorem required_tls_never_clear_witness:
  "\<exists>r addr c. try_run sample_transport (\<lambda>_. []) ''c.net'' [1] True = (r, Some (addr, c))
     \<and> list_all (\<lambda>(tls, b). tls \<or> b = smtp_line ''EHLO gw.b.org'' \<or> b = smtp_line ''STARTTLS'') (cs_out c)"
proof -
  obtain r c where e: "try_run sample_transport (\<lambda>_. []) ''c.net'' [1] True = (r, Some ((V4 0x08080808, 25), c))"
    using sample_connects by blast
  from required_tls_never_clear [OF e] e show ?thesis by (simp add: sample_transport_def transport_new_def)
qed

theorem never_dials_inside_witness:
  "\<exists>addr c. snd (try_run sample_transport (\<lambda>_. []) ''c.net'' [1] False) = Some (addr, c) \<and> \<not> inside_address (fst addr)"
proof -
  obtain r c where e: "try_run sample_transport (\<lambda>_. []) ''c.net'' [1] False = (r, Some ((V4 0x08080808, 25), c))"
    using sample_connects by blast
  have "st_fixed_addr sample_transport = None" by (simp add: sample_transport_def transport_new_def)
  from never_dials_inside [OF this e] e show ?thesis by auto
qed

definition sample_mail :: bytes where
  "sample_mail = str_bytes ''From: a@b.org'' @ CRLF @ str_bytes ''To: z@c.net'' @ CRLF @ CRLF"

lemma sample_mail_addrs: "header_addr sample_mail ''from'' = Some ''a@b.org''" "header_addr sample_mail ''to'' = Some ''z@c.net''"
proof -
  have h: "take 26 sample_mail = str_bytes ''From: a@b.org'' @ [13, 10] @ str_bytes ''To: z@c.net'' @ []"
    by (simp add: sample_mail_def CRLF_def str_bytes_def)
  have i: "find_sub [13, 10, 13, 10] sample_mail = Some 26" by (simp add: sample_mail_def CRLF_def str_bytes_def)
  have u: "from_utf8_lossy (take 26 sample_mail) = take 26 sample_mail"
    unfolding h by (rule from_utf8_lossy_ascii) (simp add: ascii_bytes_def str_bytes_def)
  have s: "split_crlf (take 26 sample_mail) = [str_bytes ''From: a@b.org'', str_bytes ''To: z@c.net'']"
    unfolding h by (simp add: str_bytes_def)
  have l: "header_line_addr ''from'' ''From: a@b.org'' = Some ''a@b.org''" "header_line_addr ''to'' ''From: a@b.org'' = None"
    "header_line_addr ''to'' ''To: z@c.net'' = Some ''z@c.net''"
    by (simp_all add: header_line_addr_def header_value_addr_def trim_def trim_end_while_def is_whitespace_def
        eq_ignore_ascii_case_def to_ascii_lowercase_def to_lower_char_def is_ascii_uppercase_def rfind_char_def
        split_whitespace_def trim_matches_def char_of_eq_iff)
  show "header_addr sample_mail ''from'' = Some ''a@b.org''" "header_addr sample_mail ''to'' = Some ''z@c.net''"
    unfolding header_addr_def i option.case Let_def u s by (simp_all only: find_map.simps bytes_str_bytes l option.case)
qed

lemma data_completion_reported_delivered_witness:
  "fst (send_mail ''c.net'' sample_mail [] \<lparr> cs_tls = True, cs_in = concat (replicate 3 (map Byte (smtp_line ''250 ok''))) @ [],
      cs_out = [], cs_wfail = (\<lambda>_. None :: unit option) \<rparr>) = Inr (TransportDelivered 250)"
proof -
  have "list_all (\<lambda>x. x < 0x80) sample_mail" by (simp add: sample_mail_def CRLF_def str_bytes_def)
  then show ?thesis
    by (subst data_completion_reported_delivered [OF sample_mail_addrs, where rest = "[]"]) (simp_all add: ascii_str_def)
qed

text \<open>A client that is answered, and a message with a dot at the start of a line and no final line break.\<close>

definition sample_sender :: "unit Client" where
  "sample_sender = \<lparr> cs_tls = True, cs_in = map Byte (smtp_line ''250 ok''), cs_out = [], cs_wfail = (\<lambda>_. None) \<rparr>"

lemma sample_sends:
  "\<exists>s'. send_data (smtp_frame [[46]] @ [46, 104, 105]) sample_sender = (Inr (TransportDelivered 250), s')
     \<and> cs_out s' = cs_out sample_sender @ [(True, [46, 46, 13, 10, 46, 46, 104, 105]), (True, CRLF), (True, smtp_line ''.''), (True, smtp_line ''QUIT'')]"
proof -
  have w: "client_write x s' = (Inr (), s'\<lparr>cs_out := cs_out s' @ [(cs_tls s', x)]\<rparr>)" if "cs_wfail s' = (\<lambda>_. None)" for x and s' :: "unit Client"
    using that by (simp add: client_write_def)
  have rd: "client_read_reply s' = (Inr (250, ''ok''), s'\<lparr>cs_in := []\<rparr>)" if "cs_in s' = map Byte (smtp_line ''250 ok'')" for s' :: "unit Client"
    using that read_reply_250 [of "[] :: unit ReadEvent list"] by (simp add: client_read_reply_def)
  show ?thesis
    by (simp add: send_data_def act_bind_def act_return_def smtp_frame_def w rd sample_sender_def classify_def) (simp add: CRLF_def)
qed

theorem framing_reaches_session_witness:
  "\<exists>s'. send_data (smtp_frame [[46]] @ [46, 104, 105]) sample_sender = (Inr (TransportDelivered 250), s')
    \<and> handle_loop (ref_kotva (RU64 0)) sample_crypto sample_lib sample_gateway False ''9.9.9.9'' 5 (\<lambda>_. Inr []) (\<lambda>_. False) 0
     (sample_tcp\<lparr>tc_in_data := True, tc_session := sample_session\<lparr>ms_data := []\<rparr>\<rparr>)
     (map Byte (concat (map snd (cs_out s'))) @ ([] :: unit ReadEvent list))
   = (Inr (), sample_tcp\<lparr>tc_world := snd (accept_message_with_spf (ref_kotva (RU64 0)) sample_crypto sample_lib sample_gateway
            sample_world ''a@c'' ''u@b.org'' [46, 13, 10, 46, 104, 105, 13, 10] 5 (Some unevaluated)),
        tc_session := reset_transaction (sample_session\<lparr>ms_data := [], ms_phase := Command\<rparr>),
        tc_out := [reply_wire (fst (accept_message_with_spf (ref_kotva (RU64 0)) sample_crypto sample_lib sample_gateway
            sample_world ''a@c'' ''u@b.org'' [46, 13, 10, 46, 104, 105, 13, 10] 5 (Some unevaluated))),
          reply_wire (reply 221 ''2.0.0 bye'')]\<rparr>)"
proof -
  let ?st = "sample_tcp\<lparr>tc_in_data := True, tc_session := sample_session\<lparr>ms_data := []\<rparr>\<rparr>"
  obtain s' ws where s: "send_data (smtp_frame [[46]] @ [46, 104, 105]) sample_sender = (Inr (TransportDelivered 250), s')"
    "cs_out s' = cs_out sample_sender @ ws" using sample_sends by blast
  have o: "cs_out s' = ws" using s(2) by (simp add: sample_sender_def)
  have l: "arriving_lines [[46]] [46, 104, 105] = [[46], [46, 104, 105]]" "smtp_frame [[46], [46, 104, 105]] = [46, 13, 10, 46, 104, 105, 13, 10]"
    by (simp_all add: arriving_lines_def smtp_frame_def CRLF_def)
  have fits: "list_all (\<lambda>l. 10 \<notin> set l \<and> length l + 1 < MAX_SMTP_LINE) (arriving_lines [[46 :: u8]] [46, 104, 105])"
    by (simp add: l MAX_SMTP_LINE_def)
  have wf: "cs_wfail sample_sender = (\<lambda>_. None)" by (simp add: sample_sender_def)
  note f = framing_reaches_session [OF fits _ wf s, where st = ?st and g = sample_gateway and a = "''a@c''" and b = "''u@b.org''"
      and late = "\<lambda>_. False", OF _ _ _ _ _ _ _ _ surjective_pairing]
  show ?thesis
    by (intro exI [of _ s'] conjI s(1), unfold o, subst f)
       (simp_all add: l sample_session_def sample_tcp_def session_new_def sample_gateway_def inbound_new_def DEFAULT_MAX_MESSAGE_BYTES_def)
qed

end
