(* ===== verification/Gateway_Render.thy ===== *)
theory Gateway_Render
  imports Gateway_Outbound
begin

text \<open>
  What the rendered message is to a receiver: the parser of header blocks that the DKIM code uses
  finds exactly the eight fields the renderer wrote, in order, and the body; the signed message
  passes the DKIM check of the inbound side. Values may be folded, as the encoders of \<open>kotva-mail\<close>
  fold them: a line break is always followed by a space.
\<close>

section \<open>Folded values\<close>

definition fold_sep :: string where
  "fold_sep = [CHR 0x0D, CHR 0x0A, CHR '' '']"

definition folds_ok :: "string \<Rightarrow> bool" where
  "folds_ok v = (\<forall>i < length v. v ! i = CHR 0x0D \<longrightarrow> take 3 (drop i v) = fold_sep)"

lemma folds_ok_clean: "CHR 0x0D \<notin> set s \<Longrightarrow> folds_ok s"
  unfolding folds_ok_def by (metis nth_mem)

lemma folds_ok_Cons: "folds_ok (c # r) \<longleftrightarrow> (c = CHR 0x0D \<longrightarrow> take 3 (c # r) = fold_sep) \<and> folds_ok r"
  unfolding folds_ok_def by (auto simp: nth_Cons split: nat.splits)

lemma folds_ok_append:
  assumes "folds_ok a" "folds_ok b"
  shows "folds_ok (a @ b)"
  unfolding folds_ok_def
proof (intro allI impI)
  fix i
  assume i: "i < length (a @ b)" "(a @ b) ! i = CHR 0x0D"
  show "take 3 (drop i (a @ b)) = fold_sep"
  proof (cases "i < length a")
    case True
    then have t: "take 3 (drop i a) = fold_sep" using assms(1) i(2) by (auto simp: folds_ok_def nth_append)
    from arg_cong [OF t, of length] have "3 \<le> length a - i" by (simp add: fold_sep_def min_def split: if_splits)
    with t show ?thesis by simp
  next
    case False
    then show ?thesis using assms(2) i by (auto simp: folds_ok_def nth_append)
  qed
qed

lemma join_cons_char: "cs \<noteq> [] \<Longrightarrow> join sep ((x # hd cs) # tl cs) = x # join sep cs"
  by (cases cs; cases "tl cs") auto

text \<open>A folded value is its lines, joined by the line breaks of the folds.\<close>

lemma folds_ok_lines:
  assumes "folds_ok v"
  shows "\<exists>cs. cs \<noteq> [] \<and> v = join fold_sep cs \<and> list_all (\<lambda>c. CHR 0x0D \<notin> set c) cs"
  using assms
proof (induction v rule: length_induct)
  case (1 v)
  show ?case
  proof (cases v)
    case Nil
    then show ?thesis by (intro exI [of _ "[[]]"]) simp
  next
    case (Cons c r)
    then have r: "folds_ok r" "length r < length v" using 1(2) by (simp_all add: folds_ok_Cons)
    show ?thesis
    proof (cases "c = CHR 0x0D")
      case True
      then have "take 3 v = fold_sep" using 1(2) Cons by (simp add: folds_ok_Cons)
      then have v: "v = fold_sep @ drop 3 v" by (metis append_take_drop_id)
      then have "folds_ok (fold_sep @ drop 3 v)" using 1(2) by simp
      then have "folds_ok (drop 3 v)" by (simp add: fold_sep_def folds_ok_Cons)
      moreover have "length (drop 3 v) < length v" using Cons by simp
      ultimately obtain cs where cs: "cs \<noteq> []" "drop 3 v = join fold_sep cs" "list_all (\<lambda>c. CHR 0x0D \<notin> set c) cs"
        using 1(1) by blast
      have "v = join fold_sep ([] # cs)" using v cs by (cases cs) simp_all
      then show ?thesis using cs(3) by (intro exI [of _ "[] # cs"]) simp
    next
      case False
      obtain cs where cs: "cs \<noteq> []" "r = join fold_sep cs" "list_all (\<lambda>c. CHR 0x0D \<notin> set c) cs"
        using 1(1) r by blast
      then have "v = join fold_sep ((c # hd cs) # tl cs)" using Cons join_cons_char [OF cs(1)] by simp
      then show ?thesis using cs(1,3) False by (intro exI [of _ "(c # hd cs) # tl cs"], cases cs) simp_all
    qed
  qed
qed

section \<open>Header blocks\<close>

lemma split_crlf_clean: "13 \<notin> set l \<Longrightarrow> split_crlf l = [l]"
  by (induction l rule: split_crlf.induct) auto

lemma split_join_crlf:
  "ls \<noteq> [] \<Longrightarrow> list_all (\<lambda>l. 13 \<notin> set l) ls \<Longrightarrow> split_crlf (join_crlf ls) = ls"
  by (induction ls rule: join_crlf.induct) (simp_all add: split_crlf_clean CRLF_def split_crlf_line)

lemma find_blank_join:
  "ls \<noteq> [] \<Longrightarrow> list_all (\<lambda>l. l \<noteq> [] \<and> 13 \<notin> set l) ls \<Longrightarrow>
   find_blank_line (join_crlf ls @ [13, 10, 13, 10] @ body) = Some (length (join_crlf ls))"
proof (induction ls rule: join_crlf.induct)
  case (2 l)
  then show ?case using find_blank_skip [of l "[13, 10, 13, 10] @ body"] by (simp add: find_blank_line_def)
next
  case (3 l m ls)
  let ?r = "join_crlf (m # ls) @ [13, 10, 13, 10] @ body"
  obtain x m' where m: "m = x # m'" "x \<noteq> 13" using 3(3) by (cases m) auto
  then obtain r' where r: "?r = x # r'" by (cases ls) auto
  have "find_blank_line (13 # 10 # ?r) = map_option (\<lambda>i. Suc (Suc i)) (find_blank_line ?r)"
    unfolding r using m(2) by (simp add: find_blank_line_def take_Cons' option.map_comp comp_def)
  then show ?case using 3 find_blank_skip [of l "13 # 10 # ?r"]
    by (simp add: find_blank_line_def CRLF_def)
qed simp

text \<open>A field and the lines it takes: its first line, and the lines of its folds.\<close>

definition field_name :: "string \<Rightarrow> bool" where
  "field_name n = (n \<noteq> [] \<and> list_all (\<lambda>c. tag_char c \<and> c \<noteq> CHR '':'') n)"

definition field_lines :: "string \<Rightarrow> string list \<Rightarrow> bytes list" where
  "field_lines n cs = str_bytes (n @ '': '' @ hd cs) # map (\<lambda>c. str_bytes (CHR '' '' # c)) (tl cs)"

lemma find_colon: "list_all (\<lambda>c. tag_char c \<and> c \<noteq> CHR '':'') n \<Longrightarrow> find_sub [58] (str_bytes (n @ '':'' @ v)) = Some (length n)"
  proof (induction n)
  case (Cons c n)
  have "(of_char c :: u8) \<noteq> of_char (CHR '':'')" using Cons.prems by (simp only: of_char_word_inject) simp
  with Cons show ?case by (simp add: str_bytes_def)
qed (simp add: str_bytes_def)


lemma of_char_whitespace: "\<not> is_whitespace c \<Longrightarrow> \<not> is_wsp (of_char c)"
proof
  assume "\<not> is_whitespace c" "is_wsp (of_char c)"
  then have "(of_char c :: u8) = of_char (CHR '' '') \<or> (of_char c :: u8) = of_char (CHR 0x09)" by (simp add: is_wsp_def)
  then have "c = CHR '' '' \<or> c = CHR 0x09" by (simp only: of_char_word_inject)
  with \<open>\<not> is_whitespace c\<close> show False by (auto simp: is_whitespace_def)
qed

lemma field_name_facts:
  assumes "field_name n"
  shows "str_bytes n \<noteq> []" "\<not> is_wsp (hd (str_bytes n))" "lossy (str_bytes n) = n" "CHR 0x0D \<notin> set n"
proof -
  show "str_bytes n \<noteq> []" using assms by (simp add: field_name_def str_bytes_def)
  show "\<not> is_wsp (hd (str_bytes n))" using assms
    by (cases n) (auto simp: field_name_def str_bytes_def tag_char_def of_char_whitespace)
  show "lossy (str_bytes n) = n" using assms
    by (intro lossy_ascii) (auto simp: field_name_def ascii_str_def tag_char_def list_all_iff)
  have "\<not> tag_char (CHR 0x0D)" by (simp add: tag_char_def is_whitespace_def)
  then show "CHR 0x0D \<notin> set n" using assms unfolding field_name_def list_all_iff by blast
qed

lemma push_first_line:
  assumes "field_name n"
  shows "push_header out (str_bytes (n @ '': '' @ c)) = out @ [(n, str_bytes (CHR '' '' # c))]"
proof -
  have "find_sub [58] (str_bytes (n @ '':'' @ '' '' @ c)) = Some (length n)"
    using assms by (intro find_colon) (simp add: field_name_def)
  then have "find_sub [58] (str_bytes (n @ '': '' @ c)) = Some (length n)" by simp
  then show ?thesis using field_name_facts [OF assms] by (simp add: push_header_def)
qed

lemma push_fold_lines:
  "foldl push_header (out @ [(n, v)]) (map (\<lambda>c. str_bytes (CHR '' '' # c)) cs)
   = out @ [(n, v @ concat (map (\<lambda>c. CRLF @ str_bytes (CHR '' '' # c)) cs))]"
proof (induction cs arbitrary: v)
  case (Cons c cs)
  have "push_header (out @ [(n, v)]) (str_bytes (CHR '' '' # c)) = out @ [(n, v @ CRLF @ str_bytes (CHR '' '' # c))]"
    by (simp add: push_header_def is_wsp_def str_bytes_def fold_into_def)
  then show ?case using Cons by simp
qed simp

lemma str_bytes_join_fold:
  "str_bytes (join fold_sep (c # cs)) = str_bytes c @ concat (map (\<lambda>c. CRLF @ str_bytes (CHR '' '' # c)) cs)"
  by (induction cs arbitrary: c) (simp_all add: fold_sep_def str_bytes_def CRLF_def)

lemma push_field:
  assumes "field_name n" "cs \<noteq> []"
  shows "foldl push_header out (field_lines n cs) = out @ [(n, str_bytes (CHR '' '' # join fold_sep cs))]"
proof -
  obtain c cs' where cs: "cs = c # cs'" using assms(2) by (cases cs) auto
  have s: "str_bytes (CHR '' '' # x) = [32] @ str_bytes x" for x by (simp add: str_bytes_def)
  show ?thesis
    unfolding cs field_lines_def list.sel foldl_Cons push_first_line [OF assms(1)] push_fold_lines
    by (simp only: s str_bytes_join_fold append_assoc)
qed

lemma join_crlf_append: "a \<noteq> [] \<Longrightarrow> b \<noteq> [] \<Longrightarrow> join_crlf (a @ b) = join_crlf a @ CRLF @ join_crlf b"
proof (induction a rule: join_crlf.induct)
  case (2 l)
  then show ?case by (cases b) simp_all
qed simp_all

lemma join_field_lines: "cs \<noteq> [] \<Longrightarrow> join_crlf (field_lines n cs) = str_bytes (n @ '': '' @ join fold_sep cs)"
proof (induction cs rule: rev_induct)
  case (snoc c cs)
  show ?case
  proof (cases "cs = []")
    case True
    then show ?thesis by (simp add: field_lines_def)
  next
    case False
    then obtain d ds where cs: "cs = d # ds" by (cases cs) auto
    have "field_lines n (cs @ [c]) = field_lines n cs @ [str_bytes (CHR '' '' # c)]"
      by (simp add: cs field_lines_def)
    moreover have "field_lines n cs \<noteq> []" by (simp add: field_lines_def)
    ultimately have "join_crlf (field_lines n (cs @ [c])) = join_crlf (field_lines n cs) @ CRLF @ str_bytes (CHR '' '' # c)"
      using join_crlf_append [of "field_lines n cs" "[str_bytes (CHR '' '' # c)]"] by simp
    then show ?thesis using snoc.IH False by (simp add: cs str_bytes_join_fold)
  qed
qed simp

definition header_block :: "(string \<times> string) list \<Rightarrow> bytes" where
  "header_block fs = concat (map (\<lambda>(n, v). header_line n v) fs)"

text \<open>The lines of a block of good fields, and what the parser makes of them.\<close>

lemma header_block_lines:
  assumes "fs \<noteq> []" "list_all (\<lambda>(n, v). field_name n \<and> folds_ok v) fs"
  shows "\<exists>ls. ls \<noteq> [] \<and> header_block fs = join_crlf ls @ CRLF \<and> list_all (\<lambda>l. l \<noteq> [] \<and> 13 \<notin> set l) ls
    \<and> hd ls = str_bytes (fst (hd fs)) @ 58 # tl (drop (length (fst (hd fs))) (hd ls))
    \<and> (\<forall>out. foldl push_header out ls = out @ map (\<lambda>(n, v). (n, str_bytes (CHR '' '' # v))) fs)"
  using assms
proof (induction fs)
  case (Cons f fs)
  obtain n v where f: "f = (n, v)" by (cases f)
  have n: "field_name n" and v: "folds_ok v" using Cons.prems(2) by (simp_all add: f)
  obtain cs where cs: "cs \<noteq> []" "v = join fold_sep cs" "list_all (\<lambda>c. CHR 0x0D \<notin> set c) cs"
    using folds_ok_lines [OF v] by blast
  let ?l = "field_lines n cs"
  have hl: "header_line n v = join_crlf ?l @ CRLF" by (simp add: header_line_def join_field_lines cs)
  have clean: "list_all (\<lambda>c. c \<noteq> CHR 0x0D) (n @ '': '' @ hd cs)" "list_all (\<lambda>c. list_all (\<lambda>x. x \<noteq> CHR 0x0D) (CHR '' '' # c)) (tl cs)"
    using field_name_facts(4) [OF n] cs(1,3) by (cases cs; fastforce simp: list_all_iff)+
  have "13 \<notin> set (str_bytes (n @ '': '' @ hd cs))" "list_all (\<lambda>c. 13 \<notin> set (str_bytes (CHR '' '' # c))) (tl cs)"
    using str_bytes_no_cr [OF clean(1)] clean(2) by (blast, metis (no_types, lifting) list_all_iff str_bytes_no_cr)
  then have lok: "list_all (\<lambda>l. l \<noteq> [] \<and> 13 \<notin> set l) ?l"
    by (auto simp: field_lines_def list_all_iff str_bytes_def)
  have hd_l: "hd ?l = str_bytes n @ 58 # tl (drop (length n) (hd ?l))"
    by (simp add: field_lines_def str_bytes_def)
  have lne: "?l \<noteq> []" by (simp add: field_lines_def)
  show ?case
  proof (cases "fs = []")
    case True
    then show ?thesis using hl lok hd_l lne
      by (intro exI [of _ ?l]) (simp add: f header_block_def push_field [OF n cs(1)] cs(2))
  next
    case False
    then obtain ls where ls: "ls \<noteq> []" "header_block fs = join_crlf ls @ CRLF" "list_all (\<lambda>l. l \<noteq> [] \<and> 13 \<notin> set l) ls"
      "\<forall>out. foldl push_header out ls = out @ map (\<lambda>(n, v). (n, str_bytes (CHR '' '' # v))) fs"
      using Cons by auto
    have "header_block (f # fs) = join_crlf (?l @ ls) @ CRLF"
      using hl ls(2) by (simp add: f header_block_def join_crlf_append [OF lne ls(1)])
    then show ?thesis using lok hd_l lne ls
      by (intro exI [of _ "?l @ ls"]) (simp add: f push_field [OF n cs(1)] cs(2))
  qed
qed simp

lemma header_block_parses:
  assumes "fs \<noteq> []" "list_all (\<lambda>(n, v). field_name n \<and> folds_ok v) fs"
  shows "\<exists>idx. find_blank_line (header_block fs @ CRLF @ body) = Some idx
      \<and> first_is_field (take idx (header_block fs @ CRLF @ body))"
    and "split_headers_body (header_block fs @ CRLF @ body)
         = (map (\<lambda>(n, v). (n, str_bytes (CHR '' '' # v))) fs, body)"
proof -
  obtain ls where ls: "ls \<noteq> []" "header_block fs = join_crlf ls @ CRLF" "list_all (\<lambda>l. l \<noteq> [] \<and> 13 \<notin> set l) ls"
    "hd ls = str_bytes (fst (hd fs)) @ 58 # tl (drop (length (fst (hd fs))) (hd ls))"
    "\<And>out. foldl push_header out ls = out @ map (\<lambda>(n, v). (n, str_bytes (CHR '' '' # v))) fs"
    using header_block_lines [OF assms] by blast
  let ?m = "header_block fs @ CRLF @ body"
  have m: "?m = join_crlf ls @ [13, 10, 13, 10] @ body" by (simp add: ls(2) CRLF_def)
  have idx: "find_blank_line ?m = Some (length (join_crlf ls))" unfolding m by (rule find_blank_join [OF ls(1,3)])
  have t: "take (length (join_crlf ls)) ?m = join_crlf ls" "drop (length (join_crlf ls) + 4) ?m = body"
    unfolding m by simp_all
  have sp: "split_crlf (join_crlf ls) = ls"
    using ls(1,3) by (intro split_join_crlf) (auto simp: list_all_iff)
  have "field_name (fst (hd fs))" using assms by (cases fs) auto
  note n = field_name_facts [OF this]
  have "58 \<in> set (hd ls)" "\<not> is_wsp (hd (hd ls))" by (subst ls(4), simp add: n)+
  then have "first_is_field (join_crlf ls)"
    unfolding first_is_field_def sp using ls(1,3) by (cases ls) auto
  then show "\<exists>idx. find_blank_line ?m = Some idx \<and> first_is_field (take idx ?m)" using idx t by simp
  show "split_headers_body ?m = (map (\<lambda>(n, v). (n, str_bytes (CHR '' '' # v))) fs, body)"
    by (simp only: split_headers_body_def idx option.case t parse_headers_def sp ls(5) append_Nil)
qed

section \<open>Rendered messages\<close>

text \<open>
  What the libraries promise: encoders fold with a line break and a space and break no line
  otherwise, dates have no line break, and neither has a converted domain name.
\<close>

definition mt_safe :: "MailText \<Rightarrow> bool" where
  "mt_safe M \<longleftrightarrow>
     (\<forall>s. CHR 0x0D \<notin> set s \<longrightarrow> folds_ok (mt_encode_display_name M s))
     \<and> (\<forall>s. CHR 0x0D \<notin> set s \<longrightarrow> folds_ok (mt_encode_header_value M s))
     \<and> (\<forall>t. CHR 0x0D \<notin> set (mt_format_rfc5322_date M t))
     \<and> (\<forall>d a. mt_idna M d = Inr a \<longrightarrow> CHR 0x0D \<notin> set a)"

lemma set_trim_end_while: "set (trim_end_while p s) \<subseteq> set s"
  using set_dropWhileD [of _ p "rev s"] by (auto simp: trim_end_while_def)

lemma set_trim: "set (trim s) \<subseteq> set s"
  using set_trim_end_while [of is_whitespace "dropWhile is_whitespace s"] set_dropWhileD
  by (fastforce simp: trim_def)

lemma set_trim_matches: "set (trim_matches p s) \<subseteq> set s"
  using set_trim_end_while [of p "dropWhile p s"] set_dropWhileD by (fastforce simp: trim_matches_def)

lemma split_once_eq: "split_once c s = Some (a, b) \<Longrightarrow> s = a @ c # b"
  by (induction s arbitrary: a) (auto split: if_splits)

lemma rsplit_once_eq: "rsplit_once c s = Some (a, b) \<Longrightarrow> s = a @ c # b"
proof -
  assume "rsplit_once c s = Some (a, b)"
  then have "split_once c (rev s) = Some (rev b, rev a)" by (auto simp: rsplit_once_def)
  from split_once_eq [OF this] have "rev s = rev (a @ c # b)" by simp
  then show "s = a @ c # b" by (simp only: rev_is_rev_conv)
qed

lemma domain_to_ascii_idna: "domain_to_ascii idna d = Inr a \<Longrightarrow> idna d = Inr a"
  by (cases "idna d") (auto simp: domain_to_ascii_def Let_def split: if_splits option.splits)

lemma no_inject_ok: "no_inject s n = Inr u \<Longrightarrow> CHR 0x0D \<notin> set s"
proof
  assume a: "no_inject s n = Inr u" "CHR 0x0D \<in> set s"
  from a(2) have "(of_char (CHR 0x0D) :: u8) \<in> set (str_bytes s)" unfolding str_bytes_def set_map by (rule imageI)
  then have "list_ex (\<lambda>b. b = 13 \<or> b = 10 \<or> b = 0) (str_bytes s)" by (auto simp: list_ex_iff)
  with a(1) show False by (simp add: no_inject_def)
qed

lemma wire_address_clean:
  assumes "mt_safe M" "CHR 0x0D \<notin> set addr" "wire_address M addr = Inr (name, spec)"
  shows "CHR 0x0D \<notin> set spec" "name = Some nm \<Longrightarrow> CHR 0x0D \<notin> set nm"
proof -
  let ?raw = "trim addr"
  define ns where "ns = (case (find_char CHR ''<'' ?raw, rfind_char CHR ''>'' ?raw) of
      (Some l, Some r) \<Rightarrow>
        if l < r then (let name = trim (trim_matches (\<lambda>c. c = CHR 0x22) (trim (take l ?raw)))
                       in (if name = [] then None else Some name, trim (take (r - (l + 1)) (drop (l + 1) ?raw))))
        else (None, ?raw)
    | _ \<Rightarrow> (None, ?raw))"
  have raw: "CHR 0x0D \<notin> set ?raw" using assms(2) set_trim by blast
  have part: "CHR 0x0D \<notin> set (trim (take k (drop j ?raw)))" "CHR 0x0D \<notin> set (trim (trim_matches p (trim (take k ?raw))))" for k j p
    using raw set_trim set_trim_matches set_take_subset set_drop_subset by (meson in_mono)+
  have ns: "CHR 0x0D \<notin> set (snd ns)" "fst ns = Some x \<Longrightarrow> CHR 0x0D \<notin> set x" for x
    using raw part unfolding ns_def by (auto simp: Let_def split: option.splits if_splits)
  have w: "name = fst ns \<and> (spec = snd ns \<or> (\<exists>l d a. rsplit_once CHR ''@'' (snd ns) = Some (l, d)
      \<and> domain_to_ascii (mt_idna M) d = Inr a \<and> spec = l @ ''@'' @ a))"
    using assms(3) unfolding wire_address_def Let_def [of "trim addr"] ns_def [symmetric]
    by (cases ns) (auto simp: res_bind_def map_err_def split: option.splits if_splits sum.splits prod.splits)
  have asc: "CHR 0x0D \<notin> set a" if "domain_to_ascii (mt_idna M) d = Inr a" for d a
    using domain_to_ascii_idna [OF that] assms(1) unfolding mt_safe_def by blast
  show "CHR 0x0D \<notin> set spec" using w ns(1) asc rsplit_once_eq [of "CHR ''@''" "snd ns"] by fastforce
  show "CHR 0x0D \<notin> set nm" if "name = Some nm" using w ns(2) that by simp
qed

lemma wire_field_folds:
  assumes "mt_safe M" "CHR 0x0D \<notin> set addr" "wire_address_field M addr = Inr f"
  shows "folds_ok f"
proof -
  obtain name spec where w: "wire_address M addr = Inr (name, spec)"
    "f = (case name of Some n \<Rightarrow> mt_encode_display_name M n @ '' <'' @ spec @ ''>'' | None \<Rightarrow> spec)"
    using assms(3) by (cases "wire_address M addr") (auto simp: wire_address_field_def)
  note c = wire_address_clean [OF assms(1,2) w(1)]
  have s: "folds_ok ('' <'' @ spec @ ''>'')" "folds_ok spec" using c(1) by (auto intro!: folds_ok_clean)
  show ?thesis
  proof (cases name)
    case (Some n)
    then have "folds_ok (mt_encode_display_name M n)" using c(2) assms(1) unfolding mt_safe_def by blast
    from folds_ok_append [OF this s(1)] show ?thesis by (simp add: w(2) Some)
  qed (simp add: w(2) s)
qed

lemma addr_domain_clean: "CHR 0x0D \<notin> set s \<Longrightarrow> addr_domain_of s = Some d \<Longrightarrow> CHR 0x0D \<notin> set d"
proof
  assume a: "CHR 0x0D \<notin> set s" "addr_domain_of s = Some d" "CHR 0x0D \<in> set d"
  let ?t = "trim_end_matches CHR ''>'' (trim_start_matches CHR ''<'' (trim s))"
  obtain l where "rsplit_once CHR ''@'' ?t = Some (l, d)"
    using a(2) by (auto simp: addr_domain_of_def split: option.splits if_splits)
  then have "set d \<subseteq> set ?t" using rsplit_once_eq by fastforce
  also have "\<dots> \<subseteq> set s"
    using set_trim [of s] set_trim_end_while set_dropWhileD
    by (fastforce simp: trim_end_matches_def trim_start_matches_def)
  finally show False using a by blast
qed

lemma b64_id_clean: "CHR 0x0D \<notin> set (b64_id M b)"
proof -
  have "\<not> tag_char (CHR 0x0D)" by (simp add: tag_char_def is_whitespace_def)
  then have "CHR 0x0D \<notin> set (b64_encode x)" for x using b64_encode_tag [of x] unfolding list_all_iff by blast
  then show ?thesis by (auto simp: b64_id_def)
qed

lemmas field_name_simps = field_name_def tag_char_def is_whitespace_def

lemma render_fields:
  assumes "mt_safe M" "render_rfc5322 M payload from_addr to_addr ts = Inr message"
  obtains fs body where "message = header_block fs @ CRLF @ body"
    "map fst fs = [''From'', ''To'', ''Date'', ''Subject'', ''Message-ID'', ''MIME-Version'', ''Content-Type'',
                   ''Content-Transfer-Encoding'']"
    "list_all (\<lambda>(n, v). field_name n \<and> folds_ok v) fs" "wire_address_field M from_addr = Inr (snd (fs ! 0))"
    "wire_address_field M to_addr = Inr (snd (fs ! 1))"
    "body = pl_body payload \<or> body = pl_body payload @ CRLF"
proof -
  let ?subject = "case pl_subject payload of Some s \<Rightarrow> s | None \<Rightarrow> []"
  let ?mime = "case pl_mime payload of Some m \<Rightarrow> m | None \<Rightarrow> ''text/plain; charset=utf-8''"
  obtain u1 u2 u3 u4 where inj: "no_inject from_addr ''From'' = Inr u1" "no_inject to_addr ''To'' = Inr u2"
    "no_inject ?subject ''Subject'' = Inr u3" "no_inject ?mime ''Content-Type'' = Inr u4"
    using assms(2) unfolding render_rfc5322_def Let_def res_bind_Inr_iff by blast
  obtain ff tf name spec where w: "wire_address_field M from_addr = Inr ff" "wire_address_field M to_addr = Inr tf"
    "wire_address M from_addr = Inr (name, spec)"
    using assms(2) unfolding render_rfc5322_def Let_def res_bind_Inr_iff by fast
  let ?mid = "''<'' @ b64_id M (pl_body payload) @ ''@''
      @ (case addr_domain_of spec of Some d \<Rightarrow> d | None \<Rightarrow> ''dmtap.local'') @ ''>''"
  let ?body = "pl_body payload @ (if pl_body payload \<noteq> [] \<and> last (pl_body payload) = 10 then [] else CRLF)"
  let ?fs = "[(''From'', ff), (''To'', tf), (''Date'', mt_format_rfc5322_date M ts), (''Subject'', mt_encode_header_value M ?subject),
     (''Message-ID'', ?mid), (''MIME-Version'', ''1.0''), (''Content-Type'', ?mime), (''Content-Transfer-Encoding'', ''8bit'')]"
  have m: "message = header_block ?fs @ CRLF @ ?body"
    using assms(2) inj w by (simp add: render_rfc5322_def Let_def header_block_def)
  note clean = inj [THEN no_inject_ok]
  have spec: "CHR 0x0D \<notin> set spec" using wire_address_clean(1) [OF assms(1) clean(1) w(3)] .
  have "CHR 0x0D \<notin> set ?mid"
    using b64_id_clean addr_domain_clean [OF spec] by (auto split: option.splits)
  then have "folds_ok ff" "folds_ok tf" "folds_ok (mt_format_rfc5322_date M ts)"
    "folds_ok (mt_encode_header_value M ?subject)" "folds_ok ?mid" "folds_ok ''1.0''" "folds_ok ?mime" "folds_ok ''8bit''"
    using wire_field_folds [OF assms(1) clean(1) w(1)] wire_field_folds [OF assms(1) clean(2) w(2)] assms(1) clean(3,4)
    by (simp_all add: folds_ok_clean mt_safe_def)
  moreover have "list_all field_name (map fst ?fs)" by (simp add: field_name_simps)
  ultimately have "list_all (\<lambda>(n, v). field_name n \<and> folds_ok v) ?fs" by (simp only: list.map fst_conv list.pred_inject prod.case simp_thms)
  then show ?thesis using that [of ?fs ?body] m w by simp
qed

text \<open>
  Nothing that is sent can smuggle a header: when a payload is rendered, a receiver that parses the
  message finds exactly the eight fields the renderer names, in order, the addresses as encoded for
  the wire, and a body that is the payload's, closed by a line break.
\<close>

lemma rendered_message_parses:
  assumes "mt_safe M" "render_rfc5322 M payload from_addr to_addr ts = Inr message"
  shows "map fst (fst (split_headers_body message))
       = [''From'', ''To'', ''Date'', ''Subject'', ''Message-ID'', ''MIME-Version'', ''Content-Type'', ''Content-Transfer-Encoding'']
    \<and> (\<exists>f. wire_address_field M from_addr = Inr f
          \<and> find_header (fst (split_headers_body message)) ''from'' = Some (''From'', str_bytes (CHR '' '' # f)))
    \<and> (snd (split_headers_body message) = pl_body payload \<or> snd (split_headers_body message) = pl_body payload @ CRLF)"
proof -
  obtain fs body where r: "message = header_block fs @ CRLF @ body"
    "map fst fs = [''From'', ''To'', ''Date'', ''Subject'', ''Message-ID'', ''MIME-Version'', ''Content-Type'', ''Content-Transfer-Encoding'']"
    "list_all (\<lambda>(n, v). field_name n \<and> folds_ok v) fs" "wire_address_field M from_addr = Inr (snd (fs ! 0))"
    "body = pl_body payload \<or> body = pl_body payload @ CRLF"
    using render_fields [OF assms] by metis
  have ne: "fs \<noteq> []" using r(2) by auto
  note sp = header_block_parses(2) [OF ne r(3), of body, folded r(1)]
  obtain v0 v1 v2 v3 v4 v5 v6 v7 where fs: "fs = [(''From'', v0), (''To'', v1), (''Date'', v2), (''Subject'', v3), (''Message-ID'', v4),
      (''MIME-Version'', v5), (''Content-Type'', v6), (''Content-Transfer-Encoding'', v7)]"
    using r(2) by (auto simp: map_eq_Cons_conv)
  have names: "name_is ''from'' (n, v) \<longleftrightarrow> to_ascii_lowercase (trim n) = ''from''" for n and v :: bytes
    by (simp add: name_is_def eq_ignore_ascii_case_def to_ascii_lowercase_def to_lower_char_def is_ascii_uppercase_def)
  show ?thesis unfolding sp using r(4,5)
    by (simp add: fs find_header_def names to_ascii_lowercase_def to_lower_char_def is_ascii_uppercase_def trim_def
        trim_end_while_def is_whitespace_def char_of_eq_iff)
qed

lemma rendered_signable:
  assumes "mt_safe M" "render_rfc5322 M payload from_addr to_addr ts = Inr message"
  shows "signable message"
proof -
  obtain fs body where r: "message = header_block fs @ CRLF @ body"
    "map fst fs = [''From'', ''To'', ''Date'', ''Subject'', ''Message-ID'', ''MIME-Version'', ''Content-Type'', ''Content-Transfer-Encoding'']"
    "list_all (\<lambda>(n, v). field_name n \<and> folds_ok v) fs"
    using render_fields [OF assms] by metis
  have ne: "fs \<noteq> []" using r(2) by auto
  note sp = header_block_parses [OF ne r(3), of body, folded r(1)]
  have "\<not> name_is ''dkim-signature'' (n, v)" if "n \<in> set (map fst fs)" for n and v :: bytes
    using that unfolding r(2)
    by (auto simp: name_is_def eq_ignore_ascii_case_def to_ascii_lowercase_def to_lower_char_def is_ascii_uppercase_def
        trim_def trim_end_while_def is_whitespace_def char_of_eq_iff)
  then have "find_header (map (\<lambda>(n, v). (n, str_bytes (CHR '' '' # v))) fs) ''dkim-signature'' = None"
    unfolding find_header_def find_None_iff by (force simp del: str_bytes_def)
  then show ?thesis using sp by (auto simp: signable_def)
qed

text \<open>
  (C22) What the gateway signs, the inbound side accepts: a translated message passes the DKIM check
  against the published keys, for a domain that is the one in its From field.
\<close>

theorem signed_mail_passes_dkim:
  assumes "mt_safe M" "translate_and_sign C M g payload from_addr to_addr now = Inr sent_bytes"
    and "list_all (\<lambda>k. dkim_crypto_ok C (dk_signing k) \<and> list_all tag_char (dk_domain k) \<and> list_all tag_char (dk_selector k)
           \<and> resolver (dk_domain k) (dk_selector k) = Some (ed_public C (dk_signing k))) (ob_dkim_keys g)"
  shows "\<exists>k name spec d. k \<in> set (ob_dkim_keys g) \<and> wire_address M from_addr = Inr (name, spec)
    \<and> addr_domain_of spec = Some d \<and> eq_ignore_ascii_case (dk_domain k) d
    \<and> verify_with_resolver C sent_bytes resolver = DkimPass (dk_domain k) (dk_selector k)"
proof -
  obtain name spec d k message where s: "wire_address M from_addr = Inr (name, spec)" "addr_domain_of spec = Some d"
    "dkim_key_for g d = Some k" "render_rfc5322 M payload from_addr to_addr now = Inr message"
    "sent_bytes = str_bytes (dkim_sign C k message (now div 1000)) @ message"
    using assms(2) by (fastforce simp: translate_and_sign_def res_bind_Inr_iff ok_or_Inr_iff)
  have k: "k \<in> set (ob_dkim_keys g)" "eq_ignore_ascii_case (dk_domain k) d"
    using s(3) by (auto simp: dkim_key_for_def find_Some_iff)
  then have "dkim_crypto_ok C (dk_signing k)" "list_all tag_char (dk_domain k)" "list_all tag_char (dk_selector k)"
    "resolver (dk_domain k) (dk_selector k) = Some (ed_public C (dk_signing k))"
    using assms(3) by (auto simp: list_all_iff)
  from dkim_signed_passes [where resolver = resolver, OF rendered_signable [OF assms(1) s(4)] this] s k show ?thesis by blast
qed

section \<open>A concrete message\<close>

lemma sample_text_safe: "mt_safe sample_text"
  by (auto simp: mt_safe_def sample_text_def folds_ok_clean)

lemma rendered_message_parses_witness:
  "\<exists>m. render_rfc5322 sample_text sample_payload ''a@b.org'' ''Zed <z@c.net>'' 5 = Inr m
     \<and> map fst (fst (split_headers_body m))
       = [''From'', ''To'', ''Date'', ''Subject'', ''Message-ID'', ''MIME-Version'', ''Content-Type'', ''Content-Transfer-Encoding'']"
  using sample_renders [of 5] rendered_message_parses [OF sample_text_safe, of sample_payload "''a@b.org''" "''Zed <z@c.net>''" 5] by blast

theorem signed_mail_passes_dkim_witness:
  "\<exists>m. translate_and_sign sample_crypto sample_text sample_outbound sample_payload ''a@b.org'' ''Zed <z@c.net>'' 5 = Inr m
     \<and> verify_with_resolver sample_crypto m (\<lambda>_ _. Some (replicate 32 7)) = DkimPass ''b.org'' ''s1''"
proof -
  obtain m where m: "translate_and_sign sample_crypto sample_text sample_outbound sample_payload ''a@b.org'' ''Zed <z@c.net>'' 5 = Inr m"
    using sample_translates by blast
  have "dkim_crypto_ok sample_crypto ()" by (auto simp: dkim_crypto_ok_def sample_crypto_def min_def)
  then have "list_all (\<lambda>k. dkim_crypto_ok sample_crypto (dk_signing k) \<and> list_all tag_char (dk_domain k) \<and> list_all tag_char (dk_selector k)
      \<and> (\<lambda>_ _. Some (replicate 32 7)) (dk_domain k) (dk_selector k) = Some (ed_public sample_crypto (dk_signing k))) (ob_dkim_keys sample_outbound)"
    by (simp add: sample_outbound_def outbound_new_def sample_dkim_key_def tag_char_def is_whitespace_def)
       (simp add: sample_crypto_def)
  from signed_mail_passes_dkim [OF sample_text_safe m this] m show ?thesis
    by (auto simp: sample_outbound_def outbound_new_def sample_dkim_key_def)
qed

end
