(* ===== verification/Gateway_Directory.thy ===== *)
theory Gateway_Directory
  imports Gateway_Inbound
begin

text \<open>
  The recipient directory (\<open>crates/pier-gateway/src/directory.rs\<close>): entries by lower-cased address, and
  the directory file with one recipient per line. Reading the file is an argument: its text or the
  error.
\<close>

section \<open>Definitions\<close>

type_synonym InMemoryDirectory = "(string \<times> RecipientKey) list"

datatype DirectoryError =
    DirectoryIo string string
  | MissingField nat string
  | TrailingData nat
  | BadAddress nat string
  | BadBase64 nat string string

definition directory_new :: InMemoryDirectory where
  "directory_new = []"

definition directory_insert :: "InMemoryDirectory \<Rightarrow> string \<Rightarrow> RecipientKey \<Rightarrow> InMemoryDirectory" where
  "directory_insert dir email key = al_insert (to_ascii_lowercase (trim email)) key dir"

definition with_recipient :: "InMemoryDirectory \<Rightarrow> string \<Rightarrow> RecipientKey \<Rightarrow> InMemoryDirectory" where
  "with_recipient dir email key = directory_insert dir email key"

definition directory_remove :: "InMemoryDirectory \<Rightarrow> string \<Rightarrow> bool \<times> InMemoryDirectory" where
  "directory_remove dir email =
     (let k = to_ascii_lowercase (trim email) in (map_of dir k \<noteq> None, al_remove k dir))"

definition directory_len :: "InMemoryDirectory \<Rightarrow> nat" where
  "directory_len dir = length dir"

definition directory_is_empty :: "InMemoryDirectory \<Rightarrow> bool" where
  "directory_is_empty dir = (dir = [])"

definition directory_resolve :: "InMemoryDirectory \<Rightarrow> KeyDirectory" where
  "directory_resolve dir rcpt = map_of dir (to_ascii_lowercase (trim rcpt))"

definition parse_key_field :: "nat \<Rightarrow> string \<Rightarrow> string \<Rightarrow> DirectoryError + bytes" where
  "parse_key_field lineno field b64 = map_err (\<lambda>e. BadBase64 lineno field e) (b64_decode b64)"

definition parse_directory_line :: "nat \<Rightarrow> string \<Rightarrow> InMemoryDirectory \<Rightarrow> DirectoryError + InMemoryDirectory" where
  "parse_directory_line lineno raw dir =
     (let line = trim (hd (split_on CHR ''#'' raw)) in
      if line = [] then Inr dir
      else
        (case split_whitespace line of
           [] \<Rightarrow> Inl (MissingField lineno ''email'')
         | [_] \<Rightarrow> Inl (MissingField lineno ''ik'')
         | [_, _] \<Rightarrow> Inl (MissingField lineno ''seal'')
         | email # ik_b64 # seal_b64 # rest \<Rightarrow>
             if rest \<noteq> [] then Inl (TrailingData lineno)
             else if CHR ''@'' \<notin> set email then Inl (BadAddress lineno email)
             else
               res_bind (parse_key_field lineno ''ik'' ik_b64) (\<lambda>ik.
               res_bind (parse_key_field lineno ''seal'' seal_b64) (\<lambda>seal_pub.
               Inr (directory_insert dir email \<lparr> rk_ik = ik, rk_seal_pub = seal_pub \<rparr>)))))"

fun parse_directory_lines :: "nat \<Rightarrow> string list \<Rightarrow> InMemoryDirectory \<Rightarrow> DirectoryError + InMemoryDirectory" where
  "parse_directory_lines idx [] dir = Inr dir"
| "parse_directory_lines idx (raw # ls) dir =
     res_bind (parse_directory_line (idx + 1) raw dir) (\<lambda>dir. parse_directory_lines (idx + 1) ls dir)"

definition parse_directory :: "string \<Rightarrow> DirectoryError + InMemoryDirectory" where
  "parse_directory text = parse_directory_lines 0 (lines text) directory_new"

definition file_directory_load :: "string \<Rightarrow> string + string \<Rightarrow> DirectoryError + InMemoryDirectory" where
  "file_directory_load path read =
     (case read of Inl e \<Rightarrow> Inl (DirectoryIo path e) | Inr text \<Rightarrow> parse_directory text)"

section \<open>A directory file is read back\<close>

definition word_ok :: "string \<Rightarrow> bool" where
  "word_ok w \<longleftrightarrow> w \<noteq> [] \<and> list_all (\<lambda>c. \<not> is_whitespace c \<and> c \<noteq> CHR ''#'') w"

definition entry_ok :: "string \<times> RecipientKey \<Rightarrow> bool" where
  "entry_ok e \<longleftrightarrow> word_ok (fst e) \<and> CHR ''@'' \<in> set (fst e) \<and> rk_ik (snd e) \<noteq> [] \<and> rk_seal_pub (snd e) \<noteq> []"

definition entry_text :: "string \<times> RecipientKey \<Rightarrow> string" where
  "entry_text e = fst e @ '' '' @ b64_encode (rk_ik (snd e)) @ '' '' @ b64_encode (rk_seal_pub (snd e))"

lemma split_ws_aux_word: "list_all (\<lambda>c. \<not> is_whitespace c) w \<Longrightarrow> split_ws_aux acc (w @ r) = split_ws_aux (rev w @ acc) r"
  by (induction w arbitrary: acc) auto

lemma split_ws_word:
  assumes "w \<noteq> []" "list_all (\<lambda>c. \<not> is_whitespace c) w"
  shows "split_ws_aux [] (w @ CHR '' '' # r) = w # split_ws_aux [] r" "split_ws_aux [] w = [w]"
  using split_ws_aux_word [OF assms(2), of "[]" "CHR '' '' # r"] split_ws_aux_word [OF assms(2), of "[]" "[]"] assms(1)
  by (simp_all add: is_whitespace_def)

lemma b64_encode_word:
  assumes "x \<noteq> []"
  shows "word_ok (b64_encode x)"
proof -
  have "CHR ''#'' \<notin> set ALPHABET" by (simp add: ALPHABET_def)
  moreover have "b64_char w \<in> set ALPHABET" for w
    unfolding b64_char_def using unat_and_mask_lt(1) [of w] by (intro nth_mem) (simp add: ALPHABET_def)
  ultimately have n: "CHR ''#'' \<noteq> b64_char w" for w by metis
  have "CHR ''#'' \<notin> set (encode_chunk c)" for c by (simp add: encode_chunk_def Let_def n)
  then have "CHR ''#'' \<notin> set (b64_encode x)" by (simp add: b64_encode_def)
  moreover have "b64_encode x \<noteq> []"
    using assms b64_decode_encode [of x] by (metis b64_decode_def b64_loop.simps(1) sum.inject(2))
  ultimately show ?thesis
    using b64_encode_tag [of x] by (auto simp: word_ok_def list_all_iff tag_char_def)
qed

lemma trim_keeps:
  assumes "s \<noteq> []" "\<not> is_whitespace (hd s)" "\<not> is_whitespace (last s)"
  shows "trim s = s"
proof -
  obtain a t where s: "s = a # t" using assms(1) by (cases s) auto
  have "dropWhile is_whitespace (rev s) = rev s"
    using assms by (cases "rev s") (auto simp: last_rev hd_rev dest: arg_cong [where f = last])
  then show ?thesis using assms(2) s by (simp add: trim_def trim_end_while_def)
qed

lemma parse_entry_line:
  assumes "entry_ok e"
  shows "parse_directory_line n (entry_text e) dir = Inr (directory_insert dir (fst e) (snd e))"
proof -
  let ?a = "b64_encode (rk_ik (snd e))" and ?b = "b64_encode (rk_seal_pub (snd e))"
  have w: "word_ok (fst e)" "word_ok ?a" "word_ok ?b" using assms b64_encode_word by (simp_all add: entry_ok_def)
  then have "CHR ''#'' \<notin> set (entry_text e)" by (auto simp: word_ok_def list_all_iff entry_text_def)
  then have h: "hd (split_on CHR ''#'' (entry_text e)) = entry_text e" by (simp add: split_on_nosep)
  have "trim (entry_text e) = entry_text e"
    using w by (intro trim_keeps) (auto simp: word_ok_def list_all_iff entry_text_def)
  moreover have "entry_text e \<noteq> []" by (simp add: entry_text_def)
  moreover have "split_whitespace (entry_text e) = [fst e, ?a, ?b]"
    using w by (auto simp: split_whitespace_def entry_text_def word_ok_def list_all_iff split_ws_word)
  ultimately show ?thesis
    using assms
    by (cases "snd e") (simp add: parse_directory_line_def Let_def h parse_key_field_def b64_decode_encode entry_ok_def)
qed

lemma entry_good_line: "entry_ok e \<Longrightarrow> good_line (entry_text e)"
proof -
  assume e: "entry_ok e"
  have "is_whitespace (CHR 0x0A)" "is_whitespace (CHR 0x0D)" by (simp_all add: is_whitespace_def)
  then have n: "good_line w" if "word_ok w" for w using that unfolding word_ok_def good_line_def list_all_iff by blast
  have "good_line (fst e)" "good_line (b64_encode (rk_ik (snd e)))" "good_line (b64_encode (rk_seal_pub (snd e)))"
    using e by (auto simp: entry_ok_def intro!: n b64_encode_word)
  then show ?thesis by (simp add: good_line_def entry_text_def)
qed

lemma parse_entries:
  "list_all entry_ok es \<Longrightarrow>
   parse_directory_lines n (map entry_text es) dir = Inr (foldl (\<lambda>d e. directory_insert d (fst e) (snd e)) dir es)"
  by (induction es arbitrary: n dir) (simp_all add: parse_entry_line)

lemma resolve_entries:
  "directory_resolve (foldl (\<lambda>d e. directory_insert d (fst e) (snd e)) dir es) a
   = (case find (\<lambda>e. to_ascii_lowercase (trim (fst e)) = to_ascii_lowercase (trim a)) (rev es) of
        Some e \<Rightarrow> Some (snd e) | None \<Rightarrow> directory_resolve dir a)"
  by (induction es rule: rev_induct) (auto simp: directory_resolve_def directory_insert_def)

text \<open>
  A directory file written from a list of recipients is read back: every recipient resolves, in any
  case and with spaces around the address, to the keys of its last line, and no other address resolves.
\<close>

lemma directory_file_roundtrip:
  assumes "list_all entry_ok es"
  shows "\<exists>dir. file_directory_load path (Inr (concat (map (\<lambda>e. entry_text e @ [CHR 0x0A]) es))) = Inr dir
    \<and> directory_resolve dir a
      = map_option snd (find (\<lambda>e. to_ascii_lowercase (trim (fst e)) = to_ascii_lowercase (trim a)) (rev es))"
proof -
  have "list_all good_line (map entry_text es)" using assms entry_good_line by (simp add: list_all_iff)
  then have "lines (concat (map (\<lambda>e. entry_text e @ [CHR 0x0A]) es)) = map entry_text es"
    using lines_concat [of "map entry_text es"] by (simp add: comp_def)
  then have "file_directory_load path (Inr (concat (map (\<lambda>e. entry_text e @ [CHR 0x0A]) es)))
      = Inr (foldl (\<lambda>d e. directory_insert d (fst e) (snd e)) directory_new es)"
    using parse_entries [OF assms, of 0 directory_new] by (simp add: file_directory_load_def parse_directory_def)
  moreover have "directory_resolve directory_new a = None" by (simp add: directory_resolve_def directory_new_def)
  ultimately show ?thesis by (simp add: resolve_entries split: option.split)
qed

definition sample_entry :: "string \<times> RecipientKey" where
  "sample_entry = (''a@x.y'', \<lparr> rk_ik = [1], rk_seal_pub = [2] \<rparr>)"

lemma directory_file_roundtrip_witness:
  "\<exists>dir. file_directory_load ''f'' (Inr (concat (map (\<lambda>e. entry_text e @ [CHR 0x0A]) [sample_entry]))) = Inr dir
    \<and> directory_resolve dir ''a@x.y'' = Some \<lparr> rk_ik = [1], rk_seal_pub = [2] \<rparr>"
  using directory_file_roundtrip [of "[sample_entry]" "''f''" "''a@x.y''"]
  by (simp add: entry_ok_def word_ok_def sample_entry_def is_whitespace_def)

text \<open>
  A file with one bad line is refused as a whole: a recipient is never dropped silently.
\<close>

lemma directory_bad_line_refused:
  assumes "lines text = pre @ raw # post" "\<And>dir. \<exists>e. parse_directory_line (length pre + 1) raw dir = Inl e"
  shows "\<exists>e. parse_directory text = Inl e"
proof -
  have "\<exists>e. parse_directory_lines n (pre @ raw # post) dir = Inl e"
    if "\<And>dir. \<exists>e. parse_directory_line (n + length pre + 1) raw dir = Inl e" for n dir pre
    using that
  proof (induction pre arbitrary: n dir)
    case Nil
    then obtain e where "parse_directory_line (n + 1) raw dir = Inl e" by auto
    then show ?case by (simp add: res_bind_def)
  next
    case (Cons l pre)
    then have "\<exists>e. parse_directory_lines (n + 1) (pre @ raw # post) d = Inl e" for d by (intro Cons.IH) simp
    then show ?case by (cases "parse_directory_line (n + 1) l dir") (auto simp: res_bind_def)
  qed
  from this [of 0 pre directory_new] assms show ?thesis by (simp add: parse_directory_def)
qed

end
