(* ===== verification/Gateway_MultiDomain.thy ===== *)
theory Gateway_MultiDomain
  imports Gateway_Directory Gateway_AliasMap Gateway_Quota Gateway_Vanity
begin

text \<open>
  The gateway for many domains (\<open>crates/pier-gateway/src/multidomain.rs\<close>): one tenant per domain with
  its directory, aliases, blocklist, suspensions, quota and DKIM key, the administration of tenants, the
  routing of recipients and the usage meter. A mutable borrow of a tenant is an update of the table. The
  random draws of keys and aliases, the key of a seed and the digest of a key are arguments.
\<close>

section \<open>Tenants\<close>

datatype MultiDomainError =
    InvalidDomain string
  | DomainExists string
  | NoSuchDomain string
  | MdAlias AliasError
  | BadKey string

datatype Recipient = RDirectory RecipientKey | RAlias AliasTarget

datatype RouteError = RouteNoSuchDomain | SenderBlocked | UserSuspended | RouteUnmapped

fun route_smtp_code :: "RouteError \<Rightarrow> u16" where
  "route_smtp_code RouteNoSuchDomain = 550"
| "route_smtp_code SenderBlocked = 554"
| "route_smtp_code UserSuspended = 550"
| "route_smtp_code RouteUnmapped = 550"

record 'sk DomainTenant =
  dt_domain :: string
  dt_dkim :: "'sk DkimKey"
  dt_directory :: InMemoryDirectory
  dt_aliases :: AliasAllocator
  dt_random :: GatewayAliasMap
  dt_blocked_senders :: "string set"
  dt_suspended_users :: "string set"
  dt_quota :: Quota
  dt_ledger :: QuotaLedger

definition recipient_count :: "'sk DomainTenant \<Rightarrow> nat" where
  "recipient_count t = directory_len (dt_directory t)"

definition tenant_usage :: "'sk DomainTenant \<Rightarrow> Usage" where
  "tenant_usage t = usage (dt_ledger t) (dt_domain t)"

definition dkim_public_p_tag :: "'sk DkimCrypto \<Rightarrow> 'sk DomainTenant \<Rightarrow> string" where
  "dkim_public_p_tag C t = public_p_tag C (dt_dkim t)"

record 'sk MultiDomainGateway =
  mg_tenants :: "(string \<times> 'sk DomainTenant) list"
  mg_global_blocked :: "string set"
  mg_default_quota :: Quota

definition multi_new :: "'sk MultiDomainGateway" where
  "multi_new = \<lparr> mg_tenants = [], mg_global_blocked = {}, mg_default_quota = quota_messages 0 0 \<rparr>"

definition with_default_quota :: "'sk MultiDomainGateway \<Rightarrow> Quota \<Rightarrow> 'sk MultiDomainGateway" where
  "with_default_quota g quota = g\<lparr> mg_default_quota := quota \<rparr>"

definition split_address :: "string \<Rightarrow> (string \<times> string) option" where
  "split_address addr =
     (let a = trim (trim_end_matches CHR ''>'' (trim_start_matches CHR ''<'' (trim addr))) in
      case rsplit_once CHR ''@'' a of
        None \<Rightarrow> None
      | Some (local_part, domain) \<Rightarrow>
          if local_part = [] \<or> domain = [] then None
          else Some (to_ascii_lowercase local_part, to_ascii_lowercase domain))"

definition local_part_of :: "string \<Rightarrow> string" where
  "local_part_of user =
     (let u = trim user in case rsplit_once CHR ''@'' u of Some (l, _) \<Rightarrow> l | None \<Rightarrow> u)"

definition add_domain ::
  "(bytes \<Rightarrow> 'sk) \<Rightarrow> bytes \<Rightarrow> 'sk MultiDomainGateway \<Rightarrow> string \<Rightarrow> bytes option \<Rightarrow> string
   \<Rightarrow> (MultiDomainError + bytes) \<times> 'sk MultiDomainGateway" where
  "add_domain from_seed random_seed g domain dkim_seed selector =
     (let d = to_ascii_lowercase (trim domain) in
      case for_domain d of
        Inl _ \<Rightarrow> (Inl (InvalidDomain domain), g)
      | Inr aliases \<Rightarrow>
          if map_of (mg_tenants g) d \<noteq> None then (Inl (DomainExists d), g)
          else
            (let s = trim selector;
                 selector = (if s = [] then ''gw1'' else s);
                 seed = (case dkim_seed of Some x \<Rightarrow> x | None \<Rightarrow> random_seed);
                 dkim = \<lparr> dk_domain = d, dk_selector = selector, dk_signing = from_seed seed \<rparr>;
                 quota = mg_default_quota g;
                 tenant = \<lparr> dt_domain = d, dt_dkim = dkim, dt_directory = directory_new, dt_aliases = aliases,
                            dt_random = alias_map_new, dt_blocked_senders = {}, dt_suspended_users = {},
                            dt_quota = quota, dt_ledger = upsert_quota quota_ledger_new d quota \<rparr>
             in (Inr seed, g\<lparr> mg_tenants := al_insert d tenant (mg_tenants g) \<rparr>)))"

definition remove_domain :: "'sk MultiDomainGateway \<Rightarrow> string \<Rightarrow> bool \<times> 'sk MultiDomainGateway" where
  "remove_domain g domain =
     (let d = to_ascii_lowercase (trim domain) in
      (map_of (mg_tenants g) d \<noteq> None, g\<lparr> mg_tenants := al_remove d (mg_tenants g) \<rparr>))"

definition serves :: "'sk MultiDomainGateway \<Rightarrow> string \<Rightarrow> bool" where
  "serves g domain = (map_of (mg_tenants g) (to_ascii_lowercase (trim domain)) \<noteq> None)"

definition tenant :: "'sk MultiDomainGateway \<Rightarrow> string \<Rightarrow> 'sk DomainTenant option" where
  "tenant g domain = map_of (mg_tenants g) (to_ascii_lowercase (trim domain))"

text \<open>
  \<open>tenant_mut\<close> and what is done with the borrow: the tenant's answer and the table with the tenant
  updated, or the error.
\<close>

definition tenant_mut ::
  "'sk MultiDomainGateway \<Rightarrow> string \<Rightarrow> ('sk DomainTenant \<Rightarrow> 'a \<times> 'sk DomainTenant)
   \<Rightarrow> (MultiDomainError + 'a) \<times> 'sk MultiDomainGateway" where
  "tenant_mut g domain f =
     (let d = to_ascii_lowercase (trim domain) in
      case map_of (mg_tenants g) d of
        None \<Rightarrow> (Inl (NoSuchDomain d), g)
      | Some t \<Rightarrow> (case f t of (x, t') \<Rightarrow> (Inr x, g\<lparr> mg_tenants := al_insert d t' (mg_tenants g) \<rparr>)))"

section \<open>Administration\<close>

definition add_recipient ::
  "'sk MultiDomainGateway \<Rightarrow> string \<Rightarrow> RecipientKey \<Rightarrow> (MultiDomainError + unit) \<times> 'sk MultiDomainGateway" where
  "add_recipient g email key =
     (case split_address email of
        None \<Rightarrow> (Inl (InvalidDomain email), g)
      | Some (_, domain) \<Rightarrow>
          tenant_mut g domain (\<lambda>t.
            ((), t\<lparr> dt_directory := directory_insert (dt_directory t) email key,
                    dt_aliases := snd (reserve_directory_address (dt_aliases t) email) \<rparr>)))"

definition remove_recipient :: "'sk MultiDomainGateway \<Rightarrow> string \<Rightarrow> (MultiDomainError + bool) \<times> 'sk MultiDomainGateway" where
  "remove_recipient g email =
     (case split_address email of
        None \<Rightarrow> (Inl (InvalidDomain email), g)
      | Some (_, domain) \<Rightarrow>
          tenant_mut g domain (\<lambda>t.
            (case directory_remove (dt_directory t) email of (b, dir) \<Rightarrow> (b, t\<lparr> dt_directory := dir \<rparr>))))"

definition md_flatten :: "(MultiDomainError + AliasError + 'a) \<times> 'g \<Rightarrow> (MultiDomainError + 'a) \<times> 'g" where
  "md_flatten r = (case r of (Inl e, g) \<Rightarrow> (Inl e, g) | (Inr (Inl e), g) \<Rightarrow> (Inl (MdAlias e), g) | (Inr (Inr x), g) \<Rightarrow> (Inr x, g))"

definition md_allocate_vanity ::
  "'sk MultiDomainGateway \<Rightarrow> string \<Rightarrow> bytes \<Rightarrow> string \<Rightarrow> (MultiDomainError + string) \<times> 'sk MultiDomainGateway" where
  "md_allocate_vanity g domain public_key local_part =
     md_flatten (tenant_mut g domain (\<lambda>t.
       (case allocate_vanity (dt_aliases t) public_key local_part of (r, al) \<Rightarrow> (r, t\<lparr> dt_aliases := al \<rparr>))))"

definition revoke_vanity ::
  "'sk MultiDomainGateway \<Rightarrow> string \<Rightarrow> bytes \<Rightarrow> (MultiDomainError + string option) \<times> 'sk MultiDomainGateway" where
  "revoke_vanity g domain public_key =
     tenant_mut g domain (\<lambda>t.
       (case release_vanity (dt_aliases t) public_key of (r, al) \<Rightarrow> (r, t\<lparr> dt_aliases := al \<rparr>)))"

text \<open>The minting loop may abort or still be drawing: then the call has no answer.\<close>

definition mint_random_alias ::
  "'sk MultiDomainGateway \<Rightarrow> string \<Rightarrow> AliasTarget \<Rightarrow> string option \<Rightarrow> u64 option \<Rightarrow> bool \<Rightarrow> u64 \<Rightarrow> bytes option list
   \<Rightarrow> (MultiDomainError + string option) \<times> 'sk MultiDomainGateway" where
  "mint_random_alias g domain target correspondent ttl_ms one_time now_ms draws =
     tenant_mut g domain (\<lambda>t.
       (case mint_with (dt_random t) target correspondent ttl_ms one_time now_ms draws of
          Minted token rows _ \<Rightarrow> (Some (token @ ''@'' @ dt_domain t), t\<lparr> dt_random := rows \<rparr>)
        | _ \<Rightarrow> (None, t)))"

definition burn_random_alias ::
  "'sk MultiDomainGateway \<Rightarrow> string \<Rightarrow> string \<Rightarrow> (MultiDomainError + bool) \<times> 'sk MultiDomainGateway" where
  "burn_random_alias g domain token =
     tenant_mut g domain (\<lambda>t.
       (let l = (case rsplit_once CHR ''@'' token of Some (l, _) \<Rightarrow> l | None \<Rightarrow> token) in
        case burn (dt_random t) l of (b, rows) \<Rightarrow> (b, t\<lparr> dt_random := rows \<rparr>)))"

definition block_sender :: "'sk MultiDomainGateway \<Rightarrow> string \<Rightarrow> string \<Rightarrow> (MultiDomainError + unit) \<times> 'sk MultiDomainGateway" where
  "block_sender g domain sender =
     tenant_mut g domain (\<lambda>t.
       ((), t\<lparr> dt_blocked_senders := insert (to_ascii_lowercase (trim sender)) (dt_blocked_senders t) \<rparr>))"

definition unblock_sender :: "'sk MultiDomainGateway \<Rightarrow> string \<Rightarrow> string \<Rightarrow> (MultiDomainError + bool) \<times> 'sk MultiDomainGateway" where
  "unblock_sender g domain sender =
     tenant_mut g domain (\<lambda>t.
       (to_ascii_lowercase (trim sender) \<in> dt_blocked_senders t,
        t\<lparr> dt_blocked_senders := dt_blocked_senders t - {to_ascii_lowercase (trim sender)} \<rparr>))"

definition block_sender_global :: "'sk MultiDomainGateway \<Rightarrow> string \<Rightarrow> 'sk MultiDomainGateway" where
  "block_sender_global g sender = g\<lparr> mg_global_blocked := insert (to_ascii_lowercase (trim sender)) (mg_global_blocked g) \<rparr>"

definition unblock_sender_global :: "'sk MultiDomainGateway \<Rightarrow> string \<Rightarrow> bool \<times> 'sk MultiDomainGateway" where
  "unblock_sender_global g sender =
     (to_ascii_lowercase (trim sender) \<in> mg_global_blocked g,
      g\<lparr> mg_global_blocked := mg_global_blocked g - {to_ascii_lowercase (trim sender)} \<rparr>)"

definition suspend_user :: "'sk MultiDomainGateway \<Rightarrow> string \<Rightarrow> string \<Rightarrow> (MultiDomainError + unit) \<times> 'sk MultiDomainGateway" where
  "suspend_user g domain user =
     (let l = to_ascii_lowercase (local_part_of user) in
      tenant_mut g domain (\<lambda>t. ((), t\<lparr> dt_suspended_users := insert l (dt_suspended_users t) \<rparr>)))"

definition unsuspend_user :: "'sk MultiDomainGateway \<Rightarrow> string \<Rightarrow> string \<Rightarrow> (MultiDomainError + bool) \<times> 'sk MultiDomainGateway" where
  "unsuspend_user g domain user =
     (let l = to_ascii_lowercase (local_part_of user) in
      tenant_mut g domain (\<lambda>t. (l \<in> dt_suspended_users t, t\<lparr> dt_suspended_users := dt_suspended_users t - {l} \<rparr>)))"

definition set_domain_quota :: "'sk MultiDomainGateway \<Rightarrow> string \<Rightarrow> Quota \<Rightarrow> (MultiDomainError + unit) \<times> 'sk MultiDomainGateway" where
  "set_domain_quota g domain quota =
     tenant_mut g domain (\<lambda>t. ((), t\<lparr> dt_quota := quota, dt_ledger := upsert_quota (dt_ledger t) (dt_domain t) quota \<rparr>))"

section \<open>Routing and relaying\<close>

definition route_tenant ::
  "(bytes \<Rightarrow> bytes) \<Rightarrow> 'sk DomainTenant \<Rightarrow> string \<Rightarrow> string \<Rightarrow> u64 \<Rightarrow> (RouteError + Recipient) \<times> 'sk DomainTenant" where
  "route_tenant digest t local_part domain now_ms =
     (let clean = local_part @ ''@'' @ domain in
      case directory_resolve (dt_directory t) clean of
        Some key \<Rightarrow> (Inr (RDirectory key), t)
      | None \<Rightarrow>
          (case alias_resolve (dt_random t) local_part now_ms of
             (Inr target, rows) \<Rightarrow> (Inr (RAlias target), t\<lparr> dt_random := rows \<rparr>)
           | (Inl Unmapped, rows) \<Rightarrow>
               (let t = t\<lparr> dt_random := rows \<rparr>;
                    registered = map (\<lambda>(_, k). rk_ik k) (dt_directory t)
                in case resolve digest (dt_aliases t) clean registered of
                     Some pk \<Rightarrow> (Inr (RAlias (IdentityTarget pk)), t)
                   | None \<Rightarrow> (Inl RouteUnmapped, t))))"

definition route ::
  "(bytes \<Rightarrow> bytes) \<Rightarrow> 'sk MultiDomainGateway \<Rightarrow> string \<Rightarrow> string \<Rightarrow> u64 \<Rightarrow> (RouteError + Recipient) \<times> 'sk MultiDomainGateway" where
  "route digest g sender rcpt now_ms =
     (case split_address rcpt of
        None \<Rightarrow> (Inl RouteNoSuchDomain, g)
      | Some (local_part, domain) \<Rightarrow>
          if to_ascii_lowercase (trim sender) \<in> mg_global_blocked g then (Inl SenderBlocked, g)
          else
            (case map_of (mg_tenants g) domain of
               None \<Rightarrow> (Inl RouteNoSuchDomain, g)
             | Some t \<Rightarrow>
                 if to_ascii_lowercase (trim sender) \<in> dt_blocked_senders t then (Inl SenderBlocked, g)
                 else if local_part \<in> dt_suspended_users t then (Inl UserSuspended, g)
                 else
                   (case route_tenant digest t local_part domain now_ms of (r, t') \<Rightarrow>
                      (r, g\<lparr> mg_tenants := al_insert domain t' (mg_tenants g) \<rparr>))))"

definition md_dkim_sign :: "'sk DkimCrypto \<Rightarrow> 'sk MultiDomainGateway \<Rightarrow> string \<Rightarrow> bytes \<Rightarrow> u64 \<Rightarrow> string option" where
  "md_dkim_sign C g domain message t = map_option (\<lambda>x. dkim_sign C (dt_dkim x) message t) (tenant g domain)"

datatype ChargeError = ChargeNoSuchDomain string | ChargeQuota QuotaError

definition charge_relay ::
  "(bytes \<Rightarrow> bytes) \<Rightarrow> ('m \<Rightarrow> MeterEvent \<Rightarrow> 'm) \<Rightarrow> 'sk MultiDomainGateway \<Rightarrow> 'm \<Rightarrow> string \<Rightarrow> BridgeDirection \<Rightarrow> bytes \<Rightarrow> u64
   \<Rightarrow> (ChargeError + Usage) \<times> 'sk MultiDomainGateway \<times> 'm" where
  "charge_relay digest rec g meter domain direction rfc5322_bytes at =
     (case tenant g domain of
        None \<Rightarrow> (Inl (ChargeNoSuchDomain domain), g, meter)
      | Some t \<Rightarrow>
          (case charge_and_meter digest rec (dt_ledger t) meter (dt_domain t) (dt_domain t) direction rfc5322_bytes at of
             (r, ledger, meter) \<Rightarrow>
               (map_err ChargeQuota r,
                g\<lparr> mg_tenants := al_insert (to_ascii_lowercase (trim domain)) (t\<lparr> dt_ledger := ledger \<rparr>) (mg_tenants g) \<rparr>,
                meter)))"

record DomainUsage =
  du_inbound :: u64
  du_outbound :: u64
  du_messages :: u64

definition domain_usage_default :: DomainUsage where
  "domain_usage_default = \<lparr> du_inbound = 0, du_outbound = 0, du_messages = 0 \<rparr>"

type_synonym UsageMeter = "(string \<times> DomainUsage) list"

definition meter_usage :: "UsageMeter \<Rightarrow> string \<Rightarrow> DomainUsage" where
  "meter_usage m domain = al_get_or domain_usage_default m (to_ascii_lowercase (trim domain))"

definition usage_record :: "UsageMeter \<Rightarrow> MeterEvent \<Rightarrow> UsageMeter" where
  "usage_record m event =
     (let d = to_ascii_lowercase (me_domain event);
          entry = al_get_or domain_usage_default m d;
          entry = (case me_direction event of
                     Inbound \<Rightarrow> entry\<lparr> du_inbound := du_inbound entry + 1 \<rparr>
                   | Outbound \<Rightarrow> entry\<lparr> du_outbound := du_outbound entry + 1 \<rparr>)
      in al_insert d (entry\<lparr> du_messages := du_messages entry + 1 \<rparr>) m)"

section \<open>Tenants do not touch each other\<close>

datatype md_cmd =
    MdAddDomain bytes string "bytes option" string
  | MdRemoveDomain string
  | MdAddRecipient string RecipientKey
  | MdRemoveRecipient string
  | MdAllocate string bytes string
  | MdRevoke string bytes
  | MdMint string AliasTarget "string option" "u64 option" bool u64 "bytes option list"
  | MdBurn string string
  | MdBlock string string
  | MdUnblock string string
  | MdBlockGlobal string
  | MdUnblockGlobal string
  | MdSuspend string string
  | MdUnsuspend string string
  | MdSetQuota string Quota
  | MdRoute string string u64
  | MdCharge string BridgeDirection bytes u64

fun md_step :: "(bytes \<Rightarrow> 'sk) \<Rightarrow> (bytes \<Rightarrow> bytes) \<Rightarrow> 'sk MultiDomainGateway \<Rightarrow> md_cmd \<Rightarrow> 'sk MultiDomainGateway" where
  "md_step from_seed digest g (MdAddDomain rnd d seed sel) = snd (add_domain from_seed rnd g d seed sel)"
| "md_step from_seed digest g (MdRemoveDomain d) = snd (remove_domain g d)"
| "md_step from_seed digest g (MdAddRecipient email key) = snd (add_recipient g email key)"
| "md_step from_seed digest g (MdRemoveRecipient email) = snd (remove_recipient g email)"
| "md_step from_seed digest g (MdAllocate d pk lp) = snd (md_allocate_vanity g d pk lp)"
| "md_step from_seed digest g (MdRevoke d pk) = snd (revoke_vanity g d pk)"
| "md_step from_seed digest g (MdMint d target corr ttl once now draws) = snd (mint_random_alias g d target corr ttl once now draws)"
| "md_step from_seed digest g (MdBurn d token) = snd (burn_random_alias g d token)"
| "md_step from_seed digest g (MdBlock d sender) = snd (block_sender g d sender)"
| "md_step from_seed digest g (MdUnblock d sender) = snd (unblock_sender g d sender)"
| "md_step from_seed digest g (MdBlockGlobal sender) = block_sender_global g sender"
| "md_step from_seed digest g (MdUnblockGlobal sender) = snd (unblock_sender_global g sender)"
| "md_step from_seed digest g (MdSuspend d user) = snd (suspend_user g d user)"
| "md_step from_seed digest g (MdUnsuspend d user) = snd (unsuspend_user g d user)"
| "md_step from_seed digest g (MdSetQuota d q) = snd (set_domain_quota g d q)"
| "md_step from_seed digest g (MdRoute sender rcpt now) = snd (route digest g sender rcpt now)"
| "md_step from_seed digest g (MdCharge d direction msg at) =
     (case charge_relay digest (\<lambda>m _. m) g () d direction msg at of (_, g', _) \<Rightarrow> g')"

text \<open>The domain a command is about; the global blocklist is about all of them.\<close>

fun md_target :: "md_cmd \<Rightarrow> string option" where
  "md_target (MdAddDomain _ d _ _) = Some (to_ascii_lowercase (trim d))"
| "md_target (MdRemoveDomain d) = Some (to_ascii_lowercase (trim d))"
| "md_target (MdAddRecipient email _) = map_option (\<lambda>x. to_ascii_lowercase (trim (snd x))) (split_address email)"
| "md_target (MdRemoveRecipient email) = map_option (\<lambda>x. to_ascii_lowercase (trim (snd x))) (split_address email)"
| "md_target (MdAllocate d _ _) = Some (to_ascii_lowercase (trim d))"
| "md_target (MdRevoke d _) = Some (to_ascii_lowercase (trim d))"
| "md_target (MdMint d _ _ _ _ _ _) = Some (to_ascii_lowercase (trim d))"
| "md_target (MdBurn d _) = Some (to_ascii_lowercase (trim d))"
| "md_target (MdBlock d _) = Some (to_ascii_lowercase (trim d))"
| "md_target (MdUnblock d _) = Some (to_ascii_lowercase (trim d))"
| "md_target (MdBlockGlobal _) = None"
| "md_target (MdUnblockGlobal _) = None"
| "md_target (MdSuspend d _) = Some (to_ascii_lowercase (trim d))"
| "md_target (MdUnsuspend d _) = Some (to_ascii_lowercase (trim d))"
| "md_target (MdSetQuota d _) = Some (to_ascii_lowercase (trim d))"
| "md_target (MdRoute _ rcpt _) = map_option snd (split_address rcpt)"
| "md_target (MdCharge d _ _ _) = Some (to_ascii_lowercase (trim d))"

definition md_global :: "md_cmd \<Rightarrow> bool" where
  "md_global c = (case c of MdBlockGlobal _ \<Rightarrow> True | MdUnblockGlobal _ \<Rightarrow> True | _ \<Rightarrow> False)"

lemma tenant_mut_other [simp]:
  "d \<noteq> to_ascii_lowercase (trim domain) \<Longrightarrow> map_of (mg_tenants (snd (tenant_mut g domain f))) d = map_of (mg_tenants g) d"
  "mg_global_blocked (snd (tenant_mut g domain f)) = mg_global_blocked g"
  by (auto simp: tenant_mut_def Let_def split: option.splits prod.splits)

lemma snd_md_flatten [simp]: "snd (md_flatten r) = snd r"
  by (auto simp: md_flatten_def split: prod.splits sum.splits)

lemma route_other [simp]:
  "map_option snd (split_address rcpt) \<noteq> Some d \<Longrightarrow> map_of (mg_tenants (snd (route digest g sender rcpt now))) d = map_of (mg_tenants g) d"
  "mg_global_blocked (snd (route digest g sender rcpt now)) = mg_global_blocked g"
  by (auto simp: route_def split: option.splits prod.splits)

lemma charge_relay_other:
  "charge_relay digest rec g m domain direction msg at = (r, g', m') \<Longrightarrow>
   mg_global_blocked g' = mg_global_blocked g
   \<and> (d \<noteq> to_ascii_lowercase (trim domain) \<longrightarrow> map_of (mg_tenants g') d = map_of (mg_tenants g) d)"
  by (auto simp: charge_relay_def split: option.splits prod.splits)

lemmas md_ops = add_recipient_def remove_recipient_def md_allocate_vanity_def revoke_vanity_def mint_random_alias_def
  burn_random_alias_def block_sender_def unblock_sender_def suspend_user_def unsuspend_user_def set_domain_quota_def

lemma md_step_other:
  "md_target c \<noteq> Some d \<Longrightarrow> map_of (mg_tenants (md_step from_seed digest g c)) d = map_of (mg_tenants g) d"
  by (cases c)
    (auto simp: md_ops add_domain_def remove_domain_def block_sender_global_def unblock_sender_global_def Let_def
      dest: charge_relay_other [where d = d] split: option.splits prod.splits sum.splits)

lemma md_step_blocked: "\<not> md_global c \<Longrightarrow> mg_global_blocked (md_step from_seed digest g c) = mg_global_blocked g"
  by (cases c)
    (auto simp: md_global_def md_ops add_domain_def remove_domain_def Let_def
      dest: charge_relay_other split: option.splits prod.splits sum.splits)

lemma md_run_other:
  "list_all (\<lambda>c. md_target c \<noteq> Some d \<and> \<not> md_global c) cmds \<Longrightarrow>
   map_of (mg_tenants (foldl (md_step from_seed digest) g cmds)) d = map_of (mg_tenants g) d
   \<and> mg_global_blocked (foldl (md_step from_seed digest) g cmds) = mg_global_blocked g"
  by (induction cmds arbitrary: g) (simp_all add: md_step_other md_step_blocked)

text \<open>
  (C9) Tenants are isolated: whatever is done on other domains, their creation and removal, recipients,
  aliases, blocklists, suspensions, quotas, routing and relaying included, the routing of every
  recipient of a domain stays as it was.
\<close>

theorem tenants_isolated:
  assumes "list_all (\<lambda>c. md_target c \<noteq> Some d \<and> \<not> md_global c) cmds" "split_address rcpt = Some (local_part, d)"
  shows "fst (route digest (foldl (md_step from_seed digest) g cmds) sender rcpt now) = fst (route digest g sender rcpt now)"
  using md_run_other [OF assms(1), of from_seed digest g] assms(2)
  by (auto simp: route_def split: option.splits prod.splits)


section \<open>The invariant of a tenant\<close>

text \<open>
  A tenant is filed under its domain, its aliases belong to that domain, and the local part of every
  directory address is reserved there.
\<close>

definition dir_reserved :: "'sk DomainTenant \<Rightarrow> bool" where
  "dir_reserved t \<longleftrightarrow>
     (\<forall>lp. lp \<noteq> [] \<longrightarrow> list_all addr_char lp \<longrightarrow> map_of (dt_directory t) (lp @ CHR ''@'' # dt_domain t) \<noteq> None
        \<longrightarrow> lp \<in> set (aa_reserved (dt_aliases t)))"

definition tenant_ok :: "string \<Rightarrow> 'sk DomainTenant \<Rightarrow> bool" where
  "tenant_ok d t \<longleftrightarrow> dt_domain t = d \<and> aa_domain (dt_aliases t) = d \<and> alloc_inv (dt_aliases t) \<and> dir_reserved t"

definition md_inv :: "'sk MultiDomainGateway \<Rightarrow> bool" where
  "md_inv g \<longleftrightarrow> (\<forall>d t. map_of (mg_tenants g) d = Some t \<longrightarrow> tenant_ok d t)"

lemma tenant_ok_domain:
  assumes "tenant_ok d t"
  shows "list_all addr_char d" "to_ascii_lowercase d = d" "d \<noteq> []"
proof -
  have "is_valid_dns_domain d" "to_ascii_lowercase d = d" using assms by (auto simp: tenant_ok_def alloc_inv_def)
  then show "list_all addr_char d" "to_ascii_lowercase d = d" "d \<noteq> []"
    by (simp_all add: domain_addr_chars) (auto simp: is_valid_dns_domain_def)
qed

lemma trim_split: "\<exists>a b. s = a @ trim s @ b \<and> list_all is_whitespace a \<and> list_all is_whitespace b"
proof -
  let ?m = "dropWhile is_whitespace s"
  have "?m = rev (dropWhile is_whitespace (rev ?m)) @ rev (takeWhile is_whitespace (rev ?m))"
    by (metis rev_append rev_rev_ident takeWhile_dropWhile_id)
  moreover have "s = takeWhile is_whitespace s @ ?m" by simp
  ultimately have "s = takeWhile is_whitespace s @ trim s @ rev (takeWhile is_whitespace (rev ?m))"
    by (simp add: trim_def trim_end_while_def)
  moreover have "list_all is_whitespace (takeWhile is_whitespace x)" for x by (auto simp: list_all_iff dest: set_takeWhileD)
  ultimately show ?thesis by (metis list_all_rev)
qed

lemma to_lower_code: "of_char (to_lower_char c) = (if is_ascii_uppercase c then of_char c + 32 else of_char c :: nat)"
proof (cases "is_ascii_uppercase c")
  case True
  then have "of_char c + 32 < (256 :: nat)" by (simp add: is_ascii_uppercase_def)
  then show ?thesis using True by (simp add: to_lower_char_def of_char_of)
qed (simp add: to_lower_char_def)

lemma char_eq_code: "c = d \<longleftrightarrow> of_char c = (of_char d :: nat)"
  by simp

lemma to_lower_eq_at [simp]: "to_lower_char c = CHR ''@'' \<longleftrightarrow> c = CHR ''@''"
  unfolding char_eq_code to_lower_code by (auto simp: is_ascii_uppercase_def)

lemma is_whitespace_to_lower [simp]: "is_whitespace (to_lower_char c) = is_whitespace c"
  unfolding is_whitespace_def to_lower_code by (auto simp: is_ascii_uppercase_def)

lemma addr_char_to_lower [simp]: "addr_char (to_lower_char c) = addr_char c"
  by (simp add: addr_char_def)

lemma addr_chars_lower: "list_all addr_char (to_ascii_lowercase s) = list_all addr_char s"
  by (simp add: to_ascii_lowercase_def list_all_iff)

lemma trim_around:
  assumes "list_all is_whitespace a" "list_all is_whitespace b" "list_all addr_char m" "m \<noteq> []"
  shows "trim (a @ m @ b) = m"
proof -
  have "dropWhile is_whitespace (a @ x) = dropWhile is_whitespace x" for x
    using assms(1) by (simp add: dropWhile_append list_all_iff)
  moreover have "list_all (\<lambda>c. \<not> is_whitespace c) m" using assms(3) by (rule list.pred_mono_strong) (simp add: addr_char_def)
  then have "dropWhile is_whitespace (m @ b) = m @ b \<and> dropWhile is_whitespace (rev m) = rev m"
    using assms(4) dropWhile_none [of is_whitespace "rev m"] by (cases m) (simp_all add: list_all_rev)
  moreover have "dropWhile is_whitespace (rev b @ x) = dropWhile is_whitespace x" for x
    using assms(2) by (simp add: dropWhile_append list_all_iff)
  ultimately show ?thesis by (simp add: trim_def trim_end_while_def)
qed

lemma lower_append_at:
  assumes "to_ascii_lowercase x = lp @ CHR ''@'' # d"
  obtains c1 c2 where "x = c1 @ CHR ''@'' # c2" "to_ascii_lowercase c1 = lp" "to_ascii_lowercase c2 = d"
proof -
  from assms obtain c1 r where x: "x = c1 @ r" "map to_lower_char c1 = lp" "map to_lower_char r = CHR ''@'' # d"
    by (auto simp: to_ascii_lowercase_def map_eq_append_conv)
  then obtain c c2 where "r = c # c2" "to_lower_char c = CHR ''@''" "map to_lower_char c2 = d" by (auto simp: map_eq_Cons_conv)
  with x that show ?thesis by (simp add: to_ascii_lowercase_def)
qed

text \<open>The address a directory is given is the one whose local part is reserved.\<close>

lemma reserve_covers:
  assumes "to_ascii_lowercase (trim email) = lp @ CHR ''@'' # d" "list_all addr_char lp" "lp \<noteq> []" "list_all addr_char d" "d \<noteq> []"
    and "to_ascii_lowercase d = d" "aa_domain al = d"
  shows "lp \<in> set (aa_reserved (snd (reserve_directory_address al email)))"
proof -
  obtain c1 c2 where c: "trim email = c1 @ CHR ''@'' # c2" "to_ascii_lowercase c1 = lp" "to_ascii_lowercase c2 = d"
    using lower_append_at [OF assms(1)] .
  then have ch: "list_all addr_char c1" "list_all addr_char c2" "c1 \<noteq> []" "c2 \<noteq> []"
    using assms(2-5) addr_chars_lower [of c1] addr_chars_lower [of c2] by (auto simp: to_ascii_lowercase_def)
  obtain a b where e: "email = a @ trim email @ b" "list_all is_whitespace a" "list_all is_whitespace b" using trim_split by blast
  have "CHR ''@'' \<notin> set (c2 @ b)"
  proof -
    have "\<not> is_whitespace (CHR ''@'')" "\<not> addr_char (CHR ''@'')" by (simp_all add: is_whitespace_def addr_char_def)
    then show ?thesis using ch(2) e(3) unfolding list_all_iff by auto
  qed
  then have "rsplit_once CHR ''@'' email = Some (a @ c1, c2 @ b)"
    using rsplit_once_append [of "CHR ''@''" "c2 @ b" "a @ c1"] e(1) c(1) by simp
  moreover have "trim (c2 @ b) = c2" "trim (a @ c1) = c1"
    using trim_around [of "[]" b c2] trim_around [of a "[]" c1] ch e by simp_all
  ultimately show ?thesis
    using c assms(6,7) by (simp add: reserve_directory_address_def eq_ignore_ascii_case_def reserve_localpart_def Let_def)
qed

lemma aa_domain_step [simp]: "aa_domain (alloc_step al c) = aa_domain al"
  by (cases c)
    (auto simp: allocate_vanity_def release_vanity_def reserve_localpart_def reserve_directory_address_def Let_def
      split: sum.splits option.splits)

lemma aa_reserved_step: "set (aa_reserved al) \<subseteq> set (aa_reserved (alloc_step al c))"
  by (cases c)
    (auto simp: allocate_vanity_def release_vanity_def reserve_localpart_def reserve_directory_address_def Let_def
      split: sum.splits option.splits)

lemma tenant_ok_aliases:
  "tenant_ok d t \<Longrightarrow> tenant_ok d (t\<lparr> dt_aliases := alloc_step (dt_aliases t) c \<rparr>)"
  using aa_reserved_step [of "dt_aliases t" c] va.step_inv [of "dt_aliases t" c]
  by (auto simp: tenant_ok_def dir_reserved_def)

lemma tenant_mut_inv:
  assumes "md_inv g" "\<And>t. tenant_ok (to_ascii_lowercase (trim domain)) t \<Longrightarrow> tenant_ok (to_ascii_lowercase (trim domain)) (snd (f t))"
  shows "md_inv (snd (tenant_mut g domain f))"
proof (cases "map_of (mg_tenants g) (to_ascii_lowercase (trim domain))")
  case (Some t)
  then have "tenant_ok (to_ascii_lowercase (trim domain)) (snd (f t))" using assms by (simp add: md_inv_def)
  with Some assms(1) show ?thesis by (auto simp: md_inv_def tenant_mut_def Let_def split: prod.splits)
qed (use assms(1) in \<open>simp add: tenant_mut_def\<close>)

lemma tenant_ok_keeps:
  "tenant_ok d t \<Longrightarrow> tenant_ok d (t\<lparr> dt_random := x \<rparr>)" "tenant_ok d t \<Longrightarrow> tenant_ok d (t\<lparr> dt_blocked_senders := y \<rparr>)"
  "tenant_ok d t \<Longrightarrow> tenant_ok d (t\<lparr> dt_suspended_users := y \<rparr>)" "tenant_ok d t \<Longrightarrow> tenant_ok d (t\<lparr> dt_ledger := l \<rparr>)"
  "tenant_ok d t \<Longrightarrow> tenant_ok d (t\<lparr> dt_quota := q, dt_ledger := l \<rparr>)"
  by (simp_all add: tenant_ok_def dir_reserved_def)

lemma tenant_ok_add:
  assumes "tenant_ok d t"
  shows "tenant_ok d (t\<lparr> dt_directory := directory_insert (dt_directory t) email key,
    dt_aliases := snd (reserve_directory_address (dt_aliases t) email) \<rparr>)"
proof -
  let ?al = "alloc_step (dt_aliases t) (ReserveDirectoryAddress email)"
  have ok: "tenant_ok d (t\<lparr> dt_aliases := ?al \<rparr>)" by (rule tenant_ok_aliases [OF assms])
  have "lp \<in> set (aa_reserved ?al)"
    if "lp \<noteq> []" "list_all addr_char lp" "map_of (directory_insert (dt_directory t) email key) (lp @ CHR ''@'' # d) \<noteq> None" for lp
  proof (cases "lp @ CHR ''@'' # d = to_ascii_lowercase (trim email)")
    case True
    then show ?thesis
      using reserve_covers [of email lp d "dt_aliases t"] that(1,2) tenant_ok_domain [OF assms] assms by (simp add: tenant_ok_def)
  next
    case False
    then show ?thesis using that ok by (auto simp: tenant_ok_def dir_reserved_def directory_insert_def)
  qed
  then show ?thesis using ok by (simp add: tenant_ok_def dir_reserved_def)
qed

lemma tenant_ok_remove: "tenant_ok d t \<Longrightarrow> tenant_ok d (t\<lparr> dt_directory := al_remove k (dt_directory t) \<rparr>)"
  by (auto simp: tenant_ok_def dir_reserved_def split: if_splits)

lemma tenant_ok_route: "tenant_ok d t \<Longrightarrow> tenant_ok d (snd (route_tenant digest t lp domain now))"
  by (auto simp: route_tenant_def Let_def tenant_ok_keeps split: option.splits prod.splits sum.splits GatewayAliasError.splits)

lemma md_inv_insert: "md_inv g \<Longrightarrow> tenant_ok d t \<Longrightarrow> md_inv (g\<lparr> mg_tenants := al_insert d t (mg_tenants g) \<rparr>)"
  by (auto simp: md_inv_def split: if_splits)

lemma md_invD: "md_inv g \<Longrightarrow> map_of (mg_tenants g) d = Some t \<Longrightarrow> tenant_ok d t"
  by (simp add: md_inv_def)

lemma route_inv: "md_inv g \<Longrightarrow> md_inv (snd (route digest g sender rcpt now))"
  by (auto simp: route_def case_prod_beta split: option.splits intro!: md_inv_insert tenant_ok_route intro: md_invD)

lemma dropWhile_lower: "dropWhile is_whitespace (map to_lower_char s) = map to_lower_char (dropWhile is_whitespace s)"
  by (simp add: dropWhile_map comp_def)

lemma trim_lower: "trim (to_ascii_lowercase s) = to_ascii_lowercase (trim s)"
  by (simp add: trim_def trim_end_while_def to_ascii_lowercase_def dropWhile_lower rev_map)

lemma trim_trim: "trim (trim s) = trim s"
proof (cases "trim s")
  case (Cons c r)
  let ?m = "dropWhile is_whitespace s"
  obtain w where w: "?m = trim s @ w"
    by (metis rev_append rev_rev_ident takeWhile_dropWhile_id trim_def trim_end_while_def)
  then have "?m \<noteq> []" "hd ?m = c" using Cons by simp_all
  then have "\<not> is_whitespace c" using hd_dropWhile [of is_whitespace s] by simp
  then have "dropWhile is_whitespace (trim s) = trim s" by (simp add: Cons)
  then show ?thesis by (simp add: trim_def trim_end_while_def)
next
  case Nil
  have "trim [] = []" by (simp add: trim_def trim_end_while_def)
  with Nil show ?thesis by simp
qed

lemma domain_key_idem: "to_ascii_lowercase (trim (to_ascii_lowercase (trim s))) = to_ascii_lowercase (trim s)"
  by (simp add: trim_lower trim_trim)

lemma add_domain_inv: "md_inv g \<Longrightarrow> md_inv (snd (add_domain from_seed rnd g domain seed sel))"
proof -
  let ?d = "to_ascii_lowercase (trim domain)"
  assume g: "md_inv g"
  show ?thesis
  proof (cases "for_domain ?d")
    case (Inr al)
    then have al: "aa_domain al = ?d" "alloc_inv al"
      by (auto simp: for_domain_def Let_def domain_key_idem alloc_inv_def split: if_splits)
    then show ?thesis
      using g Inr by (auto simp: add_domain_def Let_def tenant_ok_def dir_reserved_def directory_new_def intro!: md_inv_insert)
  qed (use g in \<open>simp add: add_domain_def\<close>)
qed

lemma charge_relay_inv:
  assumes "md_inv g" "charge_relay digest rec g m domain direction msg at = (r, g', m')"
  shows "md_inv g'"
proof (cases "tenant g domain")
  case (Some t)
  then have "tenant_ok (to_ascii_lowercase (trim domain)) t" using assms(1) by (simp add: tenant_def md_inv_def)
  then show ?thesis
    using assms Some by (auto simp: charge_relay_def split: prod.splits intro!: md_inv_insert tenant_ok_keeps)
qed (use assms in \<open>simp add: charge_relay_def\<close>)

lemma tenant_ok_allocate: "tenant_ok d t \<Longrightarrow> tenant_ok d (t\<lparr> dt_aliases := snd (allocate_vanity (dt_aliases t) pk lp) \<rparr>)"
  using tenant_ok_aliases [of d t "AllocateVanity pk lp"] by simp

lemma tenant_ok_release: "tenant_ok d t \<Longrightarrow> tenant_ok d (t\<lparr> dt_aliases := snd (release_vanity (dt_aliases t) pk) \<rparr>)"
  using tenant_ok_aliases [of d t "ReleaseVanity pk"] by simp

lemma md_step_inv: "md_inv g \<Longrightarrow> md_inv (md_step from_seed digest g c)"
proof (cases c)
  case (MdCharge d direction msg at)
  moreover assume "md_inv g"
  ultimately show ?thesis by (auto intro: charge_relay_inv split: prod.splits)
qed (auto simp: md_ops Let_def directory_remove_def case_prod_beta tenant_ok_keeps tenant_ok_allocate tenant_ok_release
      tenant_ok_add tenant_ok_remove add_domain_inv route_inv remove_domain_def block_sender_global_def unblock_sender_global_def
      intro!: tenant_mut_inv split: option.splits mint_result.splits, auto simp: md_inv_def split: if_splits)

interpretation md: invariant_machine "md_step from_seed digest" md_inv for from_seed digest
  by unfold_locales (rule md_step_inv)

lemma md_reachable_inv: "md_inv (foldl (md_step from_seed digest) multi_new cmds)"
  by (rule md.run_inv) (simp add: md_inv_def multi_new_def)

section \<open>Where mail goes\<close>

lemma addr_chars_no_space: "list_all addr_char s \<Longrightarrow> list_all (\<lambda>c. \<not> is_whitespace c) s"
  by (erule list.pred_mono_strong) (simp add: addr_char_def)

lemma addr_chars_no_at: "list_all addr_char s \<Longrightarrow> CHR ''@'' \<notin> set s"
  unfolding list_all_iff addr_char_def by blast

lemma address_no_space:
  "list_all addr_char lp \<Longrightarrow> list_all addr_char d \<Longrightarrow> list_all (\<lambda>c. \<not> is_whitespace c) (lp @ CHR ''@'' # d)"
  by (simp add: addr_chars_no_space) (simp add: is_whitespace_def)

lemma trim_matches_keeps:
  "dd \<noteq> [] \<Longrightarrow> last dd \<noteq> c \<Longrightarrow> trim_end_matches c (x @ dd) = x @ dd"
  "lp \<noteq> [] \<Longrightarrow> hd lp \<noteq> c \<Longrightarrow> trim_start_matches c (lp @ x) = lp @ x"
proof -
  show "trim_end_matches c (x @ dd) = x @ dd" if "dd \<noteq> []" "last dd \<noteq> c"
    using that by (cases dd rule: rev_cases) (simp_all add: trim_end_matches_def trim_end_while_def)
  show "trim_start_matches c (lp @ x) = lp @ x" if "lp \<noteq> []" "hd lp \<noteq> c"
    using that by (cases lp) (simp_all add: trim_start_matches_def)
qed

lemma clean_address:
  assumes "list_all addr_char lp" "to_ascii_lowercase lp = lp" "tenant_ok d t"
  shows "to_ascii_lowercase (trim (lp @ ''@'' @ d)) = lp @ CHR ''@'' # d"
proof -
  note dom = tenant_ok_domain [OF assms(3)]
  have "list_all (\<lambda>c. \<not> is_whitespace c) (lp @ ''@'' @ d)"
    using address_no_space [OF assms(1) dom(1)] by simp
  then have "trim (lp @ ''@'' @ d) = lp @ ''@'' @ d" by (rule trim_id)
  then show ?thesis using assms(2) dom(2) by (simp add: to_ascii_lowercase_def to_lower_char_def is_ascii_uppercase_def)
qed

lemma tenant_mut_ok:
  assumes "tenant_mut g domain f = (Inr x, g')"
  obtains t where "map_of (mg_tenants g) (to_ascii_lowercase (trim domain)) = Some t" "x = fst (f t)"
    "g' = g\<lparr> mg_tenants := al_insert (to_ascii_lowercase (trim domain)) (snd (f t)) (mg_tenants g) \<rparr>"
  using assms by (auto simp: tenant_mut_def Let_def split: option.splits prod.splits)

lemma allocate_vanity_ok:
  assumes "allocate_vanity al pk s = (Inr addr, al')"
  shows "check_vanity al s = Inr (to_ascii_lowercase s) \<and> map_of (aa_vanity al') (to_ascii_lowercase s) = Some pk
    \<and> addr = qualify al' (to_ascii_lowercase s)"
proof (cases "check_vanity al s")
  case (Inr lp)
  then have "lp = to_ascii_lowercase s" by (auto simp: check_vanity_def Let_def split: if_splits)
  then show ?thesis using assms Inr by (auto simp: allocate_vanity_def Let_def split: option.splits prod.splits if_splits)
qed (use assms in \<open>simp add: allocate_vanity_def\<close>)

lemma vanity_addr_char: "vanity_ok lp \<Longrightarrow> list_all addr_char lp \<and> lp \<noteq> [] \<and> to_ascii_lowercase lp = lp"
  using vanity_addr_chars by (auto simp: vanity_ok_def is_valid_vanity_charset_def)

text \<open>
  (C10) Right after a vanity name is granted in any reachable state of the gateway, mail for it is routed
  to the key it was granted to. No directory entry stands in the way, since the local parts of all
  recipients are reserved. The sender must be blocked neither for the gateway nor for the domain, the
  name must not be suspended there, and no random alias of the domain may have that very name.
\<close>

theorem vanity_routes_to_owner:
  assumes "g = foldl (md_step from_seed digest) multi_new cmds" "md_allocate_vanity g domain pk lp = (Inr addr, g')"
    and "d = to_ascii_lowercase (trim domain)" "split_address rcpt = Some (to_ascii_lowercase lp, d)"
    and "map_of (mg_tenants g) d = Some t" "map_of (dt_random t) (to_ascii_lowercase lp) = None"
    and "to_ascii_lowercase (trim sender) \<notin> mg_global_blocked g" "to_ascii_lowercase (trim sender) \<notin> dt_blocked_senders t"
    and "to_ascii_lowercase lp \<notin> dt_suspended_users t"
  shows "fst (route digest g' sender rcpt now) = Inr (RAlias (IdentityTarget pk))"
proof -
  let ?lp = "to_ascii_lowercase lp"
  obtain al' where al: "allocate_vanity (dt_aliases t) pk lp = (Inr addr, al')"
    and g': "g' = g\<lparr> mg_tenants := al_insert d (t\<lparr> dt_aliases := al' \<rparr>) (mg_tenants g) \<rparr>"
    using assms(2,3,5) by (auto simp: md_allocate_vanity_def md_flatten_def tenant_mut_def case_prod_beta split: sum.splits)
      (metis prod.collapse)
  have ok: "tenant_ok d t" using md_reachable_inv assms(1,5) by (blast intro: md_invD)
  note v = allocate_vanity_ok [OF al]
  then have lp: "list_all addr_char ?lp" "?lp \<noteq> []" "?lp \<notin> set (aa_reserved (dt_aliases t))"
    using check_vanity_ok vanity_addr_char by blast+
  have "map_of (dt_directory t) (?lp @ CHR ''@'' # d) = None"
    using ok lp by (auto simp: tenant_ok_def dir_reserved_def)
  then have dir: "directory_resolve (dt_directory t) (?lp @ ''@'' @ d) = None"
    using clean_address [OF lp(1) _ ok] by (simp add: directory_resolve_def)
  have al': "alloc_inv al'" "aa_domain al' = d"
    using ok va.step_inv [of "dt_aliases t" "AllocateVanity pk lp"] aa_domain_step [of "dt_aliases t" "AllocateVanity pk lp"] al
    by (simp_all add: tenant_ok_def)
  then have "resolve digest al' (?lp @ ''@'' @ d) regs = Some pk" for regs
    using resolve_qualified [OF al'(1) lp(1), of digest regs] v by (simp add: qualify_def)
  then show ?thesis
    using assms(4-9) dir by (simp add: g' route_def route_tenant_def alias_resolve_def case_prod_beta Let_def)
qed

text \<open>
  (C28) A recipient that is added is reached: mail for its address in any spelling goes to its key,
  whatever aliases the domain has, unless the sender is blocked or the user suspended. The address must
  be given bare, without spaces or angle brackets.
\<close>

theorem added_recipient_reached:
  assumes "g = foldl (md_step from_seed digest) multi_new cmds" "add_recipient g email key = (Inr (), g')"
    and "list_all addr_char lp" "list_all (\<lambda>c. addr_char c \<and> c \<noteq> CHR ''>'') dd" "lp \<noteq> []" "hd lp \<noteq> CHR ''<''" "dd \<noteq> []" "email = lp @ ''@'' @ dd"
    and "split_address rcpt = Some (to_ascii_lowercase lp, to_ascii_lowercase dd)" "map_of (mg_tenants g) (to_ascii_lowercase dd) = Some t"
    and "to_ascii_lowercase (trim sender) \<notin> mg_global_blocked g" "to_ascii_lowercase (trim sender) \<notin> dt_blocked_senders t"
    and "to_ascii_lowercase lp \<notin> dt_suspended_users t"
  shows "fst (route digest g' sender rcpt now) = Inr (RDirectory key)"
proof -
  have ok: "tenant_ok (to_ascii_lowercase dd) t" using md_reachable_inv assms(1,10) by (blast intro: md_invD)
  have dd: "list_all addr_char dd" using assms(4) by (rule list.pred_mono_strong) simp
  have ne: "list_all (\<lambda>c. \<not> is_whitespace c) email"
    using address_no_space [OF assms(3) dd] assms(8) by simp
  then have te: "trim email = email" by (rule trim_id)
  have "last dd \<noteq> CHR ''>''" using assms(4,7) by (simp add: list_all_iff)
  then have "trim_end_matches CHR ''>'' email = email" "trim_start_matches CHR ''<'' email = email"
    using trim_matches_keeps(1) [of dd "CHR ''>''" "lp @ ''@''"] trim_matches_keeps(2) [of lp "CHR ''<''" "''@'' @ dd"] assms(5-8)
    by simp_all
  moreover have "rsplit_once CHR ''@'' email = Some (lp, dd)"
    using addr_chars_no_at [OF dd] assms(8) by (simp add: rsplit_once_append)
  ultimately have sp: "split_address email = Some (to_ascii_lowercase lp, to_ascii_lowercase dd)"
    using assms(5,7) te by (simp add: split_address_def)
  have key: "to_ascii_lowercase (trim (to_ascii_lowercase lp @ ''@'' @ to_ascii_lowercase dd)) = to_ascii_lowercase (trim email)"
  proof -
    have "to_ascii_lowercase lp @ ''@'' @ to_ascii_lowercase dd = to_ascii_lowercase email"
      by (simp add: assms(8) to_ascii_lowercase_def to_lower_char_def is_ascii_uppercase_def)
    then show ?thesis by (simp add: trim_lower)
  qed
  have td: "to_ascii_lowercase (trim (to_ascii_lowercase dd)) = to_ascii_lowercase dd"
  proof -
    have "list_all (\<lambda>c. \<not> is_whitespace c) dd" using dd by (simp add: list_all_iff addr_char_def)
    then show ?thesis by (simp add: trim_lower trim_id)
  qed
  show ?thesis
    using assms(2,9-13) sp td key
    by (auto simp: add_recipient_def tenant_mut_def route_def route_tenant_def directory_resolve_def directory_insert_def case_prod_beta Let_def)
qed

lemma last_trim:
  assumes "x \<noteq> []" "\<not> is_whitespace (last x)"
  shows "trim x \<noteq> [] \<and> last (trim x) = last x"
proof -
  obtain a b where x: "x = a @ trim x @ b" "list_all is_whitespace a" "list_all is_whitespace b" using trim_split by blast
  have "b = []"
  proof (rule ccontr)
    assume "b \<noteq> []"
    then have "last x = last b" using x(1) by (metis last_append append_is_Nil_conv)
    then show False using assms(2) x(3) \<open>b \<noteq> []\<close> by (simp add: list_all_iff)
  qed
  moreover have "trim x \<noteq> []"
  proof
    assume "trim x = []"
    then have "x = a" using x(1) \<open>b = []\<close> by simp
    then show False using x(2) assms by (simp add: list_all_iff)
  qed
  ultimately show ?thesis using x(1) by (metis append_Nil2 last_append)
qed

lemma domain_no_bracket: "is_valid_dns_domain d \<Longrightarrow> CHR ''>'' \<notin> set d"
proof
  assume d: "is_valid_dns_domain d" and "CHR ''>'' \<in> set d"
  then obtain p where p: "p \<in> set (split_on CHR ''.'' d)" "CHR ''>'' \<in> set p"
    using set_split_on [of "CHR ''>''" d "CHR ''.''"] by auto
  have "is_valid_dns_label p" using d p(1) by (auto simp: is_valid_dns_domain_def Let_def list_all_iff split: if_splits)
  then have "is_ascii_alphanumeric (CHR ''>'') \<or> CHR ''>'' = CHR ''-''"
    using p(2) unfolding is_valid_dns_label_def list_all_iff by (metis (no_types, lifting))
  then show False by (simp add: is_ascii_alphanumeric_def is_ascii_uppercase_def is_ascii_lowercase_def is_ascii_digit_def)
qed

text \<open>
  (C37) A recipient given in angle brackets is accepted and lost: the gateway reads the domain without
  the brackets and files the key under the address with them. No routing ever returns the new entry;
  whatever recipient of the directory a routing returns, it returned before.
\<close>

theorem bracketed_recipient_lost:
  assumes "g = foldl (md_step from_seed digest) multi_new cmds" "add_recipient g (''<'' @ email @ ''>'') key = (Inr (), g')"
    and "fst (route digest g' sender rcpt now) = Inr (RDirectory k)"
  shows "fst (route digest g sender rcpt now) = Inr (RDirectory k)"
proof -
  let ?K = "to_ascii_lowercase (trim (''<'' @ email @ ''>''))"
  obtain l dom' where sa: "split_address (''<'' @ email @ ''>'') = Some (l, dom')"
    using assms(2) by (cases "split_address (''<'' @ email @ ''>'')") (auto simp: add_recipient_def)
  obtain lp d where sr: "split_address rcpt = Some (lp, d)"
    using assms(3) by (cases "split_address rcpt") (auto simp: route_def)
  obtain t where t: "map_of (mg_tenants g') d = Some t" "directory_resolve (dt_directory t) (lp @ ''@'' @ d) = Some k"
    "to_ascii_lowercase (trim sender) \<notin> mg_global_blocked g'" "to_ascii_lowercase (trim sender) \<notin> dt_blocked_senders t" "lp \<notin> dt_suspended_users t"
    using assms(3) sr
    by (auto simp: route_def route_tenant_def case_prod_beta Let_def split: if_splits option.splits sum.splits GatewayAliasError.splits)
  have ok: "tenant_ok d t"
    using md_step_inv [OF md_reachable_inv, of from_seed digest from_seed digest cmds "MdAddRecipient (''<'' @ email @ ''>'') key"] assms(1,2) t(1)
    by (auto intro: md_invD)
  have "last (to_ascii_lowercase (trim (lp @ ''@'' @ d))) \<noteq> CHR ''>''"
  proof -
    have d: "d \<noteq> []" "\<not> is_whitespace (last d)" "CHR ''>'' \<notin> set d" "to_ascii_lowercase d = d"
      using tenant_ok_domain [OF ok] addr_chars_no_space [OF tenant_ok_domain(1) [OF ok]] domain_no_bracket ok
      by (auto simp: list_all_iff tenant_ok_def alloc_inv_def)
    then have "trim (lp @ ''@'' @ d) \<noteq> []" "last (trim (lp @ ''@'' @ d)) = last d" using last_trim [of "lp @ ''@'' @ d"] by auto
    then have "last (to_ascii_lowercase (trim (lp @ ''@'' @ d))) = last (to_ascii_lowercase d)"
      using d(1) by (simp add: to_ascii_lowercase_def last_map)
    then show ?thesis using d by (metis last_in_set)
  qed
  moreover have "last ?K = CHR ''>''"
    using last_trim [of "''<'' @ email @ ''>''"]
    by (simp add: to_ascii_lowercase_def last_map is_whitespace_def to_lower_char_def is_ascii_uppercase_def)
  ultimately have "to_ascii_lowercase (trim (lp @ ''@'' @ d)) \<noteq> ?K" by metis
  with t sa sr assms(2) show ?thesis
    by (auto simp: add_recipient_def tenant_mut_def route_def route_tenant_def directory_resolve_def directory_insert_def
        case_prod_beta Let_def split: option.splits if_splits)
qed

section \<open>Samples\<close>

definition sample_multi_cmds :: "md_cmd list" where
  "sample_multi_cmds = [MdAddDomain [1] ''gw.org'' None []]"

definition sample_tenant :: "bytes DomainTenant" where
  "sample_tenant = \<lparr> dt_domain = ''gw.org'', dt_dkim = \<lparr> dk_domain = ''gw.org'', dk_selector = ''gw1'', dk_signing = [1] \<rparr>,
     dt_directory = directory_new, dt_aliases = sample_allocator, dt_random = alias_map_new, dt_blocked_senders = {},
     dt_suspended_users = {}, dt_quota = quota_messages 0 0, dt_ledger = upsert_quota quota_ledger_new ''gw.org'' (quota_messages 0 0) \<rparr>"

definition sample_multi :: "bytes MultiDomainGateway" where
  "sample_multi = \<lparr> mg_tenants = [(''gw.org'', sample_tenant)], mg_global_blocked = {}, mg_default_quota = quota_messages 0 0 \<rparr>"

lemma sample_texts:
  "to_ascii_lowercase (trim ''gw.org'') = ''gw.org''" "trim [] = []" "split_address ''bob@gw.org'' = Some (''bob'', ''gw.org'')"
  "split_address ''<bob@gw.org>'' = Some (''bob'', ''gw.org'')" "to_ascii_lowercase (trim ''s'') = ''s''" "to_ascii_lowercase ''bob'' = ''bob''"
  "to_ascii_lowercase ''gw.org'' = ''gw.org''" "trim ''gw.org'' = ''gw.org''"
  by (simp_all add: trim_def trim_end_while_def is_whitespace_def to_ascii_lowercase_def to_lower_char_def is_ascii_uppercase_def
      split_address_def trim_end_matches_def trim_start_matches_def rsplit_once_def)

lemma sample_multi_run: "sample_multi = foldl (md_step (\<lambda>s. s) digest) multi_new sample_multi_cmds"
  by (simp add: sample_multi_cmds_def sample_multi_def sample_tenant_def multi_new_def add_domain_def Let_def sample_texts for_domain_sample)

theorem tenants_isolated_witness:
  "fst (route (\<lambda>k. k) (foldl (md_step (\<lambda>s. s) (\<lambda>k. k)) sample_multi [MdAddDomain [2] ''s'' None [], MdSuspend ''s'' ''bob'']) ''s'' ''bob@gw.org'' 5)
   = fst (route (\<lambda>k. k) sample_multi ''s'' ''bob@gw.org'' 5)"
  by (rule tenants_isolated [where d = "''gw.org''" and local_part = "''bob''"]) (simp_all add: sample_texts md_global_def)

theorem vanity_routes_to_owner_witness:
  "fst (route (\<lambda>k. k) (snd (md_allocate_vanity sample_multi ''gw.org'' [9] ''bob'')) ''s'' ''bob@gw.org'' 5) = Inr (RAlias (IdentityTarget [9]))"
proof -
  let ?g' = "snd (md_allocate_vanity sample_multi ''gw.org'' [9] ''bob'')"
  have c: "check_vanity sample_allocator ''bob'' = Inr ''bob''"
    by (simp add: check_vanity_def sample_texts is_valid_vanity_charset_def MAX_VANITY_LEN_def is_ascii_alphanumeric_def is_ascii_lowercase_def
        starts_with_def RESERVED_ALIAS_PREFIX_def is_key_derived_form_def strip_prefix_def sample_allocator_def)
  have "md_allocate_vanity sample_multi ''gw.org'' [9] ''bob'' = (Inr ''bob@gw.org'', ?g')"
    by (simp add: md_allocate_vanity_def tenant_mut_def sample_texts sample_multi_def sample_tenant_def allocate_vanity_def c Let_def)
      (simp add: md_flatten_def sample_allocator_def qualify_def)
  from vanity_routes_to_owner [OF sample_multi_run this, where rcpt = "''bob@gw.org''" and t = sample_tenant and sender = "''s''" and now = 5]
  show ?thesis by (simp add: sample_texts) (simp add: sample_multi_def sample_tenant_def alias_map_new_def)
qed

theorem added_recipient_reached_witness:
  "fst (route (\<lambda>k. k) (snd (add_recipient sample_multi ''bob@gw.org'' \<lparr> rk_ik = [1], rk_seal_pub = [2] \<rparr>)) ''s'' ''<bob@gw.org>'' 5)
   = Inr (RDirectory \<lparr> rk_ik = [1], rk_seal_pub = [2] \<rparr>)"
proof -
  let ?k = "\<lparr> rk_ik = [1], rk_seal_pub = [2] \<rparr>"
  let ?g' = "snd (add_recipient sample_multi ''bob@gw.org'' ?k)"
  have "add_recipient sample_multi ''bob@gw.org'' ?k = (Inr (), ?g')"
    by (simp add: add_recipient_def tenant_mut_def sample_texts sample_multi_def Let_def)
  from added_recipient_reached [OF sample_multi_run this, where lp = "''bob''" and dd = "''gw.org''" and rcpt = "''<bob@gw.org>''" and t = sample_tenant and sender = "''s''" and now = 5]
  show ?thesis by (simp add: sample_texts addr_char_def is_whitespace_def) (simp add: sample_multi_def sample_tenant_def)
qed

theorem bracketed_recipient_lost_witness:
  "fst (route (\<lambda>k. k) (snd (add_recipient sample_multi ''<bob@gw.org>'' \<lparr> rk_ik = [1], rk_seal_pub = [2] \<rparr>)) ''s'' ''bob@gw.org'' 5)
   \<noteq> Inr (RDirectory \<lparr> rk_ik = [1], rk_seal_pub = [2] \<rparr>)"
proof
  let ?k = "\<lparr> rk_ik = [1], rk_seal_pub = [2] \<rparr>"
  let ?g' = "snd (add_recipient sample_multi ''<bob@gw.org>'' ?k)"
  assume r: "fst (route (\<lambda>k. k) ?g' ''s'' ''bob@gw.org'' 5) = Inr (RDirectory ?k)"
  have "add_recipient sample_multi (''<'' @ ''bob@gw.org'' @ ''>'') ?k = (Inr (), ?g')"
    by (simp add: add_recipient_def tenant_mut_def sample_texts sample_multi_def Let_def)
  from bracketed_recipient_lost [OF sample_multi_run this r]
  show False by (simp add: route_def sample_texts sample_multi_def route_tenant_def directory_resolve_def sample_tenant_def directory_new_def Let_def
        split: option.splits sum.splits prod.splits GatewayAliasError.splits)
qed

section \<open>The meter counts what was charged\<close>

fun relay_all ::
  "(bytes \<Rightarrow> bytes) \<Rightarrow> 'sk MultiDomainGateway \<Rightarrow> UsageMeter \<Rightarrow> (string \<times> BridgeDirection \<times> bytes \<times> u64) list
   \<Rightarrow> (ChargeError + Usage) list \<times> 'sk MultiDomainGateway \<times> UsageMeter" where
  "relay_all digest g m [] = ([], g, m)"
| "relay_all digest g m ((domain, direction, msg, at) # cs) =
     (case charge_relay digest usage_record g m domain direction msg at of (r, g, m) \<Rightarrow>
        (case relay_all digest g m cs of (rs, g, m) \<Rightarrow> (r # rs, g, m)))"

definition relayed :: "(BridgeDirection \<Rightarrow> bool) \<Rightarrow> string \<Rightarrow> (string \<times> BridgeDirection \<times> bytes \<times> u64) list \<Rightarrow> (ChargeError + Usage) list \<Rightarrow> nat" where
  "relayed P d cs rs =
     length (filter (\<lambda>((domain, direction, _, _), r). to_ascii_lowercase (trim domain) = d \<and> P direction \<and> is_ok r) (zip cs rs))"

lemma is_ok_map_err [simp]: "is_ok (map_err f r) = is_ok r"
  by (cases r) simp_all

lemma charge_relay_metered:
  assumes "md_inv g" "charge_relay digest usage_record g m domain direction msg at = (r, g', m')"
  shows "al_get_or domain_usage_default m' d
    = (let u = al_get_or domain_usage_default m d in
       if to_ascii_lowercase (trim domain) = d \<and> is_ok r
       then \<lparr> du_inbound = du_inbound u + (if direction = Inbound then 1 else 0),
              du_outbound = du_outbound u + (if direction = Outbound then 1 else 0), du_messages = du_messages u + 1 \<rparr>
       else u)"
proof (cases "tenant g domain")
  case (Some t)
  then have ok: "tenant_ok (to_ascii_lowercase (trim domain)) t" using assms(1) by (simp add: tenant_def md_inv_def)
  then have k: "dt_domain t = to_ascii_lowercase (trim domain)" by (simp add: tenant_ok_def)
  obtain c l where c: "try_charge (dt_ledger t) (dt_domain t) (of_nat (length msg)) = (c, l)" by fastforce
  show ?thesis
  proof (cases c)
    case (Inl e)
    then show ?thesis using assms(2) Some c by (auto simp: charge_relay_def charge_and_meter_def)
  next
    case (Inr u)
    then have "is_ok r" and m': "m' = usage_record m \<lparr> me_direction = direction, me_account = dt_domain t, me_domain = dt_domain t,
        me_msg_digest = digest msg, me_at = at \<rparr>"
      using assms(2) Some c by (auto simp: charge_relay_def charge_and_meter_def)
    then show ?thesis
      using k by (cases direction) (simp_all add: usage_record_def Let_def DomainUsage.defs)
  qed
qed (use assms(2) in \<open>auto simp: charge_relay_def\<close>)

lemma relayed_Cons:
  "relayed P d ((domain, direction, msg, at) # cs) (r # rs)
   = (if to_ascii_lowercase (trim domain) = d \<and> P direction \<and> is_ok r then 1 else 0) + relayed P d cs rs"
  by (simp add: relayed_def)

lemma unat_add_one: "unat (w :: u64) + n < 2 ^ 64 \<Longrightarrow> 0 < n \<Longrightarrow> unat (w + 1) = unat w + 1"
  by (simp add: unat_word_ariths)

lemma relay_all_metered:
  assumes "md_inv g" "relay_all digest g m cs = (rs, g', m')"
    and "u = al_get_or domain_usage_default m d" "u' = al_get_or domain_usage_default m' d"
    and "unat (du_messages u) + length cs < 2 ^ 64" "unat (du_inbound u) + length cs < 2 ^ 64" "unat (du_outbound u) + length cs < 2 ^ 64"
  shows "unat (du_messages u') = unat (du_messages u) + relayed (\<lambda>_. True) d cs rs
    \<and> unat (du_inbound u') = unat (du_inbound u) + relayed (\<lambda>x. x = Inbound) d cs rs
    \<and> unat (du_outbound u') = unat (du_outbound u) + relayed (\<lambda>x. x = Outbound) d cs rs"
  using assms
proof (induction cs arbitrary: g m rs u)
  case Nil
  then show ?case by (simp add: relayed_def)
next
  case (Cons c cs)
  obtain domain direction msg at where c: "c = (domain, direction, msg, at)" by (cases c)
  obtain r g1 m1 where r: "charge_relay digest usage_record g m domain direction msg at = (r, g1, m1)" by (metis prod_cases3)
  obtain rs1 where rs: "rs = r # rs1" "relay_all digest g1 m1 cs = (rs1, g', m')"
    using Cons.prems(2) r by (auto simp: c split: prod.splits)
  let ?u1 = "al_get_or domain_usage_default m1 d"
  have one: "?u1 = (if to_ascii_lowercase (trim domain) = d \<and> is_ok r
       then \<lparr> du_inbound = du_inbound u + (if direction = Inbound then 1 else 0),
              du_outbound = du_outbound u + (if direction = Outbound then 1 else 0), du_messages = du_messages u + 1 \<rparr> else u)"
    using charge_relay_metered [OF Cons.prems(1) r, of d] Cons.prems(3) by (simp add: Let_def)
  have inc: "unat (du_messages u + 1) = unat (du_messages u) + 1" "unat (du_inbound u + 1) = unat (du_inbound u) + 1"
    "unat (du_outbound u + 1) = unat (du_outbound u) + 1"
    by (rule unat_add_one [OF Cons.prems(5)], simp) (rule unat_add_one [OF Cons.prems(6)], simp, rule unat_add_one [OF Cons.prems(7)], simp)
  have "md_inv g1" by (rule charge_relay_inv [OF Cons.prems(1) r])
  from Cons.IH [OF this rs(2) refl Cons.prems(4)] inc Cons.prems(5-7) show ?case
    unfolding rs(1) c relayed_Cons one by (cases direction) (auto split: if_splits)
qed

text \<open>
  The usage meter counts exactly the messages that were charged: after any sequence of relayed
  messages, the counters of a domain are the numbers of accepted messages of that domain, in total and
  in each direction, and a refused message is not counted.
\<close>

lemma relays_metered_exactly:
  assumes "g = foldl (md_step from_seed digest) multi_new cmds" "relay_all digest g [] cs = (rs, g', m')" "length cs < 2 ^ 64"
  shows "unat (du_messages (meter_usage m' domain)) = relayed (\<lambda>_. True) (to_ascii_lowercase (trim domain)) cs rs
    \<and> unat (du_inbound (meter_usage m' domain)) = relayed (\<lambda>x. x = Inbound) (to_ascii_lowercase (trim domain)) cs rs
    \<and> unat (du_outbound (meter_usage m' domain)) = relayed (\<lambda>x. x = Outbound) (to_ascii_lowercase (trim domain)) cs rs"
  using relay_all_metered [OF _ assms(2) refl refl, of "to_ascii_lowercase (trim domain)"] md_reachable_inv [of from_seed digest cmds] assms(1,3)
  by (simp add: meter_usage_def domain_usage_default_def)

lemma relays_metered_exactly_witness:
  "unat (du_messages (meter_usage (snd (snd (relay_all (\<lambda>k. k) sample_multi [] [(''gw.org'', Inbound, [1], 5), (''s'', Outbound, [1], 6)]))) ''gw.org'')) = 1"
proof -
  let ?cs = "[(''gw.org'', Inbound, [1], 5), (''s'', Outbound, [1], 6)]"
  obtain rs g' m' where r: "relay_all (\<lambda>k. k) sample_multi [] ?cs = (rs, g', m')" by (metis prod_cases3)
  then have "relayed (\<lambda>_. True) ''gw.org'' ?cs rs = 1"
    by (auto simp: relayed_def charge_relay_def tenant_def sample_texts sample_multi_def sample_tenant_def charge_and_meter_def try_charge_def
        upsert_quota_def quota_ledger_new_def quota_messages_def usage_def usage_default_def Let_def split: prod.splits)
  with relays_metered_exactly [OF sample_multi_run r, of "''gw.org''"] r show ?thesis by (simp add: sample_texts)
qed

end
