(* ===== verification/Gateway_Mesh.thy ===== *)
theory Gateway_Mesh
  imports Gateway_Inbound Gateway_Net
begin

text \<open>
  Delivery to the node (\<open>crates/pier-gateway/src/mesh.rs\<close>): the endpoint, the request that carries a
  message, and what counts as an acknowledgement. The encodings of a message are the fields of \<open>EnvLib\<close>.
  The network is a function of the endpoint and of what is written: the failure to resolve, connect or
  write, or what the reads of the answer return.
\<close>

section \<open>The endpoint\<close>

datatype MeshConfigError = UnsupportedScheme string | MissingHost string | BadPort string

record HttpMeshDelivery =
  hm_host :: string
  hm_port :: u16
  hm_path :: string
  hm_connect_timeout :: nat
  hm_io_timeout :: nat

definition split_endpoint :: "string \<Rightarrow> string \<times> string" where
  "split_endpoint rest =
     (case find_char CHR ''/'' rest of Some i \<Rightarrow> (take i rest, drop i rest) | None \<Rightarrow> (rest, ''/''))"

definition split_authority :: "string \<Rightarrow> MeshConfigError + string \<times> u16" where
  "split_authority authority =
     (case rsplit_once CHR '':'' authority of
        Some (h, p) \<Rightarrow>
          (case parse_unsigned 65535 p of None \<Rightarrow> Inl (BadPort p) | Some port \<Rightarrow> Inr (h, of_nat port))
      | None \<Rightarrow> Inr (authority, 80))"

definition mesh_new :: "string \<Rightarrow> MeshConfigError + HttpMeshDelivery" where
  "mesh_new endpoint =
     (case strip_prefix ''http://'' endpoint of
        None \<Rightarrow> Inl (UnsupportedScheme endpoint)
      | Some rest \<Rightarrow>
          (case split_endpoint rest of (authority, path) \<Rightarrow>
             if authority = [] then Inl (MissingHost endpoint)
             else
               res_bind (split_authority authority) (\<lambda>(host, port).
                 if host = [] then Inl (MissingHost endpoint)
                 else Inr \<lparr> hm_host = host, hm_port = port, hm_path = path, hm_connect_timeout = 10, hm_io_timeout = 10 \<rparr>)))"

definition with_timeouts :: "HttpMeshDelivery \<Rightarrow> nat \<Rightarrow> nat \<Rightarrow> HttpMeshDelivery" where
  "with_timeouts d connect io = d\<lparr> hm_connect_timeout := connect, hm_io_timeout := io \<rparr>"

definition mesh_authority :: "HttpMeshDelivery \<Rightarrow> string" where
  "mesh_authority d = hm_host d @ '':'' @ show_nat (unat (hm_port d))"

section \<open>Delivery\<close>

record 'env EnvLib =
  en_det_cbor :: "'env \<Rightarrow> bytes"
  en_id_bytes :: "'env \<Rightarrow> bytes"

definition header_safe :: "string \<Rightarrow> string" where
  "header_safe v = filter (\<lambda>c. c \<noteq> CHR 0x0D \<and> c \<noteq> CHR 0x0A) v"

definition mesh_head_lines :: "'env EnvLib \<Rightarrow> HttpMeshDelivery \<Rightarrow> 'env \<Rightarrow> 'cid Attestation \<Rightarrow> string list" where
  "mesh_head_lines E d env att =
     [''POST '' @ hm_path d @ '' HTTP/1.1'',
      ''Host: '' @ hm_host d,
      ''User-Agent: pier-gateway'',
      ''Content-Type: application/dmtap-mote'',
      ''Content-Length: '' @ show_nat (length (en_det_cbor E env)),
      ''X-Dmtap-Mote-Id: '' @ b64_encode (en_id_bytes E env),
      ''X-Dmtap-Gateway-Domain: '' @ at_domain att,
      ''X-Dmtap-Gateway-Selector: '' @ at_selector att,
      ''X-Dmtap-Attestation-Sig: '' @ b64_encode (at_sig att),
      ''X-Dmtap-Smtp-From: '' @ header_safe (at_smtp_mail_from att),
      ''X-Dmtap-Smtp-Rcpt: '' @ header_safe (at_smtp_rcpt_to att),
      ''Connection: close'']"

definition mesh_head :: "'env EnvLib \<Rightarrow> HttpMeshDelivery \<Rightarrow> 'env \<Rightarrow> 'cid Attestation \<Rightarrow> string" where
  "mesh_head E d env att =
     concat (map (\<lambda>l. l @ [CHR 0x0D, CHR 0x0A]) (mesh_head_lines E d env att)) @ [CHR 0x0D, CHR 0x0A]"

definition status_ok :: "string \<Rightarrow> bool" where
  "status_ok status = (case split_whitespace status of _ # c # _ \<Rightarrow> starts_with ''2'' c | _ \<Rightarrow> False)"

definition post ::
  "'env EnvLib \<Rightarrow> (string \<times> u16 \<Rightarrow> bytes \<Rightarrow> 'e IoError + 'e ReadEvent list) \<Rightarrow> HttpMeshDelivery
   \<Rightarrow> 'env \<Rightarrow> 'cid Attestation \<Rightarrow> 'e IoError + bool" where
  "post E net d env att =
     (let body = en_det_cbor E env in
      res_bind (net (hm_host d, hm_port d) (str_bytes (mesh_head E d env att) @ body)) (\<lambda>tcp.
      res_bind (fst (read_line_str tcp)) (\<lambda>status.
        case status of None \<Rightarrow> Inl NoReply | Some status \<Rightarrow> Inr (status_ok status))))"

definition null_deliver :: "'env \<Rightarrow> 'cid Attestation \<Rightarrow> DeliveryOutcome" where
  "null_deliver env att = NoAck"

definition mesh_deliver ::
  "'env EnvLib \<Rightarrow> (string \<times> u16 \<Rightarrow> bytes \<Rightarrow> 'e IoError + 'e ReadEvent list) \<Rightarrow> HttpMeshDelivery
   \<Rightarrow> 'env \<Rightarrow> 'cid Attestation \<Rightarrow> DeliveryOutcome" where
  "mesh_deliver E net d env att =
     (case post E net d env att of Inr True \<Rightarrow> Acked | Inr False \<Rightarrow> NoAck | Inl _ \<Rightarrow> NoAck)"

section \<open>An acknowledgement is the node's\<close>

lemma mesh_deliver_acked:
  "mesh_deliver E net d env att = Acked \<longleftrightarrow>
   (\<exists>tcp status r. net (hm_host d, hm_port d) (str_bytes (mesh_head E d env att) @ en_det_cbor E env) = Inr tcp
      \<and> read_line_str tcp = (Inr (Some status), r) \<and> status_ok status)"
proof (cases "net (hm_host d, hm_port d) (str_bytes (mesh_head E d env att) @ en_det_cbor E env)")
  case (Inr tcp)
  obtain l r where l: "read_line_str tcp = (l, r)" by fastforce
  show ?thesis
    by (cases l) (auto simp: mesh_deliver_def post_def Inr l Let_def split: option.splits bool.splits)
qed (simp add: mesh_deliver_def post_def Let_def)

text \<open>
  (C13) With a gateway that delivers to a node's ingest endpoint, a message is accepted exactly when its
  DKIM verdict passed the DKIM gate, its DMARC verdict, with that DKIM verdict and the SPF outcome
  given, passed the DMARC gate, it was wrapped for its recipient and attested under the key of the
  recipient's domain, the wrapped message was posted whole to the endpoint with that attestation, and
  the node answered with a status line whose code begins with 2: a node that cannot be reached, breaks
  off, stays silent or refuses leaves the message to the sender's queue.
\<close>

theorem accepted_iff_node_answered:
  assumes "ig_deliver g = mesh_deliver E net d"
    and "accept_message_with_spf K C L g w mail_from rcpt_to data now spf = (r, w')"
  shows "sr_code r = 250 \<longleftrightarrow>
    (\<exists>env att tcp status r. dkim_gate g (verify_inbound_dkim C g data) = Inr ()
       \<and> dmarc_gate L g data spf (verify_inbound_dkim C g data) mail_from = Inr ()
       \<and> wrap_and_attest K L g mail_from rcpt_to data now = Inr (env, att)
       \<and> w' = w\<lparr> gw_deliveries := gw_deliveries w @ [(env, att)] \<rparr>
       \<and> net (hm_host d, hm_port d) (str_bytes (mesh_head E d env att) @ en_det_cbor E env) = Inr tcp
       \<and> read_line_str tcp = (Inr (Some status), r) \<and> status_ok status)"
  using assms(2)
proof (cases rule: accept_message_cases)
  case refused
  then show ?thesis by (auto dest: arg_cong [of _ _ "length \<circ> gw_deliveries"])
next
  case (delivered p)
  have "w' = w\<lparr> gw_deliveries := gw_deliveries w @ [q] \<rparr> \<longleftrightarrow> q = p" for q
    using delivered(1) by (metis GatewayWorld.ext_inject GatewayWorld.surjective GatewayWorld.update_convs(2) last_snoc)
  then show ?thesis using delivered(2-5) assms(1) mesh_deliver_acked [of E net d "fst p" "snd p"]
    by (cases p) auto
qed

section \<open>An address cannot add a header\<close>

lemma good_line_parts:
  "good_line (header_safe v)" "good_line (show_nat n)" "good_line (b64_encode x)"
proof -
  show "good_line (header_safe v)" by (auto simp: good_line_def header_safe_def)
  show "good_line (show_nat n)" using show_nat_digits [of n] by (auto simp: good_line_def list_all_iff is_ascii_digit_def)
  have "\<not> tag_char (CHR 0x0D)" "\<not> tag_char (CHR 0x0A)" by (simp_all add: tag_char_def is_whitespace_def)
  then show "good_line (b64_encode x)" using b64_encode_tag [of x] unfolding list_all_iff good_line_def by blast
qed

text \<open>
  The request cannot be split by an address: whatever the envelope sender and recipient hold, the head
  of the request is exactly its twelve lines and the empty one, as long as the operator's endpoint, domain
  and selector hold no line break.
\<close>

lemma mesh_head_not_split:
  assumes "good_line (hm_path d)" "good_line (hm_host d)" "good_line (at_domain att)" "good_line (at_selector att)"
  shows "lines (mesh_head E d env att) = mesh_head_lines E d env att @ [[]]"
proof -
  have "list_all good_line (mesh_head_lines E d env att)"
    using assms good_line_parts unfolding good_line_def by (simp add: mesh_head_lines_def good_line_def)
  then show ?thesis by (simp add: mesh_head_def lines_crlf_concat starts_with_def)
qed

lemma mesh_head_not_split_witness:
  "let d = \<lparr> hm_host = ''h'', hm_port = 80, hm_path = ''/i'', hm_connect_timeout = 10, hm_io_timeout = 10 \<rparr>;
       att = \<lparr> at_domain = ''b.org'', at_selector = ''s'', at_gateway_key = [], at_received_at = 0,
               at_smtp_mail_from = ''a@c'' @ [CHR 0x0D, CHR 0x0A] @ ''X-Dmtap-Smtp-Rcpt: e@b'', at_smtp_rcpt_to = ''u@b'',
               at_mote_id = (), at_sig = [] \<rparr>;
       E = \<lparr> en_det_cbor = (\<lambda>_. []), en_id_bytes = (\<lambda>_. []) \<rparr>
   in length (lines (mesh_head E d () att)) = 13"
  using mesh_head_not_split [of
      "\<lparr> hm_host = ''h'', hm_port = 80, hm_path = ''/i'', hm_connect_timeout = 10, hm_io_timeout = 10 \<rparr>"
      "\<lparr> at_domain = ''b.org'', at_selector = ''s'', at_gateway_key = [], at_received_at = 0,
         at_smtp_mail_from = ''a@c'' @ [CHR 0x0D, CHR 0x0A] @ ''X-Dmtap-Smtp-Rcpt: e@b'', at_smtp_rcpt_to = ''u@b'',
         at_mote_id = (), at_sig = [] \<rparr>" "\<lparr> en_det_cbor = (\<lambda>_. []), en_id_bytes = (\<lambda>_. []) \<rparr>" "()"]
  by (simp add: good_line_def Let_def mesh_head_lines_def)

section \<open>A node that answers\<close>

definition sample_net :: "string \<times> u16 \<Rightarrow> bytes \<Rightarrow> nat IoError + nat ReadEvent list" where
  "sample_net _ _ = Inr (map Byte (str_bytes ''HTTP/1.1 200 OK'' @ [13, 10]))"

definition sample_mesh :: HttpMeshDelivery where
  "sample_mesh = \<lparr> hm_host = ''127.0.0.1'', hm_port = 8646, hm_path = ''/i'', hm_connect_timeout = 10, hm_io_timeout = 10 \<rparr>"

definition sample_env :: "bytes EnvLib" where
  "sample_env = \<lparr> en_det_cbor = (\<lambda>e. e), en_id_bytes = (\<lambda>e. e) \<rparr>"

definition mesh_gateway :: "(bytes, unit, bytes, bytes) InboundGateway" where
  "mesh_gateway = sample_gateway\<lparr> ig_deliver := mesh_deliver sample_env sample_net sample_mesh \<rparr>"

lemma sample_acked: "mesh_deliver sample_env sample_net sample_mesh e att = Acked"
proof -
  have r: "read_line_str (map Byte (str_bytes ''HTTP/1.1 200 OK'' @ [13, 10]) @ []) = (Inr (Some (lossy (str_bytes ''HTTP/1.1 200 OK''))), [])"
    by (rule read_line_str_crlf) (simp_all add: str_bytes_def MAX_SMTP_LINE_def)
  have "status_ok (lossy (str_bytes ''HTTP/1.1 200 OK''))" by code_simp
  with r show ?thesis unfolding mesh_deliver_acked sample_net_def by auto
qed

lemma mesh_gateway_facts:
  "dkim_gate mesh_gateway v = Inr ()" "dmarc_gate L mesh_gateway d spf v f = Inr ()"
  "attest_key_for mesh_gateway ''b.org'' = Some (attestation_key_new ''b.org'' ''s'' [7])"
  "ig_deliver mesh_gateway e att = Acked"
  "ig_directory mesh_gateway ''u@b.org'' = Some \<lparr> rk_ik = [1], rk_seal_pub = [2] \<rparr>"
  by (simp_all add: mesh_gateway_def sample_acked sample_gateway_def inbound_new_def dkim_gate_def dmarc_gate_def attest_key_for_def
      attestation_key_new_def eq_ignore_ascii_case_def)

theorem accepted_iff_node_answered_witness:
  "\<exists>att w' tcp status r. accept_message_with_spf (ref_kotva (RU64 0)) sample_crypto sample_lib mesh_gateway sample_world
       ''a@c'' ''u@b.org'' [104, 105] 5 None = (reply 250 ''2.6.0 message durably accepted'', w')
     \<and> wrap_and_attest (ref_kotva (RU64 0)) sample_lib mesh_gateway ''a@c'' ''u@b.org'' [104, 105] 5 = Inr ([104, 105], att)
     \<and> w' = sample_world\<lparr> gw_deliveries := [([104, 105], att)] \<rparr>
     \<and> sample_net (''127.0.0.1'', 8646) (str_bytes (mesh_head sample_env sample_mesh [104, 105] att) @ [104, 105]) = Inr tcp
     \<and> read_line_str tcp = (Inr (Some status), r) \<and> status_ok status"
proof -
  obtain att where "wrap_and_attest (ref_kotva (RU64 0)) sample_lib mesh_gateway ''a@c'' ''u@b.org'' [104, 105] 5 = Inr ([104, 105], att)"
    by (simp add: wrap_and_attest_def sample_domain mesh_gateway_facts) (simp add: sample_lib_def strip_trust_boundary_headers_def)
  then have a: "accept_message_with_spf (ref_kotva (RU64 0)) sample_crypto sample_lib mesh_gateway sample_world
       ''a@c'' ''u@b.org'' [104, 105] 5 None
     = (reply 250 ''2.6.0 message durably accepted'', sample_world\<lparr> gw_deliveries := [([104, 105], att)] \<rparr>)"
    by (simp add: accept_message_with_spf_def mesh_gateway_facts sample_world_def Let_def)
  have "ig_deliver mesh_gateway = mesh_deliver sample_env sample_net sample_mesh" by (simp add: mesh_gateway_def)
  from accepted_iff_node_answered [OF this a] a show ?thesis
    by (auto simp: reply_def sample_world_def sample_mesh_def sample_env_def)
qed

end
