(* ===== verification/Gateway_LegacyNet.thy ===== *)
theory Gateway_LegacyNet
  imports Gateway_Net "HOL-Library.Sublist"
begin

text \<open>
  The line driver of the mail access servers (\<open>crates/pier-gateway/src/legacy_net.rs\<close>): the capped line
  reader over a buffered stream, the loop that feeds a line protocol and upgrades the stream in place.
  The stream is the list of what filling the buffer returns, its end the end of the stream; a handshake
  maps what is left of the plain stream to the decrypted stream. The state keeps what was written and
  the lines that were read, each with whether the stream was secured.
\<close>

section \<open>Lines\<close>

definition MAX_LINE :: nat where "MAX_LINE = 64 * 1024 * 1024"

datatype LegacyTls = StartTls | Implicit

definition legacy_tls_parse :: "string \<Rightarrow> LegacyTls option" where
  "legacy_tls_parse v =
     (let s = to_ascii_lowercase (trim v) in
      if s \<in> {''starttls'', ''start-tls'', ''start_tls''} then Some StartTls
      else if s \<in> {''implicit'', ''implicit-tls'', ''tls'', ''993'', ''995'', ''465''} then Some Implicit
      else None)"

definition is_implicit :: "LegacyTls \<Rightarrow> bool" where
  "is_implicit m = (m = Implicit)"

definition verb_of :: "string \<Rightarrow> string" where
  "verb_of line = to_ascii_uppercase (case split_whitespace line of [] \<Rightarrow> [] | w # _ \<Rightarrow> w)"

datatype 'e Fill = Filled bytes | FillInterrupted | FillFailed 'e

datatype 'e LegacyError = ProtocolLineTooLong | PipelinedData | HandshakeFailed 'e | LegacyIo 'e

datatype LineStep = LineDone bytes bytes | LineMore bytes | LineTooLongStep

definition line_step :: "bytes \<Rightarrow> bytes \<Rightarrow> LineStep" where
  "line_step out available =
     (if 10 \<in> set available then
        LineDone (out @ takeWhile (\<lambda>b. b \<noteq> 10) available @ [10]) (tl (dropWhile (\<lambda>b. b \<noteq> 10) available))
      else if length (out @ available) > MAX_LINE then LineTooLongStep
      else LineMore (out @ available))"

fun fill_line :: "bytes \<Rightarrow> 'e Fill list \<Rightarrow> ('e LegacyError + bytes) \<times> bytes \<times> 'e Fill list" where
  "fill_line out [] = (Inr out, [], [])"
| "fill_line out (Filled available # r) =
     (if available = [] then (Inr out, [], r)
      else
        (case line_step out available of
           LineDone line buf \<Rightarrow> (Inr line, buf, r)
         | LineTooLongStep \<Rightarrow> (Inl ProtocolLineTooLong, [], r)
         | LineMore out \<Rightarrow> fill_line out r))"
| "fill_line out (FillInterrupted # r) = fill_line out r"
| "fill_line out (FillFailed e # r) = (Inl (LegacyIo e), [], r)"

definition read_line_capped :: "bytes \<Rightarrow> 'e Fill list \<Rightarrow> ('e LegacyError + bytes) \<times> bytes \<times> 'e Fill list" where
  "read_line_capped buf evs =
     (if buf = [] then fill_line [] evs
      else
        (case line_step [] buf of
           LineDone line buf \<Rightarrow> (Inr line, buf, evs)
         | LineTooLongStep \<Rightarrow> (Inl ProtocolLineTooLong, [], evs)
         | LineMore out \<Rightarrow> fill_line out evs))"

definition strip_eol :: "bytes \<Rightarrow> bytes" where
  "strip_eol line = rev (dropWhile (\<lambda>b. b = 13 \<or> b = 10) (rev line))"

section \<open>The driver\<close>

text \<open>The \<open>LineProtocol\<close> trait over the state of the protocol.\<close>

record 's LineProtocol =
  lp_greeting :: "'s \<Rightarrow> string \<times> 's"
  lp_feed_line_bytes :: "'s \<Rightarrow> bytes \<Rightarrow> string \<times> 's"
  lp_is_starttls :: "'s \<Rightarrow> string \<Rightarrow> bool"
  lp_accepts_upgrade :: "'s \<Rightarrow> string \<Rightarrow> bool"
  lp_is_quit :: "'s \<Rightarrow> string \<Rightarrow> bool"

record 's LegacySession =
  lg_proto :: 's
  lg_secured :: bool
  lg_buf :: bytes
  lg_out :: "(bool \<times> string) list"
  lg_lines :: "(bool \<times> bytes) list"

text \<open>The writes are numbered; a failing one gives its error.\<close>

definition legacy_write :: "(nat \<Rightarrow> 'e option) \<Rightarrow> string \<Rightarrow> 's LegacySession \<Rightarrow> 'e LegacyError + 's LegacySession" where
  "legacy_write wfail text st =
     (case wfail (length (lg_out st)) of
        Some e \<Rightarrow> Inl (LegacyIo e)
      | None \<Rightarrow> Inr (st\<lparr> lg_out := lg_out st @ [(lg_secured st, text)] \<rparr>))"

text \<open>One line: the session after it, and whether the stream is to be upgraded and the session to end.\<close>

definition legacy_line ::
  "'s LineProtocol \<Rightarrow> (nat \<Rightarrow> 'e option) \<Rightarrow> 's LegacySession \<Rightarrow> bytes \<Rightarrow> bytes
   \<Rightarrow> ('e LegacyError + bool \<times> bool) \<times> 's LegacySession" where
  "legacy_line P wfail st line buf =
     (let cmd = strip_eol line;
          cmd_text = lossy cmd;
          wants_upgrade = (\<not> lg_secured st \<and> lp_is_starttls P (lg_proto st) cmd_text);
          quit = lp_is_quit P (lg_proto st) cmd_text;
          (rep, proto) = lp_feed_line_bytes P (lg_proto st) cmd;
          st = st\<lparr> lg_proto := proto, lg_buf := buf, lg_lines := lg_lines st @ [(lg_secured st, line)] \<rparr>
      in case (if rep = [] then Inr st else legacy_write wfail rep st) of
           Inl e \<Rightarrow> (Inl e, st)
         | Inr st \<Rightarrow>
             if wants_upgrade \<and> lp_accepts_upgrade P (lg_proto st) rep then
               (if buf \<noteq> [] then (Inl PipelinedData, st) else (Inr (True, quit), st))
             else (Inr (False, quit), st))"

definition weight :: "'e Fill list \<Rightarrow> nat" where
  "weight evs = sum_list (map (\<lambda>f. case f of Filled b \<Rightarrow> Suc (length b) | _ \<Rightarrow> 1) evs)"

lemma line_step_done:
  "line_step out b = LineDone line buf \<Longrightarrow> out @ b = line @ buf \<and> length out < length line"
proof -
  assume s: "line_step out b = LineDone line buf"
  then have n: "10 \<in> set b" "line = out @ takeWhile (\<lambda>b. b \<noteq> 10) b @ [10]" "buf = tl (dropWhile (\<lambda>b. b \<noteq> 10) b)"
    by (auto simp: line_step_def split: if_splits)
  then obtain r where "dropWhile (\<lambda>b. b \<noteq> 10) b = 10 # r"
    by (metis (mono_tags, lifting) dropWhile_eq_Nil_conv hd_dropWhile list.exhaust_sel)
  then show ?thesis using n takeWhile_dropWhile_id [of "\<lambda>b. b \<noteq> 10" b] by simp
qed

lemma line_step_done_length: "line_step out b = LineDone line buf \<Longrightarrow> length line + length buf = length out + length b"
  using line_step_done [of out b line buf] by (metis length_append)

lemma line_step_more: "line_step out b = LineMore out' \<Longrightarrow> out' = out @ b"
  by (auto simp: line_step_def split: if_splits)

definition fill_bytes :: "'e Fill list \<Rightarrow> bytes" where
  "fill_bytes evs = concat (map (\<lambda>f. case f of Filled b \<Rightarrow> b | _ \<Rightarrow> []) evs)"

lemma fill_simps [simp]:
  "fill_bytes [] = []" "fill_bytes (Filled b # r) = b @ fill_bytes r" "fill_bytes (FillInterrupted # r) = fill_bytes r"
  "fill_bytes (FillFailed e # r) = fill_bytes r" "weight [] = 0" "weight (Filled b # r) = Suc (length b + weight r)"
  "weight (FillInterrupted # r) = Suc (weight r)" "weight (FillFailed e # r) = Suc (weight r)"
  by (simp_all add: fill_bytes_def weight_def)

lemma fill_line_bytes:
  "fill_line out evs = (Inr line, buf, r) \<Longrightarrow>
   line @ buf @ fill_bytes r = out @ fill_bytes evs \<and> length buf + weight r + length line \<le> length out + weight evs"
proof (induction out evs rule: fill_line.induct)
  case (2 out b r0)
  show ?case
  proof (cases "line_step out b")
    case (LineDone l u)
    then show ?thesis using 2(2) line_step_done [OF LineDone] line_step_done_length [OF LineDone] by (auto split: if_splits)
  next
    case (LineMore o2)
    then show ?thesis using 2 line_step_more [OF LineMore] by (auto split: if_splits)
  next
    case LineTooLongStep
    then show ?thesis using 2(2) by (auto split: if_splits)
  qed
qed auto

lemma read_line_capped_bytes:
  assumes "read_line_capped buf evs = (Inr line, buf', r)"
  shows "line @ buf' @ fill_bytes r = buf @ fill_bytes evs" "length buf' + weight r + length line \<le> length buf + weight evs"
proof -
  have "line @ buf' @ fill_bytes r = buf @ fill_bytes evs \<and> length buf' + weight r + length line \<le> length buf + weight evs"
  proof (cases "buf = []")
    case True
    then show ?thesis using assms fill_line_bytes [of "[]" evs line buf' r] by (simp add: read_line_capped_def)
  next
    case False
    show ?thesis
    proof (cases "line_step [] buf")
      case (LineDone l u)
      then show ?thesis using assms False line_step_done [OF LineDone] line_step_done_length [OF LineDone]
        by (simp add: read_line_capped_def)
    next
      case (LineMore o2)
      then show ?thesis using assms False line_step_more [OF LineMore] fill_line_bytes [of o2 evs line buf' r]
        by (simp add: read_line_capped_def)
    next
      case LineTooLongStep
      then show ?thesis using assms False by (simp add: read_line_capped_def)
    qed
  qed
  then show "line @ buf' @ fill_bytes r = buf @ fill_bytes evs" "length buf' + weight r + length line \<le> length buf + weight evs" by simp_all
qed

lemma read_line_capped_shorter:
  "read_line_capped buf evs = (Inr line, buf', r) \<Longrightarrow> line \<noteq> [] \<Longrightarrow> length buf' + weight r < length buf + weight evs"
  using read_line_capped_bytes(2) [of buf evs line buf' r] by (cases line) auto

lemma legacy_line_keeps:
  "legacy_line P wfail st line buf = (res, st') \<Longrightarrow> lg_secured st' = lg_secured st \<and> lg_buf st' = buf
     \<and> lg_lines st' = lg_lines st @ [(lg_secured st, line)]"
  "legacy_line P wfail st line buf = (Inr (True, q), st') \<Longrightarrow> \<not> lg_secured st \<and> buf = []"
  by (auto simp: legacy_line_def legacy_write_def Let_def split: prod.splits sum.splits option.splits if_splits)

function serve_loop ::
  "'s LineProtocol \<Rightarrow> (nat \<Rightarrow> 'e option) \<Rightarrow> ('e Fill list \<Rightarrow> 'e + 'e Fill list) \<Rightarrow> 's LegacySession \<Rightarrow> 'e Fill list
   \<Rightarrow> ('e LegacyError + unit) \<times> 's LegacySession" where
  "serve_loop P wfail handshake st evs =
     (case read_line_capped (lg_buf st) evs of
        (Inl e, buf, _) \<Rightarrow> (Inl e, st\<lparr> lg_buf := buf \<rparr>)
      | (Inr line, buf, rest) \<Rightarrow>
          if line = [] then (Inr (), st\<lparr> lg_buf := buf \<rparr>)
          else
            (case legacy_line P wfail st line buf of
               (Inl e, st') \<Rightarrow> (Inl e, st')
             | (Inr (upgrade, quit), st') \<Rightarrow>
                 if upgrade then
                   (case handshake rest of
                      Inl e \<Rightarrow> (Inl (HandshakeFailed e), st')
                    | Inr evs' \<Rightarrow>
                        if quit then (Inr (), st'\<lparr> lg_secured := True \<rparr>)
                        else serve_loop P wfail handshake (st'\<lparr> lg_secured := True \<rparr>) evs')
                 else if quit then (Inr (), st')
                 else serve_loop P wfail handshake st' rest))"
  by pat_completeness auto
termination
proof (relation "measures [\<lambda>(P, wfail, handshake, st, evs). if lg_secured st then 0 else 1,
                           \<lambda>(P, wfail, handshake, st, evs). length (lg_buf st) + weight evs]", goal_cases)
  case 2
  then show ?case by (auto dest!: legacy_line_keeps(2) [OF sym])
next
  case 3
  then show ?case by (auto dest!: legacy_line_keeps(1) [OF sym] read_line_capped_shorter [OF sym])
qed simp

declare serve_loop.simps [simp del]

definition serve_line_session ::
  "'s LineProtocol \<Rightarrow> (nat \<Rightarrow> 'e option) \<Rightarrow> ('e Fill list \<Rightarrow> 'e + 'e Fill list) \<Rightarrow> LegacyTls \<Rightarrow> 's \<Rightarrow> 'e Fill list
   \<Rightarrow> ('e LegacyError + unit) \<times> 's LegacySession" where
  "serve_line_session P wfail handshake mode proto evs =
     (let st = \<lparr> lg_proto = proto, lg_secured = False, lg_buf = [], lg_out = [], lg_lines = [] \<rparr>;
          start = (case mode of
                     Implicit \<Rightarrow>
                       (case handshake evs of
                          Inl e \<Rightarrow> Inl (HandshakeFailed e)
                        | Inr evs' \<Rightarrow> Inr (st\<lparr> lg_secured := True \<rparr>, evs'))
                   | StartTls \<Rightarrow> Inr (st, evs))
      in case start of
           Inl e \<Rightarrow> (Inl e, st)
         | Inr (st, evs) \<Rightarrow>
             (case lp_greeting P (lg_proto st) of (text, proto) \<Rightarrow>
                (let st = st\<lparr> lg_proto := proto \<rparr> in
                 case legacy_write wfail text st of
                   Inl e \<Rightarrow> (Inl e, st)
                 | Inr st \<Rightarrow> serve_loop P wfail handshake st evs)))"

section \<open>What is read before the handshake is never taken for secured\<close>

definition line_bytes :: "bool \<Rightarrow> 's LegacySession \<Rightarrow> bytes" where
  "line_bytes tls st = concat (map snd (filter (\<lambda>(t, _). t = tls) (lg_lines st)))"

lemma line_bytes_add:
  "lg_lines st' = lg_lines st @ [(t, line)] \<Longrightarrow> line_bytes t st' = line_bytes t st @ line"
  "lg_lines st' = lg_lines st @ [(t, line)] \<Longrightarrow> line_bytes (\<not> t) st' = line_bytes (\<not> t) st"
  by (auto simp: line_bytes_def)

lemma line_bytes_update [simp]:
  "line_bytes t (st\<lparr> lg_secured := s \<rparr>) = line_bytes t st" "line_bytes t (st\<lparr> lg_buf := u \<rparr>) = line_bytes t st"
  by (simp_all add: line_bytes_def)

text \<open>A secured session reads its lines from the secured stream alone.\<close>

lemma serve_loop_secured:
  "serve_loop P wfail handshake st evs = (res, st') \<Longrightarrow> lg_secured st \<Longrightarrow>
   lg_secured st' \<and> line_bytes False st' = line_bytes False st
   \<and> (\<exists>x. line_bytes True st' = line_bytes True st @ x \<and> prefix x (lg_buf st @ fill_bytes evs))"
proof (induction P wfail handshake st evs rule: serve_loop.induct)
  case (1 P wfail handshake st evs)
  obtain rl buf rest where rl: "read_line_capped (lg_buf st) evs = (rl, buf, rest)" by (metis prod_cases3)
  show ?case
  proof (cases "\<exists>line. rl = Inr line \<and> line \<noteq> []")
    case False
    then have "st' = st\<lparr> lg_buf := buf \<rparr>" using 1(3) rl by (subst (asm) serve_loop.simps) (auto split: sum.splits)
    then show ?thesis using 1(4) by simp
  next
    case True
    then obtain line where line: "rl = Inr line" "line \<noteq> []" by blast
    obtain lr st1 where l: "legacy_line P wfail st line buf = (lr, st1)" by fastforce
    have k: "lg_secured st1" "lg_buf st1 = buf" "line_bytes True st1 = line_bytes True st @ line" "line_bytes False st1 = line_bytes False st"
      using legacy_line_keeps(1) [OF l] line_bytes_add [of st1 st True line] 1(4) by auto
    have b: "line @ buf @ fill_bytes rest = lg_buf st @ fill_bytes evs" using read_line_capped_bytes(1) rl line(1) by blast
    have p1: "prefix line (lg_buf st @ fill_bytes evs)" unfolding b [symmetric] by simp
    show ?thesis
    proof (cases "\<exists>q. lr = Inr (False, q) \<and> \<not> q")
      case True
      then have s: "serve_loop P wfail handshake st1 rest = (res, st')"
        using 1(3) rl line l by (subst (asm) serve_loop.simps) auto
      from 1(2) [OF rl [symmetric] line(1) refl line(2) l [symmetric]] True s k
      have "lg_secured st' \<and> line_bytes False st' = line_bytes False st1
          \<and> (\<exists>x. line_bytes True st' = line_bytes True st1 @ x \<and> prefix x (lg_buf st1 @ fill_bytes rest))" by auto
      then obtain x where "lg_secured st'" "line_bytes False st' = line_bytes False st"
        "line_bytes True st' = line_bytes True st @ line @ x" "prefix x (buf @ fill_bytes rest)" using k by auto
      moreover have "prefix (line @ x) (lg_buf st @ fill_bytes evs)"
        unfolding b [symmetric] using \<open>prefix x (buf @ fill_bytes rest)\<close> by simp
      ultimately show ?thesis by blast
    next
      case no: False
      have "lr \<noteq> Inr (True, q)" for q using legacy_line_keeps(2) [of P wfail st line buf q st1] l 1(4) by auto
      then have "st' = st1"
        using 1(3) rl line l no by (subst (asm) serve_loop.simps) (auto split: sum.splits prod.splits if_splits)
      then show ?thesis using k p1 by auto
    qed
  qed
qed

lemma serve_loop_plain:
  "serve_loop P wfail handshake st evs = (res, st') \<Longrightarrow> \<not> lg_secured st \<Longrightarrow> line_bytes True st = [] \<Longrightarrow>
   (\<not> lg_secured st' \<and> line_bytes True st' = []
      \<and> (\<exists>x. line_bytes False st' = line_bytes False st @ x \<and> prefix x (lg_buf st @ fill_bytes evs)))
   \<or> (lg_secured st' \<and> (\<exists>x rest evs'. handshake rest = Inr evs' \<and> line_bytes False st' = line_bytes False st @ x
      \<and> x @ fill_bytes rest = lg_buf st @ fill_bytes evs \<and> prefix (line_bytes True st') (fill_bytes evs')))"
proof (induction P wfail handshake st evs rule: serve_loop.induct)
  case (1 P wfail handshake st evs)
  obtain rl buf rest where rl: "read_line_capped (lg_buf st) evs = (rl, buf, rest)" by (metis prod_cases3)
  show ?case
  proof (cases "\<exists>line. rl = Inr line \<and> line \<noteq> []")
    case False
    then have "st' = st\<lparr> lg_buf := buf \<rparr>" using 1(3) rl by (subst (asm) serve_loop.simps) (auto split: sum.splits)
    then show ?thesis using 1(4,5) by simp
  next
    case True
    then obtain line where line: "rl = Inr line" "line \<noteq> []" by blast
    obtain lr st1 where l: "legacy_line P wfail st line buf = (lr, st1)" by fastforce
    have k: "\<not> lg_secured st1" "lg_buf st1 = buf" "line_bytes False st1 = line_bytes False st @ line" "line_bytes True st1 = []"
      using legacy_line_keeps(1) [OF l] line_bytes_add [of st1 st False line] 1(4,5) by auto
    have b: "line @ buf @ fill_bytes rest = lg_buf st @ fill_bytes evs" using read_line_capped_bytes(1) rl line(1) by blast
    have p1: "prefix line (lg_buf st @ fill_bytes evs)" unfolding b [symmetric] by simp
    consider (go) q where "lr = Inr (False, q)" "\<not> q" | (up) q evs' where "lr = Inr (True, q)" "handshake rest = Inr evs'"
      | (stop) "st' = st1"
      using 1(3) rl line l by (subst (asm) serve_loop.simps) (auto split: sum.splits prod.splits if_splits)
    then show ?thesis
    proof cases
      case go
      then have s: "serve_loop P wfail handshake st1 rest = (res, st')"
        using 1(3) rl line l by (subst (asm) serve_loop.simps) auto
      have ih: "(\<not> lg_secured st' \<and> line_bytes True st' = []
          \<and> (\<exists>x. line_bytes False st' = line_bytes False st1 @ x \<and> prefix x (lg_buf st1 @ fill_bytes rest)))
        \<or> (lg_secured st' \<and> (\<exists>x r evs'. handshake r = Inr evs' \<and> line_bytes False st' = line_bytes False st1 @ x
          \<and> x @ fill_bytes r = lg_buf st1 @ fill_bytes rest \<and> prefix (line_bytes True st') (fill_bytes evs')))"
        by (rule 1(2) [OF rl [symmetric] line(1) refl line(2) l [symmetric] go(1) refl _ go(2) s k(1,4)]) simp
      from ih consider x where "\<not> lg_secured st'" "line_bytes True st' = []" "line_bytes False st' = line_bytes False st1 @ x" "prefix x (buf @ fill_bytes rest)"
        | x r evs' where "lg_secured st'" "handshake r = Inr evs'" "line_bytes False st' = line_bytes False st1 @ x"
          "x @ fill_bytes r = buf @ fill_bytes rest" "prefix (line_bytes True st') (fill_bytes evs')" unfolding k(2) by blast
      then show ?thesis
      proof cases
        case (1 x)
        then have "line_bytes False st' = line_bytes False st @ (line @ x)" "prefix (line @ x) (lg_buf st @ fill_bytes evs)"
          unfolding b [symmetric] using k(3) by simp_all
        with 1(1,2) show ?thesis by blast
      next
        case (2 x r evs')
        then have "line_bytes False st' = line_bytes False st @ (line @ x)" "(line @ x) @ fill_bytes r = lg_buf st @ fill_bytes evs"
          unfolding b [symmetric] using k(3) by simp_all
        with 2(1,2,5) show ?thesis by blast
      qed
    next
      case up
      have buf: "buf = []" using legacy_line_keeps(2) l up(1) by blast
      have "lg_secured st' \<and> line_bytes False st' = line_bytes False st1 \<and> prefix (line_bytes True st') (fill_bytes evs')"
      proof (cases q)
        case True
        then have "st' = st1\<lparr> lg_secured := True \<rparr>" using 1(3) rl line l up by (subst (asm) serve_loop.simps) auto
        then show ?thesis using k by simp
      next
        case False
        then have "serve_loop P wfail handshake (st1\<lparr> lg_secured := True \<rparr>) evs' = (res, st')"
          using 1(3) rl line l up by (subst (asm) serve_loop.simps) auto
        from serve_loop_secured [OF this] k buf show ?thesis by simp
      qed
      moreover have "line @ fill_bytes rest = lg_buf st @ fill_bytes evs" using b buf by simp
      ultimately show ?thesis using k(3) up(2) by auto
    next
      case stop
      then show ?thesis using k p1 by auto
    qed
  qed
qed

text \<open>
  (C17) Nothing a client sends before the handshake is taken for secured: over any in-band upgrade the
  lines fed as secured are read from the decrypted stream alone, and the lines fed before it followed by
  the bytes handed to the handshake are exactly what the client sent, so no pipelined byte is left
  behind. A session that is never upgraded feeds no line as secured.
\<close>

theorem no_injection_into_tls:
  assumes "serve_line_session P wfail handshake StartTls proto evs = (res, st')"
  shows "(\<not> lg_secured st' \<and> line_bytes True st' = [] \<and> prefix (line_bytes False st') (fill_bytes evs))
    \<or> (lg_secured st' \<and> (\<exists>rest evs'. handshake rest = Inr evs' \<and> line_bytes False st' @ fill_bytes rest = fill_bytes evs
       \<and> prefix (line_bytes True st') (fill_bytes evs')))"
proof -
  obtain gr proto' where g: "lp_greeting P proto = (gr, proto')" by fastforce
  show ?thesis
  proof (cases "wfail 0")
    case None
    then have "serve_loop P wfail handshake \<lparr> lg_proto = proto', lg_secured = False, lg_buf = [], lg_out = [(False, gr)], lg_lines = [] \<rparr> evs = (res, st')"
      using assms g by (simp add: serve_line_session_def legacy_write_def Let_def)
    from serve_loop_plain [OF this] show ?thesis by (auto simp: line_bytes_def)
  next
    case (Some e)
    then have "st' = \<lparr> lg_proto = proto', lg_secured = False, lg_buf = [], lg_out = [], lg_lines = [] \<rparr>"
      using assms g by (simp add: serve_line_session_def legacy_write_def Let_def)
    then show ?thesis by (simp add: line_bytes_def)
  qed
qed

text \<open>
  A line of cleartext in a session that never upgrades.\<close>

theorem no_injection_into_tls_witness:
  "let r = serve_line_session
             \<lparr> lp_greeting = (\<lambda>s. (''220'', s)), lp_feed_line_bytes = (\<lambda>s _. (''250'', s)),
               lp_is_starttls = (\<lambda>_ l. l = ''STARTTLS''), lp_accepts_upgrade = (\<lambda>_ _. True), lp_is_quit = (\<lambda>_ l. l = ''QUIT'') \<rparr>
             (\<lambda>_. None :: nat option) (\<lambda>_. Inl 0) StartTls () [Filled (str_bytes ''NOOP'' @ [13, 10])]
   in line_bytes True (snd r) = [] \<and> prefix (line_bytes False (snd r)) (str_bytes ''NOOP'' @ [13, 10])"
proof -
  let ?P = "\<lparr> lp_greeting = (\<lambda>s. (''220'', s)), lp_feed_line_bytes = (\<lambda>s _. (''250'', s)),
              lp_is_starttls = (\<lambda>_ l. l = ''STARTTLS''), lp_accepts_upgrade = (\<lambda>_ _. True), lp_is_quit = (\<lambda>_ l. l = ''QUIT'') \<rparr>"
  let ?evs = "[Filled (str_bytes ''NOOP'' @ [13, 10])] :: nat Fill list"
  obtain res st where r: "serve_line_session ?P (\<lambda>_. None) (\<lambda>_. Inl 0) StartTls () ?evs = (res, st)" by fastforce
  from no_injection_into_tls [OF r]
  have "line_bytes True st = [] \<and> prefix (line_bytes False st) (str_bytes ''NOOP'' @ [13, 10])" by auto
  then show ?thesis using r by (simp add: Let_def)
qed

end
