(* ===== verification/Gateway_Submission.thy ===== *)
theory Gateway_Submission
  imports Gateway_LegacyNet
begin

text \<open>
  The submission and POP3 servers (\<open>crates/pier-gateway/src/smtp_submission.rs\<close> and
  \<open>pop3_access.rs\<close>) as line protocols: the sessions of the mail crate are the fields of \<open>SubmissionLib\<close>
  and \<open>Pop3Lib\<close>, the routing of accepted submissions and the spool directory are modelled. The clock is
  a function of the number of readings; the spool is the files by name, and a write that fails is
  decided by the name.
\<close>

section \<open>Routing a submission\<close>

datatype Destination = NativeDest | LegacyDest

record Submission =
  sub_mail_from :: string
  sub_rcpt_to :: "string list"
  sub_data :: bytes

record 'mote RoutedSubmission =
  rs_from :: string
  rs_rcpt_to :: string
  rs_destination :: Destination
  rs_rfc5322 :: bytes
  rs_mote :: 'mote

record ('a, 'mote) SubmissionLib =
  sm_greeting :: "'a \<Rightarrow> string \<times> 'a"
  sm_feed_line_bytes :: "'a \<Rightarrow> bytes \<Rightarrow> string \<times> 'a"
  sm_take_submissions :: "'a \<Rightarrow> Submission list \<times> 'a"
  sm_build_mote_draft :: "bytes \<Rightarrow> u64 \<Rightarrow> 'mote"

definition sub_domain_of :: "string \<Rightarrow> string option" where
  "sub_domain_of addr =
     (let a = trim_end_matches CHR ''>'' (trim_start_matches CHR ''<'' (trim addr)) in
      case rsplit_once CHR ''@'' a of
        None \<Rightarrow> None
      | Some (_, d) \<Rightarrow> if d = [] then None else Some (to_ascii_lowercase d))"

definition native_domains_of :: "string list \<Rightarrow> string list" where
  "native_domains_of ds = map (\<lambda>d. to_ascii_lowercase (trim d)) ds"

definition is_native :: "string list \<Rightarrow> string \<Rightarrow> bool" where
  "is_native native_domains rcpt =
     (case sub_domain_of rcpt of Some d \<Rightarrow> list_ex (\<lambda>n. n = d) native_domains | None \<Rightarrow> False)"

text \<open>The sink is its state and the function \<open>deliver\<close>; whether it accepted is only logged.\<close>

definition route_one ::
  "('a, 'mote) SubmissionLib \<Rightarrow> ('k \<Rightarrow> 'mote RoutedSubmission \<Rightarrow> bool \<times> 'k) \<Rightarrow> string list \<Rightarrow> u64 \<Rightarrow> Submission \<Rightarrow> 'k \<Rightarrow> 'k" where
  "route_one L deliver native_domains now sub sink =
     (let mote = sm_build_mote_draft L (sub_data sub) now in
      fold (\<lambda>rcpt k.
        snd (deliver k
          \<lparr> rs_from = sub_mail_from sub, rs_rcpt_to = rcpt,
            rs_destination = (if is_native native_domains rcpt then NativeDest else LegacyDest),
            rs_rfc5322 = sub_data sub, rs_mote = mote \<rparr>)) (sub_rcpt_to sub) sink)"

record ('a, 'k) SmtpLine =
  sl_session :: 'a
  sl_sink :: 'k
  sl_ticks :: nat

definition route_pending ::
  "('a, 'mote) SubmissionLib \<Rightarrow> ('k \<Rightarrow> 'mote RoutedSubmission \<Rightarrow> bool \<times> 'k) \<Rightarrow> string list \<Rightarrow> (nat \<Rightarrow> u64)
   \<Rightarrow> ('a, 'k) SmtpLine \<Rightarrow> ('a, 'k) SmtpLine" where
  "route_pending L deliver native_domains clock s =
     (let now = clock (sl_ticks s);
          (subs, session) = sm_take_submissions L (sl_session s)
      in s\<lparr> sl_session := session, sl_ticks := sl_ticks s + 1,
            sl_sink := fold (route_one L deliver native_domains now) subs (sl_sink s) \<rparr>)"

definition submission_feed ::
  "('a, 'mote) SubmissionLib \<Rightarrow> ('k \<Rightarrow> 'mote RoutedSubmission \<Rightarrow> bool \<times> 'k) \<Rightarrow> string list \<Rightarrow> (nat \<Rightarrow> u64)
   \<Rightarrow> ('a, 'k) SmtpLine \<Rightarrow> bytes \<Rightarrow> string \<times> ('a, 'k) SmtpLine" where
  "submission_feed L deliver native_domains clock s line =
     (case sm_feed_line_bytes L (sl_session s) line of
        (rep, session) \<Rightarrow> (rep, route_pending L deliver native_domains clock (s\<lparr> sl_session := session \<rparr>)))"

definition submission_protocol ::
  "('a, 'mote) SubmissionLib \<Rightarrow> ('k \<Rightarrow> 'mote RoutedSubmission \<Rightarrow> bool \<times> 'k) \<Rightarrow> string list \<Rightarrow> (nat \<Rightarrow> u64)
   \<Rightarrow> ('a, 'k) SmtpLine LineProtocol" where
  "submission_protocol L deliver native_domains clock =
     \<lparr> lp_greeting = (\<lambda>s. case sm_greeting L (sl_session s) of (g, session) \<Rightarrow> (g, s\<lparr> sl_session := session \<rparr>)),
       lp_feed_line_bytes = submission_feed L deliver native_domains clock,
       lp_is_starttls = (\<lambda>_ line. verb_of line = ''STARTTLS''),
       lp_accepts_upgrade = (\<lambda>_ rep. starts_with ''220'' rep),
       lp_is_quit = (\<lambda>_ line. verb_of line = ''QUIT'') \<rparr>"

definition submission_connection ::
  "('a, 'mote) SubmissionLib \<Rightarrow> (bool \<Rightarrow> 'a) \<Rightarrow> ('k \<Rightarrow> 'mote RoutedSubmission \<Rightarrow> bool \<times> 'k) \<Rightarrow> string list \<Rightarrow> (nat \<Rightarrow> u64)
   \<Rightarrow> (nat \<Rightarrow> 'e option) \<Rightarrow> ('e Fill list \<Rightarrow> 'e + 'e Fill list) \<Rightarrow> LegacyTls \<Rightarrow> 'k \<Rightarrow> 'e Fill list
   \<Rightarrow> ('e LegacyError + unit) \<times> ('a, 'k) SmtpLine LegacySession" where
  "submission_connection L new_session deliver native_domains clock wfail handshake mode sink evs =
     serve_line_session (submission_protocol L deliver native_domains clock) wfail handshake mode
       \<lparr> sl_session = new_session (is_implicit mode), sl_sink = sink, sl_ticks = 0 \<rparr> evs"

section \<open>POP3\<close>

record 'a Pop3Lib =
  pop_greeting :: "'a \<Rightarrow> string \<times> 'a"
  pop_feed_line :: "'a \<Rightarrow> string \<Rightarrow> string \<times> 'a"

definition pop3_protocol :: "'a Pop3Lib \<Rightarrow> 'a LineProtocol" where
  "pop3_protocol L =
     \<lparr> lp_greeting = pop_greeting L,
       lp_feed_line_bytes = (\<lambda>s line. pop_feed_line L s (lossy line)),
       lp_is_starttls = (\<lambda>_ line. verb_of line = ''STLS''),
       lp_accepts_upgrade = (\<lambda>_ rep. starts_with ''+OK'' rep),
       lp_is_quit = (\<lambda>_ line. verb_of line = ''QUIT'') \<rparr>"

definition pop3_connection ::
  "'a Pop3Lib \<Rightarrow> (bool \<Rightarrow> 'a) \<Rightarrow> (nat \<Rightarrow> 'e option) \<Rightarrow> ('e Fill list \<Rightarrow> 'e + 'e Fill list) \<Rightarrow> LegacyTls \<Rightarrow> 'e Fill list
   \<Rightarrow> ('e LegacyError + unit) \<times> 'a LegacySession" where
  "pop3_connection L new_session wfail handshake mode evs =
     serve_line_session (pop3_protocol L) wfail handshake mode (new_session (is_implicit mode)) evs"

section \<open>The spool\<close>

record SpoolSink =
  sp_files :: "(string \<times> bytes) list"
  sp_seq :: u64

definition sanitize :: "string \<Rightarrow> string" where
  "sanitize v = filter (\<lambda>c. c \<noteq> CHR 0x0D \<and> c \<noteq> CHR 0x0A \<and> c \<noteq> CHR 0x00) v"

definition spool_tag :: "Destination \<Rightarrow> string" where
  "spool_tag d = (case d of NativeDest \<Rightarrow> ''native'' | LegacyDest \<Rightarrow> ''legacy'')"

definition spool_name :: "u64 \<Rightarrow> u64 \<Rightarrow> Destination \<Rightarrow> string" where
  "spool_name now n d = show_nat (unat now) @ ''-'' @ show_nat (unat n) @ ''-'' @ spool_tag d @ ''.eml''"

definition spool_text :: "'mote RoutedSubmission \<Rightarrow> bytes" where
  "spool_text routed =
     str_bytes (''X-Envoir-Destination: '' @ spool_tag (rs_destination routed) @ [CHR 0x0D, CHR 0x0A]
       @ ''X-Envoir-Mail-From: '' @ sanitize (rs_from routed) @ [CHR 0x0D, CHR 0x0A]
       @ ''X-Envoir-Rcpt-To: '' @ sanitize (rs_rcpt_to routed) @ [CHR 0x0D, CHR 0x0A]) @ rs_rfc5322 routed"

definition spool_deliver :: "(string \<Rightarrow> bool) \<Rightarrow> u64 \<Rightarrow> SpoolSink \<Rightarrow> 'mote RoutedSubmission \<Rightarrow> bool \<times> SpoolSink" where
  "spool_deliver write_fails now s routed =
     (let n = sp_seq s;
          s = s\<lparr> sp_seq := n + 1 \<rparr>;
          path = spool_name now n (rs_destination routed)
      in if write_fails path then (False, s)
         else (True, s\<lparr> sp_files := al_insert path (spool_text routed) (sp_files s) \<rparr>))"

section \<open>The spool keeps every submission\<close>

lemma separated_eq:
  assumes "c \<notin> set a" "c \<notin> set b" "a @ c # x = b @ c # y"
  shows "a = b \<and> x = y"
proof -
  have "takeWhile (\<lambda>d. d \<noteq> c) (a @ c # x) = a" "takeWhile (\<lambda>d. d \<noteq> c) (b @ c # y) = b"
    using assms(1,2) by (auto simp: takeWhile_append)
  with assms(3) show ?thesis by simp
qed

lemma show_nat_dashless: "CHR ''-'' \<notin> set (show_nat n)"
  using show_nat_digits [of n] by (auto simp: list_all_iff is_ascii_digit_def)

lemma show_nat_inj: "show_nat m = show_nat n \<Longrightarrow> m = n"
proof (induction m arbitrary: n rule: show_nat.induct)
  case (1 m)
  have d: "i = j" if "char_of (48 + i) = (char_of (48 + j) :: char)" "i < 10" "j < 10" for i j :: nat
  proof -
    have "(48 + i) mod 256 = (48 + j) mod 256" using arg_cong [OF that(1), of "of_char :: char \<Rightarrow> nat"] by simp
    with that(2,3) show ?thesis by simp
  qed
  have ne: "show_nat k \<noteq> []" for k by (subst show_nat.simps) simp
  have small: "show_nat k = [char_of (48 + k)]" if "k < 10" for k using that by (simp add: show_nat.simps [of k])
  have big: "show_nat k = show_nat (k div 10) @ [char_of (48 + k mod 10)]" if "\<not> k < 10" for k
    using that by (simp add: show_nat.simps [of k])
  consider "m < 10" "n < 10" | "m < 10" "\<not> n < 10" | "\<not> m < 10" "n < 10" | "\<not> m < 10" "\<not> n < 10" by blast
  then show ?case
  proof cases
    case 1
    then show ?thesis using \<open>show_nat m = show_nat n\<close> d by (simp add: small)
  next
    case 2
    then show ?thesis using \<open>show_nat m = show_nat n\<close> ne [of "n div 10"] unfolding small [OF 2(1)] big [OF 2(2)] by simp
  next
    case 3
    then show ?thesis using \<open>show_nat m = show_nat n\<close> ne [of "m div 10"] unfolding big [OF 3(1)] small [OF 3(2)] by simp
  next
    case 4
    have s: "show_nat (m div 10) = show_nat (n div 10)" "char_of (48 + m mod 10) = (char_of (48 + n mod 10) :: char)"
      using \<open>show_nat m = show_nat n\<close> unfolding big [OF 4(1)] big [OF 4(2)] by simp_all
    have "m div 10 = n div 10" by (rule 1(1) [OF 4(1) s(1)])
    moreover have "m mod 10 = n mod 10" by (rule d [OF s(2)]) simp_all
    ultimately show ?thesis by (metis div_mult_mod_eq)
  qed
qed

lemma spool_name_inj: "spool_name t n d = spool_name t' n' d' \<longleftrightarrow> t = t' \<and> n = n' \<and> d = d'"
proof
  assume eq: "spool_name t n d = spool_name t' n' d'"
  have "show_nat (unat t) = show_nat (unat t') \<and> show_nat (unat n) @ ''-'' @ spool_tag d @ ''.eml'' = show_nat (unat n') @ ''-'' @ spool_tag d' @ ''.eml''"
    using eq show_nat_dashless by (intro separated_eq [of "CHR ''-''"]) (simp_all add: spool_name_def)
  moreover from this have "show_nat (unat n) = show_nat (unat n') \<and> spool_tag d @ ''.eml'' = spool_tag d' @ ''.eml''"
    using show_nat_dashless by (intro separated_eq [of "CHR ''-''"]) simp_all
  ultimately show "t = t' \<and> n = n' \<and> d = d'"
    using show_nat_inj by (auto simp: word_unat_eq_iff spool_tag_def split: Destination.splits)
qed simp

definition spool_all :: "(string \<Rightarrow> bool) \<Rightarrow> (u64 \<times> 'mote RoutedSubmission) list \<Rightarrow> SpoolSink \<Rightarrow> SpoolSink" where
  "spool_all write_fails = fold (\<lambda>(now, routed) s. snd (spool_deliver write_fails now s routed))"

lemma spool_all_snoc:
  "spool_all fl (ds @ [(t, r)]) s = snd (spool_deliver fl t (spool_all fl ds s) r)"
  by (simp add: spool_all_def)

lemma spool_all_seq: "sp_seq (spool_all fl ds s) = sp_seq s + of_nat (length ds)"
  by (induction ds rule: rev_induct) (auto simp: spool_all_def spool_deliver_def Let_def)

text \<open>The name of the file of the \<open>i\<close>-th hand-off of a run, and whether the run wrote to a path.\<close>

definition handoff_name :: "(u64 \<times> 'mote RoutedSubmission) list \<Rightarrow> nat \<Rightarrow> string" where
  "handoff_name ds i = spool_name (fst (ds ! i)) (of_nat i) (rs_destination (snd (ds ! i)))"

lemma handoff_name_append: "i < length ds \<Longrightarrow> handoff_name (ds @ es) i = handoff_name ds i"
  by (simp add: handoff_name_def nth_append)

lemma handoff_names_differ:
  assumes "length ds \<le> 2 ^ 64" "i < length ds" "j < length ds" "handoff_name ds i = handoff_name ds j"
  shows "i = j"
proof -
  have "(of_nat i :: u64) = of_nat j" using assms(4) by (simp add: handoff_name_def spool_name_inj)
  then show ?thesis using assms(1-3) by (auto simp: word_of_nat_eq_iff take_bit_nat_def)
qed

lemma spool_all_files:
  assumes "sp_seq s = 0" "length ds \<le> 2 ^ 64"
  shows "(\<forall>i < length ds. \<not> fl (handoff_name ds i) \<longrightarrow>
            map_of (sp_files (spool_all fl ds s)) (handoff_name ds i) = Some (spool_text (snd (ds ! i))))
       \<and> (\<forall>path. (\<forall>i < length ds. path \<noteq> handoff_name ds i \<or> fl path) \<longrightarrow>
            map_of (sp_files (spool_all fl ds s)) path = map_of (sp_files s) path)"
  using assms(2)
proof (induction ds rule: rev_induct)
  case Nil
  then show ?case by (simp add: spool_all_def)
next
  case (snoc d ds)
  obtain t r where d: "d = (t, r)" by fastforce
  let ?new = "handoff_name (ds @ [d]) (length ds)"
  have new: "?new = spool_name t (of_nat (length ds)) (rs_destination r)" by (simp add: handoff_name_def d)
  have sd: "snd d = r" by (simp add: d)
  have q: "sp_seq (spool_all fl ds s) = of_nat (length ds)" using assms(1) by (simp add: spool_all_seq)
  have f: "map_of (sp_files (spool_all fl (ds @ [d]) s)) path
      = (if path = ?new \<and> \<not> fl ?new then Some (spool_text r) else map_of (sp_files (spool_all fl ds s)) path)" for path
    unfolding new by (simp add: d spool_all_snoc spool_deliver_def q Let_def)
  have IH: "(\<forall>i < length ds. \<not> fl (handoff_name ds i) \<longrightarrow>
            map_of (sp_files (spool_all fl ds s)) (handoff_name ds i) = Some (spool_text (snd (ds ! i))))
       \<and> (\<forall>path. (\<forall>i < length ds. path \<noteq> handoff_name ds i \<or> fl path) \<longrightarrow>
            map_of (sp_files (spool_all fl ds s)) path = map_of (sp_files s) path)"
    using snoc by simp
  have other: "handoff_name (ds @ [d]) i = handoff_name ds i" "handoff_name ds i \<noteq> ?new" if "i < length ds" for i
    using that handoff_names_differ [OF snoc.prems, of i "length ds"] by (auto simp: handoff_name_append)
  show ?case
  proof (intro conjI allI impI)
    fix i assume "i < length (ds @ [d])" "\<not> fl (handoff_name (ds @ [d]) i)"
    then show "map_of (sp_files (spool_all fl (ds @ [d]) s)) (handoff_name (ds @ [d]) i) = Some (spool_text (snd ((ds @ [d]) ! i)))"
      using IH other [of i] by (cases "i = length ds") (auto simp: f sd nth_append)
  next
    fix path assume p: "\<forall>i < length (ds @ [d]). path \<noteq> handoff_name (ds @ [d]) i \<or> fl path"
    then have "path \<noteq> ?new \<or> fl path" "\<forall>i < length ds. path \<noteq> handoff_name ds i \<or> fl path"
      using other(1) by (auto simp: less_Suc_eq)
    then show "map_of (sp_files (spool_all fl (ds @ [d]) s)) path = map_of (sp_files s) path"
      using IH by (auto simp: f)
  qed
qed



section \<open>A line of a message may end the session\<close>

text \<open>
  (C38) Whether a line ends the session is decided by its first word alone, in whatever state the mail
  session is: after any line that begins with the word \<open>quit\<close>, also a line of a message being sent, the
  connection reads no further line.
\<close>

theorem quit_line_ends_submission:
  assumes "read_line_capped (lg_buf st) evs = (Inr line, buf, rest)" "line \<noteq> []"
    and "verb_of (lossy (strip_eol line)) = ''QUIT''"
    and "serve_loop (submission_protocol L deliver native_domains clock) wfail handshake st evs = (res, st')"
  shows "lg_lines st' = lg_lines st @ [(lg_secured st, line)]"
proof -
  obtain lr st1 where l: "legacy_line (submission_protocol L deliver native_domains clock) wfail st line buf = (lr, st1)"
    by fastforce
  have "lr = Inr (u, q) \<Longrightarrow> \<not> u \<and> q" for u q
    using l assms(3) by (auto simp: legacy_line_def submission_protocol_def Let_def split: prod.splits sum.splits if_splits)
  then have "st' = st1"
    using assms l by (subst (asm) serve_loop.simps) (auto split: sum.splits prod.splits if_splits)
  with legacy_line_keeps(1) [OF l] show ?thesis by simp
qed

text \<open>
  A message body line reading \<open>Quit smoking\<close>; the session is a plain recorder that has not seen the end of the message.\<close>

theorem quit_line_ends_submission_witness:
  "let P = submission_protocol
             \<lparr> sm_greeting = (\<lambda>s. ([], s)), sm_feed_line_bytes = (\<lambda>s l. ([], s @ [l])), sm_take_submissions = (\<lambda>s. ([], s)),
               sm_build_mote_draft = (\<lambda>_ _. ()) \<rparr> (\<lambda>k _. (True, k)) [] (\<lambda>_. 0);
       st = \<lparr> lg_proto = \<lparr> sl_session = [str_bytes ''DATA''], sl_sink = (), sl_ticks = 0 \<rparr>, lg_secured = True,
              lg_buf = str_bytes ''Quit smoking'' @ [13, 10] @ str_bytes ''.'' @ [13, 10], lg_out = [], lg_lines = [] \<rparr>
   in lg_lines (snd (serve_loop P (\<lambda>_. None :: nat option) (\<lambda>_. Inl 0) st [])) = [(True, str_bytes ''Quit smoking'' @ [13, 10])]"
proof -
  let ?L = "\<lparr> sm_greeting = (\<lambda>s. ([], s)), sm_feed_line_bytes = (\<lambda>s l. ([], s @ [l])), sm_take_submissions = (\<lambda>s. ([], s)),
               sm_build_mote_draft = (\<lambda>_ _. ()) \<rparr>"
  let ?st = "\<lparr> lg_proto = \<lparr> sl_session = [str_bytes ''DATA''], sl_sink = (), sl_ticks = 0 \<rparr>, lg_secured = True,
              lg_buf = str_bytes ''Quit smoking'' @ [13, 10] @ str_bytes ''.'' @ [13, 10], lg_out = [], lg_lines = [] \<rparr>"
  obtain res st' where r: "serve_loop (submission_protocol ?L (\<lambda>k _. (True, k)) [] (\<lambda>_. 0)) (\<lambda>_. None :: nat option) (\<lambda>_. Inl 0) ?st [] = (res, st')"
    by fastforce
  have l: "read_line_capped (lg_buf ?st) ([] :: nat Fill list) = (Inr (str_bytes ''Quit smoking'' @ [13, 10]), str_bytes ''.'' @ [13, 10], [])"
    by code_simp
  have "verb_of (lossy (strip_eol (str_bytes ''Quit smoking'' @ [13, 10]))) = ''QUIT''" by code_simp
  from quit_line_ends_submission [OF l _ this r] show ?thesis using r by (simp add: Let_def)
qed

section \<open>The client never learns what the sink did\<close>

text \<open>Two line protocols in step: related states give the same answers and stay related.\<close>

definition in_step :: "('s \<Rightarrow> 't \<Rightarrow> bool) \<Rightarrow> 's LineProtocol \<Rightarrow> 't LineProtocol \<Rightarrow> bool" where
  "in_step R P Q =
     (\<forall>s t. R s t \<longrightarrow>
        fst (lp_greeting P s) = fst (lp_greeting Q t) \<and> R (snd (lp_greeting P s)) (snd (lp_greeting Q t))
        \<and> lp_is_starttls P s = lp_is_starttls Q t \<and> lp_is_quit P s = lp_is_quit Q t
        \<and> lp_accepts_upgrade P s = lp_accepts_upgrade Q t
        \<and> (\<forall>l. fst (lp_feed_line_bytes P s l) = fst (lp_feed_line_bytes Q t l)
             \<and> R (snd (lp_feed_line_bytes P s l)) (snd (lp_feed_line_bytes Q t l))))"

definition like :: "('s \<Rightarrow> 't \<Rightarrow> bool) \<Rightarrow> 's LegacySession \<Rightarrow> 't LegacySession \<Rightarrow> bool" where
  "like R a b \<longleftrightarrow> R (lg_proto a) (lg_proto b) \<and> lg_secured a = lg_secured b \<and> lg_buf a = lg_buf b
     \<and> lg_out a = lg_out b \<and> lg_lines a = lg_lines b"

lemma legacy_line_in_step:
  assumes "in_step R P Q" "like R a b"
  shows "fst (legacy_line P wfail a line buf) = fst (legacy_line Q wfail b line buf)
    \<and> like R (snd (legacy_line P wfail a line buf)) (snd (legacy_line Q wfail b line buf))"
proof -
  have f: "fst (lp_feed_line_bytes P (lg_proto a) l) = fst (lp_feed_line_bytes Q (lg_proto b) l)"
    "R (snd (lp_feed_line_bytes P (lg_proto a) l)) (snd (lp_feed_line_bytes Q (lg_proto b) l))"
    "lp_is_starttls P (lg_proto a) = lp_is_starttls Q (lg_proto b)" "lp_is_quit P (lg_proto a) = lp_is_quit Q (lg_proto b)"
    "lp_accepts_upgrade P s = lp_accepts_upgrade Q t" if "R s t" for l s t
    using assms that by (auto simp: in_step_def like_def)
  obtain ra sa where a: "lp_feed_line_bytes P (lg_proto a) (strip_eol line) = (ra, sa)" by fastforce
  obtain rb sb where b: "lp_feed_line_bytes Q (lg_proto b) (strip_eol line) = (rb, sb)" by fastforce
  have "ra = rb" "R sa sb" "R (lg_proto a) (lg_proto b)" using f(1,2) [of "lg_proto a" "lg_proto b" "strip_eol line"] a b assms(2) by (auto simp: like_def)
  then show ?thesis using f(3-5) assms(2) a b
    by (auto simp: legacy_line_def legacy_write_def like_def Let_def split: option.splits)
qed

lemma serve_loop_in_step:
  "in_step R P Q \<Longrightarrow> like R a b \<Longrightarrow>
   fst (serve_loop P wfail handshake a evs) = fst (serve_loop Q wfail handshake b evs)
   \<and> like R (snd (serve_loop P wfail handshake a evs)) (snd (serve_loop Q wfail handshake b evs))"
proof (induction P wfail handshake a evs arbitrary: b rule: serve_loop.induct)
  case (1 P wfail handshake a evs)
  obtain rl buf rest where rl: "read_line_capped (lg_buf a) evs = (rl, buf, rest)" by (metis prod_cases3)
  note unf = serve_loop.simps [of P wfail handshake a evs] serve_loop.simps [of Q wfail handshake b evs]
  have rb: "read_line_capped (lg_buf b) evs = (rl, buf, rest)" using rl 1(4) by (simp add: like_def)
  show ?case
  proof (cases "\<exists>line. rl = Inr line \<and> line \<noteq> []")
    case False
    then show ?thesis using 1(4) by (cases rl) (simp_all add: unf rl rb like_def)
  next
    case True
    then obtain line where line: "rl = Inr line" "line \<noteq> []" by blast
    obtain la a1 where la: "legacy_line P wfail a line buf = (la, a1)" by fastforce
    obtain lb b1 where lb: "legacy_line Q wfail b line buf = (lb, b1)" by fastforce
    have s: "lb = la" "like R a1 b1" using legacy_line_in_step [OF 1(3,4), of wfail line buf] la lb by simp_all
    have sec: "like R (a1\<lparr> lg_secured := True \<rparr>) (b1\<lparr> lg_secured := True \<rparr>)" using s(2) by (simp add: like_def)
    show ?thesis
    proof (cases la)
      case (Inl e)
      then show ?thesis using s by (simp add: unf rl rb line la lb)
    next
      case (Inr uq)
      obtain u q where uq: "la = Inr (u, q)" using Inr by (cases uq) auto
      show ?thesis
      proof (cases u)
        case True
        show ?thesis
        proof (cases "handshake rest")
          case (Inl e)
          then show ?thesis using s uq True by (simp add: unf rl rb line la lb)
        next
          case h: (Inr evs')
          show ?thesis
          proof (cases q)
            case True
            then show ?thesis using s sec uq \<open>u\<close> h by (simp add: unf rl rb line la lb)
          next
            case False
            note ih = 1(1) [OF rl [symmetric] line(1) refl line(2) la [symmetric] uq refl \<open>u\<close> h False 1(3) sec]
            then show ?thesis using s uq \<open>u\<close> h False by (simp add: unf rl rb line la lb)
          qed
        qed
      next
        case False
        show ?thesis
        proof (cases q)
          case True
          then show ?thesis using s uq False by (simp add: unf rl rb line la lb)
        next
          case q: False
          note ih = 1(2) [OF rl [symmetric] line(1) refl line(2) la [symmetric] uq refl False q 1(3) s(2)]
          then show ?thesis using s uq False q by (simp add: unf rl rb line la lb)
        qed
      qed
    qed
  qed
qed

lemma serve_line_session_in_step:
  assumes "in_step R P Q" "R s t"
  shows "fst (serve_line_session P wfail handshake mode s evs) = fst (serve_line_session Q wfail handshake mode t evs)
    \<and> like R (snd (serve_line_session P wfail handshake mode s evs)) (snd (serve_line_session Q wfail handshake mode t evs))"
proof -
  obtain ga s' where ga: "lp_greeting P s = (ga, s')" by fastforce
  obtain gb t' where gb: "lp_greeting Q t = (gb, t')" by fastforce
  have g: "gb = ga" "R s' t'" using assms ga gb unfolding in_step_def by fastforce+
  let ?a = "\<lambda>sec out. \<lparr> lg_proto = s', lg_secured = sec, lg_buf = [], lg_out = out, lg_lines = [] \<rparr>"
  let ?b = "\<lambda>sec out. \<lparr> lg_proto = t', lg_secured = sec, lg_buf = [], lg_out = out, lg_lines = [] \<rparr>"
  have l: "like R (?a sec out) (?b sec out)" for sec out using g(2) by (simp add: like_def)
  have z: "like R \<lparr> lg_proto = s, lg_secured = False, lg_buf = [], lg_out = [], lg_lines = [] \<rparr>
      \<lparr> lg_proto = t, lg_secured = False, lg_buf = [], lg_out = [], lg_lines = [] \<rparr>" using assms(2) by (simp add: like_def)
  note r = serve_loop_in_step [OF assms(1) l, of wfail handshake]
  show ?thesis
    by (cases mode; cases "wfail 0"; cases "handshake evs")
      (simp_all add: serve_line_session_def legacy_write_def Let_def ga gb g(1) l z r)
qed

definition same_session :: "('a, 'k) SmtpLine \<Rightarrow> ('a, 'j) SmtpLine \<Rightarrow> bool" where
  "same_session s t \<longleftrightarrow> sl_session s = sl_session t \<and> sl_ticks s = sl_ticks t"

lemma submission_in_step:
  "in_step same_session (submission_protocol L deliver native clock) (submission_protocol L deliver' native' clock)"
  by (auto simp: in_step_def same_session_def submission_protocol_def submission_feed_def route_pending_def Let_def split: prod.splits)

text \<open>
  (C39) What the client is told never depends on the hand-off: for any two sinks and any two lists of native
  domains, everything written to the client, the lines taken from it and the end of the session are the
  same. A sink that loses every message, as a spool whose writes fail, is answered like one that keeps
  them.
\<close>

theorem client_never_learns_of_sink:
  "fst (submission_connection L new_session deliver native clock wfail handshake mode sink evs)
     = fst (submission_connection L new_session deliver' native' clock wfail handshake mode sink' evs)
   \<and> lg_out (snd (submission_connection L new_session deliver native clock wfail handshake mode sink evs))
     = lg_out (snd (submission_connection L new_session deliver' native' clock wfail handshake mode sink' evs))
   \<and> lg_lines (snd (submission_connection L new_session deliver native clock wfail handshake mode sink evs))
     = lg_lines (snd (submission_connection L new_session deliver' native' clock wfail handshake mode sink' evs))"
proof -
  have "same_session \<lparr> sl_session = new_session (is_implicit mode), sl_sink = sink, sl_ticks = 0 \<rparr>
      \<lparr> sl_session = new_session (is_implicit mode), sl_sink = sink', sl_ticks = 0 \<rparr>" by (simp add: same_session_def)
  from serve_line_session_in_step [OF submission_in_step this, of L deliver native clock wfail handshake mode evs deliver' native']
  show ?thesis by (simp add: submission_connection_def like_def)
qed

section \<open>Every recipient is handed off once\<close>

text \<open>
  A submission is handed to the sink once per recipient, in the order of the envelope, each time with
  the submitted bytes; a recipient is native exactly when the part after its last at sign, read without
  case and without brackets, is one of the operator's domains.
\<close>

lemma every_recipient_handed_off:
  "route_one L (\<lambda>k r. (a k r, k @ [r])) native now sub sink
     = sink @ map (\<lambda>rcpt. \<lparr> rs_from = sub_mail_from sub, rs_rcpt_to = rcpt,
         rs_destination = (if (\<exists>d. sub_domain_of rcpt = Some d \<and> d \<in> set native) then NativeDest else LegacyDest),
         rs_rfc5322 = sub_data sub, rs_mote = sm_build_mote_draft L (sub_data sub) now \<rparr>) (sub_rcpt_to sub)"
proof -
  have n: "is_native native r \<longleftrightarrow> (\<exists>d. sub_domain_of r = Some d \<and> d \<in> set native)" for r
    by (auto simp: is_native_def list_ex_iff split: option.splits)
  have "fold (\<lambda>rcpt k. k @ [f rcpt]) rs k = k @ map f rs" for f :: "string \<Rightarrow> 'c RoutedSubmission" and rs k
    by (induction rs arbitrary: k) auto
  then show ?thesis by (simp add: route_one_def n)
qed

end
