(* ===== verification/Gateway_Personal.thy ===== *)
theory Gateway_Personal
  imports Gateway_Directory Gateway_Mesh Gateway_Submission Gateway_Quota Gateway_OutboundTcp
begin

text \<open>
  The single-operator gateway (\<open>crates/pier-gateway/src/personal.rs\<close>): its configuration from a file or
  from the environment, what is built from it, and the start of the daemon up to the point where its
  listeners are bound. Reading files, the TLS library, the app-password store and the sockets are the
  fields of \<open>PersonalOs\<close>; the threads that serve the listeners are not modelled. The scope of an IPv6
  socket address is read and left out.
\<close>

section \<open>The configuration\<close>

datatype ImapTls = ImapStartTls | ImapImplicit

definition imap_tls_parse :: "string \<Rightarrow> ImapTls option" where
  "imap_tls_parse v =
     (let s = to_ascii_lowercase (trim v) in
      if s \<in> {''starttls'', ''start-tls'', ''start_tls''} then Some ImapStartTls
      else if s \<in> {''implicit'', ''implicit-tls'', ''tls'', ''993''} then Some ImapImplicit
      else None)"

record PersonalConfig =
  pc_domain :: string
  pc_listen :: string
  pc_selector :: string
  pc_dns_server :: SocketAddr
  pc_directory :: "string option"
  pc_mesh_endpoint :: "string option"
  pc_tls_cert :: "string option"
  pc_tls_key :: "string option"
  pc_authz_mode :: AuthzMode
  pc_dkim_enforce :: bool
  pc_spf_enforce :: bool
  pc_dmarc_enforce :: bool
  pc_quota_messages :: u64
  pc_quota_bytes :: u64
  pc_imap_enable :: bool
  pc_imap_listen :: string
  pc_imap_tls :: ImapTls
  pc_imap_credentials :: "string option"
  pc_imap_maildir :: "string option"
  pc_gateway_mode :: GatewayMode
  pc_pop3_enable :: bool
  pc_pop3_listen :: string
  pc_pop3_tls :: LegacyTls
  pc_submission_enable :: bool
  pc_submission_listen :: string
  pc_submission_tls :: LegacyTls
  pc_submission_spool :: "string option"
  pc_submission_native_domains :: "string option"

definition default_dns_server :: SocketAddr where
  "default_dns_server = (V4 0x01010101, 53)"

definition personal_default :: PersonalConfig where
  "personal_default =
     \<lparr> pc_domain = ''localhost'', pc_listen = ''0.0.0.0:2525'', pc_selector = ''gw1'', pc_dns_server = default_dns_server,
       pc_directory = None, pc_mesh_endpoint = None, pc_tls_cert = None, pc_tls_key = None, pc_authz_mode = KeyRegistered,
       pc_dkim_enforce = False, pc_spf_enforce = False, pc_dmarc_enforce = False, pc_quota_messages = 0, pc_quota_bytes = 0,
       pc_imap_enable = False, pc_imap_listen = ''127.0.0.1:1143'', pc_imap_tls = ImapStartTls, pc_imap_credentials = None,
       pc_imap_maildir = None, pc_gateway_mode = ModePrivate, pc_pop3_enable = False, pc_pop3_listen = ''127.0.0.1:1110'',
       pc_pop3_tls = StartTls, pc_submission_enable = False, pc_submission_listen = ''127.0.0.1:1587'',
       pc_submission_tls = StartTls, pc_submission_spool = None, pc_submission_native_domains = None \<rparr>"

datatype ConfigError =
    ConfigIo string string
  | ConfigSyntax nat string
  | ConfigBadValue nat string string string
  | ConfigUnknownKey nat string
  | ConfigPartialTls

text \<open>\<open>u8::is_ascii_whitespace\<close>.\<close>

definition is_ascii_whitespace :: "char \<Rightarrow> bool" where
  "is_ascii_whitespace c = (c \<in> {CHR '' '', CHR 0x09, CHR 0x0A, CHR 0x0C, CHR 0x0D})"

fun strip_comment_after :: "bool \<Rightarrow> string \<Rightarrow> string" where
  "strip_comment_after space [] = []"
| "strip_comment_after space (c # cs) =
     (if c = CHR ''#'' \<and> space then [] else c # strip_comment_after (is_ascii_whitespace c) cs)"

definition strip_comment :: "string \<Rightarrow> string" where
  "strip_comment line = strip_comment_after True line"

definition unquote :: "string \<Rightarrow> string" where
  "unquote value =
     (let v = trim value in
      if length v \<ge> 2 \<and> hd v = CHR 0x22 \<and> last v = CHR 0x22 then butlast (tl v) else v)"

definition non_empty :: "string \<Rightarrow> string option" where
  "non_empty v = (let t = trim v in if t = [] then None else Some t)"

definition parse_bool :: "string \<Rightarrow> bool option" where
  "parse_bool v =
     (let s = to_ascii_lowercase (trim v) in
      if s \<in> {''true'', ''1'', ''yes'', ''on''} then Some True
      else if s \<in> {''false'', ''0'', ''no'', ''off''} then Some False
      else None)"

definition parse_authz_mode :: "string \<Rightarrow> AuthzMode option" where
  "parse_authz_mode v =
     (let s = map (\<lambda>c. if c = CHR ''_'' then CHR ''-'' else c) (to_ascii_lowercase (trim v)) in
      if s \<in> {''key-registered'', ''keyregistered'', ''registered''} then Some KeyRegistered
      else if s \<in> {''open-public'', ''openpublic'', ''open'', ''public''} then Some OpenPublic
      else None)"

text \<open>\<open>SocketAddr::from_str\<close>: an IPv4 address and a port, or a bracketed IPv6 address and a port.\<close>

definition parse_digits :: "nat \<Rightarrow> string \<Rightarrow> nat option" where
  "parse_digits m s = (if list_all is_ascii_digit s then parse_unsigned m s else None)"

definition parse_scope :: "string \<Rightarrow> Ipv6Addr option" where
  "parse_scope s =
     (case split_once CHR ''%'' s of
        None \<Rightarrow> parse_ipv6 s
      | Some (a, scope) \<Rightarrow> (if parse_digits 4294967295 scope = None then None else parse_ipv6 a))"

definition parse_socket_addr :: "string \<Rightarrow> SocketAddr option" where
  "parse_socket_addr s =
     (case rsplit_once CHR '':'' s of
        None \<Rightarrow> None
      | Some (host, port) \<Rightarrow>
          Option.bind (parse_digits 65535 port) (\<lambda>p.
            case parse_ipv4 host of
              Some a \<Rightarrow> Some (V4 a, of_nat p)
            | None \<Rightarrow>
                if length host \<ge> 2 \<and> hd host = CHR ''['' \<and> last host = CHR '']''
                then map_option (\<lambda>a. (V6 a, of_nat p)) (parse_scope (butlast (tl host)))
                else None))"

definition parse_u64 :: "string \<Rightarrow> u64 option" where
  "parse_u64 s = map_option of_nat (parse_unsigned 18446744073709551615 s)"

definition set_bool :: "ConfigError \<Rightarrow> string \<Rightarrow> (bool \<Rightarrow> PersonalConfig) \<Rightarrow> ConfigError + PersonalConfig" where
  "set_bool e value f = res_bind (ok_or e (parse_bool value)) (\<lambda>b. Inr (f b))"

definition config_set :: "PersonalConfig \<Rightarrow> nat \<Rightarrow> string \<Rightarrow> string \<Rightarrow> ConfigError + PersonalConfig" where
  "config_set c line key value =
     (let bad = ConfigBadValue line key value; tf = bad ''expected true/false''; int = bad ''expected a non-negative integer'';
          tls = bad ''expected \"starttls\" or \"implicit\"''
      in if key = ''domain'' then Inr (c\<lparr> pc_domain := value \<rparr>)
         else if key = ''listen'' then Inr (c\<lparr> pc_listen := value \<rparr>)
         else if key = ''selector'' then Inr (c\<lparr> pc_selector := value \<rparr>)
         else if key = ''dns_server'' then
           res_bind (ok_or (bad ''not an ip:port socket address'') (parse_socket_addr value)) (\<lambda>a. Inr (c\<lparr> pc_dns_server := a \<rparr>))
         else if key = ''directory'' then Inr (c\<lparr> pc_directory := non_empty value \<rparr>)
         else if key = ''mesh_endpoint'' then Inr (c\<lparr> pc_mesh_endpoint := non_empty value \<rparr>)
         else if key = ''tls_cert'' then Inr (c\<lparr> pc_tls_cert := non_empty value \<rparr>)
         else if key = ''tls_key'' then Inr (c\<lparr> pc_tls_key := non_empty value \<rparr>)
         else if key = ''authz_mode'' then
           res_bind (ok_or (bad ''expected \"key-registered\" or \"open-public\"'') (parse_authz_mode value)) (\<lambda>m. Inr (c\<lparr> pc_authz_mode := m \<rparr>))
         else if key = ''dkim_enforce'' then set_bool tf value (\<lambda>b. c\<lparr> pc_dkim_enforce := b \<rparr>)
         else if key = ''spf_enforce'' then set_bool tf value (\<lambda>b. c\<lparr> pc_spf_enforce := b \<rparr>)
         else if key = ''dmarc_enforce'' then set_bool tf value (\<lambda>b. c\<lparr> pc_dmarc_enforce := b \<rparr>)
         else if key = ''quota_messages'' then res_bind (ok_or int (parse_u64 value)) (\<lambda>n. Inr (c\<lparr> pc_quota_messages := n \<rparr>))
         else if key = ''quota_bytes'' then res_bind (ok_or int (parse_u64 value)) (\<lambda>n. Inr (c\<lparr> pc_quota_bytes := n \<rparr>))
         else if key = ''imap_enable'' then set_bool tf value (\<lambda>b. c\<lparr> pc_imap_enable := b \<rparr>)
         else if key = ''imap_listen'' then Inr (c\<lparr> pc_imap_listen := value \<rparr>)
         else if key = ''imap_tls'' then res_bind (ok_or tls (imap_tls_parse value)) (\<lambda>m. Inr (c\<lparr> pc_imap_tls := m \<rparr>))
         else if key = ''imap_credentials'' then Inr (c\<lparr> pc_imap_credentials := non_empty value \<rparr>)
         else if key = ''imap_maildir'' then Inr (c\<lparr> pc_imap_maildir := non_empty value \<rparr>)
         else if key = ''gateway_mode'' then
           res_bind (ok_or (bad ''expected \"private\", \"registered-clients-only\", or \"public\"'') (gateway_mode_parse value))
             (\<lambda>m. Inr (c\<lparr> pc_gateway_mode := m \<rparr>))
         else if key = ''pop3_enable'' then set_bool tf value (\<lambda>b. c\<lparr> pc_pop3_enable := b \<rparr>)
         else if key = ''pop3_listen'' then Inr (c\<lparr> pc_pop3_listen := value \<rparr>)
         else if key = ''pop3_tls'' then res_bind (ok_or tls (legacy_tls_parse value)) (\<lambda>m. Inr (c\<lparr> pc_pop3_tls := m \<rparr>))
         else if key = ''submission_enable'' then set_bool tf value (\<lambda>b. c\<lparr> pc_submission_enable := b \<rparr>)
         else if key = ''submission_listen'' then Inr (c\<lparr> pc_submission_listen := value \<rparr>)
         else if key = ''submission_tls'' then res_bind (ok_or tls (legacy_tls_parse value)) (\<lambda>m. Inr (c\<lparr> pc_submission_tls := m \<rparr>))
         else if key = ''submission_spool'' then Inr (c\<lparr> pc_submission_spool := non_empty value \<rparr>)
         else if key = ''submission_native_domains'' then Inr (c\<lparr> pc_submission_native_domains := non_empty value \<rparr>)
         else Inl (ConfigUnknownKey line key))"

definition config_line :: "nat \<Rightarrow> string \<Rightarrow> PersonalConfig \<Rightarrow> ConfigError + PersonalConfig" where
  "config_line line raw cfg =
     (let trimmed = trim (strip_comment raw) in
      if trimmed = [] then Inr cfg
      else
        (case split_once CHR ''='' trimmed of
           None \<Rightarrow> Inl (ConfigSyntax line (trim raw))
         | Some (key, value) \<Rightarrow> config_set cfg line (to_ascii_lowercase (trim key)) (unquote (trim value))))"

fun config_lines :: "nat \<Rightarrow> string list \<Rightarrow> PersonalConfig \<Rightarrow> ConfigError + PersonalConfig" where
  "config_lines idx [] cfg = Inr cfg"
| "config_lines idx (raw # ls) cfg = res_bind (config_line (idx + 1) raw cfg) (config_lines (idx + 1) ls)"

definition parse_config :: "string \<Rightarrow> ConfigError + PersonalConfig" where
  "parse_config text = config_lines 0 (lines text) personal_default"

definition load_config :: "(string \<Rightarrow> string + string) \<Rightarrow> string \<Rightarrow> ConfigError + PersonalConfig" where
  "load_config read_to_string path =
     (case read_to_string path of Inl reason \<Rightarrow> Inl (ConfigIo path reason) | Inr text \<Rightarrow> parse_config text)"

section \<open>From the environment\<close>

definition env_flag :: "(string \<Rightarrow> string option) \<Rightarrow> string \<Rightarrow> bool" where
  "env_flag env name = (case env name of Some v \<Rightarrow> to_ascii_lowercase v \<in> {''1'', ''true'', ''yes''} | None \<Rightarrow> False)"

definition env_or :: "(string \<Rightarrow> string option) \<Rightarrow> string \<Rightarrow> (string \<Rightarrow> 'a option) \<Rightarrow> 'a \<Rightarrow> 'a" where
  "env_or env name parse d = (case Option.bind (env name) parse of Some x \<Rightarrow> x | None \<Rightarrow> d)"

definition env_opt :: "(string \<Rightarrow> string option) \<Rightarrow> string \<Rightarrow> string option" where
  "env_opt env name = Option.bind (env name) non_empty"

definition env_u64 :: "(string \<Rightarrow> string option) \<Rightarrow> string \<Rightarrow> u64" where
  "env_u64 env name = env_or env name parse_u64 0"

definition from_env :: "(string \<Rightarrow> string option) \<Rightarrow> PersonalConfig" where
  "from_env env =
     (let d = personal_default in
      \<lparr> pc_domain = env_or env ''GATEWAY_DOMAIN'' Some (pc_domain d),
        pc_listen = env_or env ''GATEWAY_LISTEN'' Some (pc_listen d),
        pc_selector = env_or env ''GATEWAY_GW_SELECTOR'' Some (pc_selector d),
        pc_dns_server = env_or env ''GATEWAY_DNS_SERVER'' parse_socket_addr default_dns_server,
        pc_directory = env_opt env ''GATEWAY_DIRECTORY'',
        pc_mesh_endpoint = env_opt env ''GATEWAY_MESH_ENDPOINT'',
        pc_tls_cert = env_opt env ''GATEWAY_TLS_CERT'',
        pc_tls_key = env_opt env ''GATEWAY_TLS_KEY'',
        pc_authz_mode = env_or env ''GATEWAY_AUTHZ_MODE'' parse_authz_mode (pc_authz_mode d),
        pc_dkim_enforce = env_flag env ''GATEWAY_DKIM_ENFORCE'',
        pc_spf_enforce = env_flag env ''GATEWAY_SPF_ENFORCE'',
        pc_dmarc_enforce = env_flag env ''GATEWAY_DMARC_ENFORCE'',
        pc_quota_messages = env_u64 env ''GATEWAY_QUOTA_MESSAGES'',
        pc_quota_bytes = env_u64 env ''GATEWAY_QUOTA_BYTES'',
        pc_imap_enable = env_flag env ''GATEWAY_IMAP_ENABLE'',
        pc_imap_listen = env_or env ''GATEWAY_IMAP_LISTEN'' Some (pc_imap_listen d),
        pc_imap_tls = env_or env ''GATEWAY_IMAP_TLS'' imap_tls_parse (pc_imap_tls d),
        pc_imap_credentials = env_opt env ''GATEWAY_IMAP_CREDENTIALS'',
        pc_imap_maildir = env_opt env ''GATEWAY_IMAP_MAILDIR'',
        pc_gateway_mode = env_or env ''GATEWAY_MODE'' gateway_mode_parse (pc_gateway_mode d),
        pc_pop3_enable = env_flag env ''GATEWAY_POP3_ENABLE'',
        pc_pop3_listen = env_or env ''GATEWAY_POP3_LISTEN'' Some (pc_pop3_listen d),
        pc_pop3_tls = env_or env ''GATEWAY_POP3_TLS'' legacy_tls_parse (pc_pop3_tls d),
        pc_submission_enable = env_flag env ''GATEWAY_SUBMISSION_ENABLE'',
        pc_submission_listen = env_or env ''GATEWAY_SUBMISSION_LISTEN'' Some (pc_submission_listen d),
        pc_submission_tls = env_or env ''GATEWAY_SUBMISSION_TLS'' legacy_tls_parse (pc_submission_tls d),
        pc_submission_spool = env_opt env ''GATEWAY_SUBMISSION_SPOOL'',
        pc_submission_native_domains = env_opt env ''GATEWAY_SUBMISSION_NATIVE_DOMAINS'' \<rparr>)"

section \<open>What the configuration builds\<close>

definition personal_quota :: "PersonalConfig \<Rightarrow> Quota option" where
  "personal_quota c =
     (if pc_quota_messages c = 0 \<and> pc_quota_bytes c = 0 then None
      else Some (quota_new (pc_quota_messages c) (pc_quota_messages c) (pc_quota_bytes c) (pc_quota_bytes c)))"

datatype DirectorySource = FileSource InMemoryDirectory | EmptySource InMemoryDirectory

fun source_iter :: "DirectorySource \<Rightarrow> (string \<times> RecipientKey) list" where
  "source_iter (FileSource d) = d"
| "source_iter (EmptySource d) = d"

definition source_len :: "DirectorySource \<Rightarrow> nat" where
  "source_len s = directory_len (source_iter s)"

definition source_is_empty :: "DirectorySource \<Rightarrow> bool" where
  "source_is_empty s = (source_len s = 0)"

definition into_boxed :: "DirectorySource \<Rightarrow> KeyDirectory" where
  "into_boxed s = directory_resolve (source_iter s)"

definition resolve_identity :: "DirectorySource \<Rightarrow> string \<Rightarrow> bytes option" where
  "resolve_identity dir user =
     map_option (\<lambda>(_, k). rk_ik k) (List.find (\<lambda>(email, _). eq_ignore_ascii_case email user) (source_iter dir))"

datatype 'e StartError =
    StartDirectory DirectoryError
  | StartMesh MeshConfigError
  | StartConfig ConfigError
  | StartIo 'e
  | BadCredentials nat string
  | AccessDenied
  | NeedsTls string
  | NoSpool
  | SpoolNotDirectory string
  | NoFirstField

record ('e, 'tls, 'auth, 'dns) PersonalOs =
  os_read_to_string :: "string \<Rightarrow> string + string"
  os_read :: "string \<Rightarrow> 'e + bytes"
  os_server_config :: "bytes \<Rightarrow> bytes \<Rightarrow> 'e + 'tls"
  os_credentials :: "string \<Rightarrow> 'e + string"
  os_auth_new :: 'auth
  os_issue :: "'auth \<Rightarrow> string \<Rightarrow> string \<Rightarrow> bytes \<Rightarrow> string \<Rightarrow> 'auth"
  os_maildir :: "string \<Rightarrow> 'e + (bytes \<times> u64) list"
  os_spool :: "string \<Rightarrow> (string \<times> bytes) list option"
  os_bind :: "string \<Rightarrow> 'e + unit"
  os_dns :: "SocketAddr \<Rightarrow> 'dns UdpDnsClient"

definition load_directory :: "('e, 'tls, 'auth, 'dns) PersonalOs \<Rightarrow> PersonalConfig \<Rightarrow> 'e StartError + DirectorySource" where
  "load_directory S c =
     (case pc_directory c of
        Some path \<Rightarrow>
          res_bind (map_err StartDirectory (file_directory_load path (os_read_to_string S path))) (\<lambda>d. Inr (FileSource d))
      | None \<Rightarrow> Inr (EmptySource directory_new))"

definition build_mesh ::
  "'env EnvLib \<Rightarrow> (string \<times> u16 \<Rightarrow> bytes \<Rightarrow> 'n IoError + 'n ReadEvent list) \<Rightarrow> PersonalConfig
   \<Rightarrow> 'e StartError + ('env \<Rightarrow> 'cid Attestation \<Rightarrow> DeliveryOutcome)" where
  "build_mesh E net c =
     (case pc_mesh_endpoint c of
        Some endpoint \<Rightarrow> res_bind (map_err StartMesh (mesh_new endpoint)) (\<lambda>mesh. Inr (mesh_deliver E net mesh))
      | None \<Rightarrow> Inr null_deliver)"

definition build_tls :: "('e, 'tls, 'auth, 'dns) PersonalOs \<Rightarrow> PersonalConfig \<Rightarrow> 'e StartError + 'tls option" where
  "build_tls S c =
     (case (pc_tls_cert c, pc_tls_key c) of
        (Some cert_path, Some key_path) \<Rightarrow>
          res_bind (map_err StartIo (os_read S cert_path)) (\<lambda>cert_pem.
          res_bind (map_err StartIo (os_read S key_path)) (\<lambda>key_pem.
          res_bind (map_err StartIo (os_server_config S cert_pem key_pem)) (\<lambda>tls. Inr (Some tls))))
      | (None, None) \<Rightarrow> Inr None
      | _ \<Rightarrow> Inl (StartConfig ConfigPartialTls))"

definition allow_all_abuse :: "unit \<Rightarrow> string \<Rightarrow> string \<Rightarrow> AbuseDecision \<times> unit" where
  "allow_all_abuse st peer_ip mail_from = (Accept, st)"

definition build_inbound ::
  "('e, 'tls, 'auth, 'dns) PersonalOs \<Rightarrow> 'ik \<Rightarrow> PersonalConfig \<Rightarrow> KeyDirectory \<Rightarrow> ('env \<Rightarrow> 'cid Attestation \<Rightarrow> DeliveryOutcome)
   \<Rightarrow> ('ik, unit, 'env, 'cid) InboundGateway" where
  "build_inbound S ik c directory mesh =
     (let dkim_policy = (if pc_dkim_enforce c then DkimEnforce else DkimAnnotate);
          spf_policy = (if pc_spf_enforce c then SpfEnforce else SpfAnnotate);
          dmarc_policy = (if pc_dmarc_enforce c then DmarcEnforce else DmarcAnnotate);
          dns = os_dns S (pc_dns_server c);
          g = for_own_domains ik [(pc_domain c, pc_selector c)] directory mesh allow_all_abuse
      in with_dmarc (with_spf (with_dkim g (dns_dkim dns) dkim_policy) (dns_spf dns) spf_policy) (dns_dmarc dns) dmarc_policy)"

definition build_registry :: "PersonalConfig \<Rightarrow> DirectorySource \<Rightarrow> IdentityRegistry" where
  "build_registry c dir =
     (case pc_authz_mode c of
        OpenPublic \<Rightarrow> open_public
      | KeyRegistered \<Rightarrow>
          (let quota = (case personal_quota c of Some q \<Rightarrow> q | None \<Rightarrow> quota_messages 0 0) in
           foldl (\<lambda>reg (email, key). register reg
               \<lparr> ri_public_key = rk_ik key, ri_account = email, ri_domain = pc_domain c, ri_quota = quota \<rparr>)
             key_registered (source_iter dir)))"

definition build_quota_ledger :: "PersonalConfig \<Rightarrow> DirectorySource \<Rightarrow> QuotaLedger" where
  "build_quota_ledger c dir =
     (case personal_quota c of
        Some quota \<Rightarrow> foldl (\<lambda>l (email, _). upsert_quota l email quota) quota_ledger_new (source_iter dir)
      | None \<Rightarrow> quota_ledger_new)"

section \<open>The legacy surfaces\<close>

definition credentials_line ::
  "('e, 'tls, 'auth, 'dns) PersonalOs \<Rightarrow> DirectorySource \<Rightarrow> nat \<Rightarrow> string \<Rightarrow> 'auth \<times> string list
   \<Rightarrow> 'e StartError + 'auth \<times> string list" where
  "credentials_line S dir line raw st =
     (let trimmed = trim (strip_comment raw) in
      if trimmed = [] then Inr st
      else
        (case split_whitespace trimmed of
           [] \<Rightarrow> Inl NoFirstField
         | [_] \<Rightarrow> Inl (BadCredentials line ''expected `<username> <app-password> [<identity-pub-b64>]`'')
         | user # password # rest \<Rightarrow>
             res_bind (case rest of
                 b64 # _ \<Rightarrow> map_err (\<lambda>_. BadCredentials line ''bad identity-pub base64'') (b64_decode b64)
               | [] \<Rightarrow> ok_or (BadCredentials line ''not in directory and no identity-pub given'') (resolve_identity dir user))
             (\<lambda>identity_pub.
               if length rest > 1 then Inl (BadCredentials line ''too many fields'')
               else Inr (os_issue S (fst st) user password identity_pub ''app-password'', snd st @ [user]))))"

fun credentials_lines ::
  "('e, 'tls, 'auth, 'dns) PersonalOs \<Rightarrow> DirectorySource \<Rightarrow> nat \<Rightarrow> string list \<Rightarrow> 'auth \<times> string list
   \<Rightarrow> 'e StartError + 'auth \<times> string list" where
  "credentials_lines S dir idx [] st = Inr st"
| "credentials_lines S dir idx (raw # ls) st =
     res_bind (credentials_line S dir (idx + 1) raw st) (credentials_lines S dir (idx + 1) ls)"

definition load_legacy_credentials ::
  "('e, 'tls, 'auth, 'dns) PersonalOs \<Rightarrow> PersonalConfig \<Rightarrow> DirectorySource \<Rightarrow> 'e StartError + 'auth \<times> string list" where
  "load_legacy_credentials S c dir =
     (case pc_imap_credentials c of
        None \<Rightarrow> Inr (os_auth_new S, [])
      | Some path \<Rightarrow>
          res_bind (map_err StartIo (os_credentials S path)) (\<lambda>text.
            credentials_lines S dir 0 (lines text) (os_auth_new S, [])))"

definition distinct_accounts :: "string list \<Rightarrow> string list" where
  "distinct_accounts accounts =
     foldl (\<lambda>ds a. let lc = to_ascii_lowercase a in if lc \<in> set ds then ds else ds @ [lc]) [] accounts"

definition enforce_gateway_mode :: "PersonalConfig \<Rightarrow> DirectorySource \<Rightarrow> string list \<Rightarrow> 'e StartError + nat" where
  "enforce_gateway_mode c dir accounts =
     (let ds = distinct_accounts accounts in
      case pc_gateway_mode c of
        ModePrivate \<Rightarrow> if length ds > 1 then Inl AccessDenied else Inr (length ds)
      | RegisteredClientsOnly \<Rightarrow>
          if list_all (\<lambda>a. list_ex (\<lambda>(email, _). eq_ignore_ascii_case email a) (source_iter dir)) ds then Inr (length ds)
          else Inl AccessDenied
      | ModePublic \<Rightarrow> Inr (length ds))"

definition load_seed :: "('e, 'tls, 'auth, 'dns) PersonalOs \<Rightarrow> PersonalConfig \<Rightarrow> 'e StartError + (bytes \<times> u64) list" where
  "load_seed S c = (case pc_imap_maildir c of Some d \<Rightarrow> map_err StartIo (os_maildir S d) | None \<Rightarrow> Inr [])"

record ('tls, 'auth) ImapDeployment =
  imd_server :: "string \<times> 'tls \<times> ImapTls"
  imd_seed :: "(bytes \<times> u64) list"
  imd_auth :: 'auth

record ('tls, 'auth) Pop3Deployment =
  pod_server :: "string \<times> 'tls \<times> LegacyTls"
  pod_seed :: "(bytes \<times> u64) list"
  pod_auth :: 'auth

record ('tls, 'auth) SubmissionDeployment =
  sud_server :: "string \<times> 'tls \<times> LegacyTls \<times> string list"
  sud_auth :: 'auth
  sud_sink :: SpoolSink

definition build_imap ::
  "('e, 'tls, 'auth, 'dns) PersonalOs \<Rightarrow> PersonalConfig \<Rightarrow> DirectorySource \<Rightarrow> 'tls option
   \<Rightarrow> 'e StartError + ('tls, 'auth) ImapDeployment option" where
  "build_imap S c dir tls =
     (if \<not> pc_imap_enable c then Inr None
      else
        res_bind (ok_or (NeedsTls ''imap_enable'') tls) (\<lambda>tls.
        res_bind (load_legacy_credentials S c dir) (\<lambda>(auth, accounts).
        res_bind (enforce_gateway_mode c dir accounts) (\<lambda>_.
        res_bind (load_seed S c) (\<lambda>seed.
        res_bind (map_err StartIo (os_bind S (pc_imap_listen c))) (\<lambda>_.
        Inr (Some \<lparr> imd_server = (pc_imap_listen c, tls, pc_imap_tls c), imd_seed = seed, imd_auth = auth \<rparr>)))))))"

definition build_pop3 ::
  "('e, 'tls, 'auth, 'dns) PersonalOs \<Rightarrow> PersonalConfig \<Rightarrow> DirectorySource \<Rightarrow> 'tls option
   \<Rightarrow> 'e StartError + ('tls, 'auth) Pop3Deployment option" where
  "build_pop3 S c dir tls =
     (if \<not> pc_pop3_enable c then Inr None
      else
        res_bind (ok_or (NeedsTls ''pop3_enable'') tls) (\<lambda>tls.
        res_bind (load_legacy_credentials S c dir) (\<lambda>(auth, accounts).
        res_bind (enforce_gateway_mode c dir accounts) (\<lambda>_.
        res_bind (load_seed S c) (\<lambda>seed.
        res_bind (map_err StartIo (os_bind S (pc_pop3_listen c))) (\<lambda>_.
        Inr (Some \<lparr> pod_server = (pc_pop3_listen c, tls, pc_pop3_tls c), pod_seed = seed, pod_auth = auth \<rparr>)))))))"

definition submission_native_domains :: "PersonalConfig \<Rightarrow> string list" where
  "submission_native_domains c =
     (case pc_submission_native_domains c of
        Some ds \<Rightarrow>
          filter (\<lambda>s. s \<noteq> []) (map trim (split_on CHR '','' (map (\<lambda>x. if x = CHR '' '' \<or> x = CHR 0x09 then CHR '','' else x) ds)))
      | None \<Rightarrow> [pc_domain c])"

definition spool_sink_new :: "('e, 'tls, 'auth, 'dns) PersonalOs \<Rightarrow> string \<Rightarrow> 'e StartError + SpoolSink" where
  "spool_sink_new S dir =
     (case os_spool S dir of None \<Rightarrow> Inl (SpoolNotDirectory dir) | Some files \<Rightarrow> Inr \<lparr> sp_files = files, sp_seq = 0 \<rparr>)"

definition build_submission ::
  "('e, 'tls, 'auth, 'dns) PersonalOs \<Rightarrow> PersonalConfig \<Rightarrow> DirectorySource \<Rightarrow> 'tls option
   \<Rightarrow> 'e StartError + ('tls, 'auth) SubmissionDeployment option" where
  "build_submission S c dir tls =
     (if \<not> pc_submission_enable c then Inr None
      else
        res_bind (ok_or (NeedsTls ''submission_enable'') tls) (\<lambda>tls.
        res_bind (load_legacy_credentials S c dir) (\<lambda>(auth, accounts).
        res_bind (enforce_gateway_mode c dir accounts) (\<lambda>_.
        (let native = submission_native_domains c in
         res_bind (case pc_submission_spool c of Some spool \<Rightarrow> spool_sink_new S spool | None \<Rightarrow> Inl NoSpool) (\<lambda>sink.
         res_bind (map_err StartIo (os_bind S (pc_submission_listen c))) (\<lambda>_.
         Inr (Some \<lparr> sud_server = (pc_submission_listen c, tls, pc_submission_tls c, native_domains_of native),
                     sud_auth = auth, sud_sink = sink \<rparr>))))))))"

section \<open>The start of the daemon\<close>

record ('ik, 'env, 'cid, 'tls, 'auth) PersonalDaemon =
  pd_directory :: DirectorySource
  pd_registry :: IdentityRegistry
  pd_quota_ledger :: QuotaLedger
  pd_tls :: "'tls option"
  pd_imap :: "('tls, 'auth) ImapDeployment option"
  pd_pop3 :: "('tls, 'auth) Pop3Deployment option"
  pd_submission :: "('tls, 'auth) SubmissionDeployment option"
  pd_gw :: "('ik, unit, 'env, 'cid) InboundGateway"

definition personal_start ::
  "('e, 'tls, 'auth, 'dns) PersonalOs \<Rightarrow> 'env EnvLib \<Rightarrow> (string \<times> u16 \<Rightarrow> bytes \<Rightarrow> 'n IoError + 'n ReadEvent list) \<Rightarrow> 'ik
   \<Rightarrow> PersonalConfig \<Rightarrow> 'e StartError + ('ik, 'env, 'cid, 'tls, 'auth) PersonalDaemon" where
  "personal_start S E net ik c =
     res_bind (load_directory S c) (\<lambda>dir.
     res_bind (build_mesh E net c) (\<lambda>mesh.
     (let registry = build_registry c dir; quota_ledger = build_quota_ledger c dir in
      res_bind (build_tls S c) (\<lambda>tls.
      res_bind (build_imap S c dir tls) (\<lambda>imap.
      res_bind (build_pop3 S c dir tls) (\<lambda>pop3.
      res_bind (build_submission S c dir tls) (\<lambda>submission.
      (let gw = build_inbound S ik c (into_boxed dir) mesh in
       res_bind (map_err StartIo (os_bind S (pc_listen c))) (\<lambda>_.
       Inr \<lparr> pd_directory = dir, pd_registry = registry, pd_quota_ledger = quota_ledger, pd_tls = tls, pd_imap = imap,
             pd_pop3 = pop3, pd_submission = submission, pd_gw = gw \<rparr>)))))))))"

section \<open>The legacy surfaces are guarded\<close>

definition mode_allows :: "PersonalConfig \<Rightarrow> DirectorySource \<Rightarrow> string list \<Rightarrow> bool" where
  "mode_allows c dir accounts =
     (case pc_gateway_mode c of
        ModePrivate \<Rightarrow> (\<forall>a\<in>set accounts. \<forall>b\<in>set accounts. eq_ignore_ascii_case a b)
      | RegisteredClientsOnly \<Rightarrow> (\<forall>a\<in>set accounts. \<exists>e\<in>set (source_iter dir). eq_ignore_ascii_case (fst e) a)
      | ModePublic \<Rightarrow> True)"

lemma distinct_accounts_snoc:
  "distinct_accounts (as @ [a]) =
   (let ds = distinct_accounts as in if to_ascii_lowercase a \<in> set ds then ds else ds @ [to_ascii_lowercase a])"
  by (simp add: distinct_accounts_def Let_def)

lemma distinct_accounts_facts:
  "set (distinct_accounts as) = to_ascii_lowercase ` set as \<and> distinct (distinct_accounts as)"
proof (induction as rule: rev_induct)
  case (snoc a as)
  then show ?case by (auto simp: distinct_accounts_snoc Let_def)
qed (simp add: distinct_accounts_def)

lemma lowercase_twice: "to_ascii_lowercase (to_ascii_lowercase s) = to_ascii_lowercase s"
  by (simp add: to_ascii_lowercase_def to_lower_char_def is_ascii_uppercase_def)

lemma enforce_gateway_mode_ok: "enforce_gateway_mode c dir accounts = Inr n \<Longrightarrow> mode_allows c dir accounts"
proof (cases "pc_gateway_mode c")
  case ModePrivate
  assume "enforce_gateway_mode c dir accounts = Inr n"
  with ModePrivate have "length (distinct_accounts accounts) \<le> 1"
    by (auto simp: enforce_gateway_mode_def Let_def split: if_splits)
  then have "x = y" if "x \<in> set (distinct_accounts accounts)" "y \<in> set (distinct_accounts accounts)" for x y
    using that by (cases "distinct_accounts accounts") auto
  then show ?thesis using ModePrivate distinct_accounts_facts [of accounts]
    by (simp add: mode_allows_def eq_ignore_ascii_case_def)
next
  case RegisteredClientsOnly
  assume "enforce_gateway_mode c dir accounts = Inr n"
  with RegisteredClientsOnly have "\<forall>d\<in>set (distinct_accounts accounts). \<exists>e\<in>set (source_iter dir). eq_ignore_ascii_case (fst e) d"
    by (auto simp: enforce_gateway_mode_def Let_def list_all_iff list_ex_iff split_beta split: if_splits)
  then show ?thesis using RegisteredClientsOnly distinct_accounts_facts [of accounts]
    by (simp add: mode_allows_def eq_ignore_ascii_case_def lowercase_twice)
qed (simp add: mode_allows_def)

lemma map_err_Inr: "map_err f r = Inr x \<longleftrightarrow> r = Inr x"
  by (cases r) (auto simp: map_err_def)

lemma ok_or_Inr: "ok_or e x = Inr y \<longleftrightarrow> x = Some y"
  by (cases x) (auto simp: ok_or_def)

text \<open>The TLS configuration made of the contents of the certificate and the key file the operator named.\<close>

definition tls_from_files :: "('e, 'tls, 'auth, 'dns) PersonalOs \<Rightarrow> PersonalConfig \<Rightarrow> 'tls \<Rightarrow> bool" where
  "tls_from_files S c t \<longleftrightarrow>
     (\<exists>cert key cert_pem key_pem. pc_tls_cert c = Some cert \<and> pc_tls_key c = Some key
        \<and> os_read S cert = Inr cert_pem \<and> os_read S key = Inr key_pem \<and> os_server_config S cert_pem key_pem = Inr t)"

lemma build_tls_some: "build_tls S c = Inr (Some tls) \<Longrightarrow> tls_from_files S c tls"
  by (cases "pc_tls_cert c"; cases "pc_tls_key c")
     (simp_all add: build_tls_def tls_from_files_def res_bind_Inr_iff map_err_Inr)

text \<open>What a surface that came up rests on: a TLS configuration and accounts the mode allows.\<close>

definition surface_ok ::
  "('e, 'tls, 'auth, 'dns) PersonalOs \<Rightarrow> PersonalConfig \<Rightarrow> DirectorySource \<Rightarrow> 'tls option \<Rightarrow> 'tls \<Rightarrow> 'auth \<Rightarrow> bool" where
  "surface_ok S c dir tls t auth =
     (tls = Some t \<and> (\<exists>accounts. load_legacy_credentials S c dir = Inr (auth, accounts) \<and> mode_allows c dir accounts))"

lemma build_imap_ok:
  "build_imap S c dir tls = Inr (Some d) \<Longrightarrow> surface_ok S c dir tls (fst (snd (imd_server d))) (imd_auth d)"
  by (auto simp: build_imap_def surface_ok_def res_bind_Inr_iff ok_or_Inr split: if_splits dest: enforce_gateway_mode_ok)

lemma build_pop3_ok:
  "build_pop3 S c dir tls = Inr (Some d) \<Longrightarrow> surface_ok S c dir tls (fst (snd (pod_server d))) (pod_auth d)"
  by (auto simp: build_pop3_def surface_ok_def res_bind_Inr_iff ok_or_Inr split: if_splits dest: enforce_gateway_mode_ok)

lemma build_submission_ok:
  "build_submission S c dir tls = Inr (Some d) \<Longrightarrow> surface_ok S c dir tls (fst (snd (sud_server d))) (sud_auth d)
     \<and> (\<exists>spool files. pc_submission_spool c = Some spool \<and> os_spool S spool = Some files
          \<and> sud_sink d = \<lparr> sp_files = files, sp_seq = 0 \<rparr>)"
  by (auto simp: build_submission_def surface_ok_def res_bind_Inr_iff ok_or_Inr spool_sink_new_def Let_def
      split: if_splits option.splits dest: enforce_gateway_mode_ok)

lemma personal_start_parts:
  assumes "personal_start S E net ik c = Inr p"
  shows "build_tls S c = Inr (pd_tls p)" "build_imap S c (pd_directory p) (pd_tls p) = Inr (pd_imap p)"
    "build_pop3 S c (pd_directory p) (pd_tls p) = Inr (pd_pop3 p)"
    "build_submission S c (pd_directory p) (pd_tls p) = Inr (pd_submission p)"
    "\<exists>mesh. build_mesh E net c = (Inr mesh :: 'x StartError + _) \<and> pd_gw p = build_inbound S ik c (into_boxed (pd_directory p)) mesh"
    "load_directory S c = Inr (pd_directory p)" "pd_quota_ledger p = build_quota_ledger c (pd_directory p)"
    "pd_registry p = build_registry c (pd_directory p)"
  using assms
  by (auto simp: personal_start_def res_bind_Inr_iff Let_def build_mesh_def map_err_Inr split: option.splits)

text \<open>
  (C18) No legacy surface comes up unguarded: when the daemon has started, every IMAP, POP3 or submission
  server it runs has the TLS configuration built from the contents of the certificate and key files the
  operator named, authenticates against the credentials file, and that file names at most one account
  on a private gateway and only directory identities on one for registered clients; a submission
  server also hands off into the configured spool directory, which exists. So without a spool
  directory there is no submission server at all, although the documentation of the setting says that
  then accepted mail is logged and dropped.
\<close>

theorem legacy_surfaces_guarded:
  assumes "personal_start S E net ik c = Inr p"
  shows "(\<forall>d. pd_imap p = Some d \<longrightarrow> surface_ok S c (pd_directory p) (pd_tls p) (fst (snd (imd_server d))) (imd_auth d))
    \<and> (\<forall>d. pd_pop3 p = Some d \<longrightarrow> surface_ok S c (pd_directory p) (pd_tls p) (fst (snd (pod_server d))) (pod_auth d))
    \<and> (\<forall>d. pd_submission p = Some d \<longrightarrow> surface_ok S c (pd_directory p) (pd_tls p) (fst (snd (sud_server d))) (sud_auth d)
         \<and> (\<exists>spool files. pc_submission_spool c = Some spool \<and> os_spool S spool = Some files
              \<and> sud_sink d = \<lparr> sp_files = files, sp_seq = 0 \<rparr>))
    \<and> (\<forall>t. pd_tls p = Some t \<longrightarrow> tls_from_files S c t)"
proof (intro conjI allI impI)
  note s = personal_start_parts [OF assms]
  show "surface_ok S c (pd_directory p) (pd_tls p) (fst (snd (imd_server d))) (imd_auth d)" if "pd_imap p = Some d" for d
    using build_imap_ok s(2) that by metis
  show "surface_ok S c (pd_directory p) (pd_tls p) (fst (snd (pod_server d))) (pod_auth d)" if "pd_pop3 p = Some d" for d
    using build_pop3_ok s(3) that by metis
  show "surface_ok S c (pd_directory p) (pd_tls p) (fst (snd (sud_server d))) (sud_auth d)"
    "\<exists>spool files. pc_submission_spool c = Some spool \<and> os_spool S spool = Some files
       \<and> sud_sink d = \<lparr> sp_files = files, sp_seq = 0 \<rparr>" if "pd_submission p = Some d" for d
    using build_submission_ok [of S c "pd_directory p" "pd_tls p" d] s(4) that by auto
  show "tls_from_files S c t" if "pd_tls p = Some t" for t
    using build_tls_some s(1) that by simp
qed

section \<open>From the configuration to the node\<close>

lemma build_inbound_fields [simp]:
  "ig_deliver (build_inbound S ik c dir mesh) = mesh" "ig_directory (build_inbound S ik c dir mesh) = dir"
  by (simp_all add: build_inbound_def with_dmarc_def with_spf_def with_dkim_def for_own_domains_def Let_def)

text \<open>
  (C12) A daemon started from a configuration accepts a message only into the custody of the configured
  node: the endpoint is configured and well formed, the recipient is in the directory, the request with
  the message went to the endpoint's host and port, and the status it answered begins with 2. Without an
  endpoint no message is accepted.
\<close>

theorem personal_accepts_into_custody:
  assumes "personal_start S E net ik c = Inr p"
    and "accept_message_with_spf K C L (pd_gw p) w mail_from rcpt_to data now spf = (r, w')" "sr_code r = 250"
  shows "\<exists>endpoint d env att tcp status rest. pc_mesh_endpoint c = Some endpoint \<and> mesh_new endpoint = Inr d
    \<and> into_boxed (pd_directory p) rcpt_to \<noteq> None
    \<and> w' = w\<lparr> gw_deliveries := gw_deliveries w @ [(env, att)] \<rparr>
    \<and> net (hm_host d, hm_port d) (str_bytes (mesh_head E d env att) @ en_det_cbor E env) = Inr tcp
    \<and> read_line_str tcp = (Inr (Some status), rest) \<and> status_ok status"
  using assms(2)
proof (cases rule: accept_message_cases)
  case (delivered q)
  obtain mesh where m: "build_mesh E net c = (Inr mesh :: unit StartError + _)"
    "pd_gw p = build_inbound S ik c (into_boxed (pd_directory p)) mesh" using personal_start_parts(5) [OF assms(1)] by blast
  have a: "mesh (fst q) (snd q) = Acked" using delivered(5) assms(3) m(2) by simp
  then obtain endpoint where e: "pc_mesh_endpoint c = Some endpoint"
    using m(1) by (cases "pc_mesh_endpoint c") (auto simp: build_mesh_def null_deliver_def)
  then obtain d where d: "mesh_new endpoint = Inr d" "mesh = mesh_deliver E net d"
    using m(1) by (auto simp: build_mesh_def res_bind_Inr_iff map_err_Inr)
  obtain tcp status rest where "net (hm_host d, hm_port d) (str_bytes (mesh_head E d (fst q) (snd q)) @ en_det_cbor E (fst q)) = Inr tcp"
    "read_line_str tcp = (Inr (Some status), rest)" "status_ok status"
    using a unfolding d(2) mesh_deliver_acked by blast
  moreover have "into_boxed (pd_directory p) rcpt_to \<noteq> None"
    using delivered(2) m(2) by (auto simp: wrap_and_attest_def res_bind_Inr_iff ok_or_Inr)
  ultimately show ?thesis using e d(1) delivered(1) by (metis prod.collapse)
qed (use assms(3) in simp)

section \<open>Admission and quotas\<close>

lemma register_all_key:
  "(\<exists>i. identity_for_key (foldl (\<lambda>reg (email, key). register reg
      \<lparr> ri_public_key = rk_ik key, ri_account = email, ri_domain = d, ri_quota = q \<rparr>) reg es) k = Some i)
   \<longleftrightarrow> (\<exists>i. identity_for_key reg k = Some i) \<or> (\<exists>e\<in>set es. rk_ik (snd e) = k)"
proof (induction es arbitrary: reg)
  case (Cons e es)
  obtain email key where e: "e = (email, key)" by fastforce
  have f: "(\<exists>i. identity_for_key reg k = Some i) \<longleftrightarrow> (\<exists>i\<in>set (ir_entries reg). ri_public_key i = k)" for reg
    using find_None_iff [of "\<lambda>e. ri_public_key e = k" "ir_entries reg"]
    by (cases "find (\<lambda>e. ri_public_key e = k) (ir_entries reg)") (auto simp: identity_for_key_def)
  show ?case unfolding foldl_Cons Cons.IH by (auto simp: e f register_def)
qed simp

text \<open>
  The registry of a personal gateway admits exactly the identities of its directory: with keys
  registered, a key has an identity when and only when some directory entry has it.
\<close>

lemma registry_is_directory:
  assumes "pc_authz_mode c = KeyRegistered"
  shows "(\<exists>i. identity_for_key (build_registry c dir) k = Some i) \<longleftrightarrow> (\<exists>e\<in>set (source_iter dir). rk_ik (snd e) = k)"
  using assms by (simp add: build_registry_def Let_def register_all_key) (simp add: identity_for_key_def key_registered_def)

text \<open>
  A gateway without a configured quota is reported as unlimited, and the ledger built for it
  refuses every charge: the ledger is empty, and an account it does not know is refused.
\<close>

lemma unlimited_quota_refuses_all:
  assumes "pc_quota_messages c = 0" "pc_quota_bytes c = 0"
  shows "fst (try_charge (build_quota_ledger c dir) account n) = Inl (Unregistered account)"
  using assms by (simp add: build_quota_ledger_def personal_quota_def quota_ledger_new_def try_charge_def)

section \<open>The settings that took effect\<close>

definition config_keys :: "string list" where
  "config_keys =
     [''domain'', ''listen'', ''selector'', ''dns_server'', ''directory'', ''mesh_endpoint'', ''tls_cert'', ''tls_key'', ''authz_mode'',
      ''dkim_enforce'', ''spf_enforce'', ''dmarc_enforce'', ''quota_messages'', ''quota_bytes'', ''imap_enable'', ''imap_listen'',
      ''imap_tls'', ''imap_credentials'', ''imap_maildir'', ''gateway_mode'', ''pop3_enable'', ''pop3_listen'', ''pop3_tls'',
      ''submission_enable'', ''submission_listen'', ''submission_tls'', ''submission_spool'', ''submission_native_domains'']"

lemma config_set_unknown: "key \<notin> set config_keys \<Longrightarrow> config_set c line key value = Inl (ConfigUnknownKey line key)"
  by (simp add: config_set_def config_keys_def Let_def)

text \<open>The settings of a text: the key and the value of each line that is not blank.\<close>

definition setting :: "string \<Rightarrow> (string \<times> string) option" where
  "setting raw =
     (let t = trim (strip_comment raw) in
      if t = [] then None
      else map_option (\<lambda>(k, v). (to_ascii_lowercase (trim k), unquote (trim v))) (split_once CHR ''='' t))"

definition settings :: "string list \<Rightarrow> (string \<times> string) list" where
  "settings ls = List.map_filter setting ls"

definition last_value :: "string \<Rightarrow> (string \<times> string) list \<Rightarrow> string option" where
  "last_value key kvs = map_of (rev kvs) key"

definition effective :: "string \<Rightarrow> (string \<Rightarrow> 'a option) \<Rightarrow> 'a \<Rightarrow> (string \<times> string) list \<Rightarrow> 'a" where
  "effective key parse d kvs = (case last_value key kvs of None \<Rightarrow> d | Some v \<Rightarrow> the (parse v))"

lemma last_value_snoc: "last_value key (kvs @ [(k, v)]) = (if k = key then Some v else last_value key kvs)"
  by (simp add: last_value_def)

lemma config_lines_append:
  "config_lines idx (as @ bs) c = res_bind (config_lines idx as c) (config_lines (idx + length as) bs)"
proof (induction as arbitrary: idx c)
  case (Cons a as)
  show ?case by (cases "config_line (idx + 1) a c") (simp_all add: Cons.IH)
qed simp

lemma config_line_setting:
  assumes "config_line line raw c = Inr c'"
  shows "(setting raw = None \<and> c' = c)
    \<or> (\<exists>k v. setting raw = Some (k, v) \<and> k \<in> set config_keys \<and> config_set c line k v = Inr c')"
proof -
  have known: "k \<in> set config_keys" if "config_set c line k v = Inr c'" for k v
    using config_set_unknown [of k c line v] that by fastforce
  from assms show ?thesis
    by (auto simp: config_line_def setting_def Let_def known split: if_splits option.splits)
qed

text \<open>Each of the settings below is changed by its own key alone.\<close>

lemma config_set_knobs:
  assumes "config_set c line k v = Inr c'"
  shows "pc_dkim_enforce c' = (if k = ''dkim_enforce'' then the (parse_bool v) else pc_dkim_enforce c)"
    "pc_spf_enforce c' = (if k = ''spf_enforce'' then the (parse_bool v) else pc_spf_enforce c)"
    "pc_dmarc_enforce c' = (if k = ''dmarc_enforce'' then the (parse_bool v) else pc_dmarc_enforce c)"
    "pc_authz_mode c' = (if k = ''authz_mode'' then the (parse_authz_mode v) else pc_authz_mode c)"
    "pc_gateway_mode c' = (if k = ''gateway_mode'' then the (gateway_mode_parse v) else pc_gateway_mode c)"
  using assms unfolding config_set_def Let_def set_bool_def
  by (auto simp: res_bind_Inr_iff ok_or_Inr split: if_splits)

definition knobs :: "PersonalConfig \<Rightarrow> bool \<times> bool \<times> bool \<times> AuthzMode \<times> GatewayMode" where
  "knobs c = (pc_dkim_enforce c, pc_spf_enforce c, pc_dmarc_enforce c, pc_authz_mode c, pc_gateway_mode c)"

definition knobs_of :: "(string \<times> string) list \<Rightarrow> bool \<times> bool \<times> bool \<times> AuthzMode \<times> GatewayMode" where
  "knobs_of kvs =
     (effective ''dkim_enforce'' parse_bool False kvs, effective ''spf_enforce'' parse_bool False kvs,
      effective ''dmarc_enforce'' parse_bool False kvs, effective ''authz_mode'' parse_authz_mode KeyRegistered kvs,
      effective ''gateway_mode'' gateway_mode_parse ModePrivate kvs)"

lemma config_lines_knobs:
  "config_lines 0 ls personal_default = Inr c \<Longrightarrow>
   knobs c = knobs_of (settings ls) \<and> (\<forall>(k, _)\<in>set (settings ls). k \<in> set config_keys)"
proof (induction ls arbitrary: c rule: rev_induct)
  case Nil
  then show ?case by (auto simp: knobs_def knobs_of_def effective_def last_value_def settings_def personal_default_def List.map_filter_simps)
next
  case (snoc raw ls)
  obtain c1 where c1: "config_lines 0 ls personal_default = Inr c1" "config_line (Suc (length ls)) raw c1 = Inr c"
    using snoc.prems by (auto simp: config_lines_append res_bind_Inr_iff)
  note ih = snoc.IH [OF c1(1)]
  from config_line_setting [OF c1(2)] show ?case
  proof
    assume "setting raw = None \<and> c = c1"
    then show ?thesis using ih by (simp add: settings_def List.map_filter_def)
  next
    assume "\<exists>k v. setting raw = Some (k, v) \<and> k \<in> set config_keys \<and> config_set c1 (Suc (length ls)) k v = Inr c"
    then obtain k v where kv: "setting raw = Some (k, v)" "k \<in> set config_keys" "config_set c1 (Suc (length ls)) k v = Inr c" by blast
    have s: "settings (ls @ [raw]) = settings ls @ [(k, v)]" using kv(1) by (simp add: settings_def List.map_filter_def)
    show ?thesis using ih kv(2) unfolding s
      by (simp add: knobs_def knobs_of_def effective_def last_value_snoc config_set_knobs [OF kv(3)])
  qed
qed

text \<open>
  (C19) A configuration that is accepted holds recognised keys only, so that a misspelt setting is never
  passed over, and each security setting has the value of its last line, or the safe default when no line
  sets it: DKIM, SPF and DMARC enforcement, the admission mode and the legacy mode.
\<close>

theorem accepted_config_knobs:
  assumes "parse_config text = Inr c"
  shows "knobs c = knobs_of (settings (lines text)) \<and> set (map fst (settings (lines text))) \<subseteq> set config_keys"
  using config_lines_knobs [of "lines text" c] assms by (auto simp: parse_config_def)

section \<open>The file and the environment disagree\<close>

text \<open>
  The word that switches a setting on in the file leaves it off in the environment, without an
  error: enforcement given as \<open>on\<close> is parsed from the file and ignored from the environment.
\<close>

lemma env_on_stays_off:
  assumes "env ''GATEWAY_DMARC_ENFORCE'' = Some ''on''"
  shows "\<not> pc_dmarc_enforce (from_env env)
    \<and> parse_config ''dmarc_enforce = on'' = Inr (personal_default\<lparr> pc_dmarc_enforce := True \<rparr>)"
proof
  show "\<not> pc_dmarc_enforce (from_env env)"
    using assms by (simp add: from_env_def env_flag_def Let_def to_ascii_lowercase_def to_lower_char_def is_ascii_uppercase_def)
  show "parse_config ''dmarc_enforce = on'' = Inr (personal_default\<lparr> pc_dmarc_enforce := True \<rparr>)" by code_simp
qed

lemma env_on_stays_off_witness: "\<not> pc_dmarc_enforce (from_env [''GATEWAY_DMARC_ENFORCE'' \<mapsto> ''on''])"
  using env_on_stays_off [of "[''GATEWAY_DMARC_ENFORCE'' \<mapsto> ''on'']"] by simp

theorem accepted_config_knobs_witness:
  "\<exists>c. parse_config ''dkim_enforce = on'' = Inr c \<and> knobs c = (True, False, False, KeyRegistered, ModePrivate)"
proof -
  have p: "parse_config ''dkim_enforce = on'' = Inr (personal_default\<lparr> pc_dkim_enforce := True \<rparr>)" by code_simp
  have "settings (lines ''dkim_enforce = on'') = [(''dkim_enforce'', ''on'')]" by code_simp
  moreover have "knobs_of [(''dkim_enforce'', ''on'')] = (True, False, False, KeyRegistered, ModePrivate)" by code_simp
  ultimately show ?thesis using accepted_config_knobs [OF p] p by auto
qed

section \<open>A daemon that starts\<close>

definition sample_os :: "(nat, unit, (string \<times> string \<times> bytes) list, nat) PersonalOs" where
  "sample_os =
     \<lparr> os_read_to_string = (\<lambda>_. Inr ''u@b.org AQ== Ag==''), os_read = (\<lambda>_. Inr []), os_server_config = (\<lambda>_ _. Inr ()),
       os_credentials = (\<lambda>_. Inr ''u@b.org secret''), os_auth_new = [], os_issue = (\<lambda>a u p k _. a @ [(u, p, k)]),
       os_maildir = (\<lambda>_. Inr []), os_spool = (\<lambda>_. Some []), os_bind = (\<lambda>_. Inr ()),
       os_dns = (\<lambda>_. \<lparr> uc_idna = Inr, uc_random_txn_id = Inr 0, uc_exchange = (\<lambda>_. Inl 0) \<rparr>) \<rparr>"

definition sample_config :: PersonalConfig where
  "sample_config =
     personal_default\<lparr> pc_domain := ''b.org'', pc_selector := ''s'', pc_directory := Some ''d'',
       pc_mesh_endpoint := Some ''http://127.0.0.1:8646/i'', pc_tls_cert := Some ''c'', pc_tls_key := Some ''k'',
       pc_pop3_enable := True, pc_imap_credentials := Some ''p'' \<rparr>"

definition sample_source :: DirectorySource where
  "sample_source = FileSource [(''u@b.org'', \<lparr> rk_ik = [1], rk_seal_pub = [2] \<rparr>)]"

definition sample_pop3 :: "(unit, (string \<times> string \<times> bytes) list) Pop3Deployment" where
  "sample_pop3 =
     \<lparr> pod_server = (''127.0.0.1:1110'', (), StartTls), pod_seed = [], pod_auth = [(''u@b.org'', ''secret'', [1])] \<rparr>"

definition sample_daemon :: "(bytes, bytes, bytes, unit, (string \<times> string \<times> bytes) list) PersonalDaemon" where
  "sample_daemon =
     \<lparr> pd_directory = sample_source, pd_registry = build_registry sample_config sample_source,
       pd_quota_ledger = build_quota_ledger sample_config sample_source, pd_tls = Some (), pd_imap = None,
       pd_pop3 = Some sample_pop3, pd_submission = None,
       pd_gw = build_inbound sample_os [7] sample_config (into_boxed sample_source) (mesh_deliver sample_env sample_net sample_mesh) \<rparr>"

lemma sample_endpoint: "mesh_new ''http://127.0.0.1:8646/i'' = Inr sample_mesh"
proof -
  have "split_endpoint ''127.0.0.1:8646/i'' = (''127.0.0.1:8646'', ''/i'')" by (simp add: split_endpoint_def)
  moreover have "split_authority ''127.0.0.1:8646'' = Inr (''127.0.0.1'', 8646)"
    by (simp add: split_authority_def rsplit_once_def parse_unsigned_def is_ascii_digit_def digit_val_def)
  ultimately show ?thesis by (simp add: mesh_new_def strip_prefix_def starts_with_def sample_mesh_def)
qed

lemma sample_start: "personal_start sample_os sample_env sample_net [7] sample_config = Inr sample_daemon"
proof -
  have "load_directory sample_os sample_config = Inr sample_source" by code_simp
  moreover have "build_mesh sample_env sample_net sample_config = (Inr (mesh_deliver sample_env sample_net sample_mesh) :: nat StartError + (bytes \<Rightarrow> bytes Attestation \<Rightarrow> DeliveryOutcome))"
    by (simp add: build_mesh_def sample_config_def map_err_def sample_endpoint)
  moreover have "build_tls sample_os sample_config = Inr (Some ())" by code_simp
  moreover have "build_imap sample_os sample_config sample_source (Some ()) = Inr None" by code_simp
  moreover have "build_pop3 sample_os sample_config sample_source (Some ()) = Inr (Some sample_pop3)" by code_simp
  moreover have "build_submission sample_os sample_config sample_source (Some ()) = Inr None" by code_simp
  moreover have "map_err StartIo (os_bind sample_os (pc_listen sample_config)) = Inr ()" by (simp add: sample_os_def map_err_def)
  ultimately show ?thesis by (simp add: personal_start_def sample_daemon_def Let_def)
qed

theorem legacy_surfaces_guarded_witness:
  "surface_ok sample_os sample_config sample_source (Some ()) () [(''u@b.org'', ''secret'', [1])]
     \<and> tls_from_files sample_os sample_config ()"
  using legacy_surfaces_guarded [OF sample_start] by (simp add: sample_daemon_def sample_pop3_def)

lemma sample_daemon_facts:
  "dkim_gate (pd_gw sample_daemon) v = Inr ()" "dmarc_gate L (pd_gw sample_daemon) d spf v f = Inr ()"
  "attest_key_for (pd_gw sample_daemon) ''b.org'' = Some (attestation_key_new ''b.org'' ''s'' [7])"
  "ig_deliver (pd_gw sample_daemon) e att = Acked"
  by (simp_all add: sample_daemon_def sample_acked sample_config_def personal_default_def build_inbound_def for_own_domains_def
      with_dkim_def with_spf_def with_dmarc_def Let_def dkim_gate_def dmarc_gate_def attest_key_for_def
      attestation_key_new_def eq_ignore_ascii_case_def)

lemma sample_daemon_directory: "ig_directory (pd_gw sample_daemon) ''u@b.org'' = Some \<lparr> rk_ik = [1], rk_seal_pub = [2] \<rparr>"
proof -
  have "into_boxed sample_source ''u@b.org'' = Some \<lparr> rk_ik = [1], rk_seal_pub = [2] \<rparr>" by code_simp
  then show ?thesis by (simp add: sample_daemon_def)
qed

theorem personal_accepts_into_custody_witness:
  "\<exists>(att :: bytes Attestation) w' tcp status rest. accept_message_with_spf (ref_kotva (RU64 0)) sample_crypto sample_lib (pd_gw sample_daemon) sample_world
       ''a@c'' ''u@b.org'' [104, 105] 5 None = (reply 250 ''2.6.0 message durably accepted'', w')
     \<and> sample_net (''127.0.0.1'', 8646) (str_bytes (mesh_head sample_env sample_mesh [104, 105] att) @ [104, 105]) = Inr tcp
     \<and> read_line_str tcp = (Inr (Some status), rest) \<and> status_ok status"
proof -
  obtain att where "wrap_and_attest (ref_kotva (RU64 0)) sample_lib (pd_gw sample_daemon) ''a@c'' ''u@b.org'' [104, 105] 5 = Inr ([104, 105], att)"
    by (simp add: wrap_and_attest_def sample_domain sample_daemon_facts sample_daemon_directory)
      (simp add: sample_lib_def strip_trust_boundary_headers_def)
  then have a: "accept_message_with_spf (ref_kotva (RU64 0)) sample_crypto sample_lib (pd_gw sample_daemon) sample_world
       ''a@c'' ''u@b.org'' [104, 105] 5 None
     = (reply 250 ''2.6.0 message durably accepted'', sample_world\<lparr> gw_deliveries := [([104, 105], att)] \<rparr>)"
    by (simp add: accept_message_with_spf_def sample_daemon_facts sample_world_def Let_def)
  have c: "pc_mesh_endpoint sample_config = Some ''http://127.0.0.1:8646/i''" by (simp add: sample_config_def)
  from personal_accepts_into_custody [OF sample_start a] sample_endpoint c
  obtain env att' tcp status rest where "sample_world\<lparr> gw_deliveries := [([104, 105], att)] \<rparr>
      = sample_world\<lparr> gw_deliveries := gw_deliveries sample_world @ [(env, att')] \<rparr>"
    and t: "sample_net (hm_host sample_mesh, hm_port sample_mesh) (str_bytes (mesh_head sample_env sample_mesh env att') @ en_det_cbor sample_env env) = Inr tcp"
      "read_line_str tcp = (Inr (Some status), rest)" "status_ok status" by (auto simp: reply_def)
  then have "env = [104, 105]" by (simp add: sample_world_def)
  with t have n: "sample_net (''127.0.0.1'', 8646) (str_bytes (mesh_head sample_env sample_mesh [104, 105] att') @ [104, 105]) = Inr tcp"
    by (simp add: sample_mesh_def sample_env_def)
  show ?thesis by (intro exI conjI) (rule a, rule n, rule t, rule t)
qed

lemma registry_is_directory_witness: "\<exists>i. identity_for_key (build_registry sample_config sample_source) [1] = Some i"
  using registry_is_directory [of sample_config sample_source "[1]"]
  by (simp add: sample_config_def personal_default_def sample_source_def)

lemma unlimited_quota_refuses_all_witness:
  "fst (try_charge (build_quota_ledger sample_config sample_source) ''u@b.org'' 100) = Inl (Unregistered ''u@b.org'')"
  using unlimited_quota_refuses_all [of sample_config] by (simp add: sample_config_def personal_default_def)

end
