(* ===== verification/Reach_Sni.thy ===== *)
theory Reach_Sni
  imports Rust_Text
begin

text \<open>
  Peeking the server name of a TLS ClientHello (\<open>crates/pier-reachability-adapter/src/sni.rs\<close>): the
  incremental parser over the bytes read so far, and the loop that reads until it has an answer. A
  cursor is what is left of its slice. The stream is the list of what its reads return, an error by its
  text; the end of the list is the end of the stream.
\<close>

section \<open>Definitions\<close>

definition MAX_CLIENT_HELLO_BYTES :: nat where "MAX_CLIENT_HELLO_BYTES = 16 * 1024"
definition CONTENT_TYPE_HANDSHAKE :: u8 where "CONTENT_TYPE_HANDSHAKE = 0x16"
definition HANDSHAKE_TYPE_CLIENT_HELLO :: u8 where "HANDSHAKE_TYPE_CLIENT_HELLO = 0x01"
definition EXTENSION_SERVER_NAME :: u16 where "EXTENSION_SERVER_NAME = 0x0000"
definition NAME_TYPE_HOST_NAME :: u8 where "NAME_TYPE_HOST_NAME = 0x00"

datatype SniError =
    NotHandshake
  | Malformed string
  | NoSni
  | EmptySni
  | TooLarge
  | UnexpectedEof
  | SniIo string

record ClientHelloPeek =
  hp_server_name :: string
  hp_raw :: bytes

text \<open>\<open>std::str::from_utf8\<close>: text that the lossy decoder leaves as it is.\<close>

definition from_utf8 :: "bytes \<Rightarrow> string option" where
  "from_utf8 b = (if from_utf8_lossy b = b then Some (bytes_str b) else None)"

definition cur_take :: "nat \<Rightarrow> bytes \<Rightarrow> SniError + bytes \<times> bytes" where
  "cur_take n c = (if n > length c then Inl (Malformed ''truncated field'') else Inr (take n c, drop n c))"

definition cur_u8 :: "bytes \<Rightarrow> SniError + u8 \<times> bytes" where
  "cur_u8 c = res_bind (cur_take 1 c) (\<lambda>(b, c). Inr (b ! 0, c))"

definition cur_u16 :: "bytes \<Rightarrow> SniError + u16 \<times> bytes" where
  "cur_u16 c = res_bind (cur_take 2 c) (\<lambda>(b, c). Inr (of_be16 (b ! 0) (b ! 1), c))"

definition cur_u24 :: "bytes \<Rightarrow> SniError + u32 \<times> bytes" where
  "cur_u24 c = res_bind (cur_take 3 c) (\<lambda>(b, c).
     Inr (of_nat (unat (b ! 0) * 65536 + unat (b ! 1) * 256 + unat (b ! 2)), c))"

lemma cur_take_left: "cur_take n c = Inr (b, c') \<Longrightarrow> length c' = length c - n \<and> n \<le> length c \<and> length b = n \<and> c = b @ c'"
  by (auto simp: cur_take_def split: if_splits)

lemma cur_u16_left: "cur_u16 c = Inr (w, c') \<Longrightarrow> length c' + 2 = length c"
  by (auto simp: cur_u16_def res_bind_Inr_iff dest: cur_take_left)

lemma cur_u8_left: "cur_u8 c = Inr (w, c') \<Longrightarrow> length c' + 1 = length c"
  by (auto simp: cur_u8_def res_bind_Inr_iff dest: cur_take_left)

lemma cur_name_shorter:
  assumes "cur_u8 lc = Inr (a, c1)" "cur_u16 c1 = Inr (b, c2)" "cur_take n c2 = Inr (d, c3)"
  shows "length c3 < length lc"
  using cur_u8_left [OF assms(1)] cur_u16_left [OF assms(2)] cur_take_left [OF assms(3)] by linarith

lemma cur_ext_shorter:
  assumes "cur_u16 ec = Inr (a, c1)" "cur_u16 c1 = Inr (b, c2)" "cur_take n c2 = Inr (d, c3)"
  shows "length c3 < length ec"
  using cur_u16_left [OF assms(1)] cur_u16_left [OF assms(2)] cur_take_left [OF assms(3)] by linarith

function server_names :: "bytes \<Rightarrow> SniError + string" where
  "server_names lc =
     (if lc = [] then Inl NoSni
      else
        (case cur_u8 lc of Inl e \<Rightarrow> Inl e | Inr (name_type, c1) \<Rightarrow>
        (case cur_u16 c1 of Inl e \<Rightarrow> Inl e | Inr (name_len, c2) \<Rightarrow>
        (case cur_take (unat name_len) c2 of Inl e \<Rightarrow> Inl e | Inr (name, c3) \<Rightarrow>
          if name_type = NAME_TYPE_HOST_NAME then
            (if name = [] then Inl EmptySni
             else ok_or (Malformed ''server_name is not valid UTF-8'') (from_utf8 name))
          else server_names c3))))"
  by pat_completeness auto
termination
  by (relation "measure length") (auto intro: cur_name_shorter)

declare server_names.simps [simp del]

definition parse_server_name_extension :: "bytes \<Rightarrow> SniError + string" where
  "parse_server_name_extension data =
     res_bind (cur_u16 data) (\<lambda>(list_len, c).
     res_bind (cur_take (unat list_len) c) (\<lambda>(list, _). server_names list))"

function find_server_name :: "bytes \<Rightarrow> SniError + string" where
  "find_server_name ec =
     (if ec = [] then Inl NoSni
      else
        (case cur_u16 ec of Inl e \<Rightarrow> Inl e | Inr (ext_type, c1) \<Rightarrow>
        (case cur_u16 c1 of Inl e \<Rightarrow> Inl e | Inr (ext_len, c2) \<Rightarrow>
        (case cur_take (unat ext_len) c2 of Inl e \<Rightarrow> Inl e | Inr (ext_data, c3) \<Rightarrow>
          if ext_type = EXTENSION_SERVER_NAME then parse_server_name_extension ext_data
          else find_server_name c3))))"
  by pat_completeness auto
termination
  by (relation "measure length") (auto intro: cur_ext_shorter)

declare find_server_name.simps [simp del]

definition parse_client_hello_body :: "bytes \<Rightarrow> SniError + string" where
  "parse_client_hello_body body =
     res_bind (cur_take 2 body) (\<lambda>(_, c).
     res_bind (cur_take 32 c) (\<lambda>(_, c).
     res_bind (cur_u8 c) (\<lambda>(session_id_len, c).
     res_bind (cur_take (unat session_id_len) c) (\<lambda>(_, c).
     res_bind (cur_u16 c) (\<lambda>(cipher_suites_len, c).
     res_bind (cur_take (unat cipher_suites_len) c) (\<lambda>(_, c).
     res_bind (cur_u8 c) (\<lambda>(compression_methods_len, c).
     res_bind (cur_take (unat compression_methods_len) c) (\<lambda>(_, c).
       if c = [] then Inl NoSni
       else
         res_bind (cur_u16 c) (\<lambda>(extensions_len, c).
         res_bind (cur_take (unat extensions_len) c) (\<lambda>(extensions, _). find_server_name extensions))))))))))"

datatype Parsed = Incomplete | Complete string

definition parse_record_body :: "bytes \<Rightarrow> SniError + Parsed" where
  "parse_record_body record =
     res_bind (cur_u8 record) (\<lambda>(hs_type, c).
     if hs_type \<noteq> HANDSHAKE_TYPE_CLIENT_HELLO then Inl (Malformed ''first handshake message is not ClientHello'')
     else
       res_bind (cur_u24 c) (\<lambda>(hs_len, c).
       res_bind (map_err (\<lambda>_. Malformed ''ClientHello spans multiple TLS records (unsupported)'') (cur_take (unat hs_len) c :: SniError + bytes \<times> bytes))
         (\<lambda>(body, _). res_bind (parse_client_hello_body body) (\<lambda>name. Inr (Complete name)))))"

definition try_parse :: "bytes \<Rightarrow> SniError + Parsed" where
  "try_parse buf =
     (if length buf < 5 then Inr Incomplete
      else if buf ! 0 \<noteq> CONTENT_TYPE_HANDSHAKE then Inl NotHandshake
      else
        (let record_len = unat (of_be16 (buf ! 3) (buf ! 4)) in
         if record_len = 0 \<or> record_len > 0x4000 then Inl (Malformed ''record length out of range'')
         else
           (let record_end = 5 + record_len in
            if length buf < record_end then Inr Incomplete
            else parse_record_body (take record_len (drop 5 buf)))))"

datatype ReadChunk = Chunk bytes | ChunkFailed string

text \<open>
  The loop, with what it leaves to read. A read of no bytes is the end of the stream.
\<close>

definition peek_step :: "bytes \<Rightarrow> (SniError + ClientHelloPeek) option" where
  "peek_step buf =
     (case try_parse buf of
        Inl e \<Rightarrow> Some (Inl e)
      | Inr (Complete server_name) \<Rightarrow> Some (Inr \<lparr> hp_server_name = server_name, hp_raw = buf \<rparr>)
      | Inr Incomplete \<Rightarrow> if length buf \<ge> MAX_CLIENT_HELLO_BYTES then Some (Inl TooLarge) else None)"

fun peek_loop :: "bytes \<Rightarrow> ReadChunk list \<Rightarrow> (SniError + ClientHelloPeek) \<times> ReadChunk list" where
  "peek_loop buf [] = (case peek_step buf of Some r \<Rightarrow> (r, []) | None \<Rightarrow> (Inl UnexpectedEof, []))"
| "peek_loop buf (Chunk b # r) =
     (case peek_step buf of
        Some res \<Rightarrow> (res, Chunk b # r)
      | None \<Rightarrow> if b = [] then (Inl UnexpectedEof, r) else peek_loop (buf @ b) r)"
| "peek_loop buf (ChunkFailed e # r) =
     (case peek_step buf of Some res \<Rightarrow> (res, ChunkFailed e # r) | None \<Rightarrow> (Inl (SniIo e), r))"

definition peek_client_hello :: "ReadChunk list \<Rightarrow> (SniError + ClientHelloPeek) \<times> ReadChunk list" where
  "peek_client_hello r = peek_loop [] r"

section \<open>What is read is replayed\<close>

definition chunk_bytes :: "ReadChunk list \<Rightarrow> bytes" where
  "chunk_bytes r = concat (map (\<lambda>c. case c of Chunk b \<Rightarrow> b | ChunkFailed _ \<Rightarrow> []) r)"

definition short_chunk :: "nat \<Rightarrow> ReadChunk \<Rightarrow> bool" where
  "short_chunk m c = (case c of Chunk b \<Rightarrow> length b \<le> m | ChunkFailed _ \<Rightarrow> True)"

lemma peek_loop_raw:
  "peek_loop buf r = (Inr p, r') \<Longrightarrow> list_all (short_chunk m) r \<Longrightarrow>
   hp_raw p @ chunk_bytes r' = buf @ chunk_bytes r
   \<and> try_parse (hp_raw p) = Inr (Complete (hp_server_name p))
   \<and> length (hp_raw p) \<le> max (length buf) (MAX_CLIENT_HELLO_BYTES - 1 + m)"
  for r :: "ReadChunk list"
proof (induction buf r rule: peek_loop.induct)
  case (1 buf)
  then show ?case
    by (auto simp: peek_step_def chunk_bytes_def split: option.splits sum.splits Parsed.splits if_splits)
next
  case (2 buf b r)
  show ?case
  proof (cases "peek_step buf :: (SniError + ClientHelloPeek) option")
    case (Some res)
    then show ?thesis using 2(2)
      by (auto simp: peek_step_def chunk_bytes_def split: sum.splits Parsed.splits if_splits)
  next
    case None
    then have n: "b \<noteq> []" "peek_loop (buf @ b) r = (Inr p, r')" using 2(2) by (auto split: if_splits)
    have "length buf \<le> MAX_CLIENT_HELLO_BYTES - 1"
      using None by (auto simp: peek_step_def split: sum.splits Parsed.splits if_splits)
    then have "length (buf @ b) \<le> MAX_CLIENT_HELLO_BYTES - 1 + m" using 2(3) by (simp add: short_chunk_def)
    with 2(1) [OF None n] 2(3) show ?thesis by (auto simp: chunk_bytes_def)
  qed
next
  case (3 buf e r)
  then show ?case
    by (auto simp: peek_step_def chunk_bytes_def split: option.splits sum.splits Parsed.splits if_splits)
qed

text \<open>More bytes do not change an answer: a record that parsed is parsed the same in any longer buffer.\<close>

lemma try_parse_stable:
  assumes "try_parse buf \<noteq> Inr Incomplete"
  shows "try_parse (buf @ extra) = try_parse buf"
proof -
  have l: "\<not> length buf < 5" using assms by (auto simp: try_parse_def)
  then have n: "(buf @ extra) ! i = buf ! i" if "i < 5" for i using that by (simp add: nth_append)
  show ?thesis
    using assms l n [of 0] n [of 3] n [of 4]
    by (auto simp: try_parse_def Let_def split: if_splits)
qed

section \<open>A well-formed ClientHello\<close>

text \<open>
  The message as RFC 8446 and RFC 6066 lay it out: version, random, session id, cipher suites,
  compression methods, then extensions, the server name somewhere among them.
\<close>

definition be24 :: "nat \<Rightarrow> bytes" where
  "be24 n = [of_nat (n div 65536), of_nat (n div 256), of_nat n]"

definition ref_extension :: "u16 \<times> bytes \<Rightarrow> bytes" where
  "ref_extension e = be16 (fst e) @ be16 (of_nat (length (snd e))) @ snd e"

definition ref_sni :: "bytes \<Rightarrow> u16 \<times> bytes" where
  "ref_sni name = (EXTENSION_SERVER_NAME, be16 (of_nat (length name + 3)) @ [NAME_TYPE_HOST_NAME] @ be16 (of_nat (length name)) @ name)"

definition ref_body :: "bytes \<Rightarrow> bytes \<Rightarrow> bytes \<Rightarrow> bytes \<Rightarrow> (u16 \<times> bytes) list \<Rightarrow> bytes" where
  "ref_body head' sid suites comps exts =
     head' @ [of_nat (length sid)] @ sid @ be16 (of_nat (length suites)) @ suites @ [of_nat (length comps)] @ comps
     @ be16 (of_nat (length (concat (map ref_extension exts)))) @ concat (map ref_extension exts)"

definition ref_hello :: "bytes \<Rightarrow> bytes" where
  "ref_hello body =
     [CONTENT_TYPE_HANDSHAKE, 3, 1] @ be16 (of_nat (length body + 4)) @ [HANDSHAKE_TYPE_CLIENT_HELLO] @ be24 (length body) @ body"

lemma be16_not_Nil [simp]: "be16 w \<noteq> []"
  by (simp add: be16_def)

lemma cur_steps:
  "length b = n \<Longrightarrow> cur_take n (b @ c) = Inr (b, c)"
  "cur_u8 (x # c) = Inr (x, c)"
  "(cur_u16 (be16 w @ c) :: SniError + u16 \<times> bytes) = Inr (w, c)"
proof -
  show "length b = n \<Longrightarrow> cur_take n (b @ c) = Inr (b, c)" by (auto simp: cur_take_def)
  show "cur_u8 (x # c) = Inr (x, c)" by (simp add: cur_u8_def cur_take_def)
  have "(cur_take 2 (be16 w @ c) :: SniError + bytes \<times> bytes) = Inr (be16 w, c)" by (simp add: cur_take_def)
  then have "(cur_u16 (be16 w @ c) :: SniError + u16 \<times> bytes) = Inr (of_be16 (be16 w ! 0) (be16 w ! 1), c)"
    by (simp only: cur_u16_def res_bind_simps prod.case)
  also have "of_be16 (be16 w ! 0) (be16 w ! 1) = w" using of_be16_be16 [of w] by (simp add: be16_def)
  finally show "(cur_u16 (be16 w @ c) :: SniError + u16 \<times> bytes) = Inr (w, c)" .
qed

lemma cur_u24_be24:
  assumes "n < 2 ^ 24"
  shows "cur_u24 (be24 n @ c) = Inr (of_nat n, c)"
proof -
  have "n div 65536 < 256" using assms by (simp add: less_mult_imp_div_less)
  moreover have "n div 65536 * 65536 + n div 256 mod 256 * 256 + n mod 256 = n"
  proof -
    have "n div 65536 = n div 256 div 256" by (simp add: div_mult2_eq [symmetric])
    then have "n div 65536 * 256 + n div 256 mod 256 = n div 256" by simp
    then have "(n div 65536 * 256 + n div 256 mod 256) * 256 + n mod 256 = n" by simp
    then show ?thesis by (simp add: algebra_simps)
  qed
  ultimately have "unat (of_nat (n div 65536) :: u8) * 65536 + unat (of_nat (n div 256) :: u8) * 256 + unat (of_nat n :: u8) = n"
    by (simp add: unsigned_of_nat take_bit_eq_mod)
  then show ?thesis
    by (simp only: cur_u24_def cur_take_def be24_def) (simp del: of_nat_add of_nat_mult)
qed

lemma find_extension:
  assumes "length (snd e) < 65536"
  shows "find_server_name (ref_extension e @ r)
    = (if fst e = EXTENSION_SERVER_NAME then parse_server_name_extension (snd e) else find_server_name r)"
proof -
  have "unat (of_nat (length (snd e)) :: u16) = length (snd e)" using assms by (simp add: unsigned_of_nat take_bit_eq_mod)
  then show ?thesis by (subst find_server_name.simps) (simp add: ref_extension_def cur_steps)
qed

lemma find_server_name_skip:
  "list_all (\<lambda>e. fst e \<noteq> EXTENSION_SERVER_NAME \<and> length (snd e) < 65536) pre \<Longrightarrow>
   find_server_name (concat (map ref_extension pre) @ r) = find_server_name r"
  by (induction pre) (simp_all add: find_extension)

lemma cur_take_all: "cur_take (length b) b = Inr (b, [])"
  by (simp add: cur_take_def)

lemma unat_of_nat_len: "n < 65536 \<Longrightarrow> unat (of_nat n :: u16) = n" "n < 256 \<Longrightarrow> unat (of_nat n :: u8) = n"
  by (simp_all add: unsigned_of_nat take_bit_eq_mod)

lemma parse_ref_sni:
  assumes "name \<noteq> []" "from_utf8 name = Some s" "length name + 3 < 65536"
  shows "parse_server_name_extension (snd (ref_sni name)) = Inr s"
proof -
  let ?l = "[NAME_TYPE_HOST_NAME] @ be16 (of_nat (length name)) @ name"
  have "unat (of_nat (length name) :: u16) = length name" using assms(3) by (intro unat_of_nat_len) simp
  then have "server_names ?l = Inr s"
    using assms(1,2) by (subst server_names.simps) (simp add: cur_steps cur_take_all)
  moreover have "cur_take (unat (of_nat (length name + 3) :: u16)) ?l = Inr (?l, [])"
    using cur_steps(1) [of ?l "length name + 3" "[]"] unat_of_nat_len(1) [OF assms(3)] by simp
  ultimately show ?thesis by (simp add: parse_server_name_extension_def ref_sni_def cur_steps)
qed

lemma parse_ref_body:
  assumes "length head' = 34" "length sid < 256" "length suites < 65536" "length comps < 256"
    and "exts = pre @ ref_sni name # post" "list_all (\<lambda>e. fst e \<noteq> EXTENSION_SERVER_NAME \<and> length (snd e) < 65536) pre"
    and "length (concat (map ref_extension exts)) < 65536" "name \<noteq> []" "from_utf8 name = Some s"
  shows "parse_client_hello_body (ref_body head' sid suites comps exts) = Inr s"
proof -
  let ?e = "concat (map ref_extension exts)"
  have hd: "cur_take 2 (head' @ r) = Inr (take 2 head', drop 2 head' @ r)" "cur_take 32 (drop 2 head' @ r) = Inr (drop 2 head', r)" for r
    using assms(1) by (simp_all add: cur_take_def)
  have l: "length name + 3 < 65536" using assms(5,7) by (simp add: ref_extension_def ref_sni_def)
  have "length (snd (ref_sni name)) < 65536" using assms(5,7) by (simp add: ref_extension_def)
  then have "find_server_name (ref_extension (ref_sni name) @ r) = Inr s" for r
    using parse_ref_sni [OF assms(8,9) l] find_extension [of "ref_sni name" r] by (simp add: ref_sni_def)
  then have f: "find_server_name ?e = Inr s" using find_server_name_skip [OF assms(6)] by (simp add: assms(5))
  note e = cur_take_all [of ?e]
  show ?thesis
    using assms(2-4,7) f e
    by (simp add: parse_client_hello_body_def ref_body_def hd cur_steps unat_of_nat_len)
qed

lemma try_parse_ref_hello:
  assumes "(parse_client_hello_body body :: SniError + string) = Inr s" "length body + 4 \<le> 0x4000"
  shows "try_parse (ref_hello body) = Inr (Complete s)"
proof -
  let ?rec = "[HANDSHAKE_TYPE_CLIENT_HELLO] @ be24 (length body) @ body"
  have len: "unat (of_nat (length body + 4) :: u16) = length body + 4" using assms(2) by (intro unat_of_nat_len) simp
  have b: "of_be16 (ref_hello body ! 3) (ref_hello body ! 4) = of_nat (length body + 4)"
    by (simp add: ref_hello_def be16_def of_be16_be16 [unfolded be16_def])
  have t: "take (length body + 4) (drop 5 (ref_hello body)) = ?rec" "length (ref_hello body) = 5 + (length body + 4)"
    by (simp_all add: ref_hello_def be16_def be24_def)
  have u: "unat (of_nat (length body) :: u32) = length body" using assms(2) by (simp add: unsigned_of_nat take_bit_eq_mod)
  have h: "cur_u24 (be24 (length body) @ body) = Inr (of_nat (length body), body)" using assms(2) by (intro cur_u24_be24) simp
  have "(parse_record_body ?rec :: SniError + Parsed) = Inr (Complete s)"
    using assms(1) by (simp add: parse_record_body_def cur_steps h u cur_take_all)
  then show ?thesis
    using assms(2) by (simp only: try_parse_def b len t Let_def) (simp add: ref_hello_def)
qed

lemma peek_loop_chunks:
  fixes chunks :: "bytes list"
  assumes "try_parse hello = Inr (Complete s)" "length hello \<le> MAX_CLIENT_HELLO_BYTES"
    and "list_all (\<lambda>b. b \<noteq> []) chunks" "buf @ concat chunks = hello @ rest"
  shows "\<exists>p r'. peek_loop buf (map Chunk chunks :: ReadChunk list) = (Inr p, r') \<and> hp_server_name p = s
    \<and> hp_raw p @ chunk_bytes r' = hello @ rest"
  using assms(3,4)
proof (induction chunks arbitrary: buf)
  case Nil
  then have "try_parse buf = Inr (Complete s)"
    using try_parse_stable [of hello rest] assms(1) by simp
  then show ?case using Nil by (simp add: peek_step_def chunk_bytes_def)
next
  case (Cons b chunks)
  show ?case
  proof (cases "try_parse buf = Inr Incomplete")
    case False
    then have "try_parse buf = try_parse (hello @ rest)"
      using try_parse_stable [of buf "concat (b # chunks)"] Cons.prems(2) by simp
    also have "\<dots> = Inr (Complete s)" using try_parse_stable [of hello rest] assms(1) by simp
    finally have "(peek_step buf :: (SniError + ClientHelloPeek) option) = Some (Inr \<lparr> hp_server_name = s, hp_raw = buf \<rparr>)"
      by (simp add: peek_step_def)
    then show ?thesis using Cons.prems(2) by (simp add: chunk_bytes_def comp_def)
  next
    case True
    have "length buf < length hello"
    proof (rule ccontr)
      assume "\<not> length buf < length hello"
      then obtain x where "buf = hello @ x"
        using Cons.prems(2) by (metis append_eq_append_conv_if append_take_drop_id linorder_not_less)
      with True try_parse_stable [of hello x] assms(1) show False by simp
    qed
    then have "(peek_step buf :: (SniError + ClientHelloPeek) option) = None"
      using True assms(2) by (simp add: peek_step_def)
    then show ?thesis using Cons.IH [of "buf @ b"] Cons.prems by simp
  qed
qed

text \<open>
  However the bytes of a ClientHello arrive, the peek finds the host name of its server name
  extension, whatever other fields and extensions the message has, and the bytes it hands on for
  replay followed by the bytes still to be read are exactly the bytes the client sent.
\<close>

lemma client_hello_peeked:
  assumes "length head' = 34" "length sid < 256" "length suites < 65536" "length comps < 256"
    and "list_all (\<lambda>e. fst e \<noteq> EXTENSION_SERVER_NAME \<and> length (snd e) < 65536) pre"
    and "name \<noteq> []" "from_utf8 name = Some s"
    and "body = ref_body head' sid suites comps (pre @ ref_sni name # post)" "length body + 9 \<le> 0x4000"
    and "list_all (\<lambda>b. b \<noteq> []) chunks" "concat chunks = ref_hello body @ rest"
  shows "\<exists>p r'. peek_client_hello (map Chunk chunks :: ReadChunk list) = (Inr p, r') \<and> hp_server_name p = s
    \<and> hp_raw p @ chunk_bytes r' = ref_hello body @ rest"
proof -
  have "length (concat (map ref_extension (pre @ ref_sni name # post))) \<le> length body"
    by (simp only: assms(8) ref_body_def length_append)
  then have "length (concat (map ref_extension (pre @ ref_sni name # post))) < 65536" using assms(9) by linarith
  from parse_ref_body [OF assms(1-4) refl assms(5) this assms(6,7)] assms(8)
  have "(parse_client_hello_body body :: SniError + string) = Inr s" by simp
  then have "try_parse (ref_hello body) = Inr (Complete s)"
    using assms(9) by (intro try_parse_ref_hello) simp_all
  moreover have "length (ref_hello body) \<le> MAX_CLIENT_HELLO_BYTES"
    using assms(9) by (simp add: ref_hello_def be24_def MAX_CLIENT_HELLO_BYTES_def)
  ultimately show ?thesis unfolding peek_client_hello_def using assms(10,11) by (intro peek_loop_chunks) simp_all
qed

definition sample_hello_body :: bytes where
  "sample_hello_body = ref_body (replicate 34 0) [] [0x13, 0x01] [0] ([(43, [2, 3, 4])] @ ref_sni [97, 46, 98] # [])"

lemma client_hello_sample:
  "\<exists>p r'. peek_client_hello (map Chunk [take 7 (ref_hello sample_hello_body), drop 7 (ref_hello sample_hello_body)]) = (Inr p, r')
     \<and> hp_server_name p = ''a.b'' \<and> hp_raw p @ chunk_bytes r' = ref_hello sample_hello_body @ []"
proof (rule client_hello_peeked [where head' = "replicate 34 0" and sid = "[]" and suites = "[0x13, 0x01]" and comps = "[0]"
      and pre = "[(43, [2, 3, 4])]" and name = "[97, 46, 98]" and post = "[]"])
  show "from_utf8 [97, 46, 98] = Some ''a.b''"
    by (simp add: from_utf8_def utf8_step_def bytes_str_def char_of_eq_iff)
  show "list_all (\<lambda>b. b \<noteq> []) [take 7 (ref_hello sample_hello_body), drop 7 (ref_hello sample_hello_body)]"
    by (simp add: ref_hello_def be24_def be16_def)
  show "length sample_hello_body + 9 \<le> 0x4000"
    by (simp add: sample_hello_body_def ref_body_def ref_extension_def ref_sni_def be16_def)
qed (simp_all add: sample_hello_body_def EXTENSION_SERVER_NAME_def)

end
