(* ===== verification/Reach_Tunnel.thy ===== *)
theory Reach_Tunnel
  imports Reach_Sni
begin

text \<open>
  The box tunnels of the reachability adapter (\<open>crates/pier-reachability-adapter/src/tunnel.rs\<close>):
  the registration frame on the wire, the task that opens streams on a tunnel, and the registry of
  names. A socket is the bytes it still delivers and the error in which reading past them ends. A
  \<open>HashSet\<close> is the list of its elements in its order of iteration. The multiplexer and the channel are
  what each poll of them returns; a tunnel handle is the number of its task.
\<close>

section \<open>The registration frame\<close>

definition MAX_REGISTRATION_FIELD_BYTES :: nat where "MAX_REGISTRATION_FIELD_BYTES = 4096"
definition MAX_REGISTRATION_SERVICES :: nat where "MAX_REGISTRATION_SERVICES = 256"

datatype TunnelError =
    Closed
  | Yamux string
  | TunnelIo string
  | MalformedRegistration string

record Registration =
  reg_name :: string
  reg_allowed_services :: "string list"

record TcpRead =
  rx_bytes :: bytes
  rx_end :: string

definition read_exact :: "nat \<Rightarrow> TcpRead \<Rightarrow> string + bytes \<times> TcpRead" where
  "read_exact n s =
     (if n > length (rx_bytes s) then Inl (rx_end s)
      else Inr (take n (rx_bytes s), s\<lparr> rx_bytes := drop n (rx_bytes s) \<rparr>))"

definition read_u16 :: "TcpRead \<Rightarrow> TunnelError + u16 \<times> TcpRead" where
  "read_u16 s = res_bind (map_err TunnelIo (read_exact 2 s)) (\<lambda>(b, s). Inr (of_be16 (b ! 0) (b ! 1), s))"

definition read_length_prefixed_string :: "TcpRead \<Rightarrow> TunnelError + string \<times> TcpRead" where
  "read_length_prefixed_string s =
     res_bind (read_u16 s) (\<lambda>(len, s).
     if unat len > MAX_REGISTRATION_FIELD_BYTES then Inl (MalformedRegistration ''field exceeds max length'')
     else
       res_bind (map_err TunnelIo (read_exact (unat len) s)) (\<lambda>(buf, s).
       res_bind (ok_or (MalformedRegistration ''field is not UTF-8'') (from_utf8 buf)) (\<lambda>x. Inr (x, s))))"

fun read_services :: "nat \<Rightarrow> string list \<Rightarrow> TcpRead \<Rightarrow> TunnelError + string list \<times> TcpRead" where
  "read_services 0 acc s = Inr (acc, s)"
| "read_services (Suc n) acc s =
     res_bind (read_length_prefixed_string s) (\<lambda>(svc, s). read_services n (List.insert svc acc) s)"

definition read_registration :: "TcpRead \<Rightarrow> TunnelError + Registration \<times> TcpRead" where
  "read_registration s =
     res_bind (read_length_prefixed_string s) (\<lambda>(name, s).
     if name = [] then Inl (MalformedRegistration ''name is empty'')
     else
       res_bind (read_u16 s) (\<lambda>(service_count, s).
       if unat service_count > MAX_REGISTRATION_SERVICES then Inl (MalformedRegistration ''too many declared services'')
       else
         res_bind (read_services (unat service_count) [] s) (\<lambda>(allowed_services, s).
         Inr (\<lparr> reg_name = name, reg_allowed_services = allowed_services \<rparr>, s))))"

definition write_field :: "string \<Rightarrow> bytes" where
  "write_field x = be16 (of_nat (length x)) @ str_bytes x"

definition write_registration :: "Registration \<Rightarrow> bytes" where
  "write_registration reg =
     write_field (reg_name reg) @ be16 (of_nat (length (reg_allowed_services reg)))
     @ concat (map write_field (reg_allowed_services reg))"

section \<open>The driver of a tunnel\<close>

text \<open>
  One round of the loop of \<open>drive\<close> is what its three polls return. A reply is the number of the request
  it answers; a stream is its number.
\<close>

datatype RecvPoll = RecvReply nat | RecvClosed | RecvPending
datatype OutboundPoll = OutStream nat | OutFailed string | OutPending
datatype InboundPoll = InStream | InFailed | InEnded | InPending

record DriveState =
  dr_pending :: "nat list"
  dr_open_rx_closed :: bool
  dr_sent :: "(nat \<times> (TunnelError + nat)) list"
  dr_finished :: bool

definition drive_start :: DriveState where
  "drive_start = \<lparr> dr_pending = [], dr_open_rx_closed = False, dr_sent = [], dr_finished = False \<rparr>"

definition drive_recv :: "RecvPoll \<Rightarrow> DriveState \<Rightarrow> DriveState" where
  "drive_recv p s =
     (if dr_open_rx_closed s then s
      else
        (case p of
           RecvReply r \<Rightarrow> s\<lparr> dr_pending := dr_pending s @ [r] \<rparr>
         | RecvClosed \<Rightarrow> s\<lparr> dr_open_rx_closed := True \<rparr>
         | RecvPending \<Rightarrow> s))"

definition drive_outbound :: "OutboundPoll \<Rightarrow> DriveState \<Rightarrow> DriveState" where
  "drive_outbound p s =
     (case dr_pending s of
        [] \<Rightarrow> s
      | reply # pending \<Rightarrow>
          (case p of
             OutStream n \<Rightarrow> s\<lparr> dr_pending := pending, dr_sent := dr_sent s @ [(reply, Inr n)] \<rparr>
           | OutFailed e \<Rightarrow> s\<lparr> dr_pending := pending, dr_sent := dr_sent s @ [(reply, Inl (Yamux e))] \<rparr>
           | OutPending \<Rightarrow> s))"

definition drive_inbound :: "InboundPoll \<Rightarrow> DriveState \<Rightarrow> DriveState" where
  "drive_inbound p s =
     (case p of
        InStream \<Rightarrow> s
      | InPending \<Rightarrow> s
      | _ \<Rightarrow> s\<lparr> dr_pending := [], dr_sent := dr_sent s @ map (\<lambda>r. (r, Inl Closed)) (dr_pending s), dr_finished := True \<rparr>)"

definition drive_round :: "DriveState \<Rightarrow> RecvPoll \<times> OutboundPoll \<times> InboundPoll \<Rightarrow> DriveState" where
  "drive_round s polls =
     (case polls of (r, out, inb) \<Rightarrow>
        if dr_finished s then s else drive_inbound inb (drive_outbound out (drive_recv r s)))"

definition drive :: "(RecvPoll \<times> OutboundPoll \<times> InboundPoll) list \<Rightarrow> DriveState" where
  "drive polls = foldl drive_round drive_start polls"

section \<open>The registry\<close>

datatype RegistryError = OwnedByDifferentIdentity string

type_synonym TunnelHandle = nat

record RegisteredTunnel =
  rt_handle :: TunnelHandle
  rt_allowed_services :: "string list"
  rt_owner_ik :: bytes
  rt_generation :: u64

record RegistryState =
  rs_tunnels :: "(string \<times> RegisteredTunnel) list"
  rs_next_generation :: u64

record TunnelLookup =
  tl_handle :: TunnelHandle
  tl_allowed_services :: "string list"

record RegistrationGuard =
  rg_name :: string
  rg_generation :: u64

definition registry_new :: RegistryState where
  "registry_new = \<lparr> rs_tunnels = [], rs_next_generation = 0 \<rparr>"

definition owned_by_other :: "RegistryState \<Rightarrow> string \<Rightarrow> bytes \<Rightarrow> bool" where
  "owned_by_other state name owner_ik =
     (case map_of (rs_tunnels state) name of None \<Rightarrow> False | Some existing \<Rightarrow> rt_owner_ik existing \<noteq> owner_ik)"

definition register ::
  "Registration \<Rightarrow> bytes \<Rightarrow> TunnelHandle \<Rightarrow> RegistryState \<Rightarrow> (RegistryError + RegistrationGuard) \<times> RegistryState" where
  "register registration owner_ik handle state =
     (if owned_by_other state (reg_name registration) owner_ik then
        (Inl (OwnedByDifferentIdentity (reg_name registration)), state)
      else
        (let generation = rs_next_generation state in
         (Inr \<lparr> rg_name = reg_name registration, rg_generation = generation \<rparr>,
          state\<lparr> rs_next_generation := generation + 1,
                 rs_tunnels := al_insert (reg_name registration)
                   \<lparr> rt_handle = handle, rt_allowed_services = reg_allowed_services registration,
                     rt_owner_ik = owner_ik, rt_generation = generation \<rparr> (rs_tunnels state) \<rparr>)))"

definition lookup :: "string \<Rightarrow> RegistryState \<Rightarrow> TunnelLookup option" where
  "lookup sni_name state =
     map_option (\<lambda>t. \<lparr> tl_handle = rt_handle t, tl_allowed_services = rt_allowed_services t \<rparr>)
       (map_of (rs_tunnels state) (to_ascii_lowercase sni_name))"

definition deregister :: "string \<Rightarrow> u64 \<Rightarrow> RegistryState \<Rightarrow> RegistryState" where
  "deregister name generation state =
     (case map_of (rs_tunnels state) name of
        None \<Rightarrow> state
      | Some existing \<Rightarrow>
          if rt_generation existing = generation then state\<lparr> rs_tunnels := al_remove name (rs_tunnels state) \<rparr>
          else state)"

definition drop_guard :: "RegistrationGuard \<Rightarrow> RegistryState \<Rightarrow> RegistryState" where
  "drop_guard g state = deregister (rg_name g) (rg_generation g) state"

section \<open>Round trip of the frame\<close>

lemma read_exact_append: "n = length b \<Longrightarrow> read_exact n \<lparr> rx_bytes = b @ c, rx_end = e \<rparr> = Inr (b, \<lparr> rx_bytes = c, rx_end = e \<rparr>)"
  by (simp add: read_exact_def)

lemma read_u16_be16: "read_u16 \<lparr> rx_bytes = be16 w @ c, rx_end = e \<rparr> = Inr (w, \<lparr> rx_bytes = c, rx_end = e \<rparr>)"
proof -
  have "of_be16 (be16 w ! 0) (be16 w ! 1) = w" using of_be16_be16 [of w] by (simp add: be16_def)
  then show ?thesis by (simp add: read_u16_def read_exact_append)
qed

text \<open>A string that a \<open>String\<close> can hold and a field can carry.\<close>

definition field_ok :: "string \<Rightarrow> bool" where
  "field_ok x \<longleftrightarrow> from_utf8 (str_bytes x) = Some x \<and> length x \<le> MAX_REGISTRATION_FIELD_BYTES"

lemma read_field:
  assumes "field_ok x"
  shows "read_length_prefixed_string \<lparr> rx_bytes = write_field x @ c, rx_end = e \<rparr> = Inr (x, \<lparr> rx_bytes = c, rx_end = e \<rparr>)"
proof -
  have "length x < 65536" using assms by (simp add: field_ok_def MAX_REGISTRATION_FIELD_BYTES_def)
  then have "unat (of_nat (length x) :: u16) = length x" by (rule unat_of_nat_len)
  then show ?thesis
    using assms by (simp add: read_length_prefixed_string_def write_field_def read_u16_be16 read_exact_append field_ok_def)
qed

lemma read_services_written:
  "list_all field_ok svcs \<Longrightarrow>
   read_services (length svcs) acc \<lparr> rx_bytes = concat (map write_field svcs) @ c, rx_end = e \<rparr>
   = Inr (fold List.insert svcs acc, \<lparr> rx_bytes = c, rx_end = e \<rparr>)"
  by (induction svcs arbitrary: acc) (simp_all add: read_field)

lemma set_fold_insert: "set (fold List.insert xs acc) = set acc \<union> set xs"
  by (induction xs arbitrary: acc) auto

lemma distinct_fold_insert: "distinct acc \<Longrightarrow> distinct (fold List.insert xs acc)"
  by (induction xs arbitrary: acc) auto

definition registration_ok :: "Registration \<Rightarrow> bool" where
  "registration_ok r \<longleftrightarrow> reg_name r \<noteq> [] \<and> field_ok (reg_name r) \<and> list_all field_ok (reg_allowed_services r)
     \<and> distinct (reg_allowed_services r) \<and> length (reg_allowed_services r) \<le> MAX_REGISTRATION_SERVICES"

lemma registration_read_written:
  assumes "registration_ok r"
  shows "read_registration \<lparr> rx_bytes = write_registration r @ c, rx_end = e \<rparr>
    = Inr (\<lparr> reg_name = reg_name r, reg_allowed_services = fold List.insert (reg_allowed_services r) [] \<rparr>,
           \<lparr> rx_bytes = c, rx_end = e \<rparr>)"
proof -
  let ?n = "length (reg_allowed_services r)"
  have "?n < 65536" using assms by (simp add: registration_ok_def MAX_REGISTRATION_SERVICES_def)
  then have "unat (of_nat ?n :: u16) = ?n" by (rule unat_of_nat_len)
  then show ?thesis
    using assms
    by (simp add: read_registration_def write_registration_def read_field read_u16_be16 read_services_written registration_ok_def)
qed

text \<open>Whatever bytes arrive, a registration that is read is within the limits.\<close>

lemma read_field_ok:
  assumes "read_length_prefixed_string s = Inr (x, s')"
  shows "length x \<le> MAX_REGISTRATION_FIELD_BYTES" "field_ok x"
proof -
  from assms obtain len :: u16 and s1 buf s2 where *: "unat len \<le> MAX_REGISTRATION_FIELD_BYTES"
    "read_exact (unat len) s1 = Inr (buf, s2)" "from_utf8 buf = Some x"
    by (auto simp: read_length_prefixed_string_def res_bind_Inr_iff ok_or_Inr_iff map_err_Inr_iff not_less split: if_splits)
  then have "length buf = unat len" by (auto simp: read_exact_def split: if_splits)
  moreover have "str_bytes x = buf" using *(3) by (auto simp: from_utf8_def split: if_splits)
  ultimately show "field_ok x" using * by (simp add: field_ok_def flip: length_str_bytes)
  then show "length x \<le> MAX_REGISTRATION_FIELD_BYTES" by (simp add: field_ok_def)
qed

lemma read_services_ok:
  "read_services n acc s = Inr (svcs, s') \<Longrightarrow> list_all field_ok acc \<Longrightarrow> distinct acc \<Longrightarrow>
   list_all field_ok svcs \<and> distinct svcs \<and> length svcs \<le> length acc + n"
proof (induction n acc s rule: read_services.induct)
  case (2 n acc s)
  from 2(2) obtain svc s1 where f: "read_length_prefixed_string s = Inr (svc, s1)"
    and r: "read_services n (List.insert svc acc) s1 = Inr (svcs, s')" by (auto simp: res_bind_Inr_iff)
  have "list_all field_ok (List.insert svc acc)" using 2(3) read_field_ok(2) [OF f] by (simp add: List.insert_def)
  moreover have "length (List.insert svc acc) \<le> Suc (length acc)" by (simp add: List.insert_def)
  ultimately show ?case using 2(1) [where x = svc and xa = s1] r 2(4) by fastforce
qed auto

lemma read_registration_ok: "read_registration s = Inr (r, s') \<Longrightarrow> registration_ok r"
proof -
  assume "read_registration s = Inr (r, s')"
  then obtain s1 s2 and c :: u16 where n: "read_length_prefixed_string s = Inr (reg_name r, s1)" "reg_name r \<noteq> []"
    "unat c \<le> MAX_REGISTRATION_SERVICES" "read_services (unat c) [] s2 = Inr (reg_allowed_services r, s')"
    by (auto simp: read_registration_def res_bind_Inr_iff not_less split: if_splits)
  from read_services_ok [OF n(4)] read_field_ok(2) [OF n(1)] n(2,3) show ?thesis
    by (simp add: registration_ok_def)
qed

section \<open>The driver answers every request, in order\<close>

definition inbound_over :: "InboundPoll \<Rightarrow> bool" where
  "inbound_over i \<longleftrightarrow> i = InFailed \<or> i = InEnded"

text \<open>The requests the driver takes: those received until the channel closes or the connection is over.\<close>

fun requests :: "(RecvPoll \<times> OutboundPoll \<times> InboundPoll) list \<Rightarrow> nat list" where
  "requests [] = []"
| "requests ((r, out, inb) # ps) =
     (case r of
        RecvReply q \<Rightarrow> q # (if inbound_over inb then [] else requests ps)
      | RecvClosed \<Rightarrow> []
      | RecvPending \<Rightarrow> if inbound_over inb then [] else requests ps)"

lemma drive_round_finished: "dr_finished s \<Longrightarrow> foldl drive_round s ps = s"
  by (induction ps) (auto simp: drive_round_def)

lemma drive_outbound_keeps [simp]:
  "map fst (dr_sent (drive_outbound out s)) @ dr_pending (drive_outbound out s) = map fst (dr_sent s) @ dr_pending s"
  "dr_open_rx_closed (drive_outbound out s) = dr_open_rx_closed s"
  "dr_finished (drive_outbound out s) = dr_finished s"
  by (simp_all add: drive_outbound_def split: list.splits OutboundPoll.splits)

lemma drive_inbound_keeps [simp]:
  "map fst (dr_sent (drive_inbound i s)) @ dr_pending (drive_inbound i s) = map fst (dr_sent s) @ dr_pending s"
  "dr_open_rx_closed (drive_inbound i s) = dr_open_rx_closed s"
  "dr_finished (drive_inbound i s) \<longleftrightarrow> dr_finished s \<or> inbound_over i"
  "inbound_over i \<Longrightarrow> dr_pending (drive_inbound i s) = []"
  by (auto simp: drive_inbound_def inbound_over_def comp_def split: InboundPoll.splits)

lemma drive_recv_effect:
  "map fst (dr_sent (drive_recv r s)) @ dr_pending (drive_recv r s)
     = map fst (dr_sent s) @ dr_pending s @ (if dr_open_rx_closed s then [] else case r of RecvReply q \<Rightarrow> [q] | _ \<Rightarrow> [])"
  "dr_open_rx_closed (drive_recv r s) \<longleftrightarrow> dr_open_rx_closed s \<or> r = RecvClosed"
  "dr_finished (drive_recv r s) = dr_finished s"
  by (simp_all add: drive_recv_def split: RecvPoll.splits)

lemma drive_rounds:
  "\<not> dr_finished s \<Longrightarrow>
   map fst (dr_sent (foldl drive_round s ps)) @ dr_pending (foldl drive_round s ps)
     = map fst (dr_sent s) @ dr_pending s @ (if dr_open_rx_closed s then [] else requests ps)
   \<and> (list_ex (\<lambda>(_, _, i). inbound_over i) ps \<longrightarrow> dr_pending (foldl drive_round s ps) = [])"
proof (induction ps arbitrary: s)
  case (Cons p ps)
  obtain r out inb where p: "p = (r, out, inb)" by (cases p)
  let ?s = "drive_round s p"
  have s: "?s = drive_inbound inb (drive_outbound out (drive_recv r s))" using Cons.prems by (simp add: drive_round_def p)
  have k: "map fst (dr_sent ?s) @ dr_pending ?s
      = map fst (dr_sent s) @ dr_pending s @ (if dr_open_rx_closed s then [] else case r of RecvReply q \<Rightarrow> [q] | _ \<Rightarrow> [])"
    "dr_open_rx_closed ?s \<longleftrightarrow> dr_open_rx_closed s \<or> r = RecvClosed" "dr_finished ?s \<longleftrightarrow> inbound_over inb"
    using Cons.prems by (simp_all add: s drive_recv_effect)
  show ?case
  proof (cases "inbound_over inb")
    case True
    then have "foldl drive_round s (p # ps) = ?s" "dr_pending ?s = []" using drive_round_finished [of ?s] k(3) by (simp_all add: s)
    then show ?thesis using k(1) True by (auto simp: p split: RecvPoll.splits)
  next
    case False
    then show ?thesis using Cons.IH [of ?s] k by (auto simp: p split: RecvPoll.splits)
  qed
qed simp

text \<open>
  The driver of a tunnel answers the requests for streams in the order it took them, each once:
  the answers sent so far followed by the requests still waiting are exactly the requests it took from
  the channel. Once the connection is over none is left waiting.
\<close>

lemma drive_answers_in_order:
  "map fst (dr_sent (drive polls)) @ dr_pending (drive polls) = requests polls
   \<and> (list_ex (\<lambda>(_, _, i). inbound_over i) polls \<longrightarrow> dr_pending (drive polls) = [])"
  using drive_rounds [of drive_start polls] by (simp add: drive_def drive_start_def)

lemma drive_answers_in_order_witness:
  "map fst (dr_sent (drive [(RecvReply 7, OutPending, InPending), (RecvReply 8, OutStream 1, InStream), (RecvPending, OutPending, InEnded)])) = [7, 8]
   \<and> dr_pending (drive [(RecvReply 7, OutPending, InPending), (RecvReply 8, OutStream 1, InStream), (RecvPending, OutPending, InEnded)]) = []"
  using drive_answers_in_order [of "[(RecvReply 7, OutPending, InPending), (RecvReply 8, OutStream 1, InStream), (RecvPending, OutPending, InEnded)]"]
  by (auto simp: inbound_over_def)

section \<open>The registry has one writer per name\<close>

datatype RegistryCmd = RegisterCmd Registration bytes TunnelHandle | DropCmd RegistrationGuard

definition registry_step :: "RegistryState \<Rightarrow> RegistryCmd \<Rightarrow> RegistryState" where
  "registry_step s c =
     (case c of RegisterCmd r ik h \<Rightarrow> snd (register r ik h s) | DropCmd g \<Rightarrow> drop_guard g s)"

text \<open>The name is held by the owner, in a generation that was issued and is no older than the given one.\<close>

definition held_by :: "string \<Rightarrow> bytes \<Rightarrow> u64 \<Rightarrow> RegistryState \<Rightarrow> bool" where
  "held_by name ik gen s \<longleftrightarrow>
     (case map_of (rs_tunnels s) name of
        None \<Rightarrow> False
      | Some t \<Rightarrow> rt_owner_ik t = ik \<and> gen \<le> rt_generation t \<and> rt_generation t < rs_next_generation s)"

definition stale_or_other :: "string \<Rightarrow> u64 \<Rightarrow> RegistryCmd \<Rightarrow> bool" where
  "stale_or_other name gen c =
     (case c of RegisterCmd _ _ _ \<Rightarrow> True | DropCmd g \<Rightarrow> rg_name g \<noteq> name \<or> rg_generation g < gen)"

lemma unat_Suc_below: "unat (w :: u64) + 1 < 2 ^ 64 \<Longrightarrow> unat (w + 1) = unat w + 1"
  by (simp add: unat_word_ariths)

lemma register_cases:
  "register r ik h s = (res, s') \<Longrightarrow>
   (owned_by_other s (reg_name r) ik \<and> res = Inl (OwnedByDifferentIdentity (reg_name r)) \<and> s' = s)
   \<or> (\<not> owned_by_other s (reg_name r) ik \<and> res = Inr \<lparr> rg_name = reg_name r, rg_generation = rs_next_generation s \<rparr>
      \<and> rs_next_generation s' = rs_next_generation s + 1
      \<and> map_of (rs_tunnels s') = (map_of (rs_tunnels s))(reg_name r \<mapsto>
          \<lparr> rt_handle = h, rt_allowed_services = reg_allowed_services r, rt_owner_ik = ik, rt_generation = rs_next_generation s \<rparr>))"
  by (auto simp: register_def Let_def split: if_splits)

lemma held_by_register:
  assumes "held_by name ik gen s" "unat (rs_next_generation s) + 1 < 2 ^ 64"
  shows "held_by name ik gen (snd (register r ik' h s)) \<and> unat (rs_next_generation (snd (register r ik' h s))) \<le> unat (rs_next_generation s) + 1"
proof -
  obtain res s' where r: "register r ik' h s = (res, s')" by fastforce
  note n = unat_Suc_below [OF assms(2)]
  obtain t where t: "map_of (rs_tunnels s) name = Some t" "rt_owner_ik t = ik" "gen \<le> rt_generation t" "rt_generation t < rs_next_generation s"
    using assms(1) by (auto simp: held_by_def split: option.splits)
  have "rt_generation t < rs_next_generation s + 1" "rs_next_generation s < rs_next_generation s + 1" "gen \<le> rs_next_generation s"
    using t(3,4) n by (simp_all add: word_less_nat_alt word_le_nat_alt)
  then show ?thesis
    using register_cases [OF r] t n by (auto simp: r held_by_def owned_by_other_def)
qed

lemma held_by_drop:
  assumes "held_by name ik gen s" "rg_name g \<noteq> name \<or> rg_generation g < gen"
  shows "held_by name ik gen (drop_guard g s)" "rs_next_generation (drop_guard g s) = rs_next_generation s"
  using assms by (auto simp: held_by_def drop_guard_def deregister_def split: option.splits if_splits)

lemma held_by_run:
  "held_by name ik gen s \<Longrightarrow> unat (rs_next_generation s) + length cmds < 2 ^ 64 \<Longrightarrow> list_all (stale_or_other name gen) cmds \<Longrightarrow>
   held_by name ik gen (foldl registry_step s cmds)"
proof (induction cmds arbitrary: s)
  case (Cons c cmds)
  have "held_by name ik gen (registry_step s c) \<and> unat (rs_next_generation (registry_step s c)) \<le> unat (rs_next_generation s) + 1"
  proof (cases c)
    case (RegisterCmd r ik' h)
    then show ?thesis using held_by_register [OF Cons.prems(1)] Cons.prems(2) by (simp add: registry_step_def)
  next
    case (DropCmd g)
    then show ?thesis using held_by_drop [OF Cons.prems(1)] Cons.prems(3) by (simp add: registry_step_def stale_or_other_def)
  qed
  then show ?case using Cons.IH [of "registry_step s c"] Cons.prems(2,3) by simp
qed simp

text \<open>
  (C26) A name belongs to the identity that registered it. After a successful registration, whatever
  registrations of any identity follow and whatever guards are dropped, other than those of this or a
  later registration of the name, the name is held by the same identity, and every other identity that
  tries to register it is refused and changes nothing. The generation counter must not overflow.
\<close>

theorem owner_keeps_name:
  assumes "register r ik h s = (Inr g, s')" "unat (rs_next_generation s) + length cmds + 1 < 2 ^ 64"
    and "list_all (stale_or_other (reg_name r) (rg_generation g)) cmds"
    and "reg_name r' = reg_name r" "ik' \<noteq> ik"
  shows "held_by (reg_name r) ik (rg_generation g) (foldl registry_step s' cmds)
    \<and> register r' ik' h' (foldl registry_step s' cmds)
      = (Inl (OwnedByDifferentIdentity (reg_name r)), foldl registry_step s' cmds)"
proof -
  have u: "unat (rs_next_generation s + 1) = unat (rs_next_generation s) + 1" using assms(2) by (intro unat_Suc_below) simp
  then have "rs_next_generation s < rs_next_generation s + 1" by (simp add: word_less_nat_alt)
  then have "held_by (reg_name r) ik (rg_generation g) s'"
    using register_cases [OF assms(1)] by (auto simp: held_by_def)
  moreover have "unat (rs_next_generation s') + length cmds < 2 ^ 64"
    using register_cases [OF assms(1)] u assms(2) by auto
  ultimately have h: "held_by (reg_name r) ik (rg_generation g) (foldl registry_step s' cmds)"
    using assms(3) by (intro held_by_run)
  then have "owned_by_other (foldl registry_step s' cmds) (reg_name r) ik'"
    using assms(5) by (auto simp: held_by_def owned_by_other_def split: option.splits)
  with h show ?thesis by (simp add: register_def assms(4))
qed

definition sample_reg :: Registration where
  "sample_reg = \<lparr> reg_name = ''a.b'', reg_allowed_services = [''443''] \<rparr>"

theorem owner_keeps_name_witness:
  "register sample_reg [9] 5 (foldl registry_step (snd (register sample_reg [1] 3 registry_new))
     [RegisterCmd sample_reg [1] 4, DropCmd \<lparr> rg_name = ''c'', rg_generation = 0 \<rparr>])
   = (Inl (OwnedByDifferentIdentity ''a.b''), foldl registry_step (snd (register sample_reg [1] 3 registry_new))
     [RegisterCmd sample_reg [1] 4, DropCmd \<lparr> rg_name = ''c'', rg_generation = 0 \<rparr>])"
proof -
  let ?cs = "[RegisterCmd sample_reg [1] 4, DropCmd \<lparr> rg_name = ''c'', rg_generation = 0 \<rparr>]"
  let ?s' = "snd (register sample_reg [1] 3 registry_new)"
  have "register sample_reg [1] 3 registry_new = (Inr \<lparr> rg_name = ''a.b'', rg_generation = 0 \<rparr>, ?s')"
    by (simp add: register_def registry_new_def owned_by_other_def sample_reg_def)
  from owner_keeps_name [OF this, where cmds = ?cs and r' = sample_reg and ik' = "[9]" and h' = 5]
  show ?thesis by (simp add: stale_or_other_def sample_reg_def registry_new_def)
qed

section \<open>What a lookup finds\<close>

text \<open>
  A registration under a name without capitals is found by every spelling of the name, with the
  tunnel and the services that were registered, and only the latest one; dropping its guard removes it.
\<close>

lemma registered_name_found:
  assumes "register r ik h s = (Inr g, s')" "to_ascii_lowercase sni = reg_name r"
  shows "lookup sni s' = Some \<lparr> tl_handle = h, tl_allowed_services = reg_allowed_services r \<rparr>
    \<and> lookup sni (drop_guard g s') = None
    \<and> (\<forall>other. to_ascii_lowercase other \<noteq> reg_name r \<longrightarrow> lookup other s' = lookup other s)"
  using register_cases [OF assms(1)] assms(2)
  by (auto simp: lookup_def drop_guard_def deregister_def)

lemma registered_name_found_witness:
  "lookup ''A.b'' (snd (register sample_reg [1] 3 registry_new)) = Some \<lparr> tl_handle = 3, tl_allowed_services = [''443''] \<rparr>"
proof -
  let ?s' = "snd (register sample_reg [1] 3 registry_new)"
  have "register sample_reg [1] 3 registry_new = (Inr \<lparr> rg_name = ''a.b'', rg_generation = 0 \<rparr>, ?s')"
    by (simp add: register_def registry_new_def owned_by_other_def sample_reg_def)
  from registered_name_found [OF this, of "''A.b''"]
  show ?thesis by (simp add: sample_reg_def to_ascii_lowercase_def to_lower_char_def is_ascii_uppercase_def char_of_eq_iff)
qed

lemma to_lower_char_not_upper: "\<not> is_ascii_uppercase (to_lower_char c)"
proof (cases "is_ascii_uppercase c")
  case True
  then have "of_char c + 32 < (256 :: nat)" by (simp add: is_ascii_uppercase_def)
  then have "of_char (char_of (of_char c + 32 :: nat)) = (of_char c + 32 :: nat)" by (simp add: of_char_of)
  then show ?thesis using True by (simp add: to_lower_char_def is_ascii_uppercase_def)
qed (simp add: to_lower_char_def)

text \<open>
  A name with a capital letter can be registered and is then held, but no lookup finds it: the
  registry keeps the name as the box wrote it and folds the case of the name that is looked up. Every
  lookup answers as it did before the registration.
\<close>

lemma capital_name_unreachable:
  assumes "register r ik h s = (Inr g, s')" "list_ex is_ascii_uppercase (reg_name r)"
  shows "lookup sni s' = lookup sni s"
proof -
  have "to_ascii_lowercase sni \<noteq> reg_name r"
  proof
    assume "to_ascii_lowercase sni = reg_name r"
    then have "list_ex is_ascii_uppercase (map to_lower_char sni)" using assms(2) by (simp add: to_ascii_lowercase_def)
    then show False by (auto simp: list_ex_iff to_lower_char_not_upper)
  qed
  then show ?thesis using register_cases [OF assms(1)] by (auto simp: lookup_def)
qed

lemma capital_name_unreachable_witness:
  "lookup ''Box.example'' (snd (register \<lparr> reg_name = ''Box.example'', reg_allowed_services = [''443''] \<rparr> [1] 3 registry_new)) = None"
proof -
  let ?r = "\<lparr> reg_name = ''Box.example'', reg_allowed_services = [''443''] \<rparr>"
  let ?s' = "snd (register ?r [1] 3 registry_new)"
  have "register ?r [1] 3 registry_new = (Inr \<lparr> rg_name = ''Box.example'', rg_generation = 0 \<rparr>, ?s')"
    by (simp add: register_def registry_new_def owned_by_other_def)
  from capital_name_unreachable [OF this, of "''Box.example''"]
  show ?thesis by (simp add: is_ascii_uppercase_def lookup_def registry_new_def)
qed

end
