(* ===== verification/Reach_Ingress.thy ===== *)
theory Reach_Ingress
  imports Reach_Tunnel Kotva
begin

text \<open>
  The two ends of the reachability adapter: the handshake that authenticates a box on its control
  connection (\<open>crates/pier-reachability-adapter/src/auth.rs\<close>) and the public listener that forwards
  connections by their server name (\<open>ingress.rs\<close>). The random nonce, the number of a new tunnel task and
  the error of a write that fails are arguments. The handshake waits for the box between issuing a nonce
  and consuming it; what other connections do to the shared nonces meanwhile is an argument too.
\<close>

section \<open>The handshake\<close>

definition TUNNEL_AUTH_DS :: bytes where "TUNNEL_AUTH_DS = str_bytes ''PIER-REACH-v0/tunnel-auth'' @ [0]"
definition IK_LEN :: nat where "IK_LEN = 32"
definition NONCE_LEN :: nat where "NONCE_LEN = 32"
definition SIG_LEN :: nat where "SIG_LEN = 64"
definition MAX_PENDING_NONCES :: nat where "MAX_PENDING_NONCES = 10000"

datatype AuthError =
    AuthIo string
  | AuthMalformed string
  | AuthRegistration TunnelError
  | NonceReplayed
  | BadSignature

record AuthAnnounce =
  aa_claimed_ik :: bytes
  aa_registration :: Registration

record AuthenticatedRegistration =
  ar_registration :: Registration
  ar_authenticated_ik :: bytes

definition signing_preimage :: "bytes \<Rightarrow> string \<Rightarrow> bytes" where
  "signing_preimage nonce name = nonce @ str_bytes name"

definition read_fixed :: "nat \<Rightarrow> TcpRead \<Rightarrow> string + bytes \<times> TcpRead" where
  "read_fixed n s = read_exact n s"

definition read_announce :: "TcpRead \<Rightarrow> AuthError + AuthAnnounce \<times> TcpRead" where
  "read_announce s =
     res_bind (map_err AuthIo (read_fixed IK_LEN s)) (\<lambda>(claimed_ik, s).
     res_bind (map_err AuthRegistration (read_registration s)) (\<lambda>(registration, s).
     Inr (\<lparr> aa_claimed_ik = claimed_ik, aa_registration = registration \<rparr>, s)))"

text \<open>A write gives the bytes on the wire, or the error it fails with.\<close>

definition write_all :: "string option \<Rightarrow> bytes \<Rightarrow> AuthError + bytes" where
  "write_all werr b = (case werr of Some e \<Rightarrow> Inl (AuthIo e) | None \<Rightarrow> Inr b)"

definition write_announce :: "string option \<Rightarrow> AuthAnnounce \<Rightarrow> AuthError + bytes" where
  "write_announce werr announce = write_all werr (aa_claimed_ik announce @ write_registration (aa_registration announce))"

definition read_challenge :: "TcpRead \<Rightarrow> AuthError + bytes \<times> TcpRead" where
  "read_challenge s = map_err AuthIo (read_fixed NONCE_LEN s)"

definition write_challenge :: "string option \<Rightarrow> bytes \<Rightarrow> AuthError + bytes" where
  "write_challenge werr nonce = write_all werr nonce"

definition read_response :: "TcpRead \<Rightarrow> AuthError + bytes \<times> TcpRead" where
  "read_response s = map_err AuthIo (read_fixed SIG_LEN s)"

definition write_response :: "string option \<Rightarrow> bytes \<Rightarrow> AuthError + bytes" where
  "write_response werr sig = write_all werr sig"

record NonceState =
  ns_pending :: "bytes set"
  ns_order :: "bytes list"

definition nonces_new :: NonceState where
  "nonces_new = \<lparr> ns_pending = {}, ns_order = [] \<rparr>"

definition issue :: "bytes \<Rightarrow> NonceState \<Rightarrow> bytes \<times> NonceState" where
  "issue nonce state =
     (let state =
        (if length (ns_order state) \<ge> MAX_PENDING_NONCES then
           (case ns_order state of
              [] \<Rightarrow> state
            | oldest # order \<Rightarrow> \<lparr> ns_pending = ns_pending state - {oldest}, ns_order = order \<rparr>)
         else state)
      in (nonce, \<lparr> ns_pending = insert nonce (ns_pending state), ns_order = ns_order state @ [nonce] \<rparr>))"

definition consume :: "bytes \<Rightarrow> NonceState \<Rightarrow> bool \<times> NonceState" where
  "consume nonce state = (nonce \<in> ns_pending state, state\<lparr> ns_pending := ns_pending state - {nonce} \<rparr>)"

datatype NonceCmd = Issue bytes | Consume bytes

definition nonce_step :: "NonceState \<Rightarrow> NonceCmd \<Rightarrow> NonceState" where
  "nonce_step s c = (case c of Issue n \<Rightarrow> snd (issue n s) | Consume n \<Rightarrow> snd (consume n s))"

text \<open>
  \<open>authenticate_box_connection\<close> up to the wait for the response, and from the response on.
\<close>

definition auth_begin ::
  "bytes \<Rightarrow> string option \<Rightarrow> TcpRead \<Rightarrow> NonceState \<Rightarrow> (AuthError + AuthAnnounce \<times> bytes \<times> TcpRead) \<times> NonceState" where
  "auth_begin random werr stream nonces =
     (case read_announce stream of
        Inl e \<Rightarrow> (Inl e, nonces)
      | Inr (announce, stream) \<Rightarrow>
          (case issue random nonces of (nonce, nonces) \<Rightarrow>
             (case write_challenge werr nonce of
                Inl e \<Rightarrow> (Inl e, nonces)
              | Inr _ \<Rightarrow> (Inr (announce, nonce, stream), nonces))))"

definition auth_finish ::
  "('cv, 'f, 'ce, 'ik, 'ie) kotva \<Rightarrow> AuthAnnounce \<Rightarrow> bytes \<Rightarrow> TcpRead \<Rightarrow> NonceState
   \<Rightarrow> (AuthError + AuthenticatedRegistration) \<times> NonceState" where
  "auth_finish K announce nonce stream nonces =
     (case read_response stream of
        Inl e \<Rightarrow> (Inl e, nonces)
      | Inr (sig, _) \<Rightarrow>
          (case consume nonce nonces of (live, nonces) \<Rightarrow>
             if \<not> live then (Inl NonceReplayed, nonces)
             else
               (case verify_domain K (aa_claimed_ik announce) TUNNEL_AUTH_DS
                       (signing_preimage nonce (reg_name (aa_registration announce))) sig of
                  Inl _ \<Rightarrow> (Inl BadSignature, nonces)
                | Inr _ \<Rightarrow>
                    (Inr \<lparr> ar_registration = aa_registration announce, ar_authenticated_ik = aa_claimed_ik announce \<rparr>, nonces))))"

definition authenticate_box_connection ::
  "('cv, 'f, 'ce, 'ik, 'ie) kotva \<Rightarrow> bytes \<Rightarrow> string option \<Rightarrow> NonceCmd list \<Rightarrow> TcpRead \<Rightarrow> NonceState
   \<Rightarrow> (AuthError + AuthenticatedRegistration) \<times> NonceState" where
  "authenticate_box_connection K random werr others stream nonces =
     (case auth_begin random werr stream nonces of
        (Inl e, nonces) \<Rightarrow> (Inl e, nonces)
      | (Inr (announce, nonce, stream), nonces) \<Rightarrow> auth_finish K announce nonce stream (foldl nonce_step nonces others))"

text \<open>The box's side: its result and what it wrote.\<close>

definition authenticate_as_box ::
  "('cv, 'f, 'ce, 'ik, 'ie) kotva \<Rightarrow> 'ik \<Rightarrow> Registration \<Rightarrow> string option \<Rightarrow> string option \<Rightarrow> TcpRead
   \<Rightarrow> (AuthError + unit) \<times> bytes" where
  "authenticate_as_box K ik registration werr1 werr2 stream =
     (case write_announce werr1 \<lparr> aa_claimed_ik = ik_public K ik, aa_registration = registration \<rparr> of
        Inl e \<Rightarrow> (Inl e, [])
      | Inr out \<Rightarrow>
          (case read_challenge stream of
             Inl e \<Rightarrow> (Inl e, out)
           | Inr (nonce, _) \<Rightarrow>
               (let sig = sign_domain K ik TUNNEL_AUTH_DS (signing_preimage nonce (reg_name registration)) in
                if length sig \<noteq> SIG_LEN then (Inl (AuthMalformed ''IK signature was not 64 bytes''), out)
                else
                  (case write_response werr2 sig of
                     Inl e \<Rightarrow> (Inl e, out)
                   | Inr b \<Rightarrow> (Inr (), out @ b)))))"

section \<open>The adapter\<close>

datatype IngressError =
    IngressSni SniError
  | UnregisteredName string
  | ServiceNotAllowed string string
  | IngressTunnel TunnelError

datatype TunnelAcceptError =
    AcceptAuth AuthError
  | AcceptTunnel TunnelError
  | AcceptRegistry RegistryError

record AdapterServer =
  as_registry :: RegistryState
  as_nonces :: NonceState

definition adapter_new :: AdapterServer where
  "adapter_new = \<lparr> as_registry = registry_new, as_nonces = nonces_new \<rparr>"

text \<open>
  \<open>accept_box_connection\<close> from the response on: the guard goes to the task that waits for the tunnel
  to end.
\<close>

definition accept_finish ::
  "('cv, 'f, 'ce, 'ik, 'ie) kotva \<Rightarrow> AuthAnnounce \<Rightarrow> bytes \<Rightarrow> TcpRead \<Rightarrow> TunnelHandle \<Rightarrow> AdapterServer
   \<Rightarrow> (TunnelAcceptError + RegistrationGuard) \<times> AdapterServer" where
  "accept_finish K announce nonce stream handle server =
     (case auth_finish K announce nonce stream (as_nonces server) of
        (Inl e, nonces) \<Rightarrow> (Inl (AcceptAuth e), server\<lparr> as_nonces := nonces \<rparr>)
      | (Inr authed, nonces) \<Rightarrow>
          (case register (ar_registration authed) (ar_authenticated_ik authed) handle (as_registry server) of
             (Inl e, registry) \<Rightarrow> (Inl (AcceptRegistry e), \<lparr> as_registry = registry, as_nonces = nonces \<rparr>)
           | (Inr guard, registry) \<Rightarrow> (Inr guard, \<lparr> as_registry = registry, as_nonces = nonces \<rparr>)))"

definition accept_box_connection ::
  "('cv, 'f, 'ce, 'ik, 'ie) kotva \<Rightarrow> bytes \<Rightarrow> string option \<Rightarrow> NonceCmd list \<Rightarrow> TunnelHandle \<Rightarrow> TcpRead \<Rightarrow> AdapterServer
   \<Rightarrow> (TunnelAcceptError + RegistrationGuard) \<times> AdapterServer" where
  "accept_box_connection K random werr others handle socket server =
     (case auth_begin random werr socket (as_nonces server) of
        (Inl e, nonces) \<Rightarrow> (Inl (AcceptAuth e), server\<lparr> as_nonces := nonces \<rparr>)
      | (Inr (announce, nonce, stream), nonces) \<Rightarrow>
          accept_finish K announce nonce stream handle (server\<lparr> as_nonces := foldl nonce_step nonces others \<rparr>))"

definition service_allowed :: "string list \<Rightarrow> string \<Rightarrow> bool" where
  "service_allowed allowed_services service_id = (service_id \<in> set allowed_services)"

text \<open>
  What an ingress connection does: resets the client, sends bytes to a tunnel, or starts to copy both
  ways. A stream opens or fails, by the handle; the write of the replay may fail after some bytes.
\<close>

datatype IngressEffect = FailClosed | ForwardTo TunnelHandle bytes | Splice TunnelHandle

definition handle_ingress_connection ::
  "string \<Rightarrow> ReadChunk list \<Rightarrow> (TunnelHandle \<Rightarrow> TunnelError option) \<Rightarrow> (nat \<times> string) option \<Rightarrow> RegistryState
   \<Rightarrow> (IngressError + unit) \<times> IngressEffect list" where
  "handle_ingress_connection service_id socket open_fails write_fails registry =
     (case peek_client_hello socket of
        (Inl e, _) \<Rightarrow> (Inl (IngressSni e), [FailClosed])
      | (Inr peek, _) \<Rightarrow>
          (case lookup (hp_server_name peek) registry of
             None \<Rightarrow> (Inl (UnregisteredName (hp_server_name peek)), [FailClosed])
           | Some l \<Rightarrow>
               if \<not> service_allowed (tl_allowed_services l) service_id then
                 (Inl (ServiceNotAllowed (hp_server_name peek) service_id), [FailClosed])
               else
                 (case open_fails (tl_handle l) of
                    Some e \<Rightarrow> (Inl (IngressTunnel e), [FailClosed])
                  | None \<Rightarrow>
                      (case write_fails of
                         Some (n, e) \<Rightarrow>
                           (Inl (IngressTunnel (TunnelIo e)), [ForwardTo (tl_handle l) (take n (hp_raw peek)), FailClosed])
                       | None \<Rightarrow> (Inr (), [ForwardTo (tl_handle l) (hp_raw peek), Splice (tl_handle l)])))))"

text \<open>
  The server at work: connections between their announcement and their response are in flight, and
  everything of one connection interleaves with everything of the others. A tunnel that ends drops its
  guard.
\<close>

datatype AdapterEvent =
    Connect nat TcpRead bytes "string option"
  | Respond nat TunnelHandle
  | TunnelEnded RegistrationGuard

record AdapterRun =
  run_server :: AdapterServer
  run_in_flight :: "(nat \<times> AuthAnnounce \<times> bytes \<times> TcpRead) list"

definition run_new :: AdapterRun where
  "run_new = \<lparr> run_server = adapter_new, run_in_flight = [] \<rparr>"

definition adapter_step :: "('cv, 'f, 'ce, 'ik, 'ie) kotva \<Rightarrow> AdapterRun \<Rightarrow> AdapterEvent \<Rightarrow> AdapterRun" where
  "adapter_step K run ev =
     (case ev of
        Connect c socket random werr \<Rightarrow>
          (case auth_begin random werr socket (as_nonces (run_server run)) of (res, nonces) \<Rightarrow>
             (let run = run\<lparr> run_server := (run_server run)\<lparr> as_nonces := nonces \<rparr> \<rparr> in
              case res of Inl _ \<Rightarrow> run | Inr waiting \<Rightarrow> run\<lparr> run_in_flight := al_insert c waiting (run_in_flight run) \<rparr>))
      | Respond c handle \<Rightarrow>
          (case map_of (run_in_flight run) c of
             None \<Rightarrow> run
           | Some (announce, nonce, stream) \<Rightarrow>
               run\<lparr> run_server := snd (accept_finish K announce nonce stream handle (run_server run)),
                    run_in_flight := al_remove c (run_in_flight run) \<rparr>)
      | TunnelEnded guard \<Rightarrow>
          run\<lparr> run_server := (run_server run)\<lparr> as_registry := drop_guard guard (as_registry (run_server run)) \<rparr> \<rparr>)"

section \<open>A nonce is good for one response\<close>

definition nonce_inv :: "NonceState \<Rightarrow> bool" where
  "nonce_inv s \<longleftrightarrow> ns_pending s \<subseteq> set (ns_order s) \<and> length (ns_order s) \<le> MAX_PENDING_NONCES"

lemma nonce_step_inv: "nonce_inv s \<Longrightarrow> nonce_inv (nonce_step s c)"
  by (cases "ns_order s")
    (auto simp: nonce_step_def nonce_inv_def issue_def consume_def MAX_PENDING_NONCES_def Let_def split: NonceCmd.splits)

interpretation nonces: invariant_machine nonce_step nonce_inv
  by unfold_locales (rule nonce_step_inv)

lemma nonce_gone_stays:
  "n \<notin> ns_pending s \<Longrightarrow> Issue n \<notin> set cmds \<Longrightarrow> n \<notin> ns_pending (foldl nonce_step s cmds)"
proof (induction cmds arbitrary: s)
  case (Cons c cmds)
  then have "n \<notin> ns_pending (nonce_step s c)"
    by (auto simp: nonce_step_def issue_def consume_def Let_def split: NonceCmd.splits list.splits)
  with Cons show ?case by simp
qed simp

text \<open>While fewer than the limit are issued after it, a nonce stays: only what was issued before it is evicted.\<close>

definition nonce_waits :: "bytes \<Rightarrow> nat \<Rightarrow> NonceState \<Rightarrow> bool" where
  "nonce_waits n k s \<longleftrightarrow> n \<in> ns_pending s \<and> length (ns_order s) \<le> MAX_PENDING_NONCES
     \<and> (\<exists>pre post. ns_order s = pre @ n # post \<and> n \<notin> set pre \<and> length post = k)"

lemma nonce_waitsI:
  "ns_order s = pre @ n # post \<Longrightarrow> n \<notin> set pre \<Longrightarrow> length post = k \<Longrightarrow> n \<in> ns_pending s \<Longrightarrow>
   length (ns_order s) \<le> MAX_PENDING_NONCES \<Longrightarrow> nonce_waits n k s"
  unfolding nonce_waits_def by blast

lemma nonce_waits_issue:
  assumes "nonce_waits n k s" "m \<noteq> n" "k + 1 < MAX_PENDING_NONCES"
  shows "nonce_waits n (k + 1) (snd (issue m s))"
proof -
  obtain pre post where o: "ns_order s = pre @ n # post" "n \<notin> set pre" "length post = k" and p: "n \<in> ns_pending s"
    and l: "length (ns_order s) \<le> MAX_PENDING_NONCES"
    using assms(1) by (auto simp: nonce_waits_def)
  show ?thesis
  proof (cases "length (ns_order s) \<ge> MAX_PENDING_NONCES")
    case True
    then obtain x pre' where x: "pre = x # pre'" using o assms(3) by (cases pre) auto
    then have "ns_order (snd (issue m s)) = pre' @ n # (post @ [m])" "n \<in> ns_pending (snd (issue m s))"
      using True o p by (auto simp: issue_def)
    then show ?thesis
      using o x l by (intro nonce_waitsI [where pre = pre' and post = "post @ [m]"]) simp_all
  next
    case False
    then have "ns_order (snd (issue m s)) = pre @ n # (post @ [m])" "n \<in> ns_pending (snd (issue m s))"
      using o p by (auto simp: issue_def)
    then show ?thesis using o False by (intro nonce_waitsI [where pre = pre and post = "post @ [m]"]) simp_all
  qed
qed

definition leaves_alone :: "bytes \<Rightarrow> NonceCmd \<Rightarrow> bool" where
  "leaves_alone n c = (case c of Issue m \<Rightarrow> m \<noteq> n | Consume m \<Rightarrow> m \<noteq> n)"

definition issues :: "NonceCmd list \<Rightarrow> nat" where
  "issues cmds = length (filter (\<lambda>c. case c of Issue _ \<Rightarrow> True | Consume _ \<Rightarrow> False) cmds)"

lemma nonce_waits_run:
  "nonce_waits n k s \<Longrightarrow> list_all (leaves_alone n) cmds \<Longrightarrow> k + issues cmds < MAX_PENDING_NONCES \<Longrightarrow>
   nonce_waits n (k + issues cmds) (foldl nonce_step s cmds)"
proof (induction cmds arbitrary: s k)
  case (Cons c cmds)
  show ?case
  proof (cases c)
    case (Issue m)
    then have "nonce_waits n (k + 1) (nonce_step s c)"
      using nonce_waits_issue [of n k s m] Cons.prems by (simp add: nonce_step_def leaves_alone_def issues_def)
    then show ?thesis using Cons.IH [of "k + 1"] Cons.prems Issue by (simp add: issues_def)
  next
    case (Consume m)
    then have "nonce_waits n k (nonce_step s c)"
      using Cons.prems by (auto simp: nonce_step_def leaves_alone_def consume_def nonce_waits_def)
    then show ?thesis using Cons.IH [of k] Cons.prems Consume by (simp add: issues_def)
  qed
qed (simp add: issues_def)

lemma issue_waits:
  assumes "nonce_inv s" "n \<notin> set (ns_order s)"
  shows "nonce_waits n 0 (snd (issue n s))"
  using assms
  by (cases "ns_order s") (auto simp: nonce_waits_def nonce_inv_def issue_def MAX_PENDING_NONCES_def)

lemma nonce_survives:
  assumes "nonce_inv s" "n \<notin> set (ns_order s)" "list_all (leaves_alone n) others" "issues others < MAX_PENDING_NONCES"
  shows "n \<in> ns_pending (foldl nonce_step (snd (issue n s)) others)"
  using nonce_waits_run [OF issue_waits [OF assms(1,2)] assms(3)] assms(4) by (simp add: nonce_waits_def)

text \<open>
  (C29) A nonce is good for one response and no more: with fewer than 10000 nonces issued since, it is
  accepted, and once consumed it is refused for as long as it is not issued again, whatever other
  connections do. At no time are more than 10000 nonces pending.
\<close>

theorem nonce_used_once:
  assumes "nonce_inv s" "n \<notin> set (ns_order s)" "list_all (leaves_alone n) others" "issues others < MAX_PENDING_NONCES"
    and "s1 = foldl nonce_step (snd (issue n s)) others" "Issue n \<notin> set later"
  shows "fst (consume n s1) \<and> \<not> fst (consume n (foldl nonce_step (snd (consume n s1)) later))
    \<and> card (ns_pending s1) \<le> 10000"
proof -
  have "n \<notin> ns_pending (snd (consume n s1))" by (simp add: consume_def)
  then have "n \<notin> ns_pending (foldl nonce_step (snd (consume n s1)) later)" using assms(6) by (rule nonce_gone_stays)
  moreover have "nonce_inv (nonce_step s (Issue n))" using assms(1) by (rule nonce_step_inv)
  then have "nonce_inv s1" unfolding assms(5) by (intro nonces.run_inv) (simp add: nonce_step_def)
  then have "card (ns_pending s1) \<le> 10000"
    using card_mono [of "set (ns_order s1)" "ns_pending s1"] card_length [of "ns_order s1"]
    by (simp add: nonce_inv_def MAX_PENDING_NONCES_def)
  moreover have "n \<in> ns_pending s1" unfolding assms(5) by (rule nonce_survives [OF assms(1-4)])
  ultimately show ?thesis by (simp add: consume_def)
qed

theorem nonce_used_once_witness:
  "fst (consume [1] (foldl nonce_step (snd (issue [1] nonces_new)) [Issue [2], Consume [2]]))
   \<and> \<not> fst (consume [1] (foldl nonce_step (snd (consume [1] (foldl nonce_step (snd (issue [1] nonces_new)) [Issue [2], Consume [2]]))) [Issue [3]]))"
  using nonce_used_once [of nonces_new "[1]" "[Issue [2], Consume [2]]" _ "[Issue [3]]"]
  by (simp add: nonces_new_def nonce_inv_def leaves_alone_def issues_def MAX_PENDING_NONCES_def)

section \<open>The two sides of the handshake\<close>

lemma honest_handshake:
  assumes "kotva_laws K" "length (ik_public K ik) = IK_LEN" "length nonce = NONCE_LEN"
    and "\<And>body. length (sign_domain K ik TUNNEL_AUTH_DS body) = SIG_LEN" "registration_ok reg"
    and "nonce_inv ns" "nonce \<notin> set (ns_order ns)" "list_all (leaves_alone nonce) others" "issues others < MAX_PENDING_NONCES"
    and "authenticate_as_box K ik reg None None \<lparr> rx_bytes = nonce @ down, rx_end = e \<rparr> = (res, out)"
  shows "res = Inr () \<and> (\<exists>a ns'. authenticate_box_connection K nonce None others \<lparr> rx_bytes = out @ up, rx_end = e' \<rparr> ns = (Inr a, ns')
    \<and> ar_authenticated_ik a = ik_public K ik \<and> reg_name (ar_registration a) = reg_name reg
    \<and> set (reg_allowed_services (ar_registration a)) = set (reg_allowed_services reg))"
proof -
  let ?sig = "sign_domain K ik TUNNEL_AUTH_DS (signing_preimage nonce (reg_name reg))"
  have "read_challenge \<lparr> rx_bytes = nonce @ down, rx_end = e \<rparr> = Inr (nonce, \<lparr> rx_bytes = down, rx_end = e \<rparr>)"
    by (simp add: read_challenge_def read_fixed_def read_exact_append assms(3))
  then have b: "res = Inr ()" "out = ik_public K ik @ write_registration reg @ ?sig"
    using assms(10) by (simp_all add: authenticate_as_box_def write_announce_def write_all_def write_response_def assms(4) Let_def)
  let ?r = "\<lparr> reg_name = reg_name reg, reg_allowed_services = fold List.insert (reg_allowed_services reg) [] \<rparr>"
  let ?s = "\<lparr> rx_bytes = ?sig @ up, rx_end = e' \<rparr>"
  have "read_announce \<lparr> rx_bytes = out @ up, rx_end = e' \<rparr> = Inr (\<lparr> aa_claimed_ik = ik_public K ik, aa_registration = ?r \<rparr>, ?s)"
    using registration_read_written [OF assms(5), of "?sig @ up" e']
    by (simp add: b read_announce_def read_fixed_def read_exact_append assms(2))
  then have "auth_begin nonce None \<lparr> rx_bytes = out @ up, rx_end = e' \<rparr> ns
      = (Inr (\<lparr> aa_claimed_ik = ik_public K ik, aa_registration = ?r \<rparr>, nonce, ?s), snd (issue nonce ns))"
    by (simp add: auth_begin_def write_challenge_def write_all_def issue_def Let_def)
  moreover have "read_response ?s = Inr (?sig, \<lparr> rx_bytes = up, rx_end = e' \<rparr>)"
    by (simp add: read_response_def read_fixed_def read_exact_append assms(4))
  moreover have "nonce \<in> ns_pending (foldl nonce_step (snd (issue nonce ns)) others)" by (rule nonce_survives [OF assms(6-9)])
  moreover have "verify_domain K (ik_public K ik) TUNNEL_AUTH_DS body (sign_domain K ik TUNNEL_AUTH_DS body) = Inr ()" for body
    using assms(1) by (simp add: kotva_laws_def)
  ultimately show ?thesis
    by (simp add: b authenticate_box_connection_def auth_finish_def consume_def set_fold_insert)
qed

text \<open>
  A box that follows the protocol is authenticated, as the owner of its key and with the name and
  the services it declared, whatever fewer than 10000 other connections do while the adapter waits for
  it. The keys have 32 bytes and the signatures 64.
\<close>

lemma honest_box_authenticated:
  assumes "kotva_laws K" "length (ik_public K ik) = IK_LEN" "length nonce = NONCE_LEN"
    and "\<And>body. length (sign_domain K ik TUNNEL_AUTH_DS body) = SIG_LEN" "registration_ok reg"
    and "nonce_inv ns" "nonce \<notin> set (ns_order ns)" "list_all (leaves_alone nonce) others" "issues others < MAX_PENDING_NONCES"
    and "authenticate_as_box K ik reg None None \<lparr> rx_bytes = nonce @ down, rx_end = e \<rparr> = (res, out)"
  shows "res = Inr () \<and> (\<exists>a ns'. authenticate_box_connection K nonce None others \<lparr> rx_bytes = out @ up, rx_end = e' \<rparr> ns = (Inr a, ns')
    \<and> ar_authenticated_ik a = ik_public K ik \<and> reg_name (ar_registration a) = reg_name reg
    \<and> set (reg_allowed_services (ar_registration a)) = set (reg_allowed_services reg))"
  by (rule honest_handshake [OF assms])

text \<open>A signature scheme with 64-byte signatures, for concrete runs.\<close>

definition short_sig :: "bytes \<Rightarrow> bytes \<Rightarrow> bytes" where
  "short_sig pk body = take 64 (rev body @ pk @ replicate 64 0)"

definition short_kotva :: "(ref_cv, (u64 \<times> ref_cv) list, unit, bytes, unit) kotva" where
  "short_kotva = (ref_kotva (RU64 0))\<lparr> sign_domain := (\<lambda>ik ds body. short_sig ik body),
     verify_domain := (\<lambda>pk ds body sig. if sig = short_sig pk body then Inr () else Inl ()) \<rparr>"

lemma short_kotva_laws: "kotva_laws short_kotva"
  using ref_kotva_laws [of "RU64 0"] by (simp add: kotva_laws_def short_kotva_def)

lemma short_kotva_sel [simp]:
  "ik_public short_kotva ik = ik" "sign_domain short_kotva ik ds body = short_sig ik body" "length (short_sig pk body) = 64"
  by (simp_all add: short_kotva_def short_sig_def)

lemma sample_reg_ok: "registration_ok sample_reg"
proof -
  have "from_utf8 (str_bytes x) = Some x" if "ascii_str x" for x
    using that by (simp add: from_utf8_def from_utf8_lossy_ascii)
  moreover have "ascii_str ''a.b''" "ascii_str ''443''" by (simp_all add: ascii_str_def)
  ultimately show ?thesis
    by (simp add: registration_ok_def field_ok_def sample_reg_def MAX_REGISTRATION_FIELD_BYTES_def MAX_REGISTRATION_SERVICES_def)
qed

lemma honest_box_authenticated_witness:
  "\<exists>a ns'. authenticate_box_connection short_kotva (replicate 32 7) None [Issue [2]]
     \<lparr> rx_bytes = snd (authenticate_as_box short_kotva (replicate 32 1) sample_reg None None \<lparr> rx_bytes = replicate 32 7, rx_end = ''eof'' \<rparr>),
       rx_end = ''eof'' \<rparr> nonces_new = (Inr a, ns')
   \<and> ar_authenticated_ik a = replicate 32 1 \<and> set (reg_allowed_services (ar_registration a)) = {''443''}"
proof -
  obtain res out where o: "authenticate_as_box short_kotva (replicate 32 1) sample_reg None None \<lparr> rx_bytes = replicate 32 7 @ [], rx_end = ''eof'' \<rparr> = (res, out)"
    by fastforce
  have "nonce_inv nonces_new" "replicate 32 7 \<notin> set (ns_order nonces_new)" "list_all (leaves_alone (replicate 32 7)) [Issue [2]]"
    "issues [Issue [2]] < MAX_PENDING_NONCES"
    by (simp_all add: nonce_inv_def nonces_new_def leaves_alone_def issues_def MAX_PENDING_NONCES_def numeral_eq_Suc)
  from honest_box_authenticated [OF short_kotva_laws _ _ _ sample_reg_ok this o, of "[]" "''eof''"] o
  show ?thesis by (auto simp: IK_LEN_def NONCE_LEN_def SIG_LEN_def sample_reg_def)
qed

section \<open>Only authenticated boxes are in the registry\<close>

text \<open>
  A tunnel is backed by a connection: it announced the key, the name and the services of the tunnel, and
  its response is a signature under that key of the nonce of the connection and the name.
\<close>

definition backed :: "('cv, 'f, 'ce, 'ik, 'ie) kotva \<Rightarrow> AdapterEvent set \<Rightarrow> string \<Rightarrow> RegisteredTunnel \<Rightarrow> bool" where
  "backed K E name t \<longleftrightarrow>
     (\<exists>c stream nonce werr a s sig s'.
        Connect c stream nonce werr \<in> E \<and> Respond c (rt_handle t) \<in> E
        \<and> read_announce stream = Inr (a, s) \<and> read_response s = Inr (sig, s')
        \<and> verify_domain K (aa_claimed_ik a) TUNNEL_AUTH_DS (signing_preimage nonce name) sig = Inr ()
        \<and> aa_claimed_ik a = rt_owner_ik t \<and> reg_name (aa_registration a) = name
        \<and> reg_allowed_services (aa_registration a) = rt_allowed_services t)"

definition run_inv :: "('cv, 'f, 'ce, 'ik, 'ie) kotva \<Rightarrow> AdapterEvent set \<Rightarrow> AdapterRun \<Rightarrow> bool" where
  "run_inv K E run \<longleftrightarrow>
     (\<forall>name t. map_of (rs_tunnels (as_registry (run_server run))) name = Some t \<longrightarrow> backed K E name t)
   \<and> (\<forall>c a n s. map_of (run_in_flight run) c = Some (a, n, s) \<longrightarrow>
        (\<exists>stream werr. Connect c stream n werr \<in> E \<and> read_announce stream = Inr (a, s)))"

lemma auth_begin_ok:
  "auth_begin random werr stream ns = (Inr (a, n, s), ns') \<Longrightarrow> read_announce stream = Inr (a, s) \<and> n = random"
  by (auto simp: auth_begin_def issue_def Let_def split: sum.splits)

lemma auth_finish_ok:
  "auth_finish K a n s ns = (Inr authed, ns') \<Longrightarrow>
   (\<exists>sig s'. read_response s = Inr (sig, s')
      \<and> verify_domain K (aa_claimed_ik a) TUNNEL_AUTH_DS (signing_preimage n (reg_name (aa_registration a))) sig = Inr ())
   \<and> n \<in> ns_pending ns \<and> ns_pending ns' = ns_pending ns - {n}
   \<and> authed = \<lparr> ar_registration = aa_registration a, ar_authenticated_ik = aa_claimed_ik a \<rparr>"
  by (auto simp: auth_finish_def consume_def split: sum.splits if_splits)

lemma accept_finish_tunnels:
  assumes "map_of (rs_tunnels (as_registry (snd (accept_finish K a n s h server)))) name = Some t"
    and "map_of (rs_tunnels (as_registry server)) name \<noteq> Some t"
  shows "\<exists>ns'. auth_finish K a n s (as_nonces server)
      = (Inr \<lparr> ar_registration = aa_registration a, ar_authenticated_ik = aa_claimed_ik a \<rparr>, ns')
    \<and> name = reg_name (aa_registration a) \<and> rt_handle t = h \<and> rt_owner_ik t = aa_claimed_ik a
    \<and> rt_allowed_services t = reg_allowed_services (aa_registration a)"
proof -
  obtain res ns' where f: "auth_finish K a n s (as_nonces server) = (res, ns')" by fastforce
  show ?thesis
  proof (cases res)
    case (Inl e)
    then show ?thesis using assms f by (simp add: accept_finish_def)
  next
    case (Inr authed)
    then have au: "authed = \<lparr> ar_registration = aa_registration a, ar_authenticated_ik = aa_claimed_ik a \<rparr>"
      using auth_finish_ok f by blast
    obtain rr rs where r: "register (aa_registration a) (aa_claimed_ik a) h (as_registry server) = (rr, rs)" by fastforce
    have "as_registry (snd (accept_finish K a n s h server)) = rs"
      using f Inr au r by (simp add: accept_finish_def split: sum.splits)
    then show ?thesis
      using register_cases [OF r] assms f Inr au by (auto split: if_splits)
  qed
qed

lemma run_inv_step:
  assumes "run_inv K E run" "ev \<in> E"
  shows "run_inv K E (adapter_step K run ev)"
proof (cases ev)
  case (Connect c stream n werr)
  obtain res ns' where b: "auth_begin n werr stream (as_nonces (run_server run)) = (res, ns')" by fastforce
  show ?thesis
    using assms b auth_begin_ok [of n werr stream "as_nonces (run_server run)"]
    by (auto simp: run_inv_def adapter_step_def Connect Let_def split: sum.splits) blast
next
  case (Respond c h)
  show ?thesis
  proof (cases "map_of (run_in_flight run) c")
    case None
    then show ?thesis using assms by (simp add: adapter_step_def Respond)
  next
    case (Some x)
    obtain a n s where x: "x = (a, n, s)" by (cases x)
    obtain stream werr where st: "Connect c stream n werr \<in> E" "read_announce stream = Inr (a, s)"
      using assms(1) Some unfolding run_inv_def x by blast
    have "backed K E name t" if "map_of (rs_tunnels (as_registry (snd (accept_finish K a n s h (run_server run))))) name = Some t" for name t
    proof (cases "map_of (rs_tunnels (as_registry (run_server run))) name = Some t")
      case True
      then show ?thesis using assms(1) by (simp add: run_inv_def)
    next
      case False
      from accept_finish_tunnels [OF that False] obtain ns'
        where f: "auth_finish K a n s (as_nonces (run_server run))
          = (Inr \<lparr> ar_registration = aa_registration a, ar_authenticated_ik = aa_claimed_ik a \<rparr>, ns')"
          "name = reg_name (aa_registration a)" "rt_handle t = h" "rt_owner_ik t = aa_claimed_ik a"
          "rt_allowed_services t = reg_allowed_services (aa_registration a)" by blast
      from auth_finish_ok [OF f(1)] f(2-5) st assms(2) Respond show ?thesis
        unfolding backed_def by metis
    qed
    then show ?thesis
      using assms(1) Some x by (auto simp: run_inv_def adapter_step_def Respond)
  qed
next
  case (TunnelEnded g)
  then show ?thesis
    using assms(1)
    by (auto simp: run_inv_def adapter_step_def drop_guard_def deregister_def split: option.splits if_splits)
qed

lemma run_inv_run: "run_inv K E run \<Longrightarrow> set evs \<subseteq> E \<Longrightarrow> run_inv K E (foldl (adapter_step K) run evs)"
  by (induction evs arbitrary: run) (auto intro: run_inv_step)

lemma run_backed:
  "map_of (rs_tunnels (as_registry (run_server (foldl (adapter_step K) run_new evs)))) name = Some t \<Longrightarrow> backed K (set evs) name t"
  using run_inv_run [of K "set evs" run_new evs]
  by (simp add: run_inv_def run_new_def adapter_new_def registry_new_def)

lemma ingress_forwards:
  assumes "handle_ingress_connection svc socket open_fails write_fails registry = (res, effs)" "ForwardTo h b \<in> set effs"
  shows "\<exists>p rest t n. peek_client_hello socket = (Inr p, rest) \<and> b = take n (hp_raw p)
    \<and> map_of (rs_tunnels registry) (to_ascii_lowercase (hp_server_name p)) = Some t
    \<and> rt_handle t = h \<and> svc \<in> set (rt_allowed_services t)"
proof -
  obtain p rest where pk: "peek_client_hello socket = (Inr p, rest)"
    using assms by (auto simp: handle_ingress_connection_def split: prod.splits sum.splits)
  obtain l where l: "lookup (hp_server_name p) registry = Some l"
    using assms pk by (cases "lookup (hp_server_name p) registry") (auto simp: handle_ingress_connection_def)
  then obtain t where t: "map_of (rs_tunnels registry) (to_ascii_lowercase (hp_server_name p)) = Some t"
    "tl_handle l = rt_handle t" "tl_allowed_services l = rt_allowed_services t" by (auto simp: lookup_def)
  have f: "service_allowed (tl_allowed_services l) svc" "h = tl_handle l" "b = hp_raw p \<or> (\<exists>n. b = take n (hp_raw p))"
    using assms pk l by (auto simp: handle_ingress_connection_def split: if_splits option.splits)
  have "\<exists>n. b = take n (hp_raw p)" using f(3) by (metis take_all_iff order_refl)
  with pk t f(1,2) show ?thesis by (auto simp: service_allowed_def)
qed

text \<open>
  (C5) Whatever connections come and go at the adapter, a client's bytes reach a box only when the name
  the client asked for is registered for that box's tunnel, the box declared the service of the
  listener, and the box proved with a signature over the nonce of its connection and that name that it
  holds the key it announced. What is forwarded is a beginning of what the client sent.
\<close>

theorem ingress_only_to_authenticated_box:
  assumes "handle_ingress_connection svc socket open_fails write_fails
      (as_registry (run_server (foldl (adapter_step K) run_new evs))) = (res, effs)"
    and "ForwardTo h b \<in> set effs"
  shows "\<exists>p rest t n. peek_client_hello socket = (Inr p, rest) \<and> b = take n (hp_raw p)
    \<and> rt_handle t = h \<and> svc \<in> set (rt_allowed_services t)
    \<and> backed K (set evs) (to_ascii_lowercase (hp_server_name p)) t"
proof -
  from ingress_forwards [OF assms] obtain p rest t n
    where p: "peek_client_hello socket = (Inr p, rest)" "b = take n (hp_raw p)" "rt_handle t = h" "svc \<in> set (rt_allowed_services t)"
    and t: "map_of (rs_tunnels (as_registry (run_server (foldl (adapter_step K) run_new evs)))) (to_ascii_lowercase (hp_server_name p)) = Some t"
    by blast
  from p run_backed [OF t] show ?thesis by blast
qed

text \<open>
  An ingress connection that ends in an error was reset and never spliced; one that succeeds was
  replayed in full to one tunnel and spliced to it.
\<close>

lemma ingress_fails_closed:
  "case handle_ingress_connection svc socket open_fails write_fails registry of
     (Inl e, effs) \<Rightarrow> last effs = FailClosed \<and> (\<forall>h. Splice h \<notin> set effs)
   | (Inr _, effs) \<Rightarrow> (\<exists>p rest h. peek_client_hello socket = (Inr p, rest) \<and> effs = [ForwardTo h (hp_raw p), Splice h])"
  by (simp add: handle_ingress_connection_def split: prod.splits sum.splits option.splits) blast

section \<open>From the client to the box\<close>

lemma accept_authenticated:
  "authenticate_box_connection K n werr others socket (as_nonces server) = (Inr a, ns) \<Longrightarrow>
   register (ar_registration a) (ar_authenticated_ik a) h (as_registry server) = (Inr g, registry) \<Longrightarrow>
   accept_box_connection K n werr others h socket server = (Inr g, \<lparr> as_registry = registry, as_nonces = ns \<rparr>)"
  by (auto simp: authenticate_box_connection_def accept_box_connection_def accept_finish_def split: prod.splits sum.splits)

text \<open>A connection that nothing interleaves with is accepted as \<open>accept_box_connection\<close> does.\<close>

lemma adapter_step_accepts:
  "map_of (run_in_flight run) c = None \<Longrightarrow>
   run_server (foldl (adapter_step K) run [Connect c socket n werr, Respond c h])
     = snd (accept_box_connection K n werr [] h socket (run_server run))"
  by (simp add: adapter_step_def accept_box_connection_def Let_def split: prod.splits sum.splits)

lemma auth_begin_nonces:
  "auth_begin n werr stream ns = (res, ns') \<Longrightarrow> nonce_inv ns \<Longrightarrow> nonce_inv ns'"
  using nonce_step_inv [of ns "Issue n"]
  by (auto simp: auth_begin_def nonce_step_def split: prod.splits sum.splits)

lemma accept_finish_nonces:
  "nonce_inv (as_nonces server) \<Longrightarrow> nonce_inv (as_nonces (snd (accept_finish K a n stream h server)))"
  using nonce_step_inv [of "as_nonces server" "Consume n"]
  by (auto simp: accept_finish_def auth_finish_def nonce_step_def split: prod.splits sum.splits if_splits)

lemma adapter_step_nonces:
  "nonce_inv (as_nonces (run_server run)) \<Longrightarrow> nonce_inv (as_nonces (run_server (adapter_step K run ev)))"
  by (cases ev) (auto simp: adapter_step_def Let_def split: prod.splits sum.splits option.splits
      dest: auth_begin_nonces accept_finish_nonces)

interpretation adapter: invariant_machine "adapter_step K" "\<lambda>run. nonce_inv (as_nonces (run_server run))" for K
  by unfold_locales (rule adapter_step_nonces)

lemma adapter_nonces: "nonce_inv (as_nonces (run_server (foldl (adapter_step K) run_new evs)))"
  by (rule adapter.run_inv) (simp add: run_new_def adapter_new_def nonces_new_def nonce_inv_def)

lemma honest_box_registered:
  assumes "kotva_laws K" "length (ik_public K ik) = IK_LEN" "length nonce = NONCE_LEN"
    and "\<And>body. length (sign_domain K ik TUNNEL_AUTH_DS body) = SIG_LEN" "registration_ok reg"
    and "authenticate_as_box K ik reg None None \<lparr> rx_bytes = nonce @ down, rx_end = e \<rparr> = (res, out)"
    and "to_ascii_lowercase sni = reg_name reg"
    and "run = foldl (adapter_step K) run_new evs" "nonce \<notin> set (ns_order (as_nonces (run_server run)))"
    and "map_of (run_in_flight run) c = None"
    and "\<not> owned_by_other (as_registry (run_server run)) (reg_name reg) (ik_public K ik)"
  shows "\<exists>l. lookup sni (as_registry (run_server (foldl (adapter_step K) run [Connect c \<lparr> rx_bytes = out, rx_end = e' \<rparr> nonce None, Respond c h]))) = Some l
    \<and> tl_handle l = h \<and> set (tl_allowed_services l) = set (reg_allowed_services reg)"
proof -
  let ?server = "run_server run"
  have n: "nonce_inv (as_nonces ?server)" "list_all (leaves_alone nonce) []" "issues [] < MAX_PENDING_NONCES"
    using adapter_nonces assms(8) by (simp_all add: issues_def MAX_PENDING_NONCES_def)
  from honest_handshake [OF assms(1-5) n(1) assms(9) n(2,3) assms(6), of "[]" e'] obtain a ns'
    where a: "authenticate_box_connection K nonce None [] \<lparr> rx_bytes = out, rx_end = e' \<rparr> (as_nonces ?server) = (Inr a, ns')"
      "ar_authenticated_ik a = ik_public K ik"
      "reg_name (ar_registration a) = reg_name reg" "set (reg_allowed_services (ar_registration a)) = set (reg_allowed_services reg)"
    by auto
  obtain g registry where r: "register (ar_registration a) (ar_authenticated_ik a) h (as_registry ?server) = (Inr g, registry)"
    using assms(11) a(2,3) by (simp add: register_def Let_def)
  have "lookup sni registry = Some \<lparr> tl_handle = h, tl_allowed_services = reg_allowed_services (ar_registration a) \<rparr>"
    using register_cases [OF r] assms(7) a(3) by (simp add: lookup_def)
  moreover have "as_registry (run_server (foldl (adapter_step K) run [Connect c \<lparr> rx_bytes = out, rx_end = e' \<rparr> nonce None, Respond c h])) = registry"
    unfolding adapter_step_accepts [OF assms(10)] using accept_authenticated [OF a(1) r] by simp
  ultimately show ?thesis using a(4) by simp
qed

lemma hello_forwarded:
  assumes "length head' = 34" "length sid < 256" "length suites < 65536" "length comps < 256"
    and "list_all (\<lambda>e. fst e \<noteq> EXTENSION_SERVER_NAME \<and> length (snd e) < 65536) pre"
    and "name \<noteq> []" "from_utf8 name = Some sni"
    and "body = ref_body head' sid suites comps (pre @ ref_sni name # post)" "length body + 9 \<le> 0x4000"
    and "list_all (\<lambda>b. b \<noteq> []) chunks" "concat chunks = ref_hello body @ rest"
    and "lookup sni registry = Some l" "svc \<in> set (tl_allowed_services l)" "open_fails (tl_handle l) = None"
  shows "\<exists>raw left. handle_ingress_connection svc (map Chunk chunks) open_fails None registry
      = (Inr (), [ForwardTo (tl_handle l) raw, Splice (tl_handle l)])
    \<and> snd (peek_client_hello (map Chunk chunks)) = left \<and> raw @ chunk_bytes left = ref_hello body @ rest"
proof -
  from client_hello_peeked [OF assms(1-11)] obtain p r'
    where p: "peek_client_hello (map Chunk chunks) = (Inr p, r')" "hp_server_name p = sni" "hp_raw p @ chunk_bytes r' = ref_hello body @ rest"
    by blast
  then show ?thesis using assms(12-14) by (simp add: handle_ingress_connection_def service_allowed_def)
qed

text \<open>
  (C6) A box that follows the protocol and asks for a lower-case name is reached. The adapter may have run
  through any history of connections and ended tunnels, as long as no other identity holds the name now
  and the nonce drawn for the box is not among those kept; the box's connection and its response are then
  handled one after the other. A client that asks for the name in any case, with a ClientHello in one TLS
  record of at most 0x4000 bytes whose one server_name extension holds that name, arriving in any pieces,
  is forwarded to the box's tunnel on every service the box declared, and the bytes replayed to the box
  followed by those left on the socket are exactly what the client sent.
\<close>

theorem client_reaches_box:
  assumes "kotva_laws K" "length (ik_public K ik) = IK_LEN" "length nonce = NONCE_LEN"
    and "\<And>body. length (sign_domain K ik TUNNEL_AUTH_DS body) = SIG_LEN" "registration_ok reg"
    and "authenticate_as_box K ik reg None None \<lparr> rx_bytes = nonce, rx_end = e \<rparr> = (res, out)"
    and "run = foldl (adapter_step K) run_new evs" "nonce \<notin> set (ns_order (as_nonces (run_server run)))"
    and "map_of (run_in_flight run) c = None"
    and "\<not> owned_by_other (as_registry (run_server run)) (reg_name reg) (ik_public K ik)"
    and "registry = as_registry (run_server (foldl (adapter_step K) run [Connect c \<lparr> rx_bytes = out, rx_end = e' \<rparr> nonce None, Respond c h]))"
    and "length head' = 34" "length sid < 256" "length suites < 65536" "length comps < 256"
    and "list_all (\<lambda>e. fst e \<noteq> EXTENSION_SERVER_NAME \<and> length (snd e) < 65536) pre"
    and "name \<noteq> []" "from_utf8 name = Some sni" "to_ascii_lowercase sni = reg_name reg"
    and "body = ref_body head' sid suites comps (pre @ ref_sni name # post)" "length body + 9 \<le> 0x4000"
    and "list_all (\<lambda>b. b \<noteq> []) chunks" "concat chunks = ref_hello body @ rest"
    and "svc \<in> set (reg_allowed_services reg)" "open_fails h = None"
  shows "\<exists>raw left. handle_ingress_connection svc (map Chunk chunks) open_fails None registry
      = (Inr (), [ForwardTo h raw, Splice h])
    \<and> snd (peek_client_hello (map Chunk chunks)) = left \<and> raw @ chunk_bytes left = ref_hello body @ rest"
proof -
  have out: "authenticate_as_box K ik reg None None \<lparr> rx_bytes = nonce @ [], rx_end = e \<rparr> = (res, out)" using assms(6) by simp
  from honest_box_registered [OF assms(1-5) out assms(19,7-10), of e' h] obtain l
    where "lookup sni registry = Some l" "tl_handle l = h" "set (tl_allowed_services l) = set (reg_allowed_services reg)"
    unfolding assms(11) by blast
  with hello_forwarded [OF assms(12-18,20-23), of registry l svc open_fails] assms(24,25) show ?thesis by simp
qed

text \<open>The sample box and the sample client.\<close>

definition sample_out :: bytes where
  "sample_out = snd (authenticate_as_box short_kotva (replicate 32 1) sample_reg None None \<lparr> rx_bytes = replicate 32 7, rx_end = ''eof'' \<rparr>)"

definition sample_events :: "AdapterEvent list" where
  "sample_events = [Connect 1 \<lparr> rx_bytes = sample_out, rx_end = ''eof'' \<rparr> (replicate 32 7) None, Respond 1 5]"

definition sample_registry :: RegistryState where
  "sample_registry = as_registry (run_server (foldl (adapter_step short_kotva) run_new sample_events))"

definition sample_chunks :: "bytes list" where
  "sample_chunks = [take 7 (ref_hello sample_hello_body), drop 7 (ref_hello sample_hello_body)]"

lemma sample_sides:
  "length (ik_public short_kotva (replicate 32 1)) = IK_LEN" "length (replicate 32 7 :: bytes) = NONCE_LEN"
  "length (sign_domain short_kotva (replicate 32 1) TUNNEL_AUTH_DS body) = SIG_LEN"
  "authenticate_as_box short_kotva (replicate 32 1) sample_reg None None \<lparr> rx_bytes = replicate 32 7, rx_end = ''eof'' \<rparr>
   = (fst (authenticate_as_box short_kotva (replicate 32 1) sample_reg None None \<lparr> rx_bytes = replicate 32 7, rx_end = ''eof'' \<rparr>), sample_out)"
  by (simp_all add: IK_LEN_def NONCE_LEN_def SIG_LEN_def sample_out_def)

lemma sample_client:
  "from_utf8 [97, 46, 98] = Some ''a.b''" "to_ascii_lowercase ''a.b'' = reg_name sample_reg"
  "list_all (\<lambda>b. b \<noteq> []) sample_chunks" "concat sample_chunks = ref_hello sample_hello_body @ []" "length sample_hello_body + 9 \<le> 0x4000"
  "list_all (\<lambda>e. fst e \<noteq> EXTENSION_SERVER_NAME \<and> length (snd e) < 65536) [(43, [2, 3, 4])]"
proof -
  show "from_utf8 [97, 46, 98] = Some ''a.b''"
    by (simp add: from_utf8_def utf8_step_def bytes_str_def char_of_eq_iff)
  show "to_ascii_lowercase ''a.b'' = reg_name sample_reg"
    by (simp add: to_ascii_lowercase_def to_lower_char_def is_ascii_uppercase_def sample_reg_def)
  show "list_all (\<lambda>b. b \<noteq> []) sample_chunks" "concat sample_chunks = ref_hello sample_hello_body @ []"
    by (simp_all add: sample_chunks_def ref_hello_def be24_def be16_def)
  show "length sample_hello_body + 9 \<le> 0x4000"
    by (simp add: sample_hello_body_def ref_body_def ref_extension_def ref_sni_def be16_def)
  show "list_all (\<lambda>e. fst e \<noteq> EXTENSION_SERVER_NAME \<and> length (snd e) < 65536) [(43, [2, 3, 4])]"
    by (simp add: EXTENSION_SERVER_NAME_def)
qed

theorem client_reaches_box_witness:
  "\<exists>raw left. handle_ingress_connection ''443'' (map Chunk sample_chunks) (\<lambda>_. None) None sample_registry
      = (Inr (), [ForwardTo 5 raw, Splice 5])
    \<and> snd (peek_client_hello (map Chunk sample_chunks)) = left \<and> raw @ chunk_bytes left = ref_hello sample_hello_body @ []"
proof (rule client_reaches_box [OF short_kotva_laws sample_sides(1,2,3) sample_reg_ok sample_sides(4),
      where c = 1 and run = run_new and evs = "[]" and e' = "''eof''" and h = 5 and head' = "replicate 34 0" and sid = "[]" and suites = "[0x13, 0x01]" and comps = "[0]"
      and pre = "[(43, [2, 3, 4])]" and name = "[97, 46, 98]" and post = "[]"])
  show "sample_registry = as_registry (run_server (foldl (adapter_step short_kotva) run_new
      [Connect 1 \<lparr> rx_bytes = sample_out, rx_end = ''eof'' \<rparr> (replicate 32 7) None, Respond 1 5]))"
    by (simp add: sample_registry_def sample_events_def)
  show "replicate 32 7 \<notin> set (ns_order (as_nonces (run_server run_new)))" "map_of (run_in_flight run_new) 1 = None"
    "\<not> owned_by_other (as_registry (run_server run_new)) (reg_name sample_reg) (ik_public short_kotva (replicate 32 1))"
    by (simp_all add: run_new_def adapter_new_def nonces_new_def owned_by_other_def registry_new_def)
  show "''443'' \<in> set (reg_allowed_services sample_reg)" by (simp add: sample_reg_def)
  show "list_all (\<lambda>e. fst e \<noteq> EXTENSION_SERVER_NAME \<and> length (snd e) < 65536) [(43, [2, 3, 4])]"
    "to_ascii_lowercase ''a.b'' = reg_name sample_reg" "length sample_hello_body + 9 \<le> 0x4000"
    "concat sample_chunks = ref_hello sample_hello_body @ []"
    by (fact sample_client)+
qed (simp_all add: sample_client sample_hello_body_def)

theorem ingress_only_to_authenticated_box_witness:
  "\<exists>b p rest t n. peek_client_hello (map Chunk sample_chunks) = (Inr p, rest) \<and> b = take n (hp_raw p)
    \<and> rt_handle t = 5 \<and> ''443'' \<in> set (rt_allowed_services t)
    \<and> backed short_kotva (set sample_events) (to_ascii_lowercase (hp_server_name p)) t"
proof -
  have out: "authenticate_as_box short_kotva (replicate 32 1) sample_reg None None \<lparr> rx_bytes = replicate 32 7 @ [], rx_end = ''eof'' \<rparr>
     = (fst (authenticate_as_box short_kotva (replicate 32 1) sample_reg None None \<lparr> rx_bytes = replicate 32 7, rx_end = ''eof'' \<rparr>), sample_out)"
    using sample_sides(4) by simp
  obtain l where l: "lookup ''a.b'' sample_registry = Some l" "tl_handle l = 5" "''443'' \<in> set (tl_allowed_services l)"
    using honest_box_registered [OF short_kotva_laws sample_sides(1,2,3) sample_reg_ok out sample_client(2), of run_new "[]" 1 "''eof''" 5]
    by (auto simp: sample_registry_def sample_events_def sample_reg_def run_new_def adapter_new_def nonces_new_def
        owned_by_other_def registry_new_def)
  obtain p rest where p: "peek_client_hello (map Chunk sample_chunks) = (Inr p, rest)" "hp_server_name p = ''a.b''"
    using client_hello_sample by (auto simp: sample_chunks_def)
  have h: "handle_ingress_connection ''443'' (map Chunk sample_chunks) (\<lambda>_. None) None
      (as_registry (run_server (foldl (adapter_step short_kotva) run_new sample_events))) = (Inr (), [ForwardTo 5 (hp_raw p), Splice 5])"
    using l p by (simp add: handle_ingress_connection_def service_allowed_def flip: sample_registry_def)
  from ingress_only_to_authenticated_box [OF h, of 5 "hp_raw p"] show ?thesis by (auto intro: exI [of _ "hp_raw p"])
qed

end
