(* ===== verification/Billing_Patala.thy ===== *)
theory Billing_Patala
  imports Billing_Settlement
begin

text \<open>
  The settlement rail over a payment substrate (\<open>crates/pier-billing-patala/src/lib.rs\<close>). The payment
  rail is the function \<open>verify\<close>: an error, or whether a receipt holds. Crediting waits for it, so the
  call is modelled in the two parts between which other calls may run, and as a whole.
\<close>

section \<open>Definitions\<close>

datatype PatalaSettlementError =
    CurrencyMismatch string string
  | InsufficientCredit u64 u64 string
  | Rail string
  | NotVerified
  | ReceiptCurrencyMismatch string string

text \<open>
  The receipts and pay requests of \<open>patala_core\<close>. The settlement itself reads the currency, the reference
  and the amount of a receipt; the payment rail verifies the whole of it, proof included.
\<close>

record PayReceipt =
  pr_rail_id :: string
  pr_amount_minor :: u64
  pr_currency :: string
  pr_reference :: string
  pr_proof :: bytes
  pr_settled_at_unix :: u64

record PayRequest =
  pq_amount_minor :: u64
  pq_currency :: string
  pq_destination :: string
  pq_reference :: string

record PatalaSettlement =
  ps_destination :: string
  ps_currency :: string
  ps_ledger :: "(bytes \<times> u64) list"
  ps_credited_references :: "string set"
  ps_next_tx_seq :: u64

definition patala_new :: "string \<Rightarrow> string \<Rightarrow> PatalaSettlement" where
  "patala_new destination currency =
     \<lparr> ps_destination = destination, ps_currency = currency, ps_ledger = [],
       ps_credited_references = {}, ps_next_tx_seq = 0 \<rparr>"

definition patala_stellar :: "string \<Rightarrow> PatalaSettlement" where
  "patala_stellar destination = patala_new destination ''USDC''"

definition local_balance :: "PatalaSettlement \<Rightarrow> bytes \<Rightarrow> u64" where
  "local_balance p payer = al_get_or 0 (ps_ledger p) payer"

definition patala_next_seq :: "PatalaSettlement \<Rightarrow> u64 \<times> PatalaSettlement" where
  "patala_next_seq p = (ps_next_tx_seq p, p\<lparr> ps_next_tx_seq := ps_next_tx_seq p + 1 \<rparr>)"

definition top_up_pay_request :: "PatalaSettlement \<Rightarrow> u64 \<Rightarrow> string \<Rightarrow> PayRequest" where
  "top_up_pay_request p amount_minor reference =
     \<lparr> pq_amount_minor = amount_minor, pq_currency = ps_currency p, pq_destination = ps_destination p, pq_reference = reference \<rparr>"

text \<open>The call until it waits for the rail: an answer, or the receipt is to be verified.\<close>

definition credit_check :: "PatalaSettlement \<Rightarrow> bytes \<Rightarrow> PayReceipt \<Rightarrow> (PatalaSettlementError + u64) option" where
  "credit_check p payer receipt =
     (if pr_currency receipt \<noteq> ps_currency p then
        Some (Inl (ReceiptCurrencyMismatch (pr_currency receipt) (ps_currency p)))
      else if pr_reference receipt \<in> ps_credited_references p then Some (Inr (local_balance p payer))
      else None)"

text \<open>The call once the rail has answered.\<close>

definition credit_apply ::
  "(string + bool) \<Rightarrow> PatalaSettlement \<Rightarrow> bytes \<Rightarrow> PayReceipt \<Rightarrow> (PatalaSettlementError + u64) \<times> PatalaSettlement" where
  "credit_apply verdict p payer receipt =
     (case verdict of
        Inl e \<Rightarrow> (Inl (Rail e), p)
      | Inr verified \<Rightarrow>
          if \<not> verified then (Inl NotVerified, p)
          else
            (let new_balance = saturating_add (local_balance p payer) (pr_amount_minor receipt) in
             (Inr new_balance,
              p\<lparr> ps_ledger := al_insert payer new_balance (ps_ledger p),
                 ps_credited_references := insert (pr_reference receipt) (ps_credited_references p) \<rparr>)))"

definition credit_from_receipt ::
  "(PayReceipt \<Rightarrow> string + bool) \<Rightarrow> PatalaSettlement \<Rightarrow> bytes \<Rightarrow> PayReceipt
   \<Rightarrow> (PatalaSettlementError + u64) \<times> PatalaSettlement" where
  "credit_from_receipt verify p payer receipt =
     (case credit_check p payer receipt of
        Some res \<Rightarrow> (res, p)
      | None \<Rightarrow> credit_apply (verify receipt) p payer receipt)"

definition patala_charge ::
  "PatalaSettlement \<Rightarrow> bytes \<Rightarrow> u64 \<Rightarrow> string \<Rightarrow> (PatalaSettlementError + SettlementReceipt) \<times> PatalaSettlement" where
  "patala_charge p payer amount currency =
     (if currency \<noteq> ps_currency p then (Inl (CurrencyMismatch currency (ps_currency p)), p)
      else
        (let bal = local_balance p payer in
         if bal < amount then (Inl (InsufficientCredit bal amount currency), p)
         else
           (let p = p\<lparr> ps_ledger := al_insert payer (bal - amount) (ps_ledger p) \<rparr>;
                (seq, p) = patala_next_seq p
            in (Inr \<lparr> sr_payer = payer, sr_amount = amount, sr_currency = currency, sr_tx_seq = seq \<rparr>, p))))"

definition patala_balance :: "PatalaSettlement \<Rightarrow> bytes \<Rightarrow> string \<Rightarrow> i64" where
  "patala_balance p payer currency = (if currency \<noteq> ps_currency p then 0 else local_balance p payer)"

section \<open>The rail keeps the contract of settlement rails\<close>

lemma patala_charge_cases:
  "patala_charge p payer amount currency = (res, p') \<Longrightarrow>
   (\<exists>e. res = Inl e \<and> p' = p \<and> (currency \<noteq> ps_currency p \<or> local_balance p payer < amount))
   \<or> (currency = ps_currency p \<and> amount \<le> local_balance p payer
      \<and> res = Inr \<lparr> sr_payer = payer, sr_amount = amount, sr_currency = currency, sr_tx_seq = ps_next_tx_seq p \<rparr>
      \<and> p' = p\<lparr> ps_ledger := al_insert payer (local_balance p payer - amount) (ps_ledger p), ps_next_tx_seq := ps_next_tx_seq p + 1 \<rparr>)"
  by (auto simp: patala_charge_def Let_def patala_next_seq_def split: if_splits)

interpretation patala: settlement_rail patala_charge patala_balance
proof
  fix r :: PatalaSettlement and p a c e rc q d
  obtain res r' where x: "patala_charge r p a c = (res, r')" by fastforce
  note cases = patala_charge_cases [OF x]
  show "snd (patala_charge r p a c) = r" if "fst (patala_charge r p a c) = Inl e" using that cases unfolding x by auto
  show "sr_payer rc = p \<and> sr_amount rc = a \<and> sr_currency rc = c" if "fst (patala_charge r p a c) = Inr rc"
    using that cases unfolding x by auto
  show "patala_balance (snd (patala_charge r p a c)) q d = patala_balance r q d" if "(q, d) \<noteq> (p, c)"
    using that cases unfolding x by (elim disjE exE conjE) (auto simp: patala_balance_def local_balance_def)
qed

text \<open>A month of subscriptions on this rail leaves every other account alone.\<close>

lemmas patala_billing_run_isolated = patala.billing_run_isolated

section \<open>Calls one after the other conserve credit\<close>

datatype patala_cmd = CreditCmd bytes PayReceipt | ChargeCmd bytes u64

record patala_log =
  pt_state :: PatalaSettlement
  pt_credits :: "PayReceipt list"
  pt_charges :: "u64 list"

text \<open>One call, with the receipts that were credited and the amounts that were charged.\<close>

definition patala_step :: "(PayReceipt \<Rightarrow> string + bool) \<Rightarrow> patala_log \<Rightarrow> patala_cmd \<Rightarrow> patala_log" where
  "patala_step verify L c =
     (case c of
        CreditCmd payer r \<Rightarrow>
          (case credit_from_receipt verify (pt_state L) payer r of (res, p) \<Rightarrow>
             L\<lparr> pt_state := p,
                pt_credits := pt_credits L @ (if is_ok res \<and> credit_check (pt_state L) payer r = None then [r] else []) \<rparr>)
      | ChargeCmd payer amount \<Rightarrow>
          (case patala_charge (pt_state L) payer amount (ps_currency (pt_state L)) of (res, p) \<Rightarrow>
             L\<lparr> pt_state := p, pt_charges := pt_charges L @ (if is_ok res then [amount] else []) \<rparr>))"

definition credit_total :: "PatalaSettlement \<Rightarrow> nat" where
  "credit_total p = (\<Sum>x\<leftarrow>ps_ledger p. unat (snd x))"

definition receipts_total :: "PayReceipt list \<Rightarrow> nat" where
  "receipts_total rs = (\<Sum>r\<leftarrow>rs. unat (pr_amount_minor r))"

definition patala_inv :: "(PayReceipt \<Rightarrow> string + bool) \<Rightarrow> patala_log \<Rightarrow> bool" where
  "patala_inv verify L \<longleftrightarrow>
     distinct (al_keys (ps_ledger (pt_state L)))
   \<and> distinct (map pr_reference (pt_credits L))
   \<and> ps_credited_references (pt_state L) = pr_reference ` set (pt_credits L)
   \<and> (\<forall>r\<in>set (pt_credits L). verify r = Inr True \<and> pr_currency r = ps_currency (pt_state L))
   \<and> (receipts_total (pt_credits L) < 2 ^ 64 \<longrightarrow>
        credit_total (pt_state L) + (\<Sum>a\<leftarrow>pt_charges L. unat a) = receipts_total (pt_credits L))"

lemma credit_total_insert:
  assumes "distinct (al_keys (ps_ledger p))"
  shows "credit_total (p\<lparr> ps_ledger := al_insert payer v (ps_ledger p) \<rparr>) + unat (local_balance p payer) = credit_total p + unat v"
  using sum_list_al_insert [OF assms, of unat payer v]
  by (simp add: credit_total_def local_balance_def al_get_or_def split: option.splits)

lemma local_balance_le_total:
  assumes "distinct (al_keys (ps_ledger p))"
  shows "unat (local_balance p payer) \<le> credit_total p"
  using credit_total_insert [OF assms, of payer 0] by simp

lemma credit_total_seq [simp]: "credit_total (p\<lparr> ps_next_tx_seq := n \<rparr>) = credit_total p"
  "credit_total (p\<lparr> ps_credited_references := R \<rparr>) = credit_total p"
  by (simp_all add: credit_total_def)

lemma credit_from_receipt_new:
  assumes "credit_from_receipt verify p payer r = (res, p')"
  shows "(is_ok res \<and> credit_check p payer r = None \<and> verify r = Inr True \<and> pr_currency r = ps_currency p \<and> pr_reference r \<notin> ps_credited_references p
      \<and> p' = p\<lparr> ps_ledger := al_insert payer (saturating_add (local_balance p payer) (pr_amount_minor r)) (ps_ledger p),
               ps_credited_references := insert (pr_reference r) (ps_credited_references p) \<rparr>)
    \<or> (p' = p \<and> \<not> (is_ok res \<and> credit_check p payer r = None))"
  using assms
  by (auto simp: credit_from_receipt_def credit_check_def credit_apply_def Let_def split: if_splits sum.splits)

lemma patala_inv_step:
  assumes "patala_inv verify L"
  shows "patala_inv verify (patala_step verify L c)"
proof (cases c)
  case (CreditCmd payer r)
  obtain res p' where c: "credit_from_receipt verify (pt_state L) payer r = (res, p')" by fastforce
  from credit_from_receipt_new [OF c] show ?thesis
  proof
    assume n: "is_ok res \<and> credit_check (pt_state L) payer r = None \<and> verify r = Inr True \<and> pr_currency r = ps_currency (pt_state L)
      \<and> pr_reference r \<notin> ps_credited_references (pt_state L)
      \<and> p' = pt_state L\<lparr> ps_ledger := al_insert payer (saturating_add (local_balance (pt_state L) payer) (pr_amount_minor r)) (ps_ledger (pt_state L)),
               ps_credited_references := insert (pr_reference r) (ps_credited_references (pt_state L)) \<rparr>"
    have d: "distinct (al_keys (ps_ledger (pt_state L)))" using assms by (simp add: patala_inv_def)
    have "credit_total p' = credit_total (pt_state L) + unat (pr_amount_minor r)"
      if t: "receipts_total (pt_credits L @ [r]) < 2 ^ 64"
    proof -
      have "credit_total (pt_state L) \<le> receipts_total (pt_credits L)" using assms t by (auto simp: patala_inv_def receipts_total_def)
      then have "unat (local_balance (pt_state L) payer) + unat (pr_amount_minor r) < 2 ^ 64"
        using local_balance_le_total [OF d, of payer] t by (simp add: receipts_total_def)
      then have "unat (saturating_add (local_balance (pt_state L) payer) (pr_amount_minor r))
          = unat (local_balance (pt_state L) payer) + unat (pr_amount_minor r)"
        by (simp add: unat_saturating_add)
      then show ?thesis
        using credit_total_insert [OF d, of payer "saturating_add (local_balance (pt_state L) payer) (pr_amount_minor r)"] n by simp
    qed
    then show ?thesis
      using assms n c by (auto simp: CreditCmd patala_step_def patala_inv_def receipts_total_def image_iff)
  next
    assume "p' = pt_state L \<and> \<not> (is_ok res \<and> credit_check (pt_state L) payer r = None)"
    then show ?thesis using assms c by (auto simp: CreditCmd patala_step_def)
  qed
next
  case (ChargeCmd payer amount)
  let ?p = "pt_state L"
  have d: "distinct (al_keys (ps_ledger ?p))" using assms by (simp add: patala_inv_def)
  obtain res p' where c: "patala_charge ?p payer amount (ps_currency ?p) = (res, p')" by fastforce
  from patala_charge_cases [OF c] show ?thesis
  proof (rule disjE)
    assume "\<exists>e. res = Inl e \<and> p' = ?p \<and> (ps_currency ?p \<noteq> ps_currency ?p \<or> local_balance ?p payer < amount)"
    then show ?thesis using assms c by (auto simp: ChargeCmd patala_step_def)
  next
    assume s: "ps_currency ?p = ps_currency ?p \<and> amount \<le> local_balance ?p payer
      \<and> res = Inr \<lparr> sr_payer = payer, sr_amount = amount, sr_currency = ps_currency ?p, sr_tx_seq = ps_next_tx_seq ?p \<rparr>
      \<and> p' = ?p\<lparr> ps_ledger := al_insert payer (local_balance ?p payer - amount) (ps_ledger ?p), ps_next_tx_seq := ps_next_tx_seq ?p + 1 \<rparr>"
    then have a: "amount \<le> local_balance ?p payer"
      and r: "res = Inr \<lparr> sr_payer = payer, sr_amount = amount, sr_currency = ps_currency ?p, sr_tx_seq = ps_next_tx_seq ?p \<rparr>"
      and p': "p' = ?p\<lparr> ps_ledger := al_insert payer (local_balance ?p payer - amount) (ps_ledger ?p), ps_next_tx_seq := ps_next_tx_seq ?p + 1 \<rparr>"
      by simp_all
    have "unat (local_balance ?p payer - amount) + unat amount = unat (local_balance ?p payer)"
      using a by (simp add: unat_sub word_le_nat_alt)
    then have "credit_total p' + unat amount = credit_total ?p"
      using credit_total_insert [OF d, of payer "local_balance ?p payer - amount"] p' by simp
    then show ?thesis using assms c r p' by (auto simp: ChargeCmd patala_step_def patala_inv_def)
  qed
qed

interpretation patala_calls: invariant_machine "patala_step verify" "patala_inv verify"
  for verify by unfold_locales (rule patala_inv_step)

definition patala_start :: "string \<Rightarrow> string \<Rightarrow> patala_log" where
  "patala_start destination currency = \<lparr> pt_state = patala_new destination currency, pt_credits = [], pt_charges = [] \<rparr>"

lemma patala_inv_start: "patala_inv verify (patala_start d c)"
  by (simp add: patala_inv_def patala_start_def patala_new_def credit_total_def receipts_total_def)

text \<open>
  (C8) Calls made one after the other conserve credit on the payment-backed rail: what all payers hold
  plus what they were charged is the sum of the credited receipts, each of which the payment rail
  verified, in the currency of the rail, and each reference of which was credited once. The sum of the
  receipts must fit in 64 bits.
\<close>

theorem patala_conserves_credit:
  assumes "L = foldl (patala_step verify) (patala_start destination currency) cmds"
    and "receipts_total (pt_credits L) < 2 ^ 64"
  shows "credit_total (pt_state L) + (\<Sum>a\<leftarrow>pt_charges L. unat a) = receipts_total (pt_credits L)
    \<and> distinct (map pr_reference (pt_credits L)) \<and> list_all (\<lambda>r. verify r = Inr True) (pt_credits L)"
  using patala_calls.run_inv [OF patala_inv_start, of verify destination currency cmds] assms
  by (simp add: patala_inv_def list_all_iff)

definition sample_receipt :: PayReceipt where
  "sample_receipt = \<lparr> pr_rail_id = ''fake'', pr_amount_minor = 50, pr_currency = ''USDC'', pr_reference = ''r1'', pr_proof = [],
     pr_settled_at_unix = 0 \<rparr>"

theorem patala_conserves_credit_witness:
  "credit_total (pt_state (foldl (patala_step (\<lambda>_. Inr True)) (patala_start ''G'' ''USDC'')
      [CreditCmd [1] sample_receipt, CreditCmd [2] sample_receipt, ChargeCmd [1] 20])) + 20 = 50"
proof -
  let ?L = "foldl (patala_step (\<lambda>_. Inr True)) (patala_start ''G'' ''USDC'')
      [CreditCmd [1] sample_receipt, CreditCmd [2] sample_receipt, ChargeCmd [1] 20]"
  have l: "pt_credits ?L = [sample_receipt]" "pt_charges ?L = [20]"
    by (simp_all add: patala_step_def patala_start_def patala_new_def credit_from_receipt_def credit_check_def credit_apply_def
        sample_receipt_def patala_charge_def local_balance_def al_get_or_def patala_next_seq_def saturating_add_def Let_def)
  have "receipts_total (pt_credits ?L) < 2 ^ 64" unfolding l by (simp add: receipts_total_def sample_receipt_def)
  from patala_conserves_credit [OF refl this] have "credit_total (pt_state ?L) + sum_list (map unat [20 :: u64]) = receipts_total [sample_receipt]"
    unfolding l by blast
  then show ?thesis by (simp only: receipts_total_def sample_receipt_def) simp
qed

section \<open>Calls that overlap\<close>

datatype patala_event = BeginCredit nat bytes PayReceipt | RailAnswered nat

record patala_run =
  pn_state :: PatalaSettlement
  pn_waiting :: "(nat \<times> bytes \<times> PayReceipt) list"

definition patala_event_step :: "(PayReceipt \<Rightarrow> string + bool) \<Rightarrow> patala_run \<Rightarrow> patala_event \<Rightarrow> patala_run" where
  "patala_event_step verify run ev =
     (case ev of
        BeginCredit c payer r \<Rightarrow>
          (case credit_check (pn_state run) payer r of
             Some _ \<Rightarrow> run
           | None \<Rightarrow> run\<lparr> pn_waiting := al_insert c (payer, r) (pn_waiting run) \<rparr>)
      | RailAnswered c \<Rightarrow>
          (case map_of (pn_waiting run) c of
             None \<Rightarrow> run
           | Some (payer, r) \<Rightarrow>
               run\<lparr> pn_state := snd (credit_apply (verify r) (pn_state run) payer r), pn_waiting := al_remove c (pn_waiting run) \<rparr>))"

text \<open>A call that nothing overlaps is the whole call.\<close>

lemma patala_events_sequential:
  assumes "map_of (pn_waiting run) c = None"
  shows "pn_state (foldl (patala_event_step verify) run [BeginCredit c payer r, RailAnswered c])
    = snd (credit_from_receipt verify (pn_state run) payer r)"
  using assms by (simp add: patala_event_step_def credit_from_receipt_def split: option.splits)

text \<open>
  (C40) Two calls that overlap credit one payment twice: both find the reference unused before either
  waits for the payment rail, and both add the amount when it has answered.
\<close>

theorem overlapping_credit_doubles:
  assumes "pn_waiting run = []" "pr_currency r = ps_currency (pn_state run)"
    and "pr_reference r \<notin> ps_credited_references (pn_state run)" "verify r = Inr True"
    and "unat (local_balance (pn_state run) payer) + 2 * unat (pr_amount_minor r) < 2 ^ 64"
  shows "unat (local_balance (pn_state (foldl (patala_event_step verify) run
      [BeginCredit 1 payer r, BeginCredit 2 payer r, RailAnswered 1, RailAnswered 2])) payer)
    = unat (local_balance (pn_state run) payer) + 2 * unat (pr_amount_minor r)"
proof -
  have "pn_state (foldl (patala_event_step verify) run [BeginCredit 1 payer r, BeginCredit 2 payer r, RailAnswered 1, RailAnswered 2])
    = snd (credit_apply (Inr True) (snd (credit_apply (Inr True) (pn_state run) payer r)) payer r)"
    using assms(1-4) by (simp add: patala_event_step_def credit_check_def al_remove_def)
  then show ?thesis
    using assms(5) by (simp add: credit_apply_def Let_def local_balance_def unat_saturating_add)
qed

theorem overlapping_credit_doubles_witness:
  "unat (local_balance (pn_state (foldl (patala_event_step (\<lambda>_. Inr True))
      \<lparr> pn_state = patala_new ''G'' ''USDC'', pn_waiting = [] \<rparr>
      [BeginCredit 1 [1] sample_receipt, BeginCredit 2 [1] sample_receipt, RailAnswered 1, RailAnswered 2])) [1]) = 100"
  using overlapping_credit_doubles [of "\<lparr> pn_state = patala_new ''G'' ''USDC'', pn_waiting = [] \<rparr>" sample_receipt "\<lambda>_. Inr True" "[1]"]
  by (simp add: sample_receipt_def patala_new_def local_balance_def al_get_or_def)

end
