(* ===== verification/Spec2Isabelle.thy ===== *)
theory Spec2Isabelle
  imports Billing_Sim Billing_Pricing Coordinators Gateway_AliasMap Gateway_Quota Gateway_Vanity
    Gateway_OutboundTcp Gateway_Render Gateway_MultiDomain Gateway_Personal Reach_Ingress Billing_Patala
begin

text \<open>
  Pier: coordinators of a mesh network, their billing, and the gateway between the mesh and legacy mail.

  The repository (\<open>crates/\<close>) is a set of Rust crates around four parts.

  \<^item> \<^bold>\<open>Billing\<close> (\<open>pier-billing\<close>): a meter counts usage, a tariff prices it, a prepaid ledger pays for it, a
    log of signed receipts records it, and a simulation engine drives all four by events; a second rail
    (\<open>pier-billing-patala\<close>) credits verified receipts of an outside payment network.
  \<^item> \<^bold>\<open>Economics and coordinators\<close> (\<open>pier-economics\<close>, \<open>pier-conformance\<close> and one crate per kind): every
    coordinator publishes a signed descriptor of what it is and sees, and a harness judges it.
  \<^item> \<^bold>\<open>The mail gateway\<close> (\<open>pier-gateway\<close>): identities and quotas of its accounts, addresses it mints,
    the inbound MX that turns mail into attested mesh messages, and the outbound side that renders,
    signs and delivers mesh messages as mail; many domains served by one process, a single-operator
    daemon, and servers for legacy mail clients.
  \<^item> \<^bold>\<open>Reachability\<close> (\<open>pier-reachability-adapter\<close>): boxes behind a firewall register a name over an
    authenticated tunnel, and TLS clients are forwarded to them by the server name they ask for.

  Theories and sources. The model keeps the order and the names of the code; machine integers are
  words of their width, \<open>Result\<close> is a sum with the error on the left, \<open>HashMap\<close> is an association
  list with unique keys, \<open>String\<close> is the list of its bytes, and state behind a lock is passed
  explicitly.

  \<^item> \<open>Prelude\<close>: word types, saturating arithmetic, results, maps, text functions, the locale
    \<open>invariant_machine\<close>. \<open>Rust_Text\<close>: bytes of strings, lossy UTF-8 decoding, slices, searches.
    \<open>Kotva\<close>: what the code uses of the \<open>kotva-core\<close> crate, as a record of functions with named laws
    and a reference instance.
  \<^item> \<open>Billing_Meter\<close> (\<open>meter.rs\<close>), \<open>Billing_Tariff\<close> (\<open>tariff.rs\<close>), \<open>Billing_Pricing\<close> (\<open>pricing.rs\<close>),
    \<open>Billing_Prepaid\<close> (\<open>prepaid.rs\<close>), \<open>Billing_Receipt\<close> (\<open>receipt.rs\<close>), \<open>Billing_Settlement\<close>
    (\<open>settlement.rs\<close>, \<open>subscription.rs\<close>, \<open>stake.rs\<close>), \<open>Billing_Sim\<close> (\<open>sim.rs\<close>), \<open>Billing_Patala\<close>.
  \<^item> \<open>Economics\<close> (\<open>visibility.rs\<close>, \<open>kinds.rs\<close>), \<open>Economics_Descriptor\<close> (\<open>descriptor.rs\<close>), \<open>Conformance\<close>
    (\<open>pier-conformance\<close>), \<open>Coordinators\<close> (the crates of the kinds and the control registry).
  \<^item> Accounts and addresses of the gateway: \<open>Gateway_Admission\<close>, \<open>Gateway_Quota\<close> and \<open>Gateway_Vanity\<close>
    (\<open>authz.rs\<close>), \<open>Gateway_AliasMap\<close>, \<open>Gateway_ForwardedAddr\<close>, \<open>Gateway_B64\<close>, and the records about
    messages, \<open>Gateway_Attestation\<close> and \<open>Gateway_Provenance\<close>.
  \<^item> The authentication of mail: \<open>Gateway_SpfRecord\<close> and \<open>Gateway_Spf\<close> (\<open>spf.rs\<close>), \<open>Gateway_Dmarc\<close>,
    \<open>Gateway_Dkim\<close>; names and policies: \<open>Gateway_Dns\<close> (\<open>dns.rs\<close>, \<open>idn.rs\<close>), \<open>Gateway_Mx\<close>,
    \<open>Gateway_MtaSts\<close>; sockets: \<open>Gateway_Net\<close>.
  \<^item> Inbound: \<open>Gateway_ColdGate\<close> and \<open>Gateway_Inbound\<close> (\<open>inbound.rs\<close>), \<open>Gateway_InboundTcp\<close>
    (\<open>inbound_tcp.rs\<close>), the key directory \<open>Gateway_Directory\<close> and the delivery to a node
    \<open>Gateway_Mesh\<close>. Outbound: \<open>Gateway_OutboundGuard\<close>, \<open>Gateway_Outbound\<close> (\<open>outbound.rs\<close>),
    \<open>Gateway_Render\<close>, which proves what a receiver makes of a rendered message, and the SMTP client,
    \<open>Gateway_DialAddr\<close> and \<open>Gateway_OutboundTcp\<close> (\<open>outbound_tcp.rs\<close>).
  \<^item> Hosting: \<open>Gateway_MultiDomain\<close> (\<open>multidomain.rs\<close>), \<open>Gateway_Personal\<close> (\<open>personal.rs\<close>: the
    configuration and the start of the daemon). Legacy clients: \<open>Gateway_LegacyNet\<close> (\<open>legacy_net.rs\<close>),
    \<open>Gateway_Submission\<close> (\<open>smtp_submission.rs\<close>, \<open>pop3_access.rs\<close>).
  \<^item> Reachability: \<open>Reach_Sni\<close> (\<open>sni.rs\<close>), \<open>Reach_Tunnel\<close> (\<open>tunnel.rs\<close>), \<open>Reach_Ingress\<close> (\<open>auth.rs\<close>,
    \<open>ingress.rs\<close>).

  What the lemmas show. Billing: nothing is spent that was not credited, bills charge exactly the
  tariff, every receipt verifies, and a replay of any event list refines a small billing machine over
  balances and paid bills, in which usage that cannot be paid is dropped. Descriptors:
  wire forms round-trip, decoding verifies, and signatures of different kinds never coincide.
  Accounts: admission is exact and single-use, quotas and sending windows hold, and the three name
  spaces of local parts stay apart. Mail authentication: an SPF pass is published by the domain (a
  refinement of a declarative reading) within the lookup budgets, DMARC verdicts are exact, and what
  the gateway signs passes the check of the inbound side. Names: name decompression always ends,
  parsed answers lie within the packet, and on any encoding of a reply that the wire format allows (a
  relation between octets and records, with compression) the DNS resolver agrees with the in-memory
  one. Inbound: whatever a peer sends to a session, every delivery is accounted for by the commands and
  body lines of its own transaction and passed every gate with the outcomes computed then; a connection
  with STARTTLS is two runs of fresh sessions, and no delivery mixes them; a 250 reply is given exactly for an acknowledged delivery, and every reachable session is
  well formed; with a node endpoint, an accepted message is one the node answered for, from the
  configuration file on. Outbound: a send respects what its two MTA-STS lookups found (a lookup depends
  on the moment it is made, and the code makes one for TLS and one for the hosts), a governed send fails
  closed, no header can be injected, required TLS is never given up, no address of the listed inside
  ranges is dialled, and what the client writes for a message with CRLF line ends is undone by the
  inbound server. Hosting: tenants are isolated, an added recipient and a
  granted vanity name are reached, relays are metered exactly, an accepted configuration has no
  unknown key, and no legacy surface starts without TLS and allowed accounts. Legacy clients: no byte
  sent before a handshake is taken for secured, every spooled submission of a run keeps its file, the
  files of earlier runs are overwritten only under equal clock, number and class, and the
  answers to the client do not depend on the hand-off. Reachability: a client is forwarded only to the
  box that proved its key for that name, and a box that follows the protocol is reached after any
  history of the adapter. Concurrency: the connection limiter bounds the connections under every
  interleaving.

  Interfaces are locales: \<open>invariant_machine\<close> (state machines with an invariant, interpreted for the
  ledgers, guards and sessions), \<open>mx_resolver\<close> (interpreted for the in-memory and the DNS resolver),
  and those of the components they name. Loops without a structural measure have termination proofs
  (the DNS name cursor by the remaining jumps and bytes, the connection loops by the one upgrade and
  the bytes left to read, the UTF-8 decoder and the reply reader by the input left); the minting loop
  of aliases takes the stream of random draws as a list and returns none when it runs out, and a
  lemma shows that one fresh draw is enough.

  Parameters. Clocks, random sources, digests and signatures, the mesh envelope and CBOR encodings of
  \<open>kotva-core\<close>, header encoders and address parsers of \<open>kotva-mail\<close>, the public suffix list and IDNA
  conversion are arguments of the definitions that use them; what a property needs of them is a named
  hypothesis with a concrete witness. A socket is the list of what its reads return; writes succeed
  unless a definition says otherwise. White space in \<open>trim\<close> is ASCII white space.

  Not modelled. Accept loops, threads and asynchronous servers, TLS and HTTP libraries, process
  management, terminal output, and crates outside the repository (\<open>kotva-core\<close>, \<open>kotva-mail\<close>,
  \<open>rustls\<close>, \<open>axum\<close> and others): they are I/O or code that is not in the sources. The IMAP driver reads
  its commands with a function of \<open>kotva-mail\<close>. The administration service (\<open>pier-admin\<close>, \<open>admin.rs\<close>),
  the command line (\<open>pier-cli\<close>), the relay server and the media relay adapters are left out: mostly HTTP
  handlers, process control and configuration files over the parts above or over other programs.
\<close>

section \<open>Domain separation\<close>

text \<open>
  Every signature in the system is made over a domain tag followed by the signed body. The tags of
  the repository, and the message each of them opens.
\<close>

definition signing_tags :: "bytes list" where
  "signing_tags = [DESCRIPTOR_DS, TARIFF_DS, USAGE_RECEIPT_DS, ATTESTATION_DS, GATEWAY_ATTEST_DS, ADMISSION_DS]"

lemma signing_tags_distinct: "distinct signing_tags"
  by (simp add: signing_tags_def DESCRIPTOR_DS_def TARIFF_DS_def USAGE_RECEIPT_DS_def ATTESTATION_DS_def
      GATEWAY_ATTEST_DS_def ADMISSION_DS_def ascii_def)

text \<open>A tag is text without a zero byte, closed by one: no tag is a proper prefix of another.\<close>

definition tag_ok :: "bytes \<Rightarrow> bool" where
  "tag_ok t \<longleftrightarrow> t \<noteq> [] \<and> last t = 0 \<and> 0 \<notin> set (butlast t)"

lemma tag_split: "tag_ok t \<Longrightarrow> butlast t @ [0] = t"
  unfolding tag_ok_def by (metis append_butlast_last_id)

lemma signing_tags_ok: "list_all tag_ok signing_tags"
  by (simp add: signing_tags_def tag_ok_def DESCRIPTOR_DS_def TARIFF_DS_def USAGE_RECEIPT_DS_def
      ATTESTATION_DS_def GATEWAY_ATTEST_DS_def ADMISSION_DS_def ascii_def)

lemma terminated_prefix_unique:
  assumes "xs @ [z] @ m = ys @ [z] @ n" "z \<notin> set xs" "z \<notin> set ys"
  shows "xs = ys"
  using assms
proof (induction xs arbitrary: ys)
  case Nil
  then show ?case by (cases ys) auto
next
  case (Cons x xs)
  then show ?case by (cases ys) auto
qed

text \<open>
  Signatures of one kind are never signatures of another: for two different domain tags of the
  system and any two bodies, the tagged messages differ, so a signature over a descriptor, a tariff,
  a usage receipt, an attestation, a bridge attestation or an admission challenge can never be
  presented as one over a message of another kind.
\<close>

lemma domain_tags_separate:
  assumes "t1 \<in> set signing_tags" and "t2 \<in> set signing_tags" and "t1 @ m1 = t2 @ m2"
  shows "t1 = t2 \<and> m1 = m2"
proof -
  have ok: "tag_ok t1" "tag_ok t2" using assms(1,2) signing_tags_ok by (auto simp: list_all_iff)
  note t = tag_split [OF ok(1)] tag_split [OF ok(2)]
  have "(butlast t1 @ [0]) @ m1 = (butlast t2 @ [0]) @ m2" unfolding t by (rule assms(3))
  then have "butlast t1 = butlast t2"
    using terminated_prefix_unique [of "butlast t1" 0 m1 "butlast t2" m2] ok by (simp add: tag_ok_def)
  then have "t1 = t2" using t by metis
  with assms(3) show ?thesis by simp
qed

lemma domain_tags_separate_witness: "TARIFF_DS @ [1] \<noteq> ADMISSION_DS @ [2]"
proof
  assume eq: "TARIFF_DS @ [1] = ADMISSION_DS @ [2]"
  have "TARIFF_DS \<in> set signing_tags" "ADMISSION_DS \<in> set signing_tags"
    by (simp_all add: signing_tags_def)
  then have "TARIFF_DS = ADMISSION_DS" using domain_tags_separate eq by blast
  then show False by (simp add: TARIFF_DS_def ADMISSION_DS_def ascii_def)
qed

section \<open>Mail authentication\<close>

text \<open>
  (C33) Mail that passes DMARC without a DKIM signature comes from an address its domain published:
  when the gateway judges a transaction by the SPF outcome it computed for it, and the message has
  no verified signature, a DMARC pass means that the envelope domain authorizes the client address
  in the declarative reading of SPF and belongs to the organization of the header domain.
\<close>

theorem dmarc_pass_spf_authorized:
  fixes dkim :: "'de DkimVerdict"
  assumes outcome: "o_spf = spf_evaluate R ip mail_from helo"
    and pass: "dmarc_evaluate psl resolver hd_dom (so_domain o_spf) (Some (so_result o_spf)) dkim = DmarcPass"
    and unsigned: "\<And>d s. dkim \<noteq> DkimPass d s"
  shows "authorizes R ip (so_domain o_spf) \<and> same_org psl (so_domain o_spf) hd_dom"
proof -
  have "so_result o_spf = SpfPass \<and> domains_aligned psl (so_domain o_spf) hd_dom strict"
    if "discover psl resolver hd_dom = DFound r sub" and "strict = dr_spf_strict r" for r sub strict
    using pass unsigned that by (cases dkim) (auto simp: dmarc_evaluate_def Let_def split: if_splits)
  moreover have "\<exists>r sub. discover psl resolver hd_dom = DFound r sub"
    using pass by (cases "discover psl resolver hd_dom") (auto simp: dmarc_evaluate_def)
  ultimately have "so_result o_spf = SpfPass" and "same_org psl (so_domain o_spf) hd_dom"
    using domains_aligned_same_org by blast+
  then show ?thesis using spf_evaluate_authorized unfolding outcome by blast
qed

text \<open>
  A client whose SPF record at \<open>a.org\<close> authorizes it, and mail whose header says \<open>a.org\<close>, without a
  signature: SPF passes, DMARC passes, and what the pass means holds.
\<close>

theorem dmarc_pass_spf_authorized_witness:
  "so_result (spf_evaluate sample_resolver (V4 0x0A010203) ''bob@a.org'' None) = SpfPass
   \<and> so_domain (spf_evaluate sample_resolver (V4 0x0A010203) ''bob@a.org'' None) = ''a.org''
   \<and> dmarc_evaluate (\<lambda>_. None) sample_dmarc ''a.org'' ''a.org'' (Some SpfPass) (NoSignature :: unit DkimVerdict) = DmarcPass
   \<and> authorizes sample_resolver (V4 0x0A010203) ''a.org'' \<and> same_org (\<lambda>_. None) ''a.org'' ''a.org''"
proof -
  have spf: "spf_evaluate sample_resolver (V4 0x0A010203) ''bob@a.org'' None = \<lparr> so_result = SpfPass, so_domain = ''a.org'' \<rparr>"
    by (rule sample_spf_evaluate)
  have d: "dmarc_evaluate (\<lambda>_. None) sample_dmarc ''a.org'' ''a.org'' (Some SpfPass) (NoSignature :: unit DkimVerdict) = DmarcPass"
    by (simp add: dmarc_evaluate_def sample_discover domains_aligned_refl)
  show ?thesis
    using dmarc_pass_spf_authorized [of "spf_evaluate sample_resolver (V4 0x0A010203) ''bob@a.org'' None"
        sample_resolver "V4 0x0A010203" "''bob@a.org''" None "\<lambda>_. None" sample_dmarc "''a.org''"
        "NoSignature :: unit DkimVerdict"]
    by (simp add: spf d)
qed

end
